(* ===== verification/Prelude.thy ===== *)
theory Prelude
  imports Complex_Main "HOL-Library.Word"
begin

text \<open>
  Shared ground of the development: the effects of the Python code as a state and exception
  monad, the values that travel through untyped dictionaries, Python's string operations on
  ASCII text, decimal and hexadecimal numerals, and a few facts on maps and lists.

  \<^item> A coroutine or method with effects is a \<open>prog\<close>: it takes the state and returns either
    the exception that escaped it or its value, with the state it left behind.
    \<open>pbind\<close> is sequencing, \<open>pcatch\<close> is \<open>try/except\<close> and \<open>pfinally\<close> is
    \<open>try/finally\<close> (and the exit of \<open>async with\<close>): an exception raised by the cleanup
    replaces the outcome of the body, as in Python.
  \<^item> Times are seconds as rationals (every finite float is one); rounding of float arithmetic
    is not modelled.
  \<^item> Strings are lists of characters and stand for ASCII text.
\<close>

section \<open>Collections of facts\<close>

named_theorems prog_simps \<open>running the combinators of the effect monad\<close>
named_theorems ascii_simps \<open>character classes and case conversion\<close>

section \<open>Effects\<close>

type_synonym ('s, 'e, 'a) prog = "'s \<Rightarrow> ('e + 'a) \<times> 's"
type_synonym seconds = rat

definition pret :: "'a \<Rightarrow> ('s, 'e, 'a) prog" where
  "pret x = (\<lambda>s. (Inr x, s))"

definition praise :: "'e \<Rightarrow> ('s, 'e, 'a) prog" where
  "praise e = (\<lambda>s. (Inl e, s))"

definition pbind :: "('s, 'e, 'a) prog \<Rightarrow> ('a \<Rightarrow> ('s, 'e, 'b) prog) \<Rightarrow> ('s, 'e, 'b) prog" where
  "pbind m f = (\<lambda>s. case m s of (Inl e, s') \<Rightarrow> (Inl e, s') | (Inr x, s') \<Rightarrow> f x s')"

definition pthen :: "('s, 'e, 'a) prog \<Rightarrow> ('s, 'e, 'b) prog \<Rightarrow> ('s, 'e, 'b) prog" where
  "pthen m n = pbind m (\<lambda>_. n)"

definition pcatch :: "('s, 'e, 'a) prog \<Rightarrow> ('e \<Rightarrow> ('s, 'e, 'a) prog) \<Rightarrow> ('s, 'e, 'a) prog" where
  "pcatch m h = (\<lambda>s. case m s of (Inl e, s') \<Rightarrow> h e s' | (Inr x, s') \<Rightarrow> (Inr x, s'))"

definition pfinally :: "('s, 'e, 'a) prog \<Rightarrow> ('e + 'a \<Rightarrow> ('s, 'e, unit) prog) \<Rightarrow> ('s, 'e, 'a) prog" where
  "pfinally m fin = (\<lambda>s. case m s of (r, s') \<Rightarrow>
     (case fin r s' of (Inl e, s'') \<Rightarrow> (Inl e, s'') | (Inr _, s'') \<Rightarrow> (r, s'')))"

definition plift :: "'e + 'a \<Rightarrow> ('s, 'e, 'a) prog" where
  "plift r = (\<lambda>s. (r, s))"

lemma pret_run [prog_simps, simp]: "pret x s = (Inr x, s)"
  by (simp add: pret_def)

lemma praise_run [prog_simps, simp]: "praise e s = (Inl e, s)"
  by (simp add: praise_def)

lemma plift_run [prog_simps, simp]: "plift r s = (r, s)"
  by (simp add: plift_def)

lemma pbind_Inr [prog_simps]: "m s = (Inr x, s') \<Longrightarrow> pbind m f s = f x s'"
  by (simp add: pbind_def)

lemma pbind_Inl [prog_simps]: "m s = (Inl e, s') \<Longrightarrow> pbind m f s = (Inl e, s')"
  by (simp add: pbind_def)

lemma pbind_ret [simp]: "pbind (pret x) f = f x"
  by (rule ext) (simp add: pbind_def)

lemma pbind_raise [simp]: "pbind (praise e) f = praise e"
  by (rule ext) (simp add: pbind_def)

lemma pbind_ret_right [simp]: "pbind m pret = m"
  by (rule ext) (simp add: pbind_def split: prod.splits sum.splits)

lemma pbind_assoc: "pbind (pbind m f) g = pbind m (\<lambda>x. pbind (f x) g)"
  by (rule ext) (simp add: pbind_def split: prod.splits sum.splits)

lemma pcatch_Inr [prog_simps]: "m s = (Inr x, s') \<Longrightarrow> pcatch m h s = (Inr x, s')"
  by (simp add: pcatch_def)

lemma pcatch_Inl [prog_simps]: "m s = (Inl e, s') \<Longrightarrow> pcatch m h s = h e s'"
  by (simp add: pcatch_def)

text \<open>Elimination: what a run of a composite program says of its parts.\<close>

lemma pbindE:
  assumes "pbind m f s = (r, t)"
  obtains (Raised) e where "m s = (Inl e, t)" "r = Inl e"
        | (Continued) x u where "m s = (Inr x, u)" "f x u = (r, t)"
  using assms by (auto simp: pbind_def split: prod.splits sum.splits)

lemma pthenE:
  assumes "pthen m n s = (r, t)"
  obtains (Raised) e where "m s = (Inl e, t)" "r = Inl e"
        | (Continued) x u where "m s = (Inr x, u)" "n u = (r, t)"
  using assms by (auto simp: pthen_def elim: pbindE)

lemma pcatchE:
  assumes "pcatch m h s = (r, t)"
  obtains (Returned) x where "m s = (Inr x, t)" "r = Inr x"
        | (Handled) e u where "m s = (Inl e, u)" "h e u = (r, t)"
  using assms by (auto simp: pcatch_def split: prod.splits sum.splits)

lemma pfinallyE:
  assumes "pfinally m fin s = (r, t)"
  obtains (Clean) b u where "m s = (r, u)" "fin r u = (Inr b, t)"
        | (Replaced) b u e where "m s = (b, u)" "fin b u = (Inl e, t)" "r = Inl e"
  using assms by (auto simp: pfinally_def split: prod.splits sum.splits)

text \<open>
  Preservation of a state predicate or of an observation through the combinators: \<open>keeps R m\<close>
  says that every run of \<open>m\<close>, returning or raising, relates its states by \<open>R\<close>.
\<close>

definition keeps :: "('s \<Rightarrow> 's \<Rightarrow> bool) \<Rightarrow> ('s, 'e, 'a) prog \<Rightarrow> bool" where
  "keeps R m \<longleftrightarrow> (\<forall>s. R s (snd (m s)))"

lemma keepsI: "(\<And>s r t. m s = (r, t) \<Longrightarrow> R s t) \<Longrightarrow> keeps R m"
  by (auto simp: keeps_def) (metis prod.exhaust_sel)

lemma keepsD: "keeps R m \<Longrightarrow> m s = (r, t) \<Longrightarrow> R s t"
  by (metis keeps_def snd_conv)

lemma keeps_ret [simp, intro]: "reflp R \<Longrightarrow> keeps R (pret x)"
  by (simp add: keeps_def reflpD)

lemma keeps_raise [simp, intro]: "reflp R \<Longrightarrow> keeps R (praise e)"
  by (simp add: keeps_def reflpD)

lemma keeps_lift [simp, intro]: "reflp R \<Longrightarrow> keeps R (plift r)"
  by (simp add: keeps_def reflpD)

lemma keeps_bind [intro]:
  "transp R \<Longrightarrow> keeps R m \<Longrightarrow> (\<And>x. keeps R (f x)) \<Longrightarrow> keeps R (pbind m f)"
  by (rule keepsI) (auto elim!: pbindE dest: keepsD intro: transpD)

lemma keeps_then [intro]:
  "transp R \<Longrightarrow> keeps R m \<Longrightarrow> keeps R n \<Longrightarrow> keeps R (pthen m n)"
  by (auto simp: pthen_def)

lemma keeps_catch [intro]:
  "transp R \<Longrightarrow> keeps R m \<Longrightarrow> (\<And>e. keeps R (h e)) \<Longrightarrow> keeps R (pcatch m h)"
  by (rule keepsI) (auto elim!: pcatchE dest: keepsD intro: transpD)

lemma keeps_finally [intro]:
  "transp R \<Longrightarrow> keeps R m \<Longrightarrow> (\<And>r. keeps R (fin r)) \<Longrightarrow> keeps R (pfinally m fin)"
  by (rule keepsI) (auto elim!: pfinallyE dest: keepsD intro: transpD)

lemma keeps_if [intro]: "keeps R m \<Longrightarrow> keeps R n \<Longrightarrow> keeps R (if b then m else n)"
  by simp

section \<open>Dictionaries\<close>

text \<open>\<open>d[k] = v\<close> on an insertion-ordered dictionary.\<close>

definition dict_set :: "'k \<Rightarrow> 'v \<Rightarrow> ('k \<times> 'v) list \<Rightarrow> ('k \<times> 'v) list" where
  "dict_set k v kvs =
     (if k \<in> fst ` set kvs then map (\<lambda>(k', v'). if k' = k then (k', v) else (k', v')) kvs
      else kvs @ [(k, v)])"

lemma length_dict_set: "length (dict_set k v kvs) \<le> length kvs + 1"
  by (simp add: dict_set_def)

lemma map_of_replace:
  "map_of (map (\<lambda>(k', v'). if k' = k then (k', v) else (k', v')) kvs) x
   = (if x = k \<and> map_of kvs k \<noteq> None then Some v else map_of kvs x)"
  by (induction kvs) auto

lemma map_of_dict_set [simp]: "map_of (dict_set k v kvs) = (map_of kvs)(k \<mapsto> v)"
proof (cases "map_of kvs k")
  case None
  then have "dict_set k v kvs = kvs @ [(k, v)]" by (simp add: dict_set_def map_of_eq_None_iff)
  with None show ?thesis by (auto simp: map_add_def fun_eq_iff split: option.split)
next
  case (Some y)
  then have "k \<in> fst ` set kvs" by (metis map_of_eq_None_iff option.distinct(1))
  with Some show ?thesis by (auto simp: dict_set_def map_of_replace fun_eq_iff)
qed

lemma dict_set_new: "k \<notin> fst ` set kvs \<Longrightarrow> dict_set k v kvs = kvs @ [(k, v)]"
  by (simp add: dict_set_def)

end
