(* ===== verification/Py_Text.thy ===== *)
theory Py_Text
  imports Prelude "HOL-Library.Sublist"
begin

text \<open>
  Python's string operations that the program uses, on ASCII text: case conversion and the
  classification methods (\<open>str.upper\<close>, \<open>isalpha\<close>, \<open>isupper\<close>), \<open>str.strip\<close>, and the decimal
  and hexadecimal numerals that \<open>str(int)\<close> and \<open>"%x"\<close> print, with their inverses.
\<close>

section \<open>Characters\<close>

definition code :: "char \<Rightarrow> nat" where
  "code c = of_char c"

definition is_upper :: "char \<Rightarrow> bool" where
  "is_upper c \<longleftrightarrow> 65 \<le> code c \<and> code c \<le> 90"

definition is_lower :: "char \<Rightarrow> bool" where
  "is_lower c \<longleftrightarrow> 97 \<le> code c \<and> code c \<le> 122"

definition is_alpha :: "char \<Rightarrow> bool" where
  "is_alpha c \<longleftrightarrow> is_upper c \<or> is_lower c"

definition is_digit :: "char \<Rightarrow> bool" where
  "is_digit c \<longleftrightarrow> 48 \<le> code c \<and> code c \<le> 57"

definition is_alnum :: "char \<Rightarrow> bool" where
  "is_alnum c \<longleftrightarrow> is_alpha c \<or> is_digit c"

definition is_space :: "char \<Rightarrow> bool" where
  "is_space c \<longleftrightarrow> 9 \<le> code c \<and> code c \<le> 13 \<or> 28 \<le> code c \<and> code c \<le> 32"

definition to_upper :: "char \<Rightarrow> char" where
  "to_upper c = (if is_lower c then char_of (code c - 32) else c)"

definition to_lower :: "char \<Rightarrow> char" where
  "to_lower c = (if is_upper c then char_of (code c + 32) else c)"

lemmas char_class_defs =
  code_def is_upper_def is_lower_def is_alpha_def is_digit_def is_alnum_def is_space_def
  to_upper_def to_lower_def

lemma code_char_of [simp]: "n < 256 \<Longrightarrow> code (char_of n) = n"
  by (simp add: code_def)

lemma char_of_code [simp]: "char_of (code c) = c"
  by (simp add: code_def)

lemma code_less: "code c < 256"
  by (simp add: code_def)

lemma code_inject [simp]: "code c = code d \<longleftrightarrow> c = d"
  by (simp add: code_def)

lemma to_upper_not_lower [simp]: "\<not> is_lower (to_upper c)"
proof (cases "is_lower c")
  case True
  then have "code c - 32 < 256" "code c - 32 \<le> 90" by (auto simp: is_lower_def)
  with True show ?thesis by (simp add: to_upper_def is_lower_def)
qed (simp add: to_upper_def)

lemma to_upper_idem [simp]: "to_upper (to_upper c) = to_upper c"
  by (simp add: to_upper_def [of "to_upper c"])

lemma is_alpha_to_upper [simp]: "is_alpha (to_upper c) = is_alpha c"
  by (auto simp: to_upper_def is_alpha_def is_lower_def is_upper_def)

section \<open>Strings\<close>

definition py_upper :: "string \<Rightarrow> string" where
  "py_upper s = map to_upper s"

definition py_lower :: "string \<Rightarrow> string" where
  "py_lower s = map to_lower s"

text \<open>\<open>str.isalpha\<close>: at least one character, all of them letters.\<close>

definition py_isalpha :: "string \<Rightarrow> bool" where
  "py_isalpha s \<longleftrightarrow> s \<noteq> [] \<and> list_all is_alpha s"

text \<open>\<open>str.isupper\<close>: at least one cased character, none of them lower case.\<close>

definition py_isupper :: "string \<Rightarrow> bool" where
  "py_isupper s \<longleftrightarrow> list_ex is_upper s \<and> \<not> list_ex is_lower s"

definition py_strip :: "string \<Rightarrow> string" where
  "py_strip s = rev (dropWhile is_space (rev (dropWhile is_space s)))"

lemma length_py_upper [simp]: "length (py_upper s) = length s"
  by (simp add: py_upper_def)

lemma py_upper_idem [simp]: "py_upper (py_upper s) = py_upper s"
  by (simp add: py_upper_def)

lemma py_isalpha_upper [simp]: "py_isalpha (py_upper s) = py_isalpha s"
  by (simp add: py_isalpha_def py_upper_def list.pred_map comp_def)

lemma py_isupper_upper: "py_isalpha s \<Longrightarrow> py_isupper (py_upper s)"
proof -
  assume "py_isalpha s"
  then obtain c cs where s: "s = c # cs" and "is_alpha c"
    by (cases s) (auto simp: py_isalpha_def)
  then have "is_alpha (to_upper c)" by simp
  then have "is_upper (to_upper c)" by (simp add: is_alpha_def)
  then show ?thesis
    by (simp add: s py_isupper_def py_upper_def list_ex_iff)
qed

lemma py_isalpha_isupper_iff:
  "py_isalpha s \<and> py_isupper s \<longleftrightarrow> s \<noteq> [] \<and> list_all is_upper s"
  by (cases s) (auto simp: py_isalpha_def py_isupper_def list_all_iff list_ex_iff is_alpha_def
      is_upper_def is_lower_def)

lemma hd_dropWhile_space: "dropWhile P xs \<noteq> [] \<Longrightarrow> \<not> P (hd (dropWhile P xs))"
  by (rule hd_dropWhile)

lemma last_dropWhile_eq: "dropWhile P xs \<noteq> [] \<Longrightarrow> last (dropWhile P xs) = last xs"
  by (induction xs) auto

text \<open>A stripped string has no white space at either end, and stripping it again changes nothing.\<close>

lemma py_strip_ends:
  assumes "py_strip s \<noteq> []"
  shows "\<not> is_space (hd (py_strip s))" "\<not> is_space (last (py_strip s))"
proof -
  let ?t = "dropWhile is_space s" and ?u = "dropWhile is_space (rev (dropWhile is_space s))"
  have u: "?u \<noteq> []" using assms by (simp add: py_strip_def)
  then have t: "?t \<noteq> []" by (metis dropWhile.simps(1) rev.simps(1))
  show "\<not> is_space (last (py_strip s))"
    using u hd_dropWhile [of is_space "rev ?t"] by (simp add: py_strip_def last_rev)
  have "last ?u = last (rev ?t)" using u by (rule last_dropWhile_eq)
  then show "\<not> is_space (hd (py_strip s))"
    using u t hd_dropWhile [of is_space s] by (simp add: py_strip_def hd_rev last_rev)
qed

lemma dropWhile_id: "xs = [] \<or> \<not> P (hd xs) \<Longrightarrow> dropWhile P xs = xs"
  by (cases xs) auto

lemma py_strip_Nil [simp]: "py_strip [] = []"
  by (simp add: py_strip_def)

lemma py_strip_idem [simp]: "py_strip (py_strip s) = py_strip s"
proof (cases "py_strip s = []")
  case True
  then show ?thesis by simp
next
  case False
  note ends = py_strip_ends [OF False]
  let ?t = "py_strip s"
  have "dropWhile is_space ?t = ?t" by (rule dropWhile_id) (use ends in simp)
  moreover have "dropWhile is_space (rev ?t) = rev ?t"
    by (rule dropWhile_id) (use ends False in \<open>simp add: hd_rev\<close>)
  ultimately show ?thesis by (simp add: py_strip_def [of ?t])
qed

section \<open>Decimal numerals\<close>

definition digit_char :: "nat \<Rightarrow> char" where
  "digit_char d = char_of (48 + d)"

fun show_nat :: "nat \<Rightarrow> string" where
  "show_nat n = (if n < 10 then [digit_char n] else show_nat (n div 10) @ [digit_char (n mod 10)])"

declare show_nat.simps [simp del]

definition show_int :: "int \<Rightarrow> string" where
  "show_int i = (if i < 0 then CHR ''-'' # show_nat (nat (- i)) else show_nat (nat i))"

definition digit_val :: "char \<Rightarrow> nat" where
  "digit_val c = code c - 48"

definition read_digits :: "string \<Rightarrow> nat" where
  "read_digits s = foldl (\<lambda>n c. n * 10 + digit_val c) 0 s"

lemma digit_val_char [simp]: "d < 10 \<Longrightarrow> digit_val (digit_char d) = d"
  by (simp add: digit_val_def digit_char_def)

lemma is_digit_char [simp]: "d < 10 \<Longrightarrow> is_digit (digit_char d)"
  by (simp add: is_digit_def digit_char_def)

lemma show_nat_digits: "list_all is_digit (show_nat n)"
proof (induction n rule: show_nat.induct)
  case (1 n)
  then show ?case by (subst show_nat.simps) simp
qed

lemma show_nat_nonempty [simp]: "show_nat n \<noteq> []"
  by (subst show_nat.simps) simp

lemma read_show_nat [simp]: "read_digits (show_nat n) = n"
proof (induction n rule: show_nat.induct)
  case (1 n)
  show ?case
  proof (cases "n < 10")
    case True
    then show ?thesis by (simp add: show_nat.simps [of n] read_digits_def)
  next
    case False
    with "1.IH" have "foldl (\<lambda>n c. n * 10 + digit_val c) 0 (show_nat (n div 10)) = n div 10"
      by (simp add: read_digits_def)
    with False show ?thesis by (simp add: show_nat.simps [of n] read_digits_def)
  qed
qed

lemma show_nat_inject [simp]: "show_nat m = show_nat n \<longleftrightarrow> m = n"
  by (metis read_show_nat)

lemma length_show_nat_pos: "0 < length (show_nat n)"
  by simp

lemma length_show_nat_less: "n < 10 ^ k \<Longrightarrow> 0 < k \<Longrightarrow> length (show_nat n) \<le> k"
proof (induction n arbitrary: k rule: show_nat.induct)
  case (1 n)
  show ?case
  proof (cases "n < 10")
    case True
    with "1.prems" show ?thesis by (simp add: show_nat.simps [of n])
  next
    case False
    from "1.prems" False obtain j where k: "k = Suc j" and j: "0 < j"
      by (cases k; cases "k - 1") auto
    from "1.prems" k have "n div 10 < 10 ^ j" by (simp add: less_mult_imp_div_less mult.commute)
    from "1.IH" [OF False this j] False k show ?thesis by (simp add: show_nat.simps [of n])
  qed
qed

text \<open>\<open>w in s\<close> on strings.\<close>

fun occurs_in :: "string \<Rightarrow> string \<Rightarrow> bool" where
  "occurs_in w [] \<longleftrightarrow> w = []"
| "occurs_in w (c # s) \<longleftrightarrow> take (length w) (c # s) = w \<or> occurs_in w s"

end
