(* ===== verification/Errors.thy ===== *)
theory Errors
  imports Py_Text
begin

text \<open>
  The exceptions of the program and the untyped values they carry.

  \<^item> \<open>domain/errors.py\<close>: \<open>DomainErrorCode\<close> and \<open>DomainError\<close>, a stable code with a context;
  \<^item> \<open>application/errors.py\<close>: \<open>ApplicationErrorCode\<close>, the message table, and the class
    hierarchy under \<open>ApplicationError\<close>, whose class decides the status code.

  \<open>exn\<close> is what can travel up the stack: one of the two, any other exception by its class name
  (a driver error, \<open>decimal.Overflow\<close>), or \<open>asyncio.CancelledError\<close>, which is kept apart because
  \<open>except Exception\<close> does not catch it.
\<close>

section \<open>Untyped Python values\<close>

datatype nonfinite = INFINITE | NEG_INFINITE | NOT_A_NUMBER

datatype pyval =
    VNone
  | VBool bool
  | VInt int
  | VNum rat
  | VSpecial nonfinite
  | VStr string
  | VList "pyval list"
  | VTuple "pyval list"
  | VDict "(string \<times> pyval) list"

text \<open>\<open>bool(value)\<close> for dictionaries: \<open>context or {}\<close> and \<open>details or {}\<close>.\<close>

definition dict_or_empty :: "(string \<times> pyval) list option \<Rightarrow> (string \<times> pyval) list" where
  "dict_or_empty d = (case d of None \<Rightarrow> [] | Some kvs \<Rightarrow> kvs)"

section \<open>Domain errors\<close>

datatype domain_error_code =
    BASE_CLASS_INSTANTIATION
  | IDENTITY_IS_IMMUTABLE
  | EMPTY_VALUE_OBJECT
  | CURRENCY_CODE_INVALID
  | MONEY_CURRENCY_MISMATCH
  | MONEY_AMOUNT_NOT_POSITIVE
  | MONEY_SCALE_EXCEEDED
  | MONEY_AMOUNT_NOT_FINITE
  | MONEY_AMOUNT_OUT_OF_RANGE
  | WALLET_INSUFFICIENT_FUNDS
  | WALLET_CLOSED
  | WALLET_NOT_EMPTY
  | WALLET_BALANCE_NEGATIVE

fun domain_code_value :: "domain_error_code \<Rightarrow> string" where
  "domain_code_value BASE_CLASS_INSTANTIATION = ''BASE_CLASS_INSTANTIATION''"
| "domain_code_value IDENTITY_IS_IMMUTABLE = ''IDENTITY_IS_IMMUTABLE''"
| "domain_code_value EMPTY_VALUE_OBJECT = ''EMPTY_VALUE_OBJECT''"
| "domain_code_value CURRENCY_CODE_INVALID = ''CURRENCY_CODE_INVALID''"
| "domain_code_value MONEY_CURRENCY_MISMATCH = ''MONEY_CURRENCY_MISMATCH''"
| "domain_code_value MONEY_AMOUNT_NOT_POSITIVE = ''MONEY_AMOUNT_NOT_POSITIVE''"
| "domain_code_value MONEY_SCALE_EXCEEDED = ''MONEY_SCALE_EXCEEDED''"
| "domain_code_value MONEY_AMOUNT_NOT_FINITE = ''MONEY_AMOUNT_NOT_FINITE''"
| "domain_code_value MONEY_AMOUNT_OUT_OF_RANGE = ''MONEY_AMOUNT_OUT_OF_RANGE''"
| "domain_code_value WALLET_INSUFFICIENT_FUNDS = ''WALLET_INSUFFICIENT_FUNDS''"
| "domain_code_value WALLET_CLOSED = ''WALLET_CLOSED''"
| "domain_code_value WALLET_NOT_EMPTY = ''WALLET_NOT_EMPTY''"
| "domain_code_value WALLET_BALANCE_NEGATIVE = ''WALLET_BALANCE_NEGATIVE''"

record domain_error =
  de_code :: domain_error_code
  de_context :: "(string \<times> pyval) list"

definition domain_error_new ::
  "domain_error_code \<Rightarrow> (string \<times> pyval) list option \<Rightarrow> domain_error" where
  "domain_error_new c context = \<lparr>de_code = c, de_context = dict_or_empty context\<rparr>"

section \<open>Application errors\<close>

datatype app_error_code =
    VALIDATION_FAILED
  | UNAUTHENTICATED
  | WALLET_NOT_FOUND
  | WALLET_VERSION_CONFLICT
  | WALLET_BUSY
  | IDEMPOTENCY_KEY_REUSED
  | MOVEMENT_REFUSED
  | MOVEMENT_IN_PROGRESS
  | RATE_LIMITED
  | DEPENDENCY_UNAVAILABLE
  | INTERNAL_ERROR

fun app_code_value :: "app_error_code \<Rightarrow> string" where
  "app_code_value VALIDATION_FAILED = ''VALIDATION_FAILED''"
| "app_code_value UNAUTHENTICATED = ''UNAUTHENTICATED''"
| "app_code_value WALLET_NOT_FOUND = ''WALLET_NOT_FOUND''"
| "app_code_value WALLET_VERSION_CONFLICT = ''WALLET_VERSION_CONFLICT''"
| "app_code_value WALLET_BUSY = ''WALLET_BUSY''"
| "app_code_value IDEMPOTENCY_KEY_REUSED = ''IDEMPOTENCY_KEY_REUSED''"
| "app_code_value MOVEMENT_REFUSED = ''MOVEMENT_REFUSED''"
| "app_code_value MOVEMENT_IN_PROGRESS = ''MOVEMENT_IN_PROGRESS''"
| "app_code_value RATE_LIMITED = ''RATE_LIMITED''"
| "app_code_value DEPENDENCY_UNAVAILABLE = ''DEPENDENCY_UNAVAILABLE''"
| "app_code_value INTERNAL_ERROR = ''INTERNAL_ERROR''"

text \<open>The message table has an entry for every code, so its \<open>get\<close> never falls back.\<close>

fun application_error_message :: "app_error_code \<Rightarrow> string" where
  "application_error_message VALIDATION_FAILED = ''Request failed validation''"
| "application_error_message UNAUTHENTICATED = ''Authentication required''"
| "application_error_message WALLET_NOT_FOUND = ''Wallet not found''"
| "application_error_message WALLET_VERSION_CONFLICT = ''Wallet was modified concurrently''"
| "application_error_message WALLET_BUSY = ''Wallet is being modified, retry shortly''"
| "application_error_message IDEMPOTENCY_KEY_REUSED =
     ''Idempotency key was already used with a different payload''"
| "application_error_message MOVEMENT_REFUSED = ''The movement was refused by risk assessment''"
| "application_error_message MOVEMENT_IN_PROGRESS =
     ''A movement with this idempotency key is still running, retry shortly''"
| "application_error_message RATE_LIMITED = ''Too many requests''"
| "application_error_message DEPENDENCY_UNAVAILABLE =
     ''A required dependency is unavailable, retry shortly''"
| "application_error_message INTERNAL_ERROR = ''Internal server error''"

datatype app_error_class =
    ApplicationError
  | UnauthenticatedError
  | ValidationError
  | NotFoundError
  | ForbiddenError
  | ConflictError
  | RateLimitedError
  | DependencyUnavailableError
  | InternalError

fun default_status_code :: "app_error_class \<Rightarrow> int" where
  "default_status_code ApplicationError = 422"
| "default_status_code UnauthenticatedError = 401"
| "default_status_code ValidationError = 422"
| "default_status_code NotFoundError = 404"
| "default_status_code ForbiddenError = 403"
| "default_status_code ConflictError = 409"
| "default_status_code RateLimitedError = 429"
| "default_status_code DependencyUnavailableError = 503"
| "default_status_code InternalError = 500"

record app_error =
  ae_class :: app_error_class
  ae_code :: app_error_code
  ae_message :: string
  ae_details :: "(string \<times> pyval) list"
  ae_status_code :: int

definition app_error_new ::
  "app_error_class \<Rightarrow> app_error_code \<Rightarrow> (string \<times> pyval) list option \<Rightarrow> int option
     \<Rightarrow> app_error" where
  "app_error_new cls c details status_code =
     \<lparr>ae_class = cls,
      ae_code = c,
      ae_message = application_error_message c,
      ae_details = dict_or_empty details,
      ae_status_code = (case status_code of None \<Rightarrow> default_status_code cls | Some n \<Rightarrow> n)\<rparr>"

section \<open>Exceptions in flight\<close>

datatype exn =
    DomainExn domain_error
  | AppExn app_error
  | PyExn string
  | CancelledExn

definition domain_exn :: "domain_error_code \<Rightarrow> (string \<times> pyval) list \<Rightarrow> exn" where
  "domain_exn c context = DomainExn (domain_error_new c (Some context))"

definition app_exn ::
  "app_error_class \<Rightarrow> app_error_code \<Rightarrow> (string \<times> pyval) list option \<Rightarrow> exn" where
  "app_exn cls c details = AppExn (app_error_new cls c details None)"

text \<open>\<open>except DomainError\<close>, \<open>except ApplicationError\<close> and \<open>except Exception\<close>.\<close>

fun is_domain_exn :: "exn \<Rightarrow> bool" where
  "is_domain_exn (DomainExn _) = True"
| "is_domain_exn _ = False"

fun is_app_exn :: "exn \<Rightarrow> bool" where
  "is_app_exn (AppExn _) = True"
| "is_app_exn _ = False"

fun is_exception :: "exn \<Rightarrow> bool" where
  "is_exception CancelledExn = False"
| "is_exception _ = True"

text \<open>What a caller reads off an exception: its code, whichever layer it comes from.\<close>

fun exn_code :: "exn \<Rightarrow> string option" where
  "exn_code (DomainExn d) = Some (domain_code_value (de_code d))"
| "exn_code (AppExn a) = Some (app_code_value (ae_code a))"
| "exn_code _ = None"

lemma domain_exn_simps [simp]:
  "is_domain_exn (domain_exn c ctx)" "\<not> is_app_exn (domain_exn c ctx)"
  "is_exception (domain_exn c ctx)"
  "exn_code (domain_exn c ctx) = Some (domain_code_value c)"
  by (simp_all add: domain_exn_def domain_error_new_def)

lemma app_exn_simps [simp]:
  "\<not> is_domain_exn (app_exn cls k d)" "is_app_exn (app_exn cls k d)"
  "is_exception (app_exn cls k d)"
  "exn_code (app_exn cls k d) = Some (app_code_value k)"
  by (simp_all add: app_exn_def app_error_new_def)

lemma domain_exn_inject [simp]:
  "domain_exn c x = domain_exn d y \<longleftrightarrow> c = d \<and> x = y"
  by (auto simp: domain_exn_def domain_error_new_def dict_or_empty_def)

lemma app_exn_neq_domain [simp]:
  "app_exn cls k d \<noteq> domain_exn c x" "domain_exn c x \<noteq> app_exn cls k d"
  by (simp_all add: app_exn_def domain_exn_def)

lemma app_exn_status [simp]:
  "app_exn cls k d = AppExn a \<Longrightarrow> ae_status_code a = default_status_code cls"
  by (auto simp: app_exn_def app_error_new_def)

end
