(* ===== verification/Ids.thy ===== *)
theory Ids
  imports Errors
begin

text \<open>
  \<open>domain/base/identifier.py\<close> and \<open>domain/value_objects/ids.py\<close>: identifiers are distinct
  wrappers of a \<open>UUID\<close>, a 128 bit value. \<open>uuid_str\<close> is \<open>str(uuid)\<close> and \<open>uuid_parse\<close> is the
  constructor \<open>UUID(text)\<close> of the standard library, which accepts more spellings than it prints.
  The lemmas: printing is injective and fixed width, and parsing undoes it.
\<close>

type_synonym uuid = "128 word"

datatype wallet_id = WalletId (wid_value: uuid)
datatype owner_id = OwnerId (oid_value: uuid)
datatype ledger_entry_id = LedgerEntryId (eid_value: uuid)

section \<open>Hexadecimal numerals\<close>

definition hex_char :: "nat \<Rightarrow> char" where
  "hex_char d = (if d < 10 then char_of (48 + d) else char_of (87 + d))"

text \<open>The value of a hexadecimal digit, either case; \<open>None\<close> for any other character.\<close>

definition hex_val :: "char \<Rightarrow> nat option" where
  "hex_val c =
     (if 48 \<le> code c \<and> code c \<le> 57 then Some (code c - 48)
      else if 97 \<le> code c \<and> code c \<le> 102 then Some (code c - 87)
      else if 65 \<le> code c \<and> code c \<le> 70 then Some (code c - 55)
      else None)"

definition is_hex :: "char \<Rightarrow> bool" where
  "is_hex c \<longleftrightarrow> hex_val c \<noteq> None"

lemma hex_val_char [simp]: "d < 16 \<Longrightarrow> hex_val (hex_char d) = Some d"
  by (auto simp: hex_val_def hex_char_def)

lemma is_hex_char [simp]: "d < 16 \<Longrightarrow> is_hex (hex_char d)"
  by (simp add: is_hex_def)

text \<open>\<open>"%0kx" % n\<close>: the low \<open>k\<close> hexadecimal digits, most significant first.\<close>

fun hex_digits :: "nat \<Rightarrow> nat \<Rightarrow> string" where
  "hex_digits 0 n = []"
| "hex_digits (Suc k) n = hex_digits k (n div 16) @ [hex_char (n mod 16)]"

definition read_hex :: "string \<Rightarrow> nat" where
  "read_hex s = foldl (\<lambda>n c. n * 16 + (case hex_val c of None \<Rightarrow> 0 | Some d \<Rightarrow> d)) 0 s"

lemma length_hex_digits [simp]: "length (hex_digits k n) = k"
  by (induction k arbitrary: n) auto

lemma hex_digits_hex: "list_all is_hex (hex_digits k n)"
  by (induction k arbitrary: n) auto

lemma read_hex_digits: "read_hex (hex_digits k n) = n mod 16 ^ k"
proof (induction k arbitrary: n)
  case 0
  then show ?case by (simp add: read_hex_def)
next
  case (Suc k)
  then have "read_hex (hex_digits (Suc k) n) = (n div 16) mod 16 ^ k * 16 + n mod 16"
    by (simp add: read_hex_def)
  also have "\<dots> = n mod 16 ^ Suc k" by (simp add: mod_mult2_eq mult.commute)
  finally show ?case .
qed

section \<open>Printing\<close>

definition uuid_hex :: "uuid \<Rightarrow> string" where
  "uuid_hex u = hex_digits 32 (unat u)"

definition uuid_str :: "uuid \<Rightarrow> string" where
  "uuid_str u =
     (let h = uuid_hex u in
      take 8 h @ ''-'' @ take 4 (drop 8 h) @ ''-'' @ take 4 (drop 12 h) @ ''-''
        @ take 4 (drop 16 h) @ ''-'' @ drop 20 h)"

lemma length_uuid_str [simp]: "length (uuid_str u) = 36"
  by (simp add: uuid_str_def uuid_hex_def Let_def)

lemma unat_uuid_less: "unat (u :: uuid) < 16 ^ 32"
  using unsigned_less [of u, where 'a = nat] by simp

lemma read_uuid_hex [simp]: "read_hex (uuid_hex u) = unat u"
  using unat_uuid_less [of u] by (simp add: uuid_hex_def read_hex_digits)

lemma uuid_str_chars: "c \<in> set (uuid_str u) \<Longrightarrow> is_hex c \<or> c = CHR ''-''"
proof -
  assume c: "c \<in> set (uuid_str u)"
  have hex: "\<forall>c \<in> set (uuid_hex u). is_hex c"
    using hex_digits_hex [of 32 "unat u"] by (simp add: uuid_hex_def list_all_iff)
  from c have "c \<in> set (uuid_hex u) \<or> c = CHR ''-''"
    by (auto simp: uuid_str_def Let_def dest: in_set_takeD in_set_dropD)
  with hex show ?thesis by blast
qed

lemma not_hex [simp]:
  "\<not> is_hex (CHR ''u'')" "\<not> is_hex (CHR ''x'')" "\<not> is_hex (CHR ''X'')" "\<not> is_hex (CHR ''-'')"
  "\<not> is_hex (CHR ''+'')" "\<not> is_hex (CHR ''_'')" "\<not> is_hex (CHR '':'')"
  "\<not> is_hex (CHR 0x7B)" "\<not> is_hex (CHR 0x7D)"
  by (simp_all add: is_hex_def hex_val_def code_def)

lemma hex_not_space: "is_hex c \<Longrightarrow> \<not> is_space c"
  by (auto simp: is_hex_def hex_val_def is_space_def split: if_splits)

section \<open>Parsing\<close>

text \<open>\<open>str.replace\<close> with a non-empty pattern.\<close>

fun replace_all :: "string \<Rightarrow> string \<Rightarrow> string \<Rightarrow> string" where
  "replace_all old new [] = []"
| "replace_all old new (c # cs) =
     (if old \<noteq> [] \<and> prefix old (c # cs)
      then new @ replace_all old new (drop (length old - 1) cs)
      else c # replace_all old new cs)"

definition strip_chars :: "string \<Rightarrow> string \<Rightarrow> string" where
  "strip_chars cs s =
     rev (dropWhile (\<lambda>c. c \<in> set cs) (rev (dropWhile (\<lambda>c. c \<in> set cs) s)))"

text \<open>The digits of \<open>int(text, 16)\<close>: at least one, single underscores only between digits.\<close>

fun int16_digits :: "bool \<Rightarrow> string \<Rightarrow> bool" where
  "int16_digits after_digit [] = after_digit"
| "int16_digits after_digit (c # cs) =
     (if is_hex c then int16_digits True cs
      else if c = CHR ''_'' \<and> after_digit then cs \<noteq> [] \<and> is_hex (hd cs) \<and> int16_digits False cs
      else False)"

definition value_error :: exn where
  "value_error = PyExn ''ValueError''"

text \<open>\<open>int(text, 16)\<close>: surrounding white space, a sign and a \<open>0x\<close> prefix are accepted.\<close>

definition py_int16 :: "string \<Rightarrow> exn + int" where
  "py_int16 text =
     (let t = py_strip text;
          neg = prefix ''-'' t;
          t = (if prefix ''-'' t \<or> prefix ''+'' t then drop 1 t else t);
          pre = prefix ''0x'' t \<or> prefix ''0X'' t;
          t = (if pre then drop 2 t else t);
          t = (if pre \<and> prefix ''_'' t then drop 1 t else t)
      in if int16_digits False t
         then let n = int (read_hex (filter (\<lambda>c. c \<noteq> CHR ''_'') t)) in Inr (if neg then - n else n)
         else Inl value_error)"

definition uuid_parse :: "string \<Rightarrow> exn + uuid" where
  "uuid_parse text =
     (let hex = replace_all ''uuid:'' [] (replace_all ''urn:'' [] text);
          hex = replace_all ''-'' [] (strip_chars [CHR 0x7B, CHR 0x7D] hex)
      in if length hex \<noteq> 32 then Inl value_error
         else case py_int16 hex of
             Inl e \<Rightarrow> Inl e
           | Inr n \<Rightarrow> if 0 \<le> n \<and> n < 2 ^ 128 then Inr (word_of_int n) else Inl value_error)"

text \<open>A text that does not hold the first character of the pattern is left alone.\<close>

lemma replace_all_absent: "\<forall>c \<in> set s. c \<noteq> p \<Longrightarrow> replace_all (p # ps) new s = s"
  by (induction s) auto

lemma replace_all_char: "replace_all [p] [] s = filter (\<lambda>c. c \<noteq> p) s"
  by (induction s) auto

lemma dropWhile_none: "\<forall>c \<in> set s. \<not> P c \<Longrightarrow> dropWhile P s = s"
  by (cases s) auto

lemma strip_chars_none: "\<forall>c \<in> set s. c \<notin> set cs \<Longrightarrow> strip_chars cs s = s"
  by (simp add: strip_chars_def dropWhile_none)

lemma py_strip_none: "\<forall>c \<in> set s. \<not> is_space c \<Longrightarrow> py_strip s = s"
  by (simp add: py_strip_def dropWhile_none)

lemma int16_digits_hex: "list_all is_hex s \<Longrightarrow> b \<or> s \<noteq> [] \<Longrightarrow> int16_digits b s"
  by (induction s arbitrary: b) auto

lemma filter_all: "\<forall>c \<in> set s. P c \<Longrightarrow> filter P s = s"
  by simp

lemma py_int16_hex:
  assumes "list_all is_hex s" "s \<noteq> []"
  shows "py_int16 s = Inr (int (read_hex s))"
proof -
  have all: "\<forall>c \<in> set s. is_hex c" using assms(1) by (simp add: list_all_iff)
  then have strip: "py_strip s = s" by (intro py_strip_none) (auto dest: hex_not_space)
  have head: "\<not> prefix ''-'' s" "\<not> prefix ''+'' s"
    using all by (auto simp: prefix_def)
  have pre: "\<not> prefix ''0x'' s" "\<not> prefix ''0X'' s"
    using all by (auto simp: prefix_def)
  have "filter (\<lambda>c. c \<noteq> CHR ''_'') s = s" using all by (intro filter_all) auto
  with strip head pre show ?thesis
    using int16_digits_hex [OF assms(1), of False] assms(2) by (simp add: py_int16_def Let_def)
qed

lemma take_drop_join: "take n (drop k h) @ drop (n + k) h = drop k h"
  by (metis append_take_drop_id drop_drop)

lemma filter_dashes_uuid_str: "filter (\<lambda>c. c \<noteq> CHR ''-'') (uuid_str u) = uuid_hex u"
proof -
  have hex: "c \<noteq> CHR ''-''" if "c \<in> set (uuid_hex u)" for c
    using that hex_digits_hex [of 32 "unat u"] by (auto simp: uuid_hex_def list_all_iff)
  have keep: "filter (\<lambda>c. c \<noteq> CHR ''-'') xs = xs" if "set xs \<subseteq> set (uuid_hex u)" for xs
    using that hex by (intro filter_all) blast
  have sub: "set (take a (drop b (uuid_hex u))) \<subseteq> set (uuid_hex u)" for a b
    by (meson set_drop_subset set_take_subset subset_trans)
  have "filter (\<lambda>c. c \<noteq> CHR ''-'') (uuid_str u) =
      take 8 (uuid_hex u) @ take 4 (drop 8 (uuid_hex u)) @ take 4 (drop 12 (uuid_hex u))
        @ take 4 (drop 16 (uuid_hex u)) @ drop 20 (uuid_hex u)"
    using keep [OF sub] keep [OF set_take_subset] keep [OF set_drop_subset]
    by (simp add: uuid_str_def Let_def)
  also have "\<dots> = uuid_hex u"
    using take_drop_join [of 4 16 "uuid_hex u"] take_drop_join [of 4 12 "uuid_hex u"]
      take_drop_join [of 4 8 "uuid_hex u"]
    by simp
  finally show ?thesis .
qed

lemma uuid_parse_str [simp]: "uuid_parse (uuid_str u) = Inr u"
proof -
  have chars: "\<forall>c \<in> set (uuid_str u). is_hex c \<or> c = CHR ''-''" by (blast dest: uuid_str_chars)
  then have "\<forall>c \<in> set (uuid_str u). c \<noteq> CHR ''u''" by (auto dest: bspec)
  then have 1: "replace_all ''uuid:'' [] (replace_all ''urn:'' [] (uuid_str u)) = uuid_str u"
    by (simp add: replace_all_absent)
  from chars have 2: "strip_chars [CHR 0x7B, CHR 0x7D] (uuid_str u) = uuid_str u"
    by (intro strip_chars_none) (auto dest: bspec)
  have len: "length (uuid_hex u) = 32" by (simp add: uuid_hex_def)
  have "list_all is_hex (uuid_hex u)" by (simp add: uuid_hex_def hex_digits_hex)
  then have 3: "py_int16 (uuid_hex u) = Inr (int (unat u))"
    using len by (subst py_int16_hex) auto
  have "int (unat u) < 2 ^ 128" using unsigned_less [of u, where 'a = int] by simp
  then show ?thesis
    using 1 2 3 len by (simp add: uuid_parse_def Let_def replace_all_char filter_dashes_uuid_str)
qed

lemma uuid_str_inject [simp]: "uuid_str u = uuid_str v \<longleftrightarrow> u = v"
  by (metis uuid_parse_str sum.inject(2))

end
