(* ===== verification/Json_Text.thy ===== *)
theory Json_Text
  imports Ids
begin

text \<open>
  What \<open>json.dumps(..., sort_keys=True)\<close> prints for a flat object of strings: the escaping of
  the encoder's ASCII mode and the object syntax. The lemmas show that the printed text
  determines the values, so no two different payloads share a rendering.
\<close>

definition hex4 :: "nat \<Rightarrow> string" where
  "hex4 n = hex_digits 4 n"

text \<open>The short escapes of the encoder's table.\<close>

definition json_short :: "(char \<times> char) list" where
  "json_short = [(CHR 0x22, CHR 0x22), (CHR 0x5C, CHR 0x5C), (CHR 0x0A, CHR ''n''),
     (CHR 0x0D, CHR ''r''), (CHR 0x09, CHR ''t''), (CHR 0x0C, CHR ''f''), (CHR 0x08, CHR ''b'')]"

definition json_char :: "char \<Rightarrow> string" where
  "json_char c =
     (case map_of json_short c of
        Some d \<Rightarrow> [CHR 0x5C, d]
      | None \<Rightarrow>
          if code c < 32 \<or> 126 < code c then CHR 0x5C # CHR ''u'' # hex4 (code c) else [c])"

definition json_string :: "string \<Rightarrow> string" where
  "json_string s = CHR 0x22 # concat (map json_char s) @ [CHR 0x22]"

fun json_members :: "(string \<times> string) list \<Rightarrow> string" where
  "json_members [] = []"
| "json_members [(k, v)] = json_string k @ '': '' @ json_string v"
| "json_members ((k, v) # kvs) = json_string k @ '': '' @ json_string v @ '', '' @ json_members kvs"

definition json_object :: "(string \<times> string) list \<Rightarrow> string" where
  "json_object kvs = [CHR 0x7B] @ json_members kvs @ [CHR 0x7D]"

section \<open>The rendering determines the values\<close>

lemma hex4_inject: "m < 256 \<Longrightarrow> n < 256 \<Longrightarrow> hex4 m = hex4 n \<Longrightarrow> m = n"
  by (drule arg_cong [of _ _ read_hex]) (simp add: hex4_def read_hex_digits)

lemma length_hex4 [simp]: "length (hex4 n) = 4"
  by (simp add: hex4_def)

lemma json_short_facts:
  "map_of json_short c = Some d \<Longrightarrow> map_of json_short c' = Some d \<Longrightarrow> c = c'"
  "map_of json_short c = Some d \<Longrightarrow> d \<noteq> CHR ''u''"
  "map_of json_short c = None \<Longrightarrow> c \<noteq> CHR 0x22 \<and> c \<noteq> CHR 0x5C"
  by (auto simp: json_short_def split: if_splits)

lemma json_char_cases:
  obtains (Short) d where "map_of json_short c = Some d" "json_char c = [CHR 0x5C, d]"
  | (Hex) "json_char c = CHR 0x5C # CHR ''u'' # hex4 (code c)"
  | (Plain) "map_of json_short c = None" "json_char c = [c]"
proof (cases "map_of json_short c")
  case None
  with Hex Plain show ?thesis
    by (cases "code c < 32 \<or> 126 < code c") (auto simp: json_char_def)
next
  case (Some d)
  with Short show ?thesis by (auto simp: json_char_def)
qed

lemma json_char_nonempty [simp]: "json_char c \<noteq> []"
  by (cases c rule: json_char_cases) auto

lemma json_char_hd: "hd (json_char c) \<noteq> CHR 0x22"
  by (cases c rule: json_char_cases) (auto dest: json_short_facts(3))

lemma json_char_decode:
  assumes "json_char c @ x = json_char d @ y"
  shows "c = d \<and> x = y"
proof -
  have u: "hex4 (code c) @ x = hex4 (code d) @ y \<Longrightarrow> c = d \<and> x = y"
    using hex4_inject [OF code_less code_less, of c d] by (auto simp: code_def)
  from assms u show ?thesis
    by (cases c rule: json_char_cases; cases d rule: json_char_cases)
      (auto dest: json_short_facts)
qed

lemma json_string_decode:
  "json_string s @ x = json_string t @ y \<Longrightarrow> s = t \<and> x = y"
proof (induction s arbitrary: t)
  case Nil
  show ?case
  proof (cases t)
    case (Cons d t')
    with Nil have "hd (json_char d) = CHR 0x22"
      by (cases "json_char d") (auto simp: json_string_def)
    with json_char_hd show ?thesis by blast
  qed (use Nil in \<open>simp add: json_string_def\<close>)
next
  case (Cons c s)
  show ?case
  proof (cases t)
    case Nil
    with Cons.prems have "hd (json_char c) = CHR 0x22"
      by (cases "json_char c") (auto simp: json_string_def)
    with json_char_hd show ?thesis by blast
  next
    case (Cons d t')
    with Cons.prems have "json_char c @ (concat (map json_char s) @ CHR 0x22 # x)
        = json_char d @ (concat (map json_char t') @ CHR 0x22 # y)"
      by (simp add: json_string_def)
    from json_char_decode [OF this] have "c = d" "json_string s @ x = json_string t' @ y"
      by (simp_all add: json_string_def)
    with Cons.IH [of t'] \<open>t = d # t'\<close> show ?thesis by simp
  qed
qed

lemma json_members_decode:
  assumes "map fst kvs = map fst kvs'"
    and "json_members kvs @ x = json_members kvs' @ y"
  shows "kvs = kvs' \<and> x = y"
  using assms
proof (induction kvs arbitrary: kvs' rule: json_members.induct)
  case 1
  then show ?case by simp
next
  case (2 k v)
  then obtain v' where kvs': "kvs' = [(k, v')]" by (cases kvs') auto
  from 2 have "json_string v @ x = json_string v' @ y"
    unfolding kvs' by (simp add: append_assoc)
  with kvs' show ?case by (auto dest: json_string_decode)
next
  case (3 k v kv kvs)
  then obtain v' kv' kvs'' where kvs': "kvs' = (k, v') # kv' # kvs''"
    by (cases kvs'; cases "tl kvs'") auto
  from "3.prems" have "json_string v @ (CHR '','' # CHR '' '' # json_members (kv # kvs) @ x)
      = json_string v' @ (CHR '','' # CHR '' '' # json_members (kv' # kvs'') @ y)"
    unfolding kvs' by (cases kv; cases kv') (simp add: append_assoc)
  then have "v = v'" "json_members (kv # kvs) @ x = json_members (kv' # kvs'') @ y"
    by (auto dest: json_string_decode)
  with "3.IH" [of "kv' # kvs''"] "3.prems"(1) kvs' show ?case by simp
qed

lemma json_object_inject:
  "map fst kvs = map fst kvs' \<Longrightarrow> json_object kvs = json_object kvs' \<Longrightarrow> kvs = kvs'"
  using json_members_decode [of kvs kvs' "[CHR 0x7D]" "[CHR 0x7D]"]
  by (simp add: json_object_def)

end
