(* ===== verification/Json_Parse.thy ===== *)
theory Json_Parse
  imports Json_Text "HOL-Library.List_Lexorder" "HOL-Library.Char_ord"
begin

text \<open>
  What \<open>json.loads\<close> of the standard library does with the bytes of a document: the encoding
  detection, the scanner of strings and numbers, and the value grammar. A \<open>str\<close> is represented
  by its UTF-8 bytes, so ASCII text is itself. The parser is a machine with an explicit stack of
  open containers; \<open>depth\<close> is the nesting at which the interpreter raises \<open>RecursionError\<close>.
  A number with a fraction or an exponent is its exact rational value, or an infinity beyond the
  range of a double; an integer of more than 4300 digits is the \<open>ValueError\<close> of \<open>int()\<close>.
\<close>

section \<open>Errors and characters\<close>

definition json_decode_error :: exn where
  "json_decode_error = PyExn ''JSONDecodeError''"

definition unicode_decode_error :: exn where
  "unicode_decode_error = PyExn ''UnicodeDecodeError''"

definition recursion_error :: exn where
  "recursion_error = PyExn ''RecursionError''"

definition json_space :: "char \<Rightarrow> bool" where
  "json_space c \<longleftrightarrow> c \<in> {CHR '' '', CHR 0x09, CHR 0x0A, CHR 0x0D}"

definition skip_ws :: "string \<Rightarrow> string" where
  "skip_ws s = dropWhile json_space s"

text \<open>The UTF-8 bytes of a code point; surrogates pass.\<close>

definition utf8 :: "nat \<Rightarrow> string" where
  "utf8 n =
     (if n < 0x80 then [char_of n]
      else if n < 0x800 then [char_of (0xC0 + n div 64), char_of (0x80 + n mod 64)]
      else if n < 0x10000 then
        [char_of (0xE0 + n div 4096), char_of (0x80 + n div 64 mod 64), char_of (0x80 + n mod 64)]
      else [char_of (0xF0 + n div 262144), char_of (0x80 + n div 4096 mod 64),
            char_of (0x80 + n div 64 mod 64), char_of (0x80 + n mod 64)])"

definition high_surrogate :: "nat \<Rightarrow> bool" where
  "high_surrogate n \<longleftrightarrow> 0xD800 \<le> n \<and> n < 0xDC00"

definition low_surrogate :: "nat \<Rightarrow> bool" where
  "low_surrogate n \<longleftrightarrow> 0xDC00 \<le> n \<and> n < 0xE000"

definition join_surrogates :: "nat \<Rightarrow> nat \<Rightarrow> nat" where
  "join_surrogates h l = 0x10000 + (h - 0xD800) * 0x400 + (l - 0xDC00)"

section \<open>Bytes to text\<close>

text \<open>The UTF-8 decoder: which byte sequences it accepts.\<close>

definition cont_byte :: "char \<Rightarrow> bool" where
  "cont_byte c \<longleftrightarrow> 0x80 \<le> code c \<and> code c < 0xC0"

fun utf8_valid :: "string \<Rightarrow> bool" where
  "utf8_valid [] \<longleftrightarrow> True"
| "utf8_valid (a # s) \<longleftrightarrow>
     (let n = code a in
      if n < 0x80 then utf8_valid s
      else if 0xC2 \<le> n \<and> n < 0xE0 then
        (case s of b # s' \<Rightarrow> cont_byte b \<and> utf8_valid s' | _ \<Rightarrow> False)
      else if 0xE0 \<le> n \<and> n < 0xF0 then
        (case s of b # c # s' \<Rightarrow> cont_byte b \<and> (n = 0xE0 \<longrightarrow> 0xA0 \<le> code b) \<and> cont_byte c
           \<and> utf8_valid s' | _ \<Rightarrow> False)
      else if 0xF0 \<le> n \<and> n < 0xF5 then
        (case s of b # c # d # s' \<Rightarrow> cont_byte b \<and> (n = 0xF0 \<longrightarrow> 0x90 \<le> code b)
           \<and> (n = 0xF4 \<longrightarrow> code b < 0x90) \<and> cont_byte c \<and> cont_byte d \<and> utf8_valid s' | _ \<Rightarrow> False)
      else False)"

text \<open>UTF-16 and UTF-32: code units, then code points.\<close>

fun units16 :: "bool \<Rightarrow> string \<Rightarrow> nat list option" where
  "units16 big [] = Some []"
| "units16 big [a] = None"
| "units16 big (a # b # s) =
     map_option ((#) (if big then code a * 256 + code b else code b * 256 + code a)) (units16 big s)"

fun points16 :: "nat list \<Rightarrow> nat list" where
  "points16 [] = []"
| "points16 [u] = [u]"
| "points16 (h # l # us) =
     (if high_surrogate h \<and> low_surrogate l then join_surrogates h l # points16 us
      else h # points16 (l # us))"

fun points32 :: "bool \<Rightarrow> string \<Rightarrow> nat list option" where
  "points32 big [] = Some []"
| "points32 big (a # b # c # d # s) =
     (let n = (if big then ((code a * 256 + code b) * 256 + code c) * 256 + code d
               else ((code d * 256 + code c) * 256 + code b) * 256 + code a)
      in if n < 0x110000 then map_option ((#) n) (points32 big s) else None)"
| "points32 big s = None"

datatype encoding = Utf8 | Utf8_Sig | Utf16 bool | Utf32 bool

text \<open>\<open>json.detect_encoding\<close>; a byte-order mark is dropped with the text that follows it.\<close>

definition detect_encoding :: "string \<Rightarrow> encoding \<times> string" where
  "detect_encoding b =
     (let n = map code b; z = (\<lambda>i. n ! i = 0) in
      if take 4 n = [0, 0, 0xFE, 0xFF] then (Utf32 True, drop 4 b)
      else if take 4 n = [0xFF, 0xFE, 0, 0] then (Utf32 False, drop 4 b)
      else if take 2 n = [0xFE, 0xFF] then (Utf16 True, drop 2 b)
      else if take 2 n = [0xFF, 0xFE] then (Utf16 False, drop 2 b)
      else if take 3 n = [0xEF, 0xBB, 0xBF] then (Utf8_Sig, drop 3 b)
      else if 4 \<le> length b \<and> z 0 then (if z 1 then Utf32 True else Utf16 True, b)
      else if 4 \<le> length b \<and> z 1 then (if z 2 \<and> z 3 then Utf32 False else Utf16 False, b)
      else if length b = 2 \<and> z 0 then (Utf16 True, b)
      else if length b = 2 \<and> z 1 then (Utf16 False, b)
      else (Utf8, b))"

definition json_bytes_text :: "string \<Rightarrow> exn + string" where
  "json_bytes_text b =
     (case detect_encoding b of (enc, s) \<Rightarrow>
        (let points = (case enc of Utf16 big \<Rightarrow> map_option points16 (units16 big s)
                        | Utf32 big \<Rightarrow> points32 big s | _ \<Rightarrow> None)
         in if enc = Utf8 \<or> enc = Utf8_Sig then
              (if utf8_valid s then Inr s else Inl unicode_decode_error)
            else case points of None \<Rightarrow> Inl unicode_decode_error
                 | Some ps \<Rightarrow> Inr (concat (map utf8 ps))))"

section \<open>Strings and numbers\<close>

definition hex_quad :: "char \<Rightarrow> char \<Rightarrow> char \<Rightarrow> char \<Rightarrow> nat option" where
  "hex_quad a b c d = (if list_all is_hex [a, b, c, d] then Some (read_hex [a, b, c, d]) else None)"

definition json_unescape :: "char \<Rightarrow> char option" where
  "json_unescape c = map_of ((CHR ''/'', CHR ''/'') # map (\<lambda>(x, y). (y, x)) json_short) c"

text \<open>The four digits after \<open>\u\<close>, with the low half of a surrogate pair when it follows.\<close>

definition low_escape :: "string \<Rightarrow> (nat \<times> string) option" where
  "low_escape s =
     (case s of
        b # u # g1 # g2 # g3 # g4 # r \<Rightarrow>
          if b = CHR 0x5C \<and> u = CHR ''u'' then
            (case hex_quad g1 g2 g3 g4 of
               Some m \<Rightarrow> if low_surrogate m then Some (m, r) else None
             | None \<Rightarrow> None)
          else None
      | _ \<Rightarrow> None)"

definition unicode_escape :: "string \<Rightarrow> (nat \<times> string) option" where
  "unicode_escape s =
     (case s of
        h1 # h2 # h3 # h4 # r \<Rightarrow>
          (case hex_quad h1 h2 h3 h4 of
             None \<Rightarrow> None
           | Some n \<Rightarrow>
               (case (if high_surrogate n then low_escape r else None) of
                  Some (m, r') \<Rightarrow> Some (join_surrogates n m, r')
                | None \<Rightarrow> Some (n, r)))
      | _ \<Rightarrow> None)"

lemma unicode_escape_shorter: "unicode_escape s = Some (n, r) \<Longrightarrow> length r < length s"
  by (auto simp: unicode_escape_def low_escape_def split: list.splits option.splits if_splits)

text \<open>The text after an opening quote: the value, and what follows the closing quote.\<close>

function scan_string :: "string \<Rightarrow> (string \<times> string) option" where
  "scan_string [] = None"
| "scan_string (c # s) =
     (if c = CHR 0x22 then Some ([], s)
      else if code c < 32 then None
      else if c \<noteq> CHR 0x5C then map_option (apfst ((#) c)) (scan_string s)
      else case s of
        [] \<Rightarrow> None
      | e # t \<Rightarrow>
          if e = CHR ''u'' then
            (case unicode_escape t of
               None \<Rightarrow> None
             | Some (n, r) \<Rightarrow> map_option (apfst ((@) (utf8 n))) (scan_string r))
          else
            (case json_unescape e of
               None \<Rightarrow> None
             | Some x \<Rightarrow> map_option (apfst ((#) x)) (scan_string t)))"
  by pat_completeness auto
termination
  by (relation "measure length") (auto dest: unicode_escape_shorter)

lemma scan_string_shorter: "scan_string s = Some (t, r) \<Longrightarrow> length r < length s"
  by (induction s arbitrary: t r rule: scan_string.induct)
    (fastforce split: if_splits list.splits option.splits dest: unicode_escape_shorter)+

definition pow10 :: "int \<Rightarrow> rat" where
  "pow10 e = (if 0 \<le> e then 10 ^ nat e else 1 / 10 ^ nat (- e))"

text \<open>\<open>float()\<close> of a decimal numeral.\<close>

definition float_value :: "rat \<Rightarrow> pyval" where
  "float_value x =
     (if 2 ^ 1024 - 2 ^ 970 \<le> x then VSpecial INFINITE
      else if x \<le> - (2 ^ 1024 - 2 ^ 970) then VSpecial NEG_INFINITE
      else VNum x)"

definition max_int_digits :: nat where
  "max_int_digits = 4300"

definition int_digits :: "string \<Rightarrow> string \<times> string" where
  "int_digits s =
     (case s of [] \<Rightarrow> ([], [])
      | c # cs \<Rightarrow> if c = CHR ''0'' then ([c], cs) else (takeWhile is_digit s, dropWhile is_digit s))"

definition frac_digits :: "string \<Rightarrow> string \<times> string" where
  "frac_digits s =
     (case s of
        c # r \<Rightarrow> if c = CHR ''.'' \<and> takeWhile is_digit r \<noteq> []
                 then (takeWhile is_digit r, dropWhile is_digit r) else ([], s)
      | [] \<Rightarrow> ([], s))"

definition exponent_digits :: "string \<Rightarrow> int option \<times> string" where
  "exponent_digits s =
     (case s of
        c # r \<Rightarrow>
          if c = CHR ''e'' \<or> c = CHR ''E'' then
            (let neg = (case r of x # _ \<Rightarrow> x = CHR ''-'' | [] \<Rightarrow> False);
                 t = (case r of x # y \<Rightarrow> if x = CHR ''-'' \<or> x = CHR ''+'' then y else r | [] \<Rightarrow> [])
             in if takeWhile is_digit t = [] then (None, s)
                else (Some ((if neg then - 1 else 1) * int (read_digits (takeWhile is_digit t))),
                      dropWhile is_digit t))
          else (None, s)
      | [] \<Rightarrow> (None, s))"

definition json_number :: "bool \<Rightarrow> string \<Rightarrow> exn + pyval \<times> string" where
  "json_number neg s =
     (if s = [] \<or> \<not> is_digit (hd s) then Inl json_decode_error
      else
        case int_digits s of (ip, s2) \<Rightarrow>
        case frac_digits s2 of (fp, s3) \<Rightarrow>
        case exponent_digits s3 of (ex, s4) \<Rightarrow>
          if fp = [] \<and> ex = None then
            if max_int_digits < length ip then Inl value_error
            else Inr (VInt ((if neg then - 1 else 1) * int (read_digits ip)), s4)
          else Inr (float_value ((if neg then - 1 else 1) * of_nat (read_digits (ip @ fp))
                 * pow10 ((case ex of None \<Rightarrow> 0 | Some e \<Rightarrow> e) - int (length fp))), s4))"

section \<open>Values\<close>

text \<open>A value that is not a container.\<close>

definition json_literals :: "(string \<times> pyval) list" where
  "json_literals =
     [(''null'', VNone), (''true'', VBool True), (''false'', VBool False),
      (''NaN'', VSpecial NOT_A_NUMBER), (''Infinity'', VSpecial INFINITE),
      (''-Infinity'', VSpecial NEG_INFINITE)]"

fun json_literal :: "(string \<times> pyval) list \<Rightarrow> string \<Rightarrow> (pyval \<times> string) option" where
  "json_literal [] s = None"
| "json_literal ((w, v) # ws) s =
     (if take (length w) s = w then Some (v, drop (length w) s) else json_literal ws s)"

definition json_scalar :: "string \<Rightarrow> exn + pyval \<times> string" where
  "json_scalar s =
     (case s of
        [] \<Rightarrow> Inl json_decode_error
      | c # r \<Rightarrow>
          if c = CHR 0x22 then
            (case scan_string r of None \<Rightarrow> Inl json_decode_error | Some (t, r') \<Rightarrow> Inr (VStr t, r'))
          else
            (case json_literal json_literals s of
               Some (v, r') \<Rightarrow> Inr (v, r')
             | None \<Rightarrow> if c = CHR ''-'' then json_number True r else json_number False s))"

text \<open>A member's key, with its colon.\<close>

definition json_key :: "string \<Rightarrow> (string \<times> string) option" where
  "json_key s =
     (case s of
        c # r \<Rightarrow>
          if c = CHR 0x22 then
            (case scan_string r of
               Some (k, r') \<Rightarrow>
                 (case skip_ws r' of
                    d # t \<Rightarrow> if d = CHR '':'' then Some (k, skip_ws t) else None
                  | [] \<Rightarrow> None)
             | None \<Rightarrow> None)
          else None
      | [] \<Rightarrow> None)"

text \<open>An open container: an array with its elements so far, last first, or an object with its
  members so far and the key whose value comes next.\<close>

datatype json_frame = In_Array "pyval list" | In_Object "(string \<times> pyval) list" string

lemma skip_ws_length: "length (skip_ws s) \<le> length s"
  by (simp add: skip_ws_def length_dropWhile_le)

lemma json_key_shorter:
  assumes "json_key s = Some (k, r)"
  shows "length r < length s"
proof -
  from assms obtain c s1 r1 d t where p: "s = c # s1" "scan_string s1 = Some (k, r1)"
      "skip_ws r1 = d # t" "r = skip_ws t"
    by (auto simp: json_key_def split: list.splits option.splits if_splits)
  from scan_string_shorter [OF p(2)] skip_ws_length [of r1] skip_ws_length [of t] p
  show ?thesis by simp
qed

lemma json_literal_length: "json_literal ws s = Some (v, r) \<Longrightarrow> length r \<le> length s"
  by (induction ws s rule: json_literal.induct) (auto split: if_splits)

lemma json_literal_shorter:
  "json_literal ws s = Some (v, r) \<Longrightarrow> s \<noteq> [] \<Longrightarrow> [] \<notin> fst ` set ws \<Longrightarrow> length r < length s"
  by (induction ws s rule: json_literal.induct) (auto split: if_splits)

lemma int_digits_length:
  assumes "int_digits s = (ip, r)" "s \<noteq> []" "is_digit (hd s)"
  shows "length r < length s"
proof (cases s)
  case (Cons c cs)
  with assms show ?thesis
    using length_dropWhile_le [of is_digit cs] by (auto simp: int_digits_def split: if_splits)
qed (use assms in simp)

lemma frac_digits_length: "frac_digits s = (fp, r) \<Longrightarrow> length r \<le> length s"
  using length_dropWhile_le [of is_digit "tl s"]
  by (auto simp: frac_digits_def split: list.splits if_splits)

lemma exponent_digits_length: "exponent_digits s = (ex, r) \<Longrightarrow> length r \<le> length s"
  using length_dropWhile_le [of is_digit "tl s"] length_dropWhile_le [of is_digit "tl (tl s)"]
  by (auto simp: exponent_digits_def Let_def split: list.splits if_splits)

lemma json_number_shorter: "json_number neg s = Inr (v, r) \<Longrightarrow> length r < length s"
  by (auto simp: json_number_def split: if_splits prod.splits
      dest!: int_digits_length frac_digits_length exponent_digits_length)

lemma json_scalar_shorter:
  assumes "json_scalar s = Inr (v, r)"
  shows "length r < length s"
proof (cases s)
  case (Cons c t)
  have "[] \<notin> fst ` set json_literals" by (simp add: json_literals_def)
  with assms Cons show ?thesis
    by (auto simp: json_scalar_def split: if_splits option.splits
        dest: scan_string_shorter json_literal_shorter json_number_shorter)
qed (use assms in \<open>simp add: json_scalar_def\<close>)

lemma skip_ws_Cons: "skip_ws s = c # r \<Longrightarrow> length r < length s"
  using skip_ws_length [of s] by simp

lemma json_key_skip: "json_key (skip_ws s) = Some (k, r) \<Longrightarrow> length r < length s"
  using skip_ws_length [of s] by (auto dest: json_key_shorter)

lemma json_key_Cons: "json_key (d # t) = Some (k, r) \<Longrightarrow> skip_ws s = d # t \<Longrightarrow> length r < length s"
  using json_key_skip [of s k r] by simp

lemmas json_shorter = json_scalar_shorter json_key_skip json_key_Cons skip_ws_Cons

text \<open>Either a value is read next, or one has been read and its container takes it.\<close>

datatype json_mode = Want | Have pyval

function json_run ::
  "nat \<Rightarrow> json_frame list \<Rightarrow> json_mode \<Rightarrow> string \<Rightarrow> exn + pyval \<times> string" where
  "json_run depth st Want s =
     (case s of
        [] \<Rightarrow> Inl json_decode_error
      | c # r \<Rightarrow>
          if c = CHR 0x5B \<or> c = CHR 0x7B then
            if depth \<le> length st then Inl recursion_error
            else if c = CHR 0x5B then
              (case skip_ws r of
                 [] \<Rightarrow> Inl json_decode_error
               | d # t \<Rightarrow> if d = CHR 0x5D then json_run depth st (Have (VList [])) t
                          else json_run depth (In_Array [] # st) Want (d # t))
            else
              (case skip_ws r of
                 [] \<Rightarrow> Inl json_decode_error
               | d # t \<Rightarrow> if d = CHR 0x7D then json_run depth st (Have (VDict [])) t
                          else (case json_key (d # t) of
                                  None \<Rightarrow> Inl json_decode_error
                                | Some (k, u) \<Rightarrow> json_run depth (In_Object [] k # st) Want u))
          else (case json_scalar s of
                  Inl e \<Rightarrow> Inl e
                | Inr (v, t) \<Rightarrow> json_run depth st (Have v) t))"
| "json_run depth [] (Have v) s = Inr (v, s)"
| "json_run depth (In_Array vs # st) (Have v) s =
     (case skip_ws s of
        [] \<Rightarrow> Inl json_decode_error
      | c # r \<Rightarrow>
          if c = CHR 0x5D then json_run depth st (Have (VList (rev (v # vs)))) r
          else if c = CHR '','' then json_run depth (In_Array (v # vs) # st) Want (skip_ws r)
          else Inl json_decode_error)"
| "json_run depth (In_Object kvs k # st) (Have v) s =
     (case skip_ws s of
        [] \<Rightarrow> Inl json_decode_error
      | c # r \<Rightarrow>
          if c = CHR 0x7D then json_run depth st (Have (VDict (dict_set k v kvs))) r
          else if c = CHR '','' then
            (case json_key (skip_ws r) of
               None \<Rightarrow> Inl json_decode_error
             | Some (k', t) \<Rightarrow> json_run depth (In_Object (dict_set k v kvs) k' # st) Want t)
          else Inl json_decode_error)"
  by pat_completeness auto
termination
proof (relation "measure (\<lambda>(depth, st, m, s). length s)", goal_cases)
  case (6 depth st s)
  then show ?case using json_scalar_shorter by fastforce
next
  case (8 depth vs st v s c r)
  then show ?case using skip_ws_length [of r] by (auto dest: skip_ws_Cons)
next
  case (10 depth kvs k st v s c r)
  then show ?case by (auto dest!: skip_ws_Cons json_key_skip)
qed (auto dest: json_shorter)

declare json_run.simps(1) [simp del]

text \<open>\<open>json.loads\<close> of a \<open>str\<close>, and of bytes.\<close>

definition json_loads_text :: "nat \<Rightarrow> string \<Rightarrow> exn + pyval" where
  "json_loads_text depth s =
     (case json_run depth [] Want (skip_ws s) of
        Inl e \<Rightarrow> Inl e
      | Inr (v, r) \<Rightarrow> if skip_ws r = [] then Inr v else Inl json_decode_error)"

definition json_loads :: "nat \<Rightarrow> string \<Rightarrow> exn + pyval" where
  "json_loads depth b =
     (case json_bytes_text b of Inl e \<Rightarrow> Inl e | Inr s \<Rightarrow> json_loads_text depth s)"

section \<open>Printing\<close>

text \<open>
  \<open>json.dumps(value, sort_keys=True)\<close> for values of ASCII text; \<open>repr_float\<close> is \<open>float.__repr__\<close>,
  which the program never meets in what it stores.
\<close>

fun json_joined :: "string list \<Rightarrow> string" where
  "json_joined [] = []"
| "json_joined [x] = x"
| "json_joined (x # y # zs) = x @ '', '' @ json_joined (y # zs)"

fun json_dumps :: "(rat \<Rightarrow> string) \<Rightarrow> pyval \<Rightarrow> string" where
  "json_dumps repr_float VNone = ''null''"
| "json_dumps repr_float (VBool b) = (if b then ''true'' else ''false'')"
| "json_dumps repr_float (VInt i) = show_int i"
| "json_dumps repr_float (VNum x) = repr_float x"
| "json_dumps repr_float (VSpecial n) =
     (case n of INFINITE \<Rightarrow> ''Infinity'' | NEG_INFINITE \<Rightarrow> ''-Infinity'' | NOT_A_NUMBER \<Rightarrow> ''NaN'')"
| "json_dumps repr_float (VStr s) = json_string s"
| "json_dumps repr_float (VList vs) = [CHR 0x5B] @ json_joined (map (json_dumps repr_float) vs) @ [CHR 0x5D]"
| "json_dumps repr_float (VTuple vs) = [CHR 0x5B] @ json_joined (map (json_dumps repr_float) vs) @ [CHR 0x5D]"
| "json_dumps repr_float (VDict kvs) =
     [CHR 0x7B] @ json_joined (map (\<lambda>(k, t). json_string k @ '': '' @ t)
       (sort_key fst (map (\<lambda>(k, v). (k, json_dumps repr_float v)) kvs))) @ [CHR 0x7D]"

section \<open>Reading what was printed\<close>

definition ascii :: "string \<Rightarrow> bool" where
  "ascii s \<longleftrightarrow> list_all (\<lambda>c. code c < 128) s"

text \<open>Values that survive a round trip: text keys in order, no floats and no tuples, and integers
  within the digit limit.\<close>

fun json_ready :: "pyval \<Rightarrow> bool" where
  "json_ready (VInt i) \<longleftrightarrow> length (show_nat (nat \<bar>i\<bar>)) \<le> max_int_digits"
| "json_ready (VStr s) \<longleftrightarrow> ascii s"
| "json_ready (VList vs) \<longleftrightarrow> list_all json_ready vs"
| "json_ready (VDict kvs) \<longleftrightarrow> sorted (map fst kvs) \<and> distinct (map fst kvs)
     \<and> list_all (\<lambda>(k, v). ascii k \<and> json_ready v) kvs"
| "json_ready (VNum x) \<longleftrightarrow> False"
| "json_ready (VTuple vs) \<longleftrightarrow> False"
| "json_ready v \<longleftrightarrow> True"

fun json_depth :: "pyval \<Rightarrow> nat" where
  "json_depth (VList vs) = Suc (Max (insert 0 (set (map json_depth vs))))"
| "json_depth (VDict kvs) = Suc (Max (insert 0 (set (map (\<lambda>(k, v). json_depth v) kvs))))"
| "json_depth v = 0"

lemma hex4_cases:
  obtains a b c d where "hex4 n = [a, b, c, d]"
proof -
  have "(4 :: nat) = Suc (Suc (Suc (Suc 0)))" by simp
  then have "\<exists>a b c d. hex4 n = [a, b, c, d]" unfolding hex4_def by (simp only: hex_digits.simps) simp
  then show ?thesis using that by blast
qed

lemma hex_quad_hex4: "n < 65536 \<Longrightarrow> hex4 n = [a, b, c, d] \<Longrightarrow> hex_quad a b c d = Some n"
  using hex_digits_hex [of 4 n] read_hex_digits [of 4 n] by (simp add: hex4_def hex_quad_def)

lemma unicode_escape_hex4: "n < 256 \<Longrightarrow> unicode_escape (hex4 n @ r) = Some (n, r)"
  using hex_quad_hex4 [of n] by (cases rule: hex4_cases [of n])
    (auto simp: unicode_escape_def high_surrogate_def)

lemma json_unescape_short: "map_of json_short c = Some d \<Longrightarrow> json_unescape d = Some c"
  by (auto simp: json_short_def json_unescape_def split: if_splits)

lemma scan_json_string:
  "ascii s \<Longrightarrow> scan_string (concat (map json_char s) @ CHR 0x22 # r) = Some (s, r)"
proof (induction s)
  case (Cons c s)
  then have IH: "scan_string (concat (map json_char s) @ CHR 0x22 # r) = Some (s, r)"
    and c: "code c < 128" by (simp_all add: ascii_def)
  show ?case
  proof (cases c rule: json_char_cases)
    case (Short d)
    with json_short_facts(2) [OF Short(1)] json_unescape_short [OF Short(1)] IH show ?thesis
      by (simp add: code_def)
  next
    case Hex
    have "utf8 (code c) = [c]" using c by (simp add: utf8_def)
    with Hex IH unicode_escape_hex4 [of "code c"] code_less [of c] show ?thesis
      by (simp add: code_def)
  next
    case Plain
    then have "\<not> code c < 32" by (auto simp: json_char_def code_def split: if_splits)
    with Plain json_short_facts(3) [OF Plain(1)] IH show ?thesis by simp
  qed
qed simp

lemma digit_code: "is_digit c \<Longrightarrow> \<not> json_space c \<and> c \<notin> set (''[]{},:\"-nftNI'')"
  by (auto simp: is_digit_def json_space_def code_def)

lemma show_nat_head: "0 < n \<Longrightarrow> hd (show_nat n) \<noteq> CHR ''0''"
proof (induction n rule: show_nat.induct)
  case (1 n)
  show ?case
  proof (cases "n < 10")
    case True
    have "code (digit_char n) = 48 + n" using True by (simp add: digit_char_def)
    with 1 True have "code (digit_char n) \<noteq> code (CHR ''0'')" by (simp add: code_def [of "CHR ''0''"])
    with True show ?thesis by (auto simp: show_nat.simps [of n])
  qed (use 1 in \<open>simp add: show_nat.simps [of n]\<close>)
qed

definition json_delimited :: "string \<Rightarrow> bool" where
  "json_delimited r \<longleftrightarrow> r = [] \<or> \<not> is_digit (hd r) \<and> hd r \<notin> {CHR ''.'', CHR ''e'', CHR ''E''}"

lemma json_number_show_nat:
  assumes "json_delimited r" "length (show_nat n) \<le> max_int_digits"
  shows "json_number neg (show_nat n @ r) = Inr (VInt ((if neg then - 1 else 1) * int n), r)"
proof -
  have all: "\<forall>c \<in> set (show_nat n). is_digit c" using show_nat_digits by (simp add: list_all_iff)
  then have hd: "is_digit (hd (show_nat n @ r))" by (simp add: hd_append)
  have tk: "takeWhile is_digit (show_nat n @ r) = show_nat n" "dropWhile is_digit (show_nat n @ r) = r"
    using all assms(1) by (cases r; simp add: json_delimited_def takeWhile_append2 dropWhile_append2)+
  have "int_digits (show_nat n @ r) = (show_nat n, r)"
  proof (cases "n = 0")
    case True
    moreover have "digit_char 0 = CHR ''0''"
      by (rule code_inject [THEN iffD1]) (simp add: digit_char_def code_def [of "CHR ''0''"])
    ultimately show ?thesis by (simp add: int_digits_def show_nat.simps)
  next
    case False
    then have "hd (show_nat n @ r) \<noteq> CHR ''0''" using show_nat_head [of n] by (simp add: hd_append)
    moreover obtain c s where "show_nat n = c # s" by (cases "show_nat n") auto
    ultimately show ?thesis using tk by (simp add: int_digits_def)
  qed
  moreover have "frac_digits r = ([], r)" "exponent_digits r = (None, r)"
    using assms(1) by (auto simp: json_delimited_def frac_digits_def exponent_digits_def split: list.split)
  ultimately show ?thesis using hd assms(2) by (simp add: json_number_def)
qed

lemma json_literal_digit:
  assumes "is_digit c"
  shows "json_literal json_literals (c # s) = None"
    "json_literal json_literals (CHR ''-'' # c # s) = None"
  using digit_code [OF assms] by (simp_all add: json_literals_def)

lemma json_scalar_show_int:
  assumes "json_delimited r" "length (show_nat (nat \<bar>i\<bar>)) \<le> max_int_digits"
  shows "json_scalar (show_int i @ r) = Inr (VInt i, r)"
proof -
  obtain c s where n: "show_nat (nat \<bar>i\<bar>) = c # s" "is_digit c"
    using show_nat_digits [of "nat \<bar>i\<bar>"] by (cases "show_nat (nat \<bar>i\<bar>)") auto
  note run = json_number_show_nat [OF assms(1), of "nat \<bar>i\<bar>"]
  show ?thesis
  proof (cases "i < 0")
    case True
    with n run [of True] assms(2) json_literal_digit(2) [OF n(2), of "s @ r"] show ?thesis
      by (simp add: show_int_def json_scalar_def)
  next
    case False
    with n run [of False] assms(2) json_literal_digit(1) [OF n(2), of "s @ r"] digit_code [OF n(2)]
    show ?thesis by (auto simp: show_int_def json_scalar_def)
  qed
qed

text \<open>The first character of a printed value.\<close>

lemma json_dumps_hd:
  assumes "json_ready v"
  obtains c t where "json_dumps f v = c # t" "\<not> json_space c" "c \<notin> {CHR 0x5D, CHR 0x7D}"
proof -
  have "\<exists>c t. show_int i = c # t \<and> \<not> json_space c \<and> c \<notin> {CHR 0x5D, CHR 0x7D}" for i
  proof -
    obtain c s where n: "show_nat (nat \<bar>i\<bar>) = c # s" "is_digit c"
      using show_nat_digits [of "nat \<bar>i\<bar>"] by (cases "show_nat (nat \<bar>i\<bar>)") auto
    then show ?thesis using digit_code [OF n(2)]
      by (cases "i < 0") (auto simp: show_int_def json_space_def)
  qed
  with assms have "\<exists>c t. json_dumps f v = c # t \<and> \<not> json_space c \<and> c \<notin> {CHR 0x5D, CHR 0x7D}"
    by (cases v) (auto simp: json_space_def json_string_def split: nonfinite.split)
  then show ?thesis using that by blast
qed

lemma skip_ws_hd: "\<not> json_space c \<Longrightarrow> skip_ws (c # s) = c # s"
  by (simp add: skip_ws_def)

lemma skip_ws_dumps: "json_ready v \<Longrightarrow> skip_ws (json_dumps f v @ r) = json_dumps f v @ r"
  by (metis json_dumps_hd skip_ws_hd append_Cons)

lemma json_key_string:
  "ascii k \<Longrightarrow> json_key (json_string k @ '': '' @ r) = Some (k, skip_ws r)"
  by (simp add: json_key_def json_string_def scan_json_string skip_ws_def json_space_def)

lemma json_scalar_string: "ascii s \<Longrightarrow> json_scalar (json_string s @ r) = Inr (VStr s, r)"
  by (simp add: json_scalar_def json_string_def scan_json_string)

text \<open>What reading a printed value does to the parser: it hands the value to the container.\<close>

definition reads_as :: "nat \<Rightarrow> json_frame list \<Rightarrow> pyval \<Rightarrow> string \<Rightarrow> bool" where
  "reads_as depth st v t \<longleftrightarrow>
     (\<forall>r. json_delimited r \<longrightarrow> json_run depth st Want (t @ r) = json_run depth st (Have v) r)"

lemma reads_scalar:
  assumes "\<And>r. json_delimited r \<Longrightarrow> json_scalar (t @ r) = Inr (v, r)"
    and "t \<noteq> []" "hd t \<notin> {CHR 0x5B, CHR 0x7B}"
  shows "reads_as depth st v t"
  using assms by (cases t) (auto simp: reads_as_def json_run.simps(1))

lemma json_delimited_simps [simp]:
  "json_delimited []" "json_delimited (CHR '','' # r)" "json_delimited (CHR 0x5D # r)"
  "json_delimited (CHR 0x7D # r)"
  by (simp_all add: json_delimited_def is_digit_def code_def)

lemma run_elements:
  assumes "vs \<noteq> []" "\<forall>v \<in> set vs. json_ready v"
    and "\<forall>v \<in> set vs. \<forall>fr. reads_as depth (fr # st) v (json_dumps f v)"
  shows "json_run depth (In_Array acc # st) Want (json_joined (map (json_dumps f) vs) @ CHR 0x5D # r)
    = json_run depth st (Have (VList (rev acc @ vs))) r"
  using assms
proof (induction vs arbitrary: acc rule: induct_list012)
  case (2 v)
  then show ?case by (simp add: reads_as_def skip_ws_def json_space_def)
next
  case (3 v w vs)
  have "json_run depth (In_Array acc # st) Want (json_joined (map (json_dumps f) (v # w # vs))
      @ CHR 0x5D # r) = json_run depth (In_Array (v # acc) # st) Want
        (skip_ws (CHR '' '' # json_joined (map (json_dumps f) (w # vs)) @ CHR 0x5D # r))"
    using "3.prems"(3) by (simp add: reads_as_def skip_ws_hd [of "CHR '',''"] json_space_def [of "CHR '',''"])
  moreover have "skip_ws (CHR '' '' # json_joined (map (json_dumps f) (w # vs)) @ CHR 0x5D # r)
      = json_joined (map (json_dumps f) (w # vs)) @ CHR 0x5D # r"
  proof -
    have "json_ready w" using "3.prems"(2) by simp
    from json_dumps_hd [OF this, of f] obtain c t where c: "json_dumps f w = c # t" "\<not> json_space c" by blast
    then obtain t' where "json_joined (map (json_dumps f) (w # vs)) = c # t'" by (cases vs) auto
    with c show ?thesis by (simp add: skip_ws_def json_space_def)
  qed
  ultimately show ?case using "3.IH"(2) [of "v # acc"] "3.prems" by simp
qed simp

abbreviation json_member :: "(rat \<Rightarrow> string) \<Rightarrow> string \<times> pyval \<Rightarrow> string" where
  "json_member f m \<equiv> json_string (fst m) @ '': '' @ json_dumps f (snd m)"

definition members_after :: "(rat \<Rightarrow> string) \<Rightarrow> (string \<times> pyval) list \<Rightarrow> string" where
  "members_after f ms = (if ms = [] then [] else '', '' @ json_joined (map (json_member f) ms))"

lemma joined_members:
  "json_joined (map (json_member f) (m # ms)) = json_member f m @ members_after f ms"
  by (cases ms) (simp_all add: members_after_def)

lemma run_members:
  assumes "\<forall>m \<in> set ((k, v) # ms). ascii (fst m) \<and> json_ready (snd m)
      \<and> (\<forall>fr. reads_as depth (fr # st) (snd m) (json_dumps f (snd m)))"
    and "distinct (map fst (acc @ (k, v) # ms))"
  shows "json_run depth (In_Object acc k # st) Want
      (json_dumps f v @ members_after f ms @ CHR 0x7D # r)
    = json_run depth st (Have (VDict (acc @ (k, v) # ms))) r"
  using assms
proof (induction ms arbitrary: k v acc)
  case Nil
  then have "k \<notin> fst ` set acc" by simp
  with Nil show ?case
    by (simp add: members_after_def reads_as_def skip_ws_def json_space_def dict_set_new)
next
  case (Cons m ms)
  obtain k' v' where m: "m = (k', v')" by (cases m)
  have k: "k \<notin> fst ` set acc" using Cons.prems(2) by simp
  have comma: "skip_ws (CHR '','' # x) = CHR '','' # x" "skip_ws (CHR '' '' # json_string y @ x)
      = json_string y @ x" for x y by (simp_all add: skip_ws_def json_space_def json_string_def)
  have tail: "members_after f (m # ms) @ CHR 0x7D # r = '', '' @ json_string k' @ '': ''
      @ json_dumps f v' @ members_after f ms @ CHR 0x7D # r"
    by (subst members_after_def) (simp only: joined_members m list.distinct if_False append_assoc fst_conv snd_conv)
  have "json_delimited (members_after f (m # ms) @ CHR 0x7D # r)" by (simp add: members_after_def)
  with Cons.prems(1) have "json_run depth (In_Object acc k # st) Want
      (json_dumps f v @ members_after f (m # ms) @ CHR 0x7D # r)
    = json_run depth (In_Object acc k # st) (Have v) (members_after f (m # ms) @ CHR 0x7D # r)"
    by (simp add: reads_as_def)
  also have "\<dots> = json_run depth (In_Object acc k # st) (Have v) ('', '' @ json_string k' @ '': ''
      @ json_dumps f v' @ members_after f ms @ CHR 0x7D # r)" by (simp only: tail)
  also have "\<dots> = json_run depth (In_Object (acc @ [(k, v)]) k' # st) Want
          (skip_ws (json_dumps f v' @ members_after f ms @ CHR 0x7D # r))"
    using Cons.prems(1) m json_key_string [of k'] by (simp add: comma dict_set_new [OF k])
  also have "skip_ws (json_dumps f v' @ members_after f ms @ CHR 0x7D # r)
      = json_dumps f v' @ members_after f ms @ CHR 0x7D # r"
    by (rule skip_ws_dumps) (use Cons.prems(1) m in simp)
  finally have run: "json_run depth (In_Object acc k # st) Want
      (json_dumps f v @ members_after f (m # ms) @ CHR 0x7D # r)
    = json_run depth (In_Object (acc @ [(k, v)]) k' # st) Want
        (json_dumps f v' @ members_after f ms @ CHR 0x7D # r)" .
  show ?case unfolding run using Cons.IH [of k' v' "acc @ [(k, v)]"] Cons.prems m by simp
qed

lemma json_depth_member:
  "v \<in> set vs \<Longrightarrow> Suc (json_depth v) \<le> json_depth (VList vs)"
  "m \<in> set kvs \<Longrightarrow> Suc (json_depth (snd m)) \<le> json_depth (VDict kvs)"
proof -
  show "v \<in> set vs \<Longrightarrow> Suc (json_depth v) \<le> json_depth (VList vs)"
    by (force intro: Max_ge)
  assume "m \<in> set kvs"
  then have "json_depth (snd m) \<in> insert 0 (set (map (\<lambda>(k, v). json_depth v) kvs))"
    by (simp add: case_prod_unfold)
  then have "json_depth (snd m) \<le> Max (insert 0 (set (map (\<lambda>(k, v). json_depth v) kvs)))"
    by (rule Max_ge [rotated]) simp
  then show "Suc (json_depth (snd m)) \<le> json_depth (VDict kvs)" by simp
qed

lemma reads_dumps:
  "json_ready v \<Longrightarrow> length st + json_depth v \<le> depth \<Longrightarrow> reads_as depth st v (json_dumps f v)"
proof (induction v arbitrary: st rule: pyval.induct)
  case (VInt i)
  have "show_int i \<noteq> [] \<and> hd (show_int i) \<notin> {CHR 0x5B, CHR 0x7B}"
  proof -
    obtain c s where n: "show_nat (nat \<bar>i\<bar>) = c # s" "is_digit c"
      using show_nat_digits [of "nat \<bar>i\<bar>"] by (cases "show_nat (nat \<bar>i\<bar>)") auto
    then show ?thesis using digit_code [OF n(2)] by (cases "i < 0") (auto simp: show_int_def)
  qed
  with VInt show ?case by (intro reads_scalar) (simp_all add: json_scalar_show_int)
next
  case (VStr s)
  then show ?case by (intro reads_scalar) (simp_all add: json_scalar_string, simp_all add: json_string_def)
next
  case (VList vs)
  have sub: "reads_as depth (fr # st) v (json_dumps f v)" if "v \<in> set vs" for v fr
  proof -
    have "length (fr # st) + json_depth v \<le> depth"
      using json_depth_member(1) [OF that] VList.prems(2) unfolding list.size by linarith
    with VList.IH [OF that] VList.prems(1) that show ?thesis by (simp add: list_all_iff)
  qed
  have open': "\<not> depth \<le> length st" using VList.prems(2) by simp
  show ?case
  proof (cases vs)
    case Nil
    with open' show ?thesis
      by (simp add: reads_as_def json_run.simps(1) skip_ws_def json_space_def)
  next
    case (Cons v ws)
    then have "json_ready v" using VList.prems(1) by simp
    from json_dumps_hd [OF this, of f] obtain c t where c: "json_dumps f v = c # t"
      "\<not> json_space c" "c \<noteq> CHR 0x5D" by blast
    then obtain t' where t': "json_joined (map (json_dumps f) vs) = c # t'" unfolding Cons
      by (cases ws) auto
    have "json_run depth (In_Array [] # st) Want (json_joined (map (json_dumps f) vs) @ CHR 0x5D # r)
      = json_run depth st (Have (VList ([] @ vs))) r" for r
      using run_elements [of vs depth st f "[]" r] sub Cons VList.prems(1) by (simp add: list_all_iff)
    with open' c(2,3) show ?thesis
      by (simp add: reads_as_def json_run.simps(1) [of _ _ "CHR 0x5B # _"] t' skip_ws_hd)
  qed
next
  case (VDict kvs)
  have sub: "ascii (fst m) \<and> json_ready (snd m) \<and> (\<forall>fr. reads_as depth (fr # st) (snd m)
      (json_dumps f (snd m)))" if "m \<in> set kvs" for m
  proof -
    have "json_ready (snd m)" "ascii (fst m)" using that VDict.prems(1) by (auto simp: list_all_iff)
    moreover have "length (fr # st) + json_depth (snd m) \<le> depth" for fr
      using json_depth_member(2) [OF that] VDict.prems(2) unfolding list.size by linarith
    ultimately show ?thesis using VDict.IH [OF that, of "snd m"] by (cases m) auto
  qed
  have open': "\<not> depth \<le> length st" using VDict.prems(2) by simp
  have keys: "map fst (map (\<lambda>(k, v). (k, json_dumps f v)) kvs) = map fst kvs"
    by (simp add: case_prod_unfold)
  have "sort_key fst (map (\<lambda>(k, v). (k, json_dumps f v)) kvs) = map (\<lambda>(k, v). (k, json_dumps f v)) kvs"
    by (rule sort_key_id_if_sorted) (unfold keys, use VDict.prems(1) in simp)
  then have printed: "json_dumps f (VDict kvs)
      = CHR 0x7B # json_joined (map (json_member f) kvs) @ [CHR 0x7D]"
    by (simp add: case_prod_unfold comp_def)
  show ?case
  proof (cases kvs)
    case Nil
    with open' show ?thesis
      by (simp add: printed reads_as_def json_run.simps(1) skip_ws_def json_space_def)
  next
    case (Cons m ms)
    obtain k v where m: "m = (k, v)" by (cases m)
    have start: "skip_ws (json_string k @ x) = json_string k @ x"
        "\<exists>t. json_string k @ x = CHR 0x22 # t" for x
      by (simp_all add: skip_ws_def json_space_def json_string_def)
    have k: "ascii k" "json_ready v" using sub [of m] Cons m by simp_all
    have "json_run depth st Want (json_dumps f (VDict kvs) @ r)
        = json_run depth (In_Object [] k # st) Want (json_dumps f v @ members_after f ms @ CHR 0x7D # r)"
      for r
    proof -
      let ?rest = "json_dumps f v @ members_after f ms @ CHR 0x7D # r"
      have "json_dumps f (VDict kvs) @ r = CHR 0x7B # json_string k @ '': '' @ ?rest"
        unfolding printed unfolding Cons joined_members m by simp
      moreover obtain t where t: "json_string k @ '': '' @ ?rest = CHR 0x22 # t"
        using start(2) by blast
      moreover have "json_key (CHR 0x22 # t) = Some (k, ?rest)"
        using json_key_string [OF k(1), of ?rest] skip_ws_dumps [OF k(2)] t by simp
      moreover have "skip_ws (CHR 0x22 # t) = CHR 0x22 # t" using start(1) [of "'': '' @ ?rest"] t by simp
      ultimately show ?thesis using open' by (simp add: json_run.simps(1) [of _ _ "CHR 0x7B # _"])
    qed
    moreover have "json_run depth (In_Object [] k # st) Want
        (json_dumps f v @ members_after f ms @ CHR 0x7D # r)
      = json_run depth st (Have (VDict kvs)) r" for r
      using run_members [of k v ms depth st f "[]" r] sub VDict.prems(1) Cons m by simp
    ultimately show ?thesis by (simp add: reads_as_def)
  qed
qed (simp_all add: reads_as_def json_run.simps(1) json_scalar_def json_literals_def split: nonfinite.split)

lemma json_loads_dumps:
  assumes "json_ready v" "json_depth v \<le> depth"
  shows "json_loads_text depth (json_dumps f v) = Inr v"
proof -
  from reads_dumps [OF assms(1), of "[]" depth f] assms(2)
  have "json_run depth [] Want (json_dumps f v @ []) = json_run depth [] (Have v) []"
    unfolding reads_as_def by (metis json_delimited_simps(1) add_0 list.size(3))
  with skip_ws_dumps [OF assms(1), of f "[]"] show ?thesis
    by (simp add: json_loads_text_def) (simp add: skip_ws_def)
qed

section \<open>The errors of the parser\<close>

lemma json_number_errors: "json_number neg s = Inl e \<Longrightarrow> e \<in> {json_decode_error, value_error}"
  by (auto simp: json_number_def split: if_splits prod.splits)

lemma json_scalar_errors: "json_scalar s = Inl e \<Longrightarrow> e \<in> {json_decode_error, value_error}"
  by (auto simp: json_scalar_def dest: json_number_errors split: list.splits if_splits option.splits)

lemma json_run_errors:
  "json_run depth st m s = Inl e \<Longrightarrow> e \<in> {json_decode_error, value_error, recursion_error}"
proof (induction depth st m s rule: json_run.induct)
  case (1 depth st s)
  show ?case
  proof (cases s)
    case (Cons c r)
    with 1 show ?thesis
      by (auto simp: json_run.simps(1) [of depth st "c # r"] split: list.splits if_splits option.splits
          sum.splits prod.splits dest: json_scalar_errors)
  qed (use 1 in \<open>simp add: json_run.simps(1)\<close>)
qed (auto split: list.splits if_splits option.splits)

lemma json_loads_text_errors:
  "json_loads_text depth t = Inl e \<Longrightarrow> e \<in> {json_decode_error, value_error, recursion_error}"
  by (auto simp: json_loads_text_def Let_def dest: json_run_errors split: prod.splits sum.splits if_splits option.splits)

lemma json_loads_errors:
  "json_loads depth b = Inl e \<Longrightarrow>
     e \<in> {unicode_decode_error, json_decode_error, value_error, recursion_error}"
  by (auto simp: json_loads_def json_loads_text_def json_bytes_text_def Let_def dest: json_run_errors
      split: prod.splits sum.splits if_splits option.splits)

lemma digits_text:
  assumes "list_all is_digit s"
  shows "json_bytes_text s = Inr s"
proof -
  have utf8: "utf8_valid s"
    using assms by (induction s) (auto simp: is_digit_def Let_def)
  have "48 \<le> code c \<and> code c \<le> 57" if "c \<in> set s" for c
    using that assms by (auto simp: list_all_iff is_digit_def)
  then have b: "code c \<noteq> 0 \<and> code c \<noteq> 254 \<and> code c \<noteq> 255 \<and> code c \<noteq> 239" if "c \<in> set s" for c
    using that by fastforce
  have "detect_encoding s = (Utf8, s)"
  proof (cases s rule: remdups_adj.cases)
    case (3 a c t)
    with b [of a] b [of c] show ?thesis by (simp add: detect_encoding_def)
  next
    case (2 a)
    with b [of a] show ?thesis by (simp add: detect_encoding_def)
  qed (simp add: detect_encoding_def)
  with utf8 show ?thesis by (simp add: json_bytes_text_def)
qed

text \<open>An integer the parser's number scanner accepts and \<open>int()\<close> refuses.\<close>

lemma huge_integer:
  assumes "max_int_digits < n"
  shows "json_loads depth (replicate n (CHR ''1'')) = Inl value_error"
proof -
  obtain k where n: "n = Suc k" using assms by (cases n) auto
  have dig: "is_digit (CHR ''1'')" by (simp add: is_digit_def code_def)
  let ?s = "replicate n (CHR ''1'')"
  have all: "\<forall>c \<in> set ?s. is_digit c" using dig by simp
  then have "takeWhile is_digit ?s = ?s" "dropWhile is_digit ?s = []"
    by (simp_all add: takeWhile_eq_all_conv dropWhile_eq_Nil_conv dig)
  with n have "int_digits ?s = (?s, [])" by (simp add: int_digits_def)
  then have "json_number False ?s = Inl value_error"
    using assms n dig by (simp add: json_number_def frac_digits_def exponent_digits_def)
  moreover have "skip_ws ?s = ?s" "json_literal json_literals ?s = None"
    using n json_literal_digit(1) [OF dig, of "replicate k (CHR ''1'')"]
    by (simp_all add: skip_ws_def json_space_def)
  moreover have "json_loads depth ?s = json_loads_text depth ?s"
    using dig by (simp add: json_loads_def digits_text list_all_iff)
  ultimately show ?thesis using n
    by (simp add: json_loads_text_def json_run.simps(1) json_scalar_def)
qed

end
