(* ===== verification/Decimals.thy ===== *)
theory Decimals
  imports Errors
begin

text \<open>
  The part of Python's \<open>decimal\<close> module that money rests on: a decimal is a sign, a coefficient
  and an exponent, or an infinity or a NaN. Arithmetic is done in the default context, with 28
  digits, rounding half to even, exponents up to 999999, and \<open>Overflow\<close> trapped, so a result
  out of range raises.

  \<open>dec_fix\<close> is the context's rounding of a result, \<open>dec_add\<close>, \<open>dec_sub\<close> and \<open>dec_abs\<close> are the
  operators, \<open>dec_lt\<close> and \<open>dec_sign_cmp\<close> compare exactly, \<open>dec_str\<close> is \<open>str(d)\<close>. \<open>scaled d m\<close>
  reads a finite decimal as an integer number of units \<open>10 ^ m\<close>.
\<close>

datatype decimal =
    Fin bool nat int        \<comment> \<open>negative, coefficient, exponent\<close>
  | Infinite bool           \<comment> \<open>negative\<close>
  | NotANumber bool bool    \<comment> \<open>negative, signalling\<close>

fun dec_is_finite :: "decimal \<Rightarrow> bool" where
  "dec_is_finite (Fin _ _ _) = True"
| "dec_is_finite _ = False"

section \<open>Rounding in the default context\<close>

definition dec_prec :: int where "dec_prec = 28"
definition dec_emax :: int where "dec_emax = 999999"
definition dec_etiny :: int where "dec_etiny = - 999999 - 28 + 1"
definition dec_etop :: int where "dec_etop = 999999 - 28 + 1"

definition ndigits :: "nat \<Rightarrow> int" where
  "ndigits c = int (length (show_nat c))"

text \<open>\<open>c div 10 ^ k\<close>, rounded half to even.\<close>

definition half_even :: "nat \<Rightarrow> nat \<Rightarrow> nat" where
  "half_even c k =
     (let q = c div 10 ^ k; r = c mod 10 ^ k
      in if 2 * r < 10 ^ k \<or> 2 * r = 10 ^ k \<and> even q then q else Suc q)"

definition dec_overflow :: exn where
  "dec_overflow = PyExn ''Overflow''"

definition dec_fix :: "bool \<Rightarrow> nat \<Rightarrow> int \<Rightarrow> exn + decimal" where
  "dec_fix s c e =
     (if c = 0 then Inr (Fin s 0 (min (max e dec_etiny) dec_emax))
      else let exp_min = ndigits c + e - dec_prec in
        if dec_etop < exp_min then Inl dec_overflow
        else let exp_min = max exp_min dec_etiny in
          if e < exp_min then
            (let q = half_even c (nat (exp_min - e)) in
               if dec_prec < ndigits q then
                 (if dec_etop < exp_min + 1 then Inl dec_overflow
                  else Inr (Fin s (q div 10) (exp_min + 1)))
               else Inr (Fin s q exp_min))
          else Inr (Fin s c e))"

section \<open>Exact readings\<close>

fun signed_coeff :: "decimal \<Rightarrow> int" where
  "signed_coeff (Fin s c e) = (if s then - int c else int c)"
| "signed_coeff _ = 0"

fun dec_exponent :: "decimal \<Rightarrow> int" where
  "dec_exponent (Fin s c e) = e"
| "dec_exponent _ = 0"

definition scaled :: "decimal \<Rightarrow> int \<Rightarrow> int" where
  "scaled d m = signed_coeff d * 10 ^ nat (dec_exponent d - m)"

text \<open>Comparisons of finite decimals: exact, whatever the exponents.\<close>

definition dec_lt :: "decimal \<Rightarrow> decimal \<Rightarrow> bool" where
  "dec_lt a b = (let m = min (dec_exponent a) (dec_exponent b) in scaled a m < scaled b m)"

definition dec_lt_zero :: "decimal \<Rightarrow> bool" where
  "dec_lt_zero a \<longleftrightarrow> signed_coeff a < 0"

definition dec_le_zero :: "decimal \<Rightarrow> bool" where
  "dec_le_zero a \<longleftrightarrow> signed_coeff a \<le> 0"

definition dec_is_zero :: "decimal \<Rightarrow> bool" where
  "dec_is_zero a \<longleftrightarrow> signed_coeff a = 0"

section \<open>Operators\<close>

text \<open>
  The zero operand of a sum only pulls the exponent of the other down, to \<open>e'\<close> at the lowest; the
  coefficient is padded with zeros.
\<close>

definition dec_pad :: "nat \<Rightarrow> int \<Rightarrow> int \<Rightarrow> nat" where
  "dec_pad c e e' = c * 10 ^ nat (e - e')"

fun dec_add :: "decimal \<Rightarrow> decimal \<Rightarrow> exn + decimal" where
  "dec_add (Fin s1 c1 e1) (Fin s2 c2 e2) =
     (let e = min e1 e2 in
      if c1 = 0 \<and> c2 = 0 then dec_fix (s1 \<and> s2) 0 e
      else if c1 = 0 then
        (let e' = max e (e2 - dec_prec - 1) in dec_fix s2 (dec_pad c2 e2 e') e')
      else if c2 = 0 then
        (let e' = max e (e1 - dec_prec - 1) in dec_fix s1 (dec_pad c1 e1 e') e')
      else
        (let n = scaled (Fin s1 c1 e1) e + scaled (Fin s2 c2 e2) e in
         dec_fix (n < 0) (nat \<bar>n\<bar>) e))"
| "dec_add (Fin s1 c1 e1) d = (case d of NotANumber s True \<Rightarrow> Inl (PyExn ''InvalidOperation'') | _ \<Rightarrow> Inr d)"
| "dec_add (Infinite s) (Fin s2 c2 e2) = Inr (Infinite s)"
| "dec_add (Infinite s) (Infinite t) =
     (if s = t then Inr (Infinite s) else Inl (PyExn ''InvalidOperation''))"
| "dec_add (Infinite s) (NotANumber t sig) =
     (if sig then Inl (PyExn ''InvalidOperation'') else Inr (NotANumber t False))"
| "dec_add (NotANumber t sig) d =
     (if sig then Inl (PyExn ''InvalidOperation'')
      else case d of NotANumber _ True \<Rightarrow> Inl (PyExn ''InvalidOperation'')
           | _ \<Rightarrow> Inr (NotANumber t False))"

fun dec_copy_negate :: "decimal \<Rightarrow> decimal" where
  "dec_copy_negate (Fin s c e) = Fin (\<not> s) c e"
| "dec_copy_negate (Infinite s) = Infinite (\<not> s)"
| "dec_copy_negate (NotANumber s sig) = NotANumber s sig"

text \<open>\<open>a - b\<close> is \<open>a + (- b)\<close> with the sign of \<open>b\<close> flipped without rounding.\<close>

definition dec_sub :: "decimal \<Rightarrow> decimal \<Rightarrow> exn + decimal" where
  "dec_sub a b = dec_add a (dec_copy_negate b)"

fun dec_abs :: "decimal \<Rightarrow> exn + decimal" where
  "dec_abs (Fin s c e) = dec_fix False c e"
| "dec_abs (Infinite s) = Inr (Infinite False)"
| "dec_abs (NotANumber s sig) =
     (if sig then Inl (PyExn ''InvalidOperation'') else Inr (NotANumber s False))"

section \<open>Text\<close>

text \<open>\<open>str(d)\<close>: plain notation while the exponent is small, scientific otherwise.\<close>

definition signed_decimal_str :: "int \<Rightarrow> string" where
  "signed_decimal_str i = (if i < 0 then show_int i else CHR ''+'' # show_int i)"

fun dec_str :: "decimal \<Rightarrow> string" where
  "dec_str (Fin s c e) =
     (let digits = show_nat c;
          len = int (length digits);
          leftdigits = e + len;
          dotplace = (if e \<le> 0 \<and> - 6 < leftdigits then leftdigits else 1);
          body = (if dotplace \<le> 0 then ''0.'' @ replicate (nat (- dotplace)) (CHR ''0'') @ digits
                  else if len \<le> dotplace then digits @ replicate (nat (dotplace - len)) (CHR ''0'')
                  else take (nat dotplace) digits @ ''.'' @ drop (nat dotplace) digits);
          expo = (if leftdigits = dotplace then []
                  else CHR ''E'' # signed_decimal_str (leftdigits - dotplace))
      in (if s then ''-'' else []) @ body @ expo)"
| "dec_str (Infinite s) = (if s then ''-Infinity'' else ''Infinity'')"
| "dec_str (NotANumber s sig) = (if s then ''-'' else []) @ (if sig then ''sNaN'' else ''NaN'')"

section \<open>When rounding leaves a result alone\<close>

lemma dec_fix_exact:
  assumes "c < 10 ^ 28" "dec_etiny \<le> e" "e \<le> dec_etop"
  shows "dec_fix s c e = Inr (Fin s c e)"
proof (cases "c = 0")
  case True
  with assms show ?thesis by (simp add: dec_fix_def dec_etop_def dec_emax_def)
next
  case False
  have "length (show_nat c) \<le> 28" by (rule length_show_nat_less) (use assms in auto)
  then have "ndigits c \<le> 28" by (simp add: ndigits_def)
  with False assms show ?thesis by (auto simp: dec_fix_def dec_prec_def Let_def)
qed

lemma scaled_Fin: "scaled (Fin s c e) m = (if s then - int c else int c) * 10 ^ nat (e - m)"
  by (simp add: scaled_def)

lemma scaled_shift:
  "k \<le> m \<Longrightarrow> m \<le> dec_exponent d \<Longrightarrow> scaled d k = scaled d m * 10 ^ nat (m - k)"
  by (simp add: scaled_def mult.assoc flip: power_add nat_add_distrib)

lemma dec_lt_scaled:
  assumes "k \<le> dec_exponent a" "k \<le> dec_exponent b"
  shows "dec_lt a b \<longleftrightarrow> scaled a k < scaled b k"
proof -
  let ?m = "min (dec_exponent a) (dec_exponent b)"
  have "scaled a k = scaled a ?m * 10 ^ nat (?m - k)" "scaled b k = scaled b ?m * 10 ^ nat (?m - k)"
    using assms by (auto intro!: scaled_shift)
  then show ?thesis by (simp add: dec_lt_def Let_def)
qed

end
