(* ===== verification/Money.thy ===== *)
theory Money
  imports Decimals
begin

text \<open>
  \<open>domain/base/value_object.py\<close> and \<open>domain/value_objects/money.py\<close>: the hook that validates
  a value object at construction, \<open>CurrencyCode\<close> and \<open>Money\<close>.

  The constructors are \<open>currency_new\<close> and \<open>money_new\<close>; they return the exception the validation
  raises, or the value. \<open>cents\<close> reads an amount as an integer number of hundredths; the lemmas
  show that on constructed values the code's decimal arithmetic is exact integer arithmetic on
  \<open>cents\<close>, that the constructor accepts exactly the amounts \<open>NUMERIC(20, 2)\<close> can hold, and
  which exception each refusal is.
\<close>

section \<open>Value objects\<close>

text \<open>\<open>ValueObject.__post_init__\<close>: \<open>validation\<close> is what the subclass's \<open>_validate\<close> does.\<close>

definition value_object_post_init :: "bool \<Rightarrow> string \<Rightarrow> nat \<Rightarrow> exn + unit \<Rightarrow> exn + unit" where
  "value_object_post_init is_base class_name n_fields validation =
     (if is_base then Inl (DomainExn (domain_error_new BASE_CLASS_INSTANTIATION None))
      else if n_fields = 0
        then Inl (domain_exn EMPTY_VALUE_OBJECT [(''class_name'', VStr class_name)])
      else validation)"

section \<open>Currency codes\<close>

datatype currency_code = CurrencyCode (cc_value: string)

definition currency_validate :: "string \<Rightarrow> exn + unit" where
  "currency_validate v =
     (if length v \<noteq> 3 \<or> \<not> py_isalpha v \<or> \<not> py_isupper v
      then Inl (domain_exn CURRENCY_CODE_INVALID [(''value'', VStr v)])
      else Inr ())"

definition currency_new :: "string \<Rightarrow> exn + currency_code" where
  "currency_new v =
     (case value_object_post_init False ''CurrencyCode'' 1 (currency_validate v) of
        Inl e \<Rightarrow> Inl e
      | Inr _ \<Rightarrow> Inr (CurrencyCode v))"

section \<open>Amounts\<close>

definition money_scale :: int where
  "money_scale = 2"

text \<open>\<open>Decimal(10) ** (20 - MONEY_SCALE) - Decimal(1).scaleb(-MONEY_SCALE)\<close>, computed.\<close>

definition money_max :: decimal where
  "money_max = Fin False 99999999999999999999 (- 2)"

record money =
  m_amount :: decimal
  m_currency :: currency_code

definition money_validate :: "decimal \<Rightarrow> exn + unit" where
  "money_validate a =
     (if \<not> dec_is_finite a
        then Inl (domain_exn MONEY_AMOUNT_NOT_FINITE [(''amount'', VStr (dec_str a))])
      else if money_scale < - dec_exponent a
        then Inl (domain_exn MONEY_SCALE_EXCEEDED
               [(''amount'', VStr (dec_str a)), (''max_scale'', VInt money_scale)])
      else (case dec_abs a of
          Inl e \<Rightarrow> Inl e
        | Inr b \<Rightarrow>
            if dec_lt money_max b
            then Inl (domain_exn MONEY_AMOUNT_OUT_OF_RANGE
                   [(''amount'', VStr (dec_str a)), (''max'', VStr (dec_str money_max))])
            else Inr ()))"

definition money_new :: "decimal \<Rightarrow> currency_code \<Rightarrow> exn + money" where
  "money_new a cur =
     (case value_object_post_init False ''Money'' 2 (money_validate a) of
        Inl e \<Rightarrow> Inl e
      | Inr _ \<Rightarrow> Inr \<lparr>m_amount = a, m_currency = cur\<rparr>)"

definition money_zero :: "currency_code \<Rightarrow> exn + money" where
  "money_zero cur = money_new (Fin False 0 (- 2)) cur"

definition assert_same_currency :: "money \<Rightarrow> money \<Rightarrow> exn + unit" where
  "assert_same_currency a b =
     (if m_currency a \<noteq> m_currency b
      then Inl (domain_exn MONEY_CURRENCY_MISMATCH
             [(''left'', VStr (cc_value (m_currency a))),
              (''right'', VStr (cc_value (m_currency b)))])
      else Inr ())"

definition require_positive :: "money \<Rightarrow> exn + money" where
  "require_positive a =
     (if dec_le_zero (m_amount a)
      then Inl (domain_exn MONEY_AMOUNT_NOT_POSITIVE [(''amount'', VStr (dec_str (m_amount a)))])
      else Inr a)"

definition money_add :: "money \<Rightarrow> money \<Rightarrow> exn + money" where
  "money_add a b =
     (case assert_same_currency a b of
        Inl e \<Rightarrow> Inl e
      | Inr _ \<Rightarrow> (case dec_add (m_amount a) (m_amount b) of
          Inl e \<Rightarrow> Inl e
        | Inr d \<Rightarrow> money_new d (m_currency a)))"

definition money_sub :: "money \<Rightarrow> money \<Rightarrow> exn + money" where
  "money_sub a b =
     (case assert_same_currency a b of
        Inl e \<Rightarrow> Inl e
      | Inr _ \<Rightarrow> (case dec_sub (m_amount a) (m_amount b) of
          Inl e \<Rightarrow> Inl e
        | Inr d \<Rightarrow> money_new d (m_currency a)))"

definition money_lt :: "money \<Rightarrow> money \<Rightarrow> exn + bool" where
  "money_lt a b =
     (case assert_same_currency a b of
        Inl e \<Rightarrow> Inl e
      | Inr _ \<Rightarrow> Inr (dec_lt (m_amount a) (m_amount b)))"

definition money_is_zero :: "money \<Rightarrow> bool" where
  "money_is_zero a = dec_is_zero (m_amount a)"

section \<open>Amounts as integers\<close>

definition cents_limit :: int where
  "cents_limit = 99999999999999999999"

definition amount_cents :: "decimal \<Rightarrow> int" where
  "amount_cents a = scaled a (- 2)"

definition cents :: "money \<Rightarrow> int" where
  "cents m = amount_cents (m_amount m)"

text \<open>The values the constructor lets through.\<close>

definition valid_amount :: "decimal \<Rightarrow> bool" where
  "valid_amount a \<longleftrightarrow> dec_is_finite a \<and> - 2 \<le> dec_exponent a \<and> \<bar>amount_cents a\<bar> \<le> cents_limit"

definition valid_money :: "money \<Rightarrow> bool" where
  "valid_money m \<longleftrightarrow> valid_amount (m_amount m)"

lemma amount_cents_Fin:
  "amount_cents (Fin s c e) = (if s then - 1 else 1) * (int c * 10 ^ nat (e + 2))"
  by (simp add: amount_cents_def scaled_def)

lemma abs_amount_cents: "\<bar>amount_cents (Fin s c e)\<bar> = int c * 10 ^ nat (e + 2)"
  by (cases s) (simp_all add: amount_cents_Fin)

lemma money_max_computed:
  "dec_sub (Fin False (10 ^ 18) 0) (Fin False 1 (- 2)) = Inr money_max"
  by (simp add: dec_sub_def money_max_def scaled_def dec_fix_exact dec_etiny_def dec_etop_def)

subsection \<open>How many digits a coefficient has\<close>

lemma show_nat_lower: "0 < n \<Longrightarrow> 10 ^ (length (show_nat n) - 1) \<le> n"
proof (induction n rule: show_nat.induct)
  case (1 n)
  show ?case
  proof (cases "n < 10")
    case True
    with "1.prems" show ?thesis by (simp add: show_nat.simps [of n])
  next
    case False
    then have "10 ^ (length (show_nat (n div 10)) - 1) \<le> n div 10"
      by (intro "1.IH") (auto simp: div_greater_zero_iff)
    then have "10 * 10 ^ (length (show_nat (n div 10)) - 1) \<le> n"
      by (simp add: less_eq_div_iff_mult_less_eq mult.commute)
    moreover have "length (show_nat n) - 1 = Suc (length (show_nat (n div 10)) - 1)"
      using False length_show_nat_pos [of "n div 10"] by (simp add: show_nat.simps [of n])
    ultimately show ?thesis by (simp only: power_Suc)
  qed
qed

lemma ndigits_lower:
  assumes "0 < c" "ndigits c = 28 + int k"
  shows "10 ^ (27 + k) \<le> c"
proof -
  have "length (show_nat c) - 1 = 27 + k" using assms by (simp add: ndigits_def)
  with show_nat_lower [of c] assms show ?thesis by simp
qed

lemma half_even_ge: "c div 10 ^ k \<le> half_even c k"
  by (simp add: half_even_def Let_def)

text \<open>A coefficient too long for the context stays far above the limit when it is rounded.\<close>

lemma dec_fix_big:
  assumes "- 2 \<le> e" "28 < ndigits c" "dec_fix False c e = Inr b"
  shows "\<exists>q f. b = Fin False q f \<and> - 2 \<le> f \<and> 10 ^ 26 \<le> q"
proof -
  have "c \<noteq> 0" using assms(2) by (cases "c = 0") (simp_all add: ndigits_def show_nat.simps [of 0])
  then have c: "0 < c" by simp
  obtain k where k: "ndigits c = 28 + int k" "0 < k"
    using assms(2) by (metis add.commute add_diff_cancel_right' int_nat_eq less_add_same_cancel1
        nat_0_le of_nat_0_less_iff zless_iff_Suc_zadd diff_add_cancel)
  let ?q = "half_even c k"
  have "10 ^ 27 * 10 ^ k \<le> c" using ndigits_lower [OF c k(1)] by (simp add: power_add)
  then have "10 ^ 27 \<le> c div 10 ^ k" by (simp add: less_eq_div_iff_mult_less_eq)
  then have q: "10 ^ 27 \<le> ?q" using half_even_ge [of c k] by linarith
  then have "10 ^ 26 \<le> ?q div 10" by (simp add: less_eq_div_iff_mult_less_eq)
  with q assms c k show ?thesis
    by (auto simp: dec_fix_def dec_prec_def dec_etiny_def Let_def max_def split: if_splits)
qed

subsection \<open>The constructor accepts exactly the representable amounts\<close>

lemma scaled_abs_Fin: "- 2 \<le> e \<Longrightarrow> dec_lt money_max (Fin False c e) \<longleftrightarrow> cents_limit < int c * 10 ^ nat (e + 2)"
  by (subst dec_lt_scaled [of "- 2"]) (auto simp: money_max_def scaled_def cents_limit_def)

lemma dec_abs_small:
  assumes "- 2 \<le> e" "int c * 10 ^ nat (e + 2) \<le> cents_limit"
  shows "\<exists>f. dec_abs (Fin s c e) = Inr (Fin False c f) \<and> \<not> dec_lt money_max (Fin False c f)"
proof (cases "c = 0")
  case True
  then show ?thesis
    by (auto simp: dec_fix_def dec_lt_def money_max_def scaled_def Let_def)
next
  case False
  have c: "int c \<le> int c * 10 ^ nat (e + 2)" by (simp add: mult_le_cancel_left1)
  have "nat (e + 2) < 20"
  proof (rule ccontr)
    assume "\<not> nat (e + 2) < 20"
    then have "(10::int) ^ 20 \<le> 10 ^ nat (e + 2)" by (intro power_increasing) auto
    also have "\<dots> \<le> int c * 10 ^ nat (e + 2)" using False by (simp add: mult_le_cancel_right1)
    finally show False using assms(2) by (simp add: cents_limit_def)
  qed
  with assms c have "c < 10 ^ 28" "e \<le> dec_etop" "dec_etiny \<le> e"
    by (auto simp: cents_limit_def dec_etop_def dec_etiny_def)
  then have "dec_abs (Fin s c e) = Inr (Fin False c e)" by (simp add: dec_fix_exact)
  with assms show ?thesis by (simp add: scaled_abs_Fin)
qed

lemma dec_abs_large:
  assumes e: "- 2 \<le> e" and big: "cents_limit < int c * 10 ^ nat (e + 2)"
    and abs: "dec_abs (Fin s c e) = Inr b"
  shows "dec_lt money_max b"
proof (cases "28 < ndigits c")
  case True
  then obtain q f where b: "b = Fin False q f" and f: "- 2 \<le> f" and q: "10 ^ 26 \<le> q"
    using dec_fix_big [OF e True] abs by auto
  have "(10::int) ^ 26 \<le> int q" using q by (metis of_nat_le_iff of_nat_numeral of_nat_power)
  also have "int q \<le> int q * 10 ^ nat (f + 2)" by (simp add: mult_le_cancel_left1)
  finally have "cents_limit < int q * 10 ^ nat (f + 2)" by (simp add: cents_limit_def)
  with b f show ?thesis by (simp add: scaled_abs_Fin)
next
  case False
  have "c \<noteq> 0" using big by (cases "c = 0") (simp_all add: cents_limit_def)
  with False e abs have "b = Fin False c e"
    by (auto simp: dec_fix_def dec_prec_def dec_etiny_def Let_def split: if_splits)
  with e big show ?thesis by (simp add: scaled_abs_Fin)
qed

lemma dec_abs_error: "dec_abs (Fin s c e) = Inl x \<Longrightarrow> x = dec_overflow"
  by (auto simp: dec_fix_def Let_def split: if_splits)

text \<open>
  Validation, by cases: what it accepts, and what it raises. The last alternative is not a
  \<open>DomainError\<close>: \<open>abs\<close> leaves the exponent range of the context and traps \<open>Overflow\<close>.
\<close>

lemma money_validate_cases:
  "money_validate a =
    (if valid_amount a then Inr ()
     else if \<not> dec_is_finite a
       then Inl (domain_exn MONEY_AMOUNT_NOT_FINITE [(''amount'', VStr (dec_str a))])
     else if dec_exponent a < - 2
       then Inl (domain_exn MONEY_SCALE_EXCEEDED
              [(''amount'', VStr (dec_str a)), (''max_scale'', VInt 2)])
     else if dec_abs a = Inl dec_overflow then Inl dec_overflow
     else Inl (domain_exn MONEY_AMOUNT_OUT_OF_RANGE
            [(''amount'', VStr (dec_str a)), (''max'', VStr (dec_str money_max))]))"
proof (cases a)
  case (Fin s c e)
  consider "e < - 2" | "- 2 \<le> e" "int c * 10 ^ nat (e + 2) \<le> cents_limit"
    | "- 2 \<le> e" "cents_limit < int c * 10 ^ nat (e + 2)" by linarith
  then show ?thesis
  proof cases
    case 1
    with Fin show ?thesis by (simp add: money_validate_def valid_amount_def money_scale_def)
  next
    case 2
    from dec_abs_small [OF this, of s] Fin 2 show ?thesis
      by (auto simp: money_validate_def valid_amount_def money_scale_def amount_cents_Fin abs_mult
          simp del: dec_abs.simps)
  next
    case 3
    then have "\<not> valid_amount a"
      using Fin by (auto simp: valid_amount_def amount_cents_Fin abs_mult)
    with Fin 3 dec_abs_large [OF 3, of s] dec_abs_error [of s c e] show ?thesis
      by (auto simp: money_validate_def money_scale_def simp del: dec_abs.simps split: sum.splits)
  qed
qed (simp_all add: money_validate_def valid_amount_def)

lemma money_new_Inr_iff:
  "money_new a cur = Inr m \<longleftrightarrow> valid_amount a \<and> m = \<lparr>m_amount = a, m_currency = cur\<rparr>"
  by (auto simp: money_new_def value_object_post_init_def money_validate_cases split: sum.splits if_splits)

lemma money_new_valid [simp]:
  "valid_amount a \<Longrightarrow> money_new a cur = Inr \<lparr>m_amount = a, m_currency = cur\<rparr>"
  by (simp add: money_new_Inr_iff)

lemma valid_money_new: "money_new a cur = Inr m \<Longrightarrow> valid_money m"
  by (auto simp: money_new_Inr_iff valid_money_def)

lemma money_zero_eq: "money_zero cur = Inr \<lparr>m_amount = Fin False 0 (- 2), m_currency = cur\<rparr>"
  by (simp add: money_zero_def money_new_Inr_iff valid_amount_def amount_cents_Fin cents_limit_def)

subsection \<open>Sums and comparisons are exact\<close>

lemma nonzero_exponent_bound:
  assumes "c \<noteq> 0" "int c * 10 ^ nat (e + 2) \<le> 2 * cents_limit"
  shows "nat (e + 2) < 21"
proof (rule ccontr)
  assume "\<not> nat (e + 2) < 21"
  then have "(10::int) ^ 21 \<le> 10 ^ nat (e + 2)" by (intro power_increasing) auto
  also have "\<dots> \<le> int c * 10 ^ nat (e + 2)" using assms(1) by (simp add: mult_le_cancel_right1)
  finally show False using assms(2) by (simp add: cents_limit_def)
qed

text \<open>The context never rounds a sum of two valid amounts.\<close>

lemma dec_fix_cents:
  assumes "- 2 \<le> e" "int c * 10 ^ nat (e + 2) \<le> 2 * cents_limit"
  shows "\<exists>f. dec_fix s c e = Inr (Fin s c f) \<and> - 2 \<le> f
           \<and> int c * 10 ^ nat (f + 2) = int c * 10 ^ nat (e + 2)"
proof (cases "c = 0")
  case True
  with assms show ?thesis by (simp add: dec_fix_def dec_etiny_def dec_emax_def)
next
  case False
  have "nat (e + 2) < 21" by (rule nonzero_exponent_bound [OF False assms(2)])
  moreover have "int c \<le> int c * 10 ^ nat (e + 2)" by (simp add: mult_le_cancel_left1)
  ultimately have "c < 10 ^ 28" "e \<le> dec_etop" "dec_etiny \<le> e"
    using assms by (auto simp: cents_limit_def dec_etop_def dec_etiny_def)
  with assms show ?thesis by (auto simp: dec_fix_exact)
qed

lemma abs_signed_coeff: "\<bar>signed_coeff (Fin s c e)\<bar> = int c"
  by simp

lemma amount_cents_scaled:
  "- 2 \<le> m \<Longrightarrow> m \<le> dec_exponent d \<Longrightarrow> amount_cents d = scaled d m * 10 ^ nat (m + 2)"
  using scaled_shift [of "- 2" m d] by (simp add: amount_cents_def)

lemma dec_add_valid:
  assumes a: "valid_amount (Fin s1 c1 e1)" and b: "valid_amount (Fin s2 c2 e2)"
  shows "\<exists>s c f. dec_add (Fin s1 c1 e1) (Fin s2 c2 e2) = Inr (Fin s c f) \<and> - 2 \<le> f
    \<and> amount_cents (Fin s c f) = amount_cents (Fin s1 c1 e1) + amount_cents (Fin s2 c2 e2)"
    (is "\<exists>s c f. ?sum = _ \<and> _ \<and> _ = ?n1 + ?n2")
proof -
  let ?e = "min e1 e2"
  have e: "- 2 \<le> ?e" and n: "\<bar>?n1\<bar> \<le> cents_limit" "\<bar>?n2\<bar> \<le> cents_limit"
    using a b by (auto simp: valid_amount_def)
  have pad: "\<exists>s f. dec_fix s' (dec_pad c e' ?e) ?e = Inr (Fin s (dec_pad c e' ?e) f) \<and> - 2 \<le> f
      \<and> amount_cents (Fin s (dec_pad c e' ?e) f) = amount_cents (Fin s' c e')"
    if "?e \<le> e'" "\<bar>amount_cents (Fin s' c e')\<bar> \<le> cents_limit" for s' c e'
  proof -
    have "nat (e' - ?e) + nat (?e + 2) = nat (e' + 2)" using that e by arith
    then have p: "int (dec_pad c e' ?e) * 10 ^ nat (?e + 2) = int c * 10 ^ nat (e' + 2)"
      by (simp add: dec_pad_def mult.assoc flip: power_add)
    with that have "int (dec_pad c e' ?e) * 10 ^ nat (?e + 2) \<le> 2 * cents_limit"
      by (simp add: abs_amount_cents cents_limit_def)
    from dec_fix_cents [OF e this, of s'] show ?thesis
      using p by (auto simp: amount_cents_Fin)
  qed
  have expo: "e' - dec_prec - 1 \<le> ?e" if "c \<noteq> 0" "\<bar>amount_cents (Fin s' c e')\<bar> \<le> cents_limit" for s' c e'
    using nonzero_exponent_bound [of c e'] that e
    by (auto simp: abs_amount_cents dec_prec_def cents_limit_def)
  consider "c1 = 0" "c2 = 0" | "c1 = 0" "c2 \<noteq> 0" | "c1 \<noteq> 0" "c2 = 0" | "c1 \<noteq> 0" "c2 \<noteq> 0" by blast
  then show ?thesis
  proof cases
    case 1
    then have "?n1 = 0" "?n2 = 0" by (simp_all add: amount_cents_Fin)
    with 1 dec_fix_cents [OF e, of 0 "s1 \<and> s2"] show ?thesis
      by (auto simp: Let_def amount_cents_Fin cents_limit_def)
  next
    case 2
    then have "?n1 = 0" by (simp add: amount_cents_Fin)
    have "max ?e (e2 - dec_prec - 1) = ?e" by (rule max_absorb1) (rule expo [OF 2(2) n(2)])
    then have "?sum = dec_fix s2 (dec_pad c2 e2 ?e) ?e"
      using 2 by (simp only: dec_add.simps Let_def) simp
    moreover obtain s f where "dec_fix s2 (dec_pad c2 e2 ?e) ?e = Inr (Fin s (dec_pad c2 e2 ?e) f)"
      "- 2 \<le> f" "amount_cents (Fin s (dec_pad c2 e2 ?e) f) = ?n2"
      using pad [of e2 s2 c2] n by auto
    ultimately show ?thesis using \<open>?n1 = 0\<close> by (metis add_0)
  next
    case 3
    then have "?n2 = 0" by (simp add: amount_cents_Fin)
    have "max ?e (e1 - dec_prec - 1) = ?e" by (rule max_absorb1) (rule expo [OF 3(1) n(1)])
    then have "?sum = dec_fix s1 (dec_pad c1 e1 ?e) ?e"
      using 3 by (simp only: dec_add.simps Let_def) simp
    moreover obtain s f where "dec_fix s1 (dec_pad c1 e1 ?e) ?e = Inr (Fin s (dec_pad c1 e1 ?e) f)"
      "- 2 \<le> f" "amount_cents (Fin s (dec_pad c1 e1 ?e) f) = ?n1"
      using pad [of e1 s1 c1] n by auto
    ultimately show ?thesis using \<open>?n2 = 0\<close> by (metis add_0_right)
  next
    case 4
    let ?n = "scaled (Fin s1 c1 e1) ?e + scaled (Fin s2 c2 e2) ?e"
    have sum: "?n * 10 ^ nat (?e + 2) = ?n1 + ?n2"
      using e by (simp add: amount_cents_scaled [of ?e] distrib_right)
    have "\<bar>?n\<bar> * 10 ^ nat (?e + 2) = \<bar>?n1 + ?n2\<bar>"
      by (simp add: sum [symmetric] abs_mult)
    with n have "int (nat \<bar>?n\<bar>) * 10 ^ nat (?e + 2) \<le> 2 * cents_limit" by simp
    then obtain f where f: "dec_fix (?n < 0) (nat \<bar>?n\<bar>) ?e = Inr (Fin (?n < 0) (nat \<bar>?n\<bar>) f)" "- 2 \<le> f"
        "int (nat \<bar>?n\<bar>) * 10 ^ nat (f + 2) = int (nat \<bar>?n\<bar>) * 10 ^ nat (?e + 2)"
      using dec_fix_cents [OF e] by blast
    have "?sum = dec_fix (?n < 0) (nat \<bar>?n\<bar>) ?e"
      using 4 by (simp only: dec_add.simps Let_def) simp
    moreover have "amount_cents (Fin (?n < 0) (nat \<bar>?n\<bar>) f) = ?n * 10 ^ nat (?e + 2)"
      unfolding amount_cents_Fin f(3) by (cases "?n < 0") (simp_all add: algebra_simps)
    ultimately show ?thesis using f(1,2) sum by metis
  qed
qed

text \<open>
  The operators of \<open>Money\<close> on valid values: exact integer arithmetic, refused with
  \<open>MONEY_AMOUNT_OUT_OF_RANGE\<close> exactly when the result does not fit.
\<close>

definition out_of_range_exn :: "decimal \<Rightarrow> exn" where
  "out_of_range_exn d = domain_exn MONEY_AMOUNT_OUT_OF_RANGE
     [(''amount'', VStr (dec_str d)), (''max'', VStr (dec_str money_max))]"

lemma money_new_small:
  assumes "dec_is_finite d" "- 2 \<le> dec_exponent d" "\<bar>amount_cents d\<bar> \<le> 2 * cents_limit"
  shows "money_new d cur =
    (if \<bar>amount_cents d\<bar> \<le> cents_limit then Inr \<lparr>m_amount = d, m_currency = cur\<rparr>
     else Inl (out_of_range_exn d))"
proof (cases d)
  case (Fin s c e)
  with assms have "int c * 10 ^ nat (e + 2) \<le> 2 * cents_limit"
    by (simp add: abs_amount_cents)
  with assms Fin have "dec_abs d \<noteq> Inl dec_overflow"
    using dec_fix_cents [of e c False] by auto
  with assms Fin show ?thesis
    by (auto simp: money_new_def value_object_post_init_def money_validate_cases valid_amount_def
        out_of_range_exn_def)
qed (use assms in simp_all)

lemma valid_amountE:
  assumes "valid_amount a"
  obtains s c e where "a = Fin s c e" "- 2 \<le> e" "\<bar>amount_cents a\<bar> \<le> cents_limit"
  using assms by (cases a) (auto simp: valid_amount_def)

lemma valid_amount_negate [simp]:
  "valid_amount (Fin (\<not> s) c e) = valid_amount (Fin s c e)"
  by (simp add: valid_amount_def amount_cents_Fin)

lemma amount_cents_negate: "amount_cents (Fin (\<not> s) c e) = - amount_cents (Fin s c e)"
  by (simp add: amount_cents_Fin)

lemma money_add_valid:
  assumes "valid_money a" "valid_money b" "m_currency a = m_currency b"
  shows "if \<bar>cents a + cents b\<bar> \<le> cents_limit
    then \<exists>m. money_add a b = Inr m \<and> valid_money m \<and> cents m = cents a + cents b
          \<and> m_currency m = m_currency a
    else \<exists>d. money_add a b = Inl (out_of_range_exn d)"
proof -
  obtain s1 c1 e1 where a: "m_amount a = Fin s1 c1 e1" "\<bar>cents a\<bar> \<le> cents_limit"
    using assms(1) by (auto simp: valid_money_def cents_def elim: valid_amountE)
  obtain s2 c2 e2 where b: "m_amount b = Fin s2 c2 e2" "\<bar>cents b\<bar> \<le> cents_limit"
    using assms(2) by (auto simp: valid_money_def cents_def elim: valid_amountE)
  obtain s c f where d: "dec_add (m_amount a) (m_amount b) = Inr (Fin s c f)" "- 2 \<le> f"
      "amount_cents (Fin s c f) = cents a + cents b"
    using dec_add_valid [of s1 c1 e1 s2 c2 e2] assms a b by (auto simp: valid_money_def cents_def)
  then have "money_new (Fin s c f) (m_currency a) =
      (if \<bar>cents a + cents b\<bar> \<le> cents_limit
       then Inr \<lparr>m_amount = Fin s c f, m_currency = m_currency a\<rparr>
       else Inl (out_of_range_exn (Fin s c f)))"
    using a b money_new_small [of "Fin s c f"] by simp
  with d assms(3) show ?thesis
    by (auto simp: money_add_def assert_same_currency_def valid_money_def valid_amount_def cents_def)
qed

lemma money_sub_valid:
  assumes "valid_money a" "valid_money b" "m_currency a = m_currency b"
  shows "if \<bar>cents a - cents b\<bar> \<le> cents_limit
    then \<exists>m. money_sub a b = Inr m \<and> valid_money m \<and> cents m = cents a - cents b
          \<and> m_currency m = m_currency a
    else \<exists>d. money_sub a b = Inl (out_of_range_exn d)"
proof -
  let ?b = "b\<lparr>m_amount := dec_copy_negate (m_amount b)\<rparr>"
  have "valid_money ?b \<and> cents ?b = - cents b"
    using assms(2) by (auto simp: valid_money_def cents_def amount_cents_negate elim!: valid_amountE)
      (simp_all add: valid_amount_def amount_cents_negate)
  then have b: "valid_money ?b" and c: "cents ?b = - cents b" by simp_all
  have "money_sub a b = money_add a ?b"
    using assms(3) by (simp add: money_sub_def money_add_def dec_sub_def assert_same_currency_def)
  then show ?thesis
    using money_add_valid [OF assms(1) b] assms(3) by (auto simp: c split: if_splits)
qed

lemma money_lt_valid:
  assumes "valid_money a" "valid_money b" "m_currency a = m_currency b"
  shows "money_lt a b = Inr (cents a < cents b)"
  using assms dec_lt_scaled [of "- 2" "m_amount a" "m_amount b"]
  by (simp add: money_lt_def assert_same_currency_def valid_money_def valid_amount_def cents_def
      amount_cents_def)

lemma money_currency_mismatch:
  assumes "m_currency a \<noteq> m_currency b"
  shows "money_add a b = Inl (domain_exn MONEY_CURRENCY_MISMATCH
      [(''left'', VStr (cc_value (m_currency a))), (''right'', VStr (cc_value (m_currency b)))])"
    and "money_sub a b = money_add a b"
    and "money_lt a b = Inl (domain_exn MONEY_CURRENCY_MISMATCH
      [(''left'', VStr (cc_value (m_currency a))), (''right'', VStr (cc_value (m_currency b)))])"
  using assms by (simp_all add: money_add_def money_sub_def money_lt_def assert_same_currency_def)

lemma amount_cents_sign: "sgn (amount_cents a) = sgn (signed_coeff a)"
  by (simp add: amount_cents_def scaled_def sgn_mult)

lemma require_positive_eq:
  "require_positive a =
    (if 0 < cents a then Inr a
     else Inl (domain_exn MONEY_AMOUNT_NOT_POSITIVE [(''amount'', VStr (dec_str (m_amount a)))]))"
  using amount_cents_sign [of "m_amount a"]
  by (auto simp: require_positive_def dec_le_zero_def cents_def sgn_if split: if_splits)

lemma money_is_zero_iff: "money_is_zero a \<longleftrightarrow> cents a = 0"
  using amount_cents_sign [of "m_amount a"]
  by (auto simp: money_is_zero_def dec_is_zero_def cents_def sgn_if split: if_splits)

lemma dec_lt_zero_iff: "dec_lt_zero (m_amount a) \<longleftrightarrow> cents a < 0"
  using amount_cents_sign [of "m_amount a"]
  by (auto simp: dec_lt_zero_def cents_def sgn_if split: if_splits)

lemma money_zero_facts:
  "money_zero cur = Inr z \<Longrightarrow> valid_money z \<and> cents z = 0 \<and> m_currency z = cur"
  by (auto simp: money_zero_eq valid_money_def valid_amount_def cents_def amount_cents_Fin
      cents_limit_def)

section \<open>Properties\<close>

text \<open>C22: \<open>Money\<close> accepts exactly the amounts \<open>NUMERIC(20, 2)\<close> holds without rounding, and each
  refusal is the error of the first check that fails. The one refusal that is not a
  \<open>DomainError\<close> is the \<open>decimal.Overflow\<close> that \<open>abs\<close> raises.\<close>

theorem money_construction_exact:
  "money_new a cur =
    (if valid_amount a then Inr \<lparr>m_amount = a, m_currency = cur\<rparr>
     else if \<not> dec_is_finite a
       then Inl (domain_exn MONEY_AMOUNT_NOT_FINITE [(''amount'', VStr (dec_str a))])
     else if dec_exponent a < - 2
       then Inl (domain_exn MONEY_SCALE_EXCEEDED
              [(''amount'', VStr (dec_str a)), (''max_scale'', VInt 2)])
     else if dec_abs a = Inl dec_overflow then Inl dec_overflow
     else Inl (domain_exn MONEY_AMOUNT_OUT_OF_RANGE
            [(''amount'', VStr (dec_str a)), (''max'', VStr (dec_str money_max))]))"
  by (simp add: money_new_def value_object_post_init_def money_validate_cases)

text \<open>On constructed money of one currency, sum, difference and comparison are exact on the
  cents; the sum and the difference are refused exactly when the result does not fit the column.\<close>

lemma money_arithmetic_exact:
  assumes "valid_money a" "valid_money b" "m_currency a = m_currency b"
  shows "money_lt a b = Inr (cents a < cents b)
    \<and> (if \<bar>cents a + cents b\<bar> \<le> cents_limit
       then \<exists>m. money_add a b = Inr m \<and> valid_money m \<and> cents m = cents a + cents b
              \<and> m_currency m = m_currency a
       else \<exists>d. money_add a b = Inl (out_of_range_exn d))
    \<and> (if \<bar>cents a - cents b\<bar> \<le> cents_limit
       then \<exists>m. money_sub a b = Inr m \<and> valid_money m \<and> cents m = cents a - cents b
              \<and> m_currency m = m_currency a
       else \<exists>d. money_sub a b = Inl (out_of_range_exn d))"
  using money_lt_valid [OF assms] money_add_valid [OF assms] money_sub_valid [OF assms] by blast

lemma money_arithmetic_exact_witness:
  "\<exists>m. money_sub \<lparr>m_amount = Fin False 105 (- 1), m_currency = CurrencyCode ''EUR''\<rparr>
         \<lparr>m_amount = Fin False 225 (- 2), m_currency = CurrencyCode ''EUR''\<rparr> = Inr m \<and> cents m = 825"
  using money_arithmetic_exact
    [of "\<lparr>m_amount = Fin False 105 (- 1), m_currency = CurrencyCode ''EUR''\<rparr>"
      "\<lparr>m_amount = Fin False 225 (- 2), m_currency = CurrencyCode ''EUR''\<rparr>"]
  by (auto simp: valid_money_def valid_amount_def cents_def amount_cents_Fin cents_limit_def)

text \<open>A finite amount whose exponent lies beyond the decimal context makes the constructor
  raise \<open>decimal.Overflow\<close>, which no handler of \<open>DomainError\<close> catches.\<close>

theorem money_overflow_escapes:
  "money_new (Fin False 1 1000000) cur = Inl dec_overflow \<and> \<not> is_domain_exn dec_overflow"
  by (simp add: money_new_def value_object_post_init_def money_validate_def money_scale_def
      dec_fix_def ndigits_def show_nat.simps dec_etop_def dec_prec_def dec_overflow_def Let_def)

end
