(* ===== verification/Entities.thy ===== *)
theory Entities
  imports Money Ids
begin

text \<open>
  The entities: \<open>domain/base/entity.py\<close>, \<open>domain/entities/wallet.py\<close> and
  \<open>domain/entities/ledger_entry.py\<close>.

  A mutating method of \<open>Wallet\<close> is a \<open>prog\<close> over the wallet: it returns the exception or the
  value together with the wallet as the method left it, so that a refusal can be shown to change
  nothing. \<open>wf_wallet\<close> is the aggregate's invariant. The abstract account (\<open>acct\<close>) is what a
  caller is promised: a balance in cents, a status and a version; the lemmas show that each
  method implements the abstract step.
\<close>

type_synonym datetime = int \<comment> \<open>microseconds since the epoch, in UTC\<close>

section \<open>Entity\<close>

definition entity_init :: "bool \<Rightarrow> exn + unit" where
  "entity_init is_base =
     (if is_base then Inl (DomainExn (domain_error_new BASE_CLASS_INSTANTIATION None)) else Inr ())"

text \<open>\<open>__setattr__\<close> for the identity: \<open>cur\<close> is the attribute as it stands, \<open>None\<close> before construction.\<close>

definition entity_setattr :: "string \<Rightarrow> string \<Rightarrow> 'id option \<Rightarrow> 'id \<Rightarrow> exn + 'id option" where
  "entity_setattr class_name name cur v =
     (if name = ''id_'' \<and> cur \<noteq> None
      then Inl (domain_exn IDENTITY_IS_IMMUTABLE [(''class_name'', VStr class_name)])
      else if name = ''id_'' then Inr (Some v)
      else Inr cur)"

definition entity_eq :: "string \<times> 'id \<Rightarrow> string \<times> 'id \<Rightarrow> bool" where
  "entity_eq a b = (if fst a \<noteq> fst b then False else snd a = snd b)"

section \<open>Wallet\<close>

datatype wallet_status = OPEN | CLOSED

fun wallet_status_value :: "wallet_status \<Rightarrow> string" where
  "wallet_status_value OPEN = ''open''"
| "wallet_status_value CLOSED = ''closed''"

record wallet =
  w_id :: wallet_id
  w_owner_id :: owner_id
  w_balance :: money
  w_status :: wallet_status
  w_version :: int
  w_created_at :: datetime
  w_updated_at :: datetime

definition wallet_new ::
  "wallet_id \<Rightarrow> owner_id \<Rightarrow> money \<Rightarrow> wallet_status \<Rightarrow> int \<Rightarrow> datetime \<Rightarrow> datetime
     \<Rightarrow> exn + wallet" where
  "wallet_new i owner balance status version created updated =
     (case entity_init False of Inl e \<Rightarrow> Inl e
      | Inr _ \<Rightarrow>
        if dec_lt_zero (m_amount balance)
        then Inl (domain_exn WALLET_BALANCE_NEGATIVE
               [(''wallet_id'', VStr (uuid_str (wid_value i))),
                (''balance'', VStr (dec_str (m_amount balance)))])
        else Inr \<lparr>w_id = i, w_owner_id = owner, w_balance = balance, w_status = status,
                  w_version = version, w_created_at = created, w_updated_at = updated\<rparr>)"

definition wallet_open :: "wallet_id \<Rightarrow> owner_id \<Rightarrow> currency_code \<Rightarrow> datetime \<Rightarrow> exn + wallet" where
  "wallet_open i owner cur now =
     (case money_zero cur of Inl e \<Rightarrow> Inl e
      | Inr zero \<Rightarrow> wallet_new i owner zero OPEN 0 now now)"

definition wallet_currency :: "wallet \<Rightarrow> currency_code" where
  "wallet_currency w = m_currency (w_balance w)"

definition is_owned_by :: "wallet \<Rightarrow> owner_id \<Rightarrow> bool" where
  "is_owned_by w owner \<longleftrightarrow> w_owner_id w = owner"

definition wallet_require_open :: "wallet \<Rightarrow> exn + unit" where
  "wallet_require_open w =
     (if w_status w \<noteq> OPEN
      then Inl (domain_exn WALLET_CLOSED [(''wallet_id'', VStr (uuid_str (wid_value (w_id w))))])
      else Inr ())"

definition wallet_touch :: "datetime \<Rightarrow> wallet \<Rightarrow> wallet" where
  "wallet_touch now w = w\<lparr>w_version := w_version w + 1, w_updated_at := now\<rparr>"

definition wallet_deposit :: "money \<Rightarrow> datetime \<Rightarrow> (wallet, exn, money) prog" where
  "wallet_deposit amount now = (\<lambda>w.
     case wallet_require_open w of Inl e \<Rightarrow> (Inl e, w) | Inr _ \<Rightarrow>
     case require_positive amount of Inl e \<Rightarrow> (Inl e, w) | Inr _ \<Rightarrow>
     case money_add (w_balance w) amount of Inl e \<Rightarrow> (Inl e, w) | Inr b \<Rightarrow>
     let w = wallet_touch now (w\<lparr>w_balance := b\<rparr>) in (Inr (w_balance w), w))"

definition wallet_withdraw :: "money \<Rightarrow> datetime \<Rightarrow> (wallet, exn, money) prog" where
  "wallet_withdraw amount now = (\<lambda>w.
     case wallet_require_open w of Inl e \<Rightarrow> (Inl e, w) | Inr _ \<Rightarrow>
     case require_positive amount of Inl e \<Rightarrow> (Inl e, w) | Inr _ \<Rightarrow>
     case money_lt (w_balance w) amount of Inl e \<Rightarrow> (Inl e, w) | Inr short \<Rightarrow>
     if short then
       (Inl (domain_exn WALLET_INSUFFICIENT_FUNDS
          [(''wallet_id'', VStr (uuid_str (wid_value (w_id w)))),
           (''balance'', VStr (dec_str (m_amount (w_balance w)))),
           (''requested'', VStr (dec_str (m_amount amount)))]), w)
     else
     case money_sub (w_balance w) amount of Inl e \<Rightarrow> (Inl e, w) | Inr b \<Rightarrow>
     let w = wallet_touch now (w\<lparr>w_balance := b\<rparr>) in (Inr (w_balance w), w))"

definition wallet_close :: "datetime \<Rightarrow> (wallet, exn, unit) prog" where
  "wallet_close now = (\<lambda>w.
     case wallet_require_open w of Inl e \<Rightarrow> (Inl e, w) | Inr _ \<Rightarrow>
     if \<not> money_is_zero (w_balance w) then
       (Inl (domain_exn WALLET_NOT_EMPTY
          [(''wallet_id'', VStr (uuid_str (wid_value (w_id w)))),
           (''balance'', VStr (dec_str (m_amount (w_balance w))))]), w)
     else (Inr (), wallet_touch now (w\<lparr>w_status := CLOSED\<rparr>)))"

section \<open>Ledger entry\<close>

datatype ledger_direction = CREDIT | DEBIT

fun ledger_direction_value :: "ledger_direction \<Rightarrow> string" where
  "ledger_direction_value CREDIT = ''credit''"
| "ledger_direction_value DEBIT = ''debit''"

record ledger_entry =
  le_id :: ledger_entry_id
  le_wallet_id :: wallet_id
  le_direction :: ledger_direction
  le_amount :: money
  le_balance_after :: money
  le_description :: string
  le_occurred_at :: datetime

definition ledger_record ::
  "ledger_entry_id \<Rightarrow> wallet_id \<Rightarrow> ledger_direction \<Rightarrow> money \<Rightarrow> money \<Rightarrow> string \<Rightarrow> datetime
     \<Rightarrow> ledger_entry" where
  "ledger_record i w dir amount balance_after description now =
     \<lparr>le_id = i, le_wallet_id = w, le_direction = dir, le_amount = amount,
      le_balance_after = balance_after, le_description = py_strip description,
      le_occurred_at = now\<rparr>"

section \<open>The invariant of the aggregate\<close>

definition wf_wallet :: "wallet \<Rightarrow> bool" where
  "wf_wallet w \<longleftrightarrow> valid_money (w_balance w) \<and> 0 \<le> cents (w_balance w)"

lemma wf_walletD: "wf_wallet w \<Longrightarrow> valid_money (w_balance w)" "wf_wallet w \<Longrightarrow> 0 \<le> cents (w_balance w)"
  by (simp_all add: wf_wallet_def)

lemma valid_money_bound: "valid_money m \<Longrightarrow> \<bar>cents m\<bar> \<le> cents_limit"
  by (simp add: valid_money_def valid_amount_def cents_def)

lemma wallet_new_Inr_iff:
  "wallet_new i ow bal st v c u = Inr w \<longleftrightarrow> 0 \<le> cents bal \<and>
     w = \<lparr>w_id = i, w_owner_id = ow, w_balance = bal, w_status = st, w_version = v,
          w_created_at = c, w_updated_at = u\<rparr>"
  by (auto simp: wallet_new_def entity_init_def dec_lt_zero_iff)

lemma wf_wallet_new: "wallet_new i ow bal st v c u = Inr w \<Longrightarrow> valid_money bal \<Longrightarrow> wf_wallet w"
  by (auto simp: wallet_new_Inr_iff wf_wallet_def)

lemma wallet_open_eq:
  "\<exists>w. wallet_open i ow cur now = Inr w \<and> wf_wallet w \<and> w_id w = i \<and> w_owner_id w = ow
     \<and> cents (w_balance w) = 0 \<and> wallet_currency w = cur \<and> w_status w = OPEN \<and> w_version w = 0
     \<and> w_created_at w = now \<and> w_updated_at w = now"
proof -
  obtain z where z: "money_zero cur = Inr z" by (simp add: money_zero_eq)
  from money_zero_facts [OF z] z show ?thesis
    by (simp add: wallet_open_def wallet_new_def entity_init_def dec_lt_zero_iff wf_wallet_def
        wallet_currency_def)
qed

section \<open>What a caller is promised: the abstract account\<close>

text \<open>A wallet without its representation: the balance in cents rather than as a \<open>Decimal\<close>.\<close>

record account =
  ac_owner :: owner_id
  ac_currency :: currency_code
  ac_cents :: int
  ac_open :: bool
  ac_version :: int
  ac_created_at :: datetime
  ac_updated_at :: datetime

definition account_of :: "wallet \<Rightarrow> account" where
  "account_of w =
     \<lparr>ac_owner = w_owner_id w, ac_currency = wallet_currency w, ac_cents = cents (w_balance w),
      ac_open = (w_status w = OPEN), ac_version = w_version w, ac_created_at = w_created_at w,
      ac_updated_at = w_updated_at w\<rparr>"

definition signed_cents :: "ledger_direction \<Rightarrow> int \<Rightarrow> int" where
  "signed_cents dir n = (case dir of CREDIT \<Rightarrow> n | DEBIT \<Rightarrow> - n)"

text \<open>One movement of \<open>n\<close> cents: refused on a closed account, a non-positive amount, another
  currency, an overdraft or an overflow of the column.\<close>

definition account_move ::
  "ledger_direction \<Rightarrow> int \<Rightarrow> currency_code \<Rightarrow> datetime \<Rightarrow> account \<Rightarrow> account option" where
  "account_move dir n cur now a =
     (let b = ac_cents a + signed_cents dir n
      in if ac_open a \<and> 0 < n \<and> cur = ac_currency a \<and> 0 \<le> b \<and> b \<le> cents_limit
         then Some (a\<lparr>ac_cents := b, ac_version := ac_version a + 1, ac_updated_at := now\<rparr>)
         else None)"

lemma account_of_simps [simp]:
  "ac_owner (account_of w) = w_owner_id w" "ac_currency (account_of w) = wallet_currency w"
  "ac_cents (account_of w) = cents (w_balance w)" "ac_open (account_of w) \<longleftrightarrow> w_status w = OPEN"
  "ac_version (account_of w) = w_version w" "ac_created_at (account_of w) = w_created_at w"
  "ac_updated_at (account_of w) = w_updated_at w"
  by (simp_all add: account_of_def)

lemma account_of_created [simp]: "(account_of w)\<lparr>ac_created_at := w_created_at w\<rparr> = account_of w"
  by (simp add: account_of_def)

lemma account_moveE:
  assumes "account_move dir n cur now a = Some a'"
  obtains "ac_open a" "0 < n" "cur = ac_currency a" "0 \<le> ac_cents a + signed_cents dir n"
    "ac_cents a + signed_cents dir n \<le> cents_limit"
    "a' = a\<lparr>ac_cents := ac_cents a + signed_cents dir n, ac_version := ac_version a + 1,
             ac_updated_at := now\<rparr>"
  using assms by (auto simp: account_move_def Let_def split: if_splits)

lemma account_move_currency:
  "account_move dir n cur now a = Some a' \<Longrightarrow> ac_currency a' = cur \<and> ac_currency a = cur"
  by (auto elim: account_moveE)

definition wallet_move :: "ledger_direction \<Rightarrow> money \<Rightarrow> datetime \<Rightarrow> (wallet, exn, money) prog" where
  "wallet_move dir amount now =
     (case dir of CREDIT \<Rightarrow> wallet_deposit amount now | DEBIT \<Rightarrow> wallet_withdraw amount now)"

lemma wallet_move_error_unchanged: "wallet_move dir amount now w = (Inl e, w') \<Longrightarrow> w' = w"
  by (auto simp: wallet_move_def wallet_deposit_def wallet_withdraw_def Let_def
      split: sum.splits if_splits ledger_direction.splits)

lemma wallet_move_frame:
  assumes "wallet_move dir amount now w = (Inr b, w')"
  shows "w' = w\<lparr>w_balance := b, w_version := w_version w + 1, w_updated_at := now\<rparr>"
  using assms
  by (auto simp: wallet_move_def wallet_deposit_def wallet_withdraw_def wallet_touch_def Let_def
      split: sum.splits if_splits ledger_direction.splits)

text \<open>The errors of the two methods, in the order they are checked.\<close>

definition move_refusal :: "ledger_direction \<Rightarrow> money \<Rightarrow> wallet \<Rightarrow> domain_error_code option" where
  "move_refusal dir amount w =
     (if w_status w \<noteq> OPEN then Some WALLET_CLOSED
      else if cents amount \<le> 0 then Some MONEY_AMOUNT_NOT_POSITIVE
      else if m_currency amount \<noteq> wallet_currency w then Some MONEY_CURRENCY_MISMATCH
      else case dir of
        CREDIT \<Rightarrow> if cents_limit < cents (w_balance w) + cents amount
                  then Some MONEY_AMOUNT_OUT_OF_RANGE else None
      | DEBIT \<Rightarrow> if cents (w_balance w) < cents amount
                 then Some WALLET_INSUFFICIENT_FUNDS else None)"

definition is_refusal :: "exn \<Rightarrow> domain_error_code \<Rightarrow> bool" where
  "is_refusal e c \<longleftrightarrow> (\<exists>ctx. e = domain_exn c ctx)"

lemma wallet_move_cases:
  assumes w: "wf_wallet w" and v: "valid_money amount"
  shows "case move_refusal dir amount w of
      Some c \<Rightarrow> \<exists>e. wallet_move dir amount now w = (Inl e, w) \<and> is_refusal e c
    | None \<Rightarrow> \<exists>b. wallet_move dir amount now w =
          (Inr b, w\<lparr>w_balance := b, w_version := w_version w + 1, w_updated_at := now\<rparr>)
        \<and> valid_money b \<and> m_currency b = wallet_currency w
        \<and> cents b = cents (w_balance w)
            + signed_cents dir (cents amount)"
proof (cases "w_status w = OPEN \<and> 0 < cents amount")
  case False
  then show ?thesis
    by (auto simp: move_refusal_def wallet_move_def wallet_deposit_def wallet_withdraw_def
        wallet_require_open_def require_positive_eq is_refusal_def split: ledger_direction.splits)
next
  case True
  note defs = move_refusal_def wallet_move_def wallet_deposit_def wallet_withdraw_def
    wallet_require_open_def require_positive_eq wallet_currency_def wallet_touch_def is_refusal_def signed_cents_def
  show ?thesis
  proof (cases "m_currency amount = wallet_currency w")
    case False
    then have "m_currency (w_balance w) \<noteq> m_currency amount" by (auto simp: wallet_currency_def)
    note mm = money_currency_mismatch [OF this]
    from True False show ?thesis
      by (auto simp: defs mm split: ledger_direction.splits)
  next
    case same: True
    then have cur: "m_currency (w_balance w) = m_currency amount" by (simp add: wallet_currency_def)
    note add = money_add_valid [OF wf_walletD(1) [OF w] v cur]
      and sub = money_sub_valid [OF wf_walletD(1) [OF w] v cur]
      and lt = money_lt_valid [OF wf_walletD(1) [OF w] v cur]
      and bounds = valid_money_bound [OF v] valid_money_bound [OF wf_walletD(1) [OF w]]
    show ?thesis
    proof (cases dir)
      case CREDIT
      show ?thesis
      proof (cases "cents_limit < cents (w_balance w) + cents amount")
        case big: True
        then obtain d where "money_add (w_balance w) amount = Inl (out_of_range_exn d)"
          using add by (auto split: if_splits)
        with CREDIT big True same show ?thesis by (simp add: defs out_of_range_exn_def)
      next
        case False
        then obtain m where "money_add (w_balance w) amount = Inr m" "valid_money m"
            "cents m = cents (w_balance w) + cents amount" "m_currency m = m_currency (w_balance w)"
          using add True wf_walletD(2) [OF w] by (auto split: if_splits)
        with CREDIT False True same show ?thesis by (simp add: defs Let_def)
      qed
    next
      case DEBIT
      show ?thesis
      proof (cases "cents (w_balance w) < cents amount")
        case short: True
        with DEBIT True same lt show ?thesis by (simp add: defs)
      next
        case False
        then obtain m where "money_sub (w_balance w) amount = Inr m" "valid_money m"
            "cents m = cents (w_balance w) - cents amount" "m_currency m = m_currency (w_balance w)"
          using sub True bounds by (auto split: if_splits)
        with DEBIT False True same lt show ?thesis by (simp add: defs Let_def)
      qed
    qed
  qed
qed

lemma wallet_move_ok:
  assumes "wf_wallet w" "valid_money amount" "wallet_move dir amount now w = (Inr b, w')"
  shows "wf_wallet w'" "valid_money b"
    "cents b = cents (w_balance w) + signed_cents dir (cents amount)"
    "0 < cents amount" "m_currency b = wallet_currency w" "m_currency amount = wallet_currency w"
    "w_status w = OPEN"
  using wallet_move_cases [OF assms(1,2), of dir now] assms
  by (auto simp: wf_wallet_def move_refusal_def signed_cents_def
      split: option.splits if_splits ledger_direction.splits)

lemma wallet_move_refused:
  assumes "wf_wallet w" "valid_money amount" "wallet_move dir amount now w = (Inl e, w')"
  shows "w' = w" "is_domain_exn e" "\<exists>c. move_refusal dir amount w = Some c \<and> is_refusal e c"
  using wallet_move_cases [OF assms(1,2), of dir now] assms
  by (auto simp: is_refusal_def split: option.splits)

text \<open>The methods of the entity implement the abstract movement.\<close>

lemma wallet_move_refines:
  assumes w: "wf_wallet w" and v: "valid_money amount"
  shows "case wallet_move dir amount now w of
      (Inl e, w') \<Rightarrow> w' = w \<and> is_domain_exn e
        \<and> account_move dir (cents amount) (m_currency amount) now (account_of w) = None
    | (Inr b, w') \<Rightarrow> wf_wallet w' \<and> w_id w' = w_id w \<and> w_balance w' = b
        \<and> w_created_at w' = w_created_at w
        \<and> account_move dir (cents amount) (m_currency amount) now (account_of w)
            = Some (account_of w')"
proof -
  note cases = wallet_move_cases [OF w v, of dir now]
  have bound: "cents (w_balance w) \<le> cents_limit" "0 \<le> cents (w_balance w)"
    using valid_money_bound [OF wf_walletD(1) [OF w]] wf_walletD(2) [OF w] by auto
  show ?thesis
  proof (cases "move_refusal dir amount w")
    case None
    with cases obtain b where b: "valid_money b" "m_currency b = wallet_currency w"
        "cents b = cents (w_balance w) + signed_cents dir (cents amount)"
      and run: "wallet_move dir amount now w =
          (Inr b, w\<lparr>w_balance := b, w_version := w_version w + 1, w_updated_at := now\<rparr>)"
      by auto
    from None have r: "w_status w = OPEN" "0 < cents amount" "m_currency amount = wallet_currency w"
        "0 \<le> cents b" "cents b \<le> cents_limit"
      using bound b(3) by (auto simp: move_refusal_def signed_cents_def split: if_splits ledger_direction.splits)
    with run b show ?thesis
      by (auto simp: wf_wallet_def account_move_def account_of_def wallet_currency_def)
  next
    case (Some c)
    with cases obtain e where run: "wallet_move dir amount now w = (Inl e, w)" "is_refusal e c"
      by auto
    moreover have "account_move dir (cents amount) (m_currency amount) now (account_of w) = None"
      using Some bound
      by (auto simp: move_refusal_def account_move_def signed_cents_def
          split: if_splits ledger_direction.splits)
    ultimately show ?thesis by (auto simp: is_refusal_def)
  qed
qed

section \<open>Properties\<close>

definition sample_wallet :: wallet where
  "sample_wallet =
     \<lparr>w_id = WalletId 7, w_owner_id = OwnerId 1,
      w_balance = \<lparr>m_amount = Fin False 10000 (- 2), m_currency = CurrencyCode ''EUR''\<rparr>,
      w_status = OPEN, w_version = 3, w_created_at = 10, w_updated_at = 20\<rparr>"

definition sample_amount :: money where
  "sample_amount = \<lparr>m_amount = Fin False 255 (- 1), m_currency = CurrencyCode ''EUR''\<rparr>"

lemma sample_ok: "wf_wallet sample_wallet" "valid_money sample_amount"
  by (simp_all add: sample_wallet_def sample_amount_def wf_wallet_def valid_money_def
      valid_amount_def cents_def amount_cents_Fin cents_limit_def)

text \<open>C13: \<open>deposit\<close> and \<open>withdraw\<close> implement the abstract movement of an account: a success is
  the abstract step and leaves a well-formed wallet, a failure is a \<open>DomainError\<close>, happens exactly
  when the abstract movement is refused, and leaves the wallet as it was.\<close>

theorem wallet_methods_refine:
  assumes "wf_wallet w" "valid_money amount"
  shows "case wallet_move dir amount now w of
      (Inl e, w') \<Rightarrow> w' = w \<and> is_domain_exn e
        \<and> account_move dir (cents amount) (m_currency amount) now (account_of w) = None
    | (Inr b, w') \<Rightarrow> wf_wallet w' \<and> w_id w' = w_id w \<and> w_balance w' = b
        \<and> w_created_at w' = w_created_at w
        \<and> account_move dir (cents amount) (m_currency amount) now (account_of w)
            = Some (account_of w')"
  using assms by (rule wallet_move_refines)

theorem wallet_methods_refine_witness:
  "case wallet_move DEBIT sample_amount 30 sample_wallet of
      (Inl e, w') \<Rightarrow> False
    | (Inr b, w') \<Rightarrow> cents (w_balance w') = 7450 \<and> w_version w' = 4"
  using wallet_methods_refine [OF sample_ok, of DEBIT 30]
  by (auto simp: account_move_def sample_wallet_def sample_amount_def account_of_def cents_def
      amount_cents_Fin signed_cents_def wallet_currency_def cents_limit_def Let_def
      split: prod.splits sum.splits)

text \<open>Which refusal a movement gets: a closed wallet before a non-positive amount before a
  foreign currency before the overdraft or the overflow of the column, and none otherwise.\<close>

theorem wallet_refusal_order:
  assumes "wf_wallet w" "valid_money amount"
  shows "case move_refusal dir amount w of
      Some c \<Rightarrow> \<exists>e. wallet_move dir amount now w = (Inl e, w) \<and> is_refusal e c
    | None \<Rightarrow> \<exists>b. wallet_move dir amount now w =
          (Inr b, w\<lparr>w_balance := b, w_version := w_version w + 1, w_updated_at := now\<rparr>)
        \<and> valid_money b \<and> m_currency b = wallet_currency w
        \<and> cents b = cents (w_balance w) + signed_cents dir (cents amount)"
  using assms by (rule wallet_move_cases)

theorem wallet_refusal_order_witness:
  "\<exists>e. wallet_move DEBIT \<lparr>m_amount = Fin False 101 0, m_currency = CurrencyCode ''EUR''\<rparr> 30
         sample_wallet = (Inl e, sample_wallet) \<and> is_refusal e WALLET_INSUFFICIENT_FUNDS"
  using wallet_refusal_order [OF sample_ok(1),
      of "\<lparr>m_amount = Fin False 101 0, m_currency = CurrencyCode ''EUR''\<rparr>" DEBIT 30]
  by (simp add: sample_wallet_def move_refusal_def wallet_currency_def valid_money_def
      valid_amount_def cents_def amount_cents_Fin cents_limit_def)

text \<open>\<open>close\<close> closes an open wallet with a zero balance, advancing its version, and refuses any
  other without changing it.\<close>

theorem wallet_close_exact:
  "wallet_close now w =
    (if w_status w \<noteq> OPEN
       then (Inl (domain_exn WALLET_CLOSED
               [(''wallet_id'', VStr (uuid_str (wid_value (w_id w))))]), w)
     else if cents (w_balance w) \<noteq> 0
       then (Inl (domain_exn WALLET_NOT_EMPTY
               [(''wallet_id'', VStr (uuid_str (wid_value (w_id w)))),
                (''balance'', VStr (dec_str (m_amount (w_balance w))))]), w)
     else (Inr (), w\<lparr>w_status := CLOSED, w_version := w_version w + 1, w_updated_at := now\<rparr>))"
  by (simp add: wallet_close_def wallet_require_open_def wallet_touch_def money_is_zero_iff)

end
