(* ===== verification/Ports.thy ===== *)
theory Ports
  imports Entities
begin

text \<open>
  The ports of the application layer (\<open>application/ports/\<close>): the values that cross them and, in
  the record \<open>ports\<close>, one field per operation. An adapter supplies the fields; a use case takes
  the record as an argument, as the constructors of the source take the ports. Every operation
  may raise. The laws an adapter owes are the locales of the theories that model the adapters
  and the service.
\<close>

section \<open>Infrastructure ports\<close>

text \<open>The handle of \<open>async with lock(...)\<close>: what \<open>__aenter__\<close> established and \<open>__aexit__\<close> uses.\<close>

record lock_handle =
  lh_key :: string
  lh_token :: string
  lh_acquired :: bool

record rate_limit_policy =
  rl_name :: string
  rl_limit :: int
  rl_window_seconds :: seconds

record rate_limit_decision =
  rd_allowed :: bool
  rd_remaining :: int
  rd_retry_after_seconds :: seconds

type_synonym response = "(string \<times> pyval) list"

record idempotency_record =
  ir_key :: string
  ir_fingerprint :: string
  ir_response :: response

datatype idempotency_outcome = RESERVED | IN_PROGRESS | COMPLETED | CONFLICT

record idempotency_reservation =
  res_outcome :: idempotency_outcome
  res_record :: "idempotency_record option"

definition may_proceed :: "idempotency_reservation \<Rightarrow> bool" where
  "may_proceed r \<longleftrightarrow> res_outcome r = RESERVED"

record bulkhead_policy =
  bp_name :: string
  bp_limit :: int
  bp_lease_ttl_ms :: int
  bp_wait_timeout_ms :: int
  bp_retry_interval_ms :: int

section \<open>Risk\<close>

datatype risk_outcome = ALLOWED | REFUSED | UNAVAILABLE

record risk_check =
  rc_wallet_id :: wallet_id
  rc_owner_id :: owner_id
  rc_amount :: money
  rc_direction :: ledger_direction
  rc_idempotency_key :: "string option"

record risk_decision =
  rk_outcome :: risk_outcome
  rk_reason :: string
  rk_reference :: string

definition risk_allowed :: "risk_decision \<Rightarrow> bool" where
  "risk_allowed d \<longleftrightarrow> rk_outcome d = ALLOWED"

definition risk_available :: "risk_decision \<Rightarrow> bool" where
  "risk_available d \<longleftrightarrow> rk_outcome d \<noteq> UNAVAILABLE"

section \<open>Metrics\<close>

text \<open>One constructor per method of \<open>MetricsPort\<close>, with its arguments.\<close>

datatype metric =
    RequestStarted
  | RequestFinished string string int seconds
  | RequestFailed string string string seconds
  | ObserveInteractor string string seconds
  | ObserveExternalCall string string string seconds
  | ObserveLock string string seconds
  | ObserveRateLimit string string

section \<open>Repositories\<close>

record 'a page =
  pg_items :: "'a list"
  pg_next_cursor :: "string option"

section \<open>All ports\<close>

record 's ports =
  wallets_read :: "wallet_id \<Rightarrow> owner_id \<Rightarrow> bool \<Rightarrow> ('s, exn, wallet option) prog"
  wallets_list_by_owner :: "owner_id \<Rightarrow> int \<Rightarrow> string option \<Rightarrow> ('s, exn, wallet page) prog"
  wallets_add :: "wallet \<Rightarrow> ('s, exn, unit) prog"
  wallets_update :: "wallet \<Rightarrow> int \<Rightarrow> ('s, exn, bool) prog"
  ledger_add :: "ledger_entry \<Rightarrow> ('s, exn, unit) prog"
  ledger_read :: "ledger_entry_id \<Rightarrow> owner_id \<Rightarrow> ('s, exn, ledger_entry option) prog"
  ledger_list_by_wallet ::
    "wallet_id \<Rightarrow> owner_id \<Rightarrow> int \<Rightarrow> string option \<Rightarrow> ('s, exn, ledger_entry page) prog"
  tx_commit :: "('s, exn, unit) prog"
  tx_rollback :: "('s, exn, unit) prog"
  lock_enter :: "string \<Rightarrow> int \<Rightarrow> int \<Rightarrow> ('s, exn, lock_handle) prog"
  lock_exit :: "lock_handle \<Rightarrow> ('s, exn, unit) prog"
  idem_reserve :: "string \<Rightarrow> string \<Rightarrow> int \<Rightarrow> ('s, exn, idempotency_reservation) prog"
  idem_confirm :: "string \<Rightarrow> response \<Rightarrow> int \<Rightarrow> ('s, exn, unit) prog"
  idem_release :: "string \<Rightarrow> ('s, exn, unit) prog"
  clock_now :: "('s, exn, datetime) prog"
  new_uuid :: "('s, exn, uuid) prog"
  perf_counter :: "('s, exn, seconds) prog"
  rate_consume :: "string \<Rightarrow> rate_limit_policy \<Rightarrow> int \<Rightarrow> ('s, exn, rate_limit_decision) prog"
  risk_assess :: "risk_check \<Rightarrow> ('s, exn, risk_decision) prog"
  observe :: "metric \<Rightarrow> ('s, exn, unit) prog"

text \<open>
  \<open>async with lock(key, ...) as lock: body\<close>. Entering may raise, and then nothing is exited;
  once entered, the exit runs whatever the body does, and an exception of the exit wins.
\<close>

definition with_lock ::
  "'s ports \<Rightarrow> string \<Rightarrow> int \<Rightarrow> int \<Rightarrow> (lock_handle \<Rightarrow> ('s, exn, 'a) prog) \<Rightarrow> ('s, exn, 'a) prog"
  where
  "with_lock P key ttl_ms wait_ms body =
     pbind (lock_enter P key ttl_ms wait_ms)
       (\<lambda>lock. pfinally (body lock) (\<lambda>_. lock_exit P lock))"

end
