(* ===== verification/Transport.thy ===== *)
theory Transport
  imports Json_Parse Ports
begin

text \<open>
  \<open>infrastructure/adapters/http/transport.py\<close>: the outbound call. What is not in the repository
  (\<open>aiohttp\<close>, the event loop's sleep, \<open>random\<close>, the bulkhead behind its port) is the record
  \<open>outbound\<close>; \<open>json.loads\<close> is \<open>Json_Parse\<close>. Warnings in the log are not modelled. A float is
  its exact rational value, or one of the three values that have none.
\<close>

section \<open>Policies and answers\<close>

datatype failure =
    NONE | TIMEOUT | CONNECTION | SERVER_ERROR | CLIENT_ERROR | OVERSIZED | MALFORMED
  | REDIRECTED | BULKHEAD_FULL | BUDGET_EXHAUSTED

fun failure_value :: "failure \<Rightarrow> string" where
  "failure_value NONE = ''none''"
| "failure_value TIMEOUT = ''timeout''"
| "failure_value CONNECTION = ''connection''"
| "failure_value SERVER_ERROR = ''server_error''"
| "failure_value CLIENT_ERROR = ''client_error''"
| "failure_value OVERSIZED = ''oversized''"
| "failure_value MALFORMED = ''malformed''"
| "failure_value REDIRECTED = ''redirected''"
| "failure_value BULKHEAD_FULL = ''bulkhead_full''"
| "failure_value BUDGET_EXHAUSTED = ''budget_exhausted''"

definition retryable :: "failure \<Rightarrow> bool" where
  "retryable f \<longleftrightarrow> f \<in> {TIMEOUT, CONNECTION, SERVER_ERROR}"

definition CORRELATION_HEADER :: string where
  "CORRELATION_HEADER = ''X-Correlation-ID''"

record transport_policy =
  tp_service :: string
  tp_total_timeout_ms :: int
  tp_connect_timeout_ms :: int
  tp_read_timeout_ms :: int
  tp_budget_ms :: int
  tp_max_attempts :: int
  tp_backoff_base_ms :: int
  tp_backoff_max_ms :: int
  tp_max_response_bytes :: int
  tp_bulkhead_limit :: int
  tp_bulkhead_wait_ms :: int
  tp_bulkhead_lease_ttl_ms :: int

definition transport_policy_default :: "string \<Rightarrow> transport_policy" where
  "transport_policy_default service =
     \<lparr>tp_service = service, tp_total_timeout_ms = 800, tp_connect_timeout_ms = 200,
      tp_read_timeout_ms = 700, tp_budget_ms = 1500, tp_max_attempts = 2, tp_backoff_base_ms = 50,
      tp_backoff_max_ms = 400, tp_max_response_bytes = 64 * 1024, tp_bulkhead_limit = 32,
      tp_bulkhead_wait_ms = 0, tp_bulkhead_lease_ttl_ms = 5000\<rparr>"

record session_policy =
  sp_connection_limit :: int
  sp_dns_cache_seconds :: int
  sp_trust_env :: bool
  sp_backstop_timeout_ms :: int

definition session_policy_default :: session_policy where
  "session_policy_default =
     \<lparr>sp_connection_limit = 64, sp_dns_cache_seconds = 30, sp_trust_env = False,
      sp_backstop_timeout_ms = 5000\<rparr>"

record json_response =
  jr_status :: "int option"
  jr_body :: "(string \<times> pyval) list option"
  jr_failure :: failure

definition jr_ok :: "json_response \<Rightarrow> bool" where
  "jr_ok r \<longleftrightarrow> jr_failure r = NONE \<and> jr_body r \<noteq> None"

definition failed :: "int option \<Rightarrow> failure \<Rightarrow> json_response" where
  "failed status f = \<lparr>jr_status = status, jr_body = None, jr_failure = f\<rparr>"

section \<open>The outside world\<close>

text \<open>The arguments of \<open>session.post\<close>.\<close>

record http_request =
  hq_url :: string
  hq_json :: pyval
  hq_headers :: "(string \<times> string) list"
  hq_total_timeout :: seconds
  hq_connect_timeout :: seconds
  hq_sock_read_timeout :: seconds
  hq_allow_redirects :: bool

text \<open>A response whose head has arrived; \<open>hr_id\<close> tells its stream from others.\<close>

record http_response =
  hr_id :: nat
  hr_status :: int
  hr_retry_after :: "string option"

record 's outbound =
  ob_lease_enter :: "bulkhead_policy \<Rightarrow> ('s, exn, nat \<times> bool) prog"
  ob_lease_exit :: "bulkhead_policy \<Rightarrow> nat \<times> bool \<Rightarrow> ('s, exn, unit) prog"
  ob_monotonic :: "('s, exn, seconds) prog"
  ob_perf_counter :: "('s, exn, seconds) prog"
  ob_sleep :: "seconds \<Rightarrow> ('s, exn, unit) prog"
  ob_uniform :: "seconds \<Rightarrow> seconds \<Rightarrow> ('s, exn, seconds) prog"
  ob_correlation_id :: "('s, exn, string option) prog"
  ob_post :: "http_request \<Rightarrow> ('s, exn, http_response) prog"
  ob_read :: "http_response \<Rightarrow> int \<Rightarrow> ('s, exn, string) prog"
  ob_close :: "http_response \<Rightarrow> ('s, exn, unit) prog"
  ob_is_timeout :: "exn \<Rightarrow> bool"
  ob_is_client_error :: "exn \<Rightarrow> bool"
  ob_observe :: "metric \<Rightarrow> ('s, exn, unit) prog"
  ob_recursion_limit :: nat

text \<open>What \<open>JsonHttpTransport.__init__\<close> keeps.\<close>

record transport =
  tr_policy :: transport_policy
  tr_base_url :: string
  tr_default_headers :: "(string \<times> string) list"

definition strip_left :: "char \<Rightarrow> string \<Rightarrow> string" where
  "strip_left c s = dropWhile ((=) c) s"

definition strip_right :: "char \<Rightarrow> string \<Rightarrow> string" where
  "strip_right c s = rev (dropWhile ((=) c) (rev s))"

definition transport_init ::
  "transport_policy \<Rightarrow> string \<Rightarrow> (string \<times> string) list option \<Rightarrow> transport" where
  "transport_init policy base_url default_headers =
     \<lparr>tr_policy = policy, tr_base_url = strip_right (CHR ''/'') base_url,
      tr_default_headers = (case default_headers of None \<Rightarrow> [] | Some hs \<Rightarrow> hs)\<rparr>"

section \<open>Reading a body\<close>

text \<open>The loop of \<open>read_capped\<close>, and the function.\<close>

function read_loop :: "'s outbound \<Rightarrow> http_response \<Rightarrow> int \<Rightarrow> string list \<Rightarrow> int \<Rightarrow> ('s, exn, string) prog"
  where
  "read_loop B h limit chunks got s =
     (case ob_read B h (limit - got) s of
        (Inl e, t) \<Rightarrow> (Inl e, t)
      | (Inr chunk, t) \<Rightarrow>
          if chunk = [] then (Inr (concat chunks), t)
          else if limit \<le> got + int (length chunk) then (Inr (concat (chunks @ [chunk])), t)
          else read_loop B h limit (chunks @ [chunk]) (got + int (length chunk)) t)"
  by pat_completeness auto
termination
  by (relation "measure (\<lambda>(B, h, limit, chunks, got, s). nat (limit - got))")
    (auto simp flip: length_greater_0_conv)

declare read_loop.simps [simp del]

definition read_capped :: "'s outbound \<Rightarrow> http_response \<Rightarrow> int \<Rightarrow> ('s, exn, string) prog" where
  "read_capped B h limit = read_loop B h (max 0 limit) [] 0"

text \<open>The errors \<open>decode_object\<close> turns into \<open>None\<close>; the others of \<open>json.loads\<close> pass.\<close>

definition decode_object :: "nat \<Rightarrow> string \<Rightarrow> exn + (string \<times> pyval) list option" where
  "decode_object depth raw =
     (case json_loads depth raw of
        Inl e \<Rightarrow> if e = json_decode_error \<or> e = unicode_decode_error then Inr None else Inl e
      | Inr (VDict kvs) \<Rightarrow> Inr (Some kvs)
      | Inr _ \<Rightarrow> Inr None)"

section \<open>Retry-After\<close>

datatype py_float = Finite rat | Nonfinite nonfinite

text \<open>\<open>float(text)\<close>: white space around, a sign, then a decimal numeral with single underscores
  between digits, or a name of a value that is not finite.\<close>

definition drop_underscores :: "string \<Rightarrow> string option" where
  "drop_underscores s =
     (if \<exists>i < length s. s ! i = CHR ''_'' \<and>
         (i = 0 \<or> Suc i = length s \<or> \<not> is_digit (s ! (i - 1)) \<or> \<not> is_digit (s ! Suc i))
      then None else Some (filter (\<lambda>c. c \<noteq> CHR ''_'') s))"

definition split_sign :: "string \<Rightarrow> bool \<times> string" where
  "split_sign s =
     (case s of c # r \<Rightarrow> if c = CHR ''-'' then (True, r) else if c = CHR ''+'' then (False, r) else (False, s)
      | [] \<Rightarrow> (False, []))"

definition decimal_value :: "bool \<Rightarrow> string \<Rightarrow> py_float option" where
  "decimal_value neg s =
     (let ip = takeWhile is_digit s; r = dropWhile is_digit s;
          fp = (case r of c # t \<Rightarrow> if c = CHR ''.'' then takeWhile is_digit t else [] | [] \<Rightarrow> []);
          r = (case r of c # t \<Rightarrow> if c = CHR ''.'' then dropWhile is_digit t else r | [] \<Rightarrow> [])
      in case exponent_digits r of (ex, r) \<Rightarrow>
        if ip @ fp = [] \<or> r \<noteq> [] then None
        else case float_value ((if neg then - 1 else 1) * of_nat (read_digits (ip @ fp))
               * pow10 ((case ex of None \<Rightarrow> 0 | Some e \<Rightarrow> e) - int (length fp))) of
          VSpecial n \<Rightarrow> Some (Nonfinite n)
        | VNum x \<Rightarrow> Some (Finite x)
        | _ \<Rightarrow> None)"

definition float_of_text :: "string \<Rightarrow> py_float option" where
  "float_of_text text' =
     (case drop_underscores (py_strip text') of
        None \<Rightarrow> None
      | Some t \<Rightarrow>
          (case split_sign t of (neg, u) \<Rightarrow>
             if py_lower u = ''inf'' \<or> py_lower u = ''infinity'' then
               Some (Nonfinite (if neg then NEG_INFINITE else INFINITE))
             else if py_lower u = ''nan'' then Some (Nonfinite NOT_A_NUMBER)
             else decimal_value neg u))"

text \<open>\<open>max(0.0, seconds) * 1000\<close>; the first argument wins against a NaN.\<close>

definition retry_after_ms :: "string option \<Rightarrow> py_float option" where
  "retry_after_ms header =
     (case header of
        None \<Rightarrow> None
      | Some h \<Rightarrow>
          if h = [] then None
          else (case float_of_text h of
                  None \<Rightarrow> None
                | Some (Finite x) \<Rightarrow> Some (Finite (max 0 x * 1000))
                | Some (Nonfinite INFINITE) \<Rightarrow> Some (Nonfinite INFINITE)
                | Some (Nonfinite _) \<Rightarrow> Some (Finite 0)))"

section \<open>The call\<close>

definition backoff_ms ::
  "'s outbound \<Rightarrow> transport_policy \<Rightarrow> int \<Rightarrow> py_float option \<Rightarrow> ('s, exn, seconds) prog" where
  "backoff_ms B policy attempt retry_after =
     (case retry_after of
        Some (Finite x) \<Rightarrow> pret (min x (of_int (tp_backoff_max_ms policy)))
      | Some (Nonfinite _) \<Rightarrow> pret (of_int (tp_backoff_max_ms policy))
      | None \<Rightarrow> ob_uniform B 0 (of_int (min (tp_backoff_max_ms policy)
                   (tp_backoff_base_ms policy * 2 ^ nat (attempt - 1)))))"

definition transport_headers :: "'s outbound \<Rightarrow> transport \<Rightarrow> ('s, exn, (string \<times> string) list) prog"
  where
  "transport_headers B T =
     pbind (ob_correlation_id B) (\<lambda>cid.
       pret (case cid of
         Some c \<Rightarrow> if c \<noteq> [] then dict_set CORRELATION_HEADER c (tr_default_headers T)
                   else tr_default_headers T
       | None \<Rightarrow> tr_default_headers T))"

text \<open>What a response with this status and these bytes amounts to: the status before the size.\<close>

definition classify :: "nat \<Rightarrow> transport_policy \<Rightarrow> int \<Rightarrow> string \<Rightarrow> exn + json_response" where
  "classify depth policy status raw =
     (if 300 \<le> status \<and> status < 400 then Inr (failed (Some status) REDIRECTED)
      else if 500 \<le> status \<or> status = 429 then Inr (failed (Some status) SERVER_ERROR)
      else if 400 \<le> status then Inr (failed (Some status) CLIENT_ERROR)
      else if tp_max_response_bytes policy < int (length raw) then Inr (failed (Some status) OVERSIZED)
      else case decode_object depth raw of
        Inl e \<Rightarrow> Inl e
      | Inr None \<Rightarrow> Inr (failed (Some status) MALFORMED)
      | Inr (Some body) \<Rightarrow>
          Inr \<lparr>jr_status = Some status, jr_body = Some body, jr_failure = NONE\<rparr>)"

definition timed_request ::
  "transport_policy \<Rightarrow> string \<Rightarrow> pyval \<Rightarrow> seconds \<Rightarrow> (string \<times> string) list \<Rightarrow> http_request" where
  "timed_request policy url payload remaining_ms headers =
     \<lparr>hq_url = url, hq_json = payload, hq_headers = headers,
      hq_total_timeout = min (of_int (tp_total_timeout_ms policy)) remaining_ms / 1000,
      hq_connect_timeout = of_int (tp_connect_timeout_ms policy) / 1000,
      hq_sock_read_timeout = of_int (tp_read_timeout_ms policy) / 1000,
      hq_allow_redirects = False\<rparr>"

text \<open>The block under \<open>async with\<close>, and its exit.\<close>

definition receive ::
  "'s outbound \<Rightarrow> transport_policy \<Rightarrow> http_response \<Rightarrow> ('s, exn, json_response \<times> py_float option) prog"
  where
  "receive B policy response =
     pfinally
       (pbind (read_capped B response (tp_max_response_bytes policy + 1)) (\<lambda>raw.
        pbind (plift (classify (ob_recursion_limit B) policy (hr_status response) raw)) (\<lambda>r.
          pret (r, retry_after_ms (hr_retry_after response)))))
       (\<lambda>_. ob_close B response)"

definition exchange ::
  "'s outbound \<Rightarrow> transport \<Rightarrow> string \<Rightarrow> pyval \<Rightarrow> seconds
     \<Rightarrow> ('s, exn, json_response \<times> py_float option) prog" where
  "exchange B T url payload remaining_ms =
     pbind (transport_headers B T) (\<lambda>headers.
     pbind (ob_post B (timed_request (tr_policy T) url payload remaining_ms headers)) (\<lambda>response.
       receive B (tr_policy T) response))"

definition single_attempt ::
  "'s outbound \<Rightarrow> transport \<Rightarrow> string \<Rightarrow> pyval \<Rightarrow> seconds
     \<Rightarrow> ('s, exn, json_response \<times> py_float option) prog" where
  "single_attempt B T url payload remaining_ms =
     pcatch (exchange B T url payload remaining_ms)
       (\<lambda>e. if ob_is_timeout B e then pret (failed None TIMEOUT, None)
            else if ob_is_client_error B e then pret (failed None CONNECTION, None)
            else praise e)"

text \<open>The rest of the loop's body, once \<open>result\<close> is there: return it, or back off and go \<open>again\<close>.\<close>

definition after_attempt ::
  "'s outbound \<Rightarrow> transport \<Rightarrow> seconds \<Rightarrow> int \<Rightarrow> (json_response \<Rightarrow> ('s, exn, json_response) prog)
     \<Rightarrow> json_response \<times> py_float option \<Rightarrow> ('s, exn, json_response) prog" where
  "after_attempt B T deadline attempt again = (\<lambda>(result, retry_after).
     if \<not> retryable (jr_failure result) \<or> attempt = tp_max_attempts (tr_policy T) then pret result
     else
       pbind (backoff_ms B (tr_policy T) attempt retry_after) (\<lambda>backoff.
       pbind (ob_monotonic B) (\<lambda>now.
         if (deadline - now) * 1000 \<le> backoff then pret result
         else pthen (ob_sleep B (backoff / 1000)) (again result))))"

text \<open>The \<open>for\<close> loop over the attempts that are left; \<open>result\<close> is the one of the attempt before.\<close>

fun attempts_from ::
  "'s outbound \<Rightarrow> transport \<Rightarrow> string \<Rightarrow> pyval \<Rightarrow> seconds \<Rightarrow> json_response \<Rightarrow> int list
     \<Rightarrow> ('s, exn, json_response) prog" where
  "attempts_from B T url payload deadline result [] = pret result"
| "attempts_from B T url payload deadline result (attempt # later) =
     pbind (ob_monotonic B) (\<lambda>now.
       if (deadline - now) * 1000 \<le> 0 then pret (failed None BUDGET_EXHAUSTED)
       else
         pbind (single_attempt B T url payload ((deadline - now) * 1000))
           (after_attempt B T deadline attempt
             (\<lambda>result. attempts_from B T url payload deadline result later)))"

definition call_url :: "transport \<Rightarrow> string \<Rightarrow> string" where
  "call_url T path = tr_base_url T @ ''/'' @ strip_left (CHR ''/'') path"

definition attempt_loop ::
  "'s outbound \<Rightarrow> transport \<Rightarrow> string \<Rightarrow> pyval \<Rightarrow> ('s, exn, json_response) prog" where
  "attempt_loop B T path payload =
     pbind (ob_monotonic B) (\<lambda>now.
       attempts_from B T (call_url T path) payload
         (now + of_int (tp_budget_ms (tr_policy T)) / 1000) (failed None CONNECTION)
         [1 .. tp_max_attempts (tr_policy T)])"

definition outbound_bulkhead :: "transport_policy \<Rightarrow> bulkhead_policy" where
  "outbound_bulkhead policy =
     \<lparr>bp_name = ''outbound:'' @ tp_service policy, bp_limit = tp_bulkhead_limit policy,
      bp_lease_ttl_ms = tp_bulkhead_lease_ttl_ms policy,
      bp_wait_timeout_ms = tp_bulkhead_wait_ms policy, bp_retry_interval_ms = 50\<rparr>"

definition guarded_post ::
  "'s outbound \<Rightarrow> transport \<Rightarrow> string \<Rightarrow> pyval \<Rightarrow> ('s, exn, json_response) prog" where
  "guarded_post B T path payload =
     (let policy = outbound_bulkhead (tr_policy T) in
      pbind (ob_lease_enter B policy) (\<lambda>lease.
        pfinally
          (if \<not> snd lease then pret (failed None BULKHEAD_FULL)
           else attempt_loop B T path payload)
          (\<lambda>_. ob_lease_exit B policy lease)))"

definition outcome_label :: "json_response \<Rightarrow> string" where
  "outcome_label r = (if jr_failure r = NONE then ''success'' else failure_value (jr_failure r))"

definition post_json ::
  "'s outbound \<Rightarrow> transport \<Rightarrow> string \<Rightarrow> pyval \<Rightarrow> string \<Rightarrow> ('s, exn, json_response) prog" where
  "post_json B T path payload operation =
     pbind (ob_perf_counter B) (\<lambda>started_at.
     pbind (guarded_post B T path payload) (\<lambda>response.
     pbind (ob_perf_counter B) (\<lambda>now.
     pthen (ob_observe B (ObserveExternalCall (tp_service (tr_policy T)) operation
              (outcome_label response) (now - started_at)))
       (pret response))))"

section \<open>The session\<close>

text \<open>What \<open>open_session\<close> passes to \<open>TCPConnector\<close> and \<open>ClientSession\<close>. The session is closed
  when its block is left.\<close>

record session_args =
  sa_limit :: int
  sa_limit_per_host :: int
  sa_ttl_dns_cache :: int
  sa_headers :: "(string \<times> string) list"
  sa_total_timeout :: seconds
  sa_trust_env :: bool

definition open_session :: "session_policy \<Rightarrow> (string \<times> string) list \<Rightarrow> session_args" where
  "open_session policy headers =
     \<lparr>sa_limit = sp_connection_limit policy, sa_limit_per_host = sp_connection_limit policy,
      sa_ttl_dns_cache = sp_dns_cache_seconds policy,
      sa_headers = foldl (\<lambda>d (k, v). dict_set k v d) [(''User-Agent'', ''evenkeel-outbound'')] headers,
      sa_total_timeout = of_int (sp_backstop_timeout_ms policy) / 1000,
      sa_trust_env = sp_trust_env policy\<rparr>"

end
