(* ===== verification/Transport_Guarantees.thy ===== *)
theory Transport_Guarantees
  imports Transport
begin

text \<open>
  What the outbound call owes its caller, from what \<open>aiohttp\<close> documents: a stream hands out the
  body in arbitrary segments (\<open>byte_stream\<close>), a request leaves the process only through \<open>post\<close>
  (\<open>logged_session\<close>), and \<open>ClientTimeout(total)\<close> bounds everything from the request to the end
  of the body (\<open>timed_session\<close>). A scripted server with slow and segmented answers meets the
  three, and the witnesses run on it.
\<close>

section \<open>Segmented bodies\<close>

locale byte_stream =
  fixes B :: "'s outbound" and pending :: "http_response \<Rightarrow> 's \<Rightarrow> string"
  assumes read_prefix: "ob_read B h n s = (Inr c, t) \<Longrightarrow> 0 \<le> n \<Longrightarrow>
      pending h s = c @ pending h t \<and> int (length c) \<le> n"
    and read_some: "ob_read B h n s = (Inr [], t) \<Longrightarrow> 0 \<le> n \<Longrightarrow> n = 0 \<or> pending h s = []"
begin

lemma read_loop_take:
  "read_loop C h limit chunks got s = (Inr raw, t) \<Longrightarrow> C = B \<Longrightarrow> got \<le> limit \<Longrightarrow>
     raw = concat chunks @ take (nat (limit - got)) (pending h s)"
proof (induction C h limit chunks got s rule: read_loop.induct)
  case (1 C h limit chunks got s)
  obtain r u where R: "ob_read B h (limit - got) s = (r, u)" by fastforce
  with 1(2,3) obtain c where c: "r = Inr c" by (cases r) (auto simp: read_loop.simps)
  from read_prefix [of h "limit - got" s c u] R c 1(4)
  have p: "pending h s = c @ pending h u" "int (length c) \<le> limit - got" by auto
  show ?case
  proof (cases "c = []")
    case True
    with read_some [of h "limit - got" s u] R c 1(4) have "limit - got = 0 \<or> pending h s = []" by simp
    with 1(2,3) R c True show ?thesis by (auto simp: read_loop.simps)
  next
    case False
    show ?thesis
    proof (cases "limit \<le> got + int (length c)")
      case True
      with p have "nat (limit - got) = length c" by simp
      with 1(2,3) R c p False True show ?thesis by (simp add: read_loop.simps)
    next
      case cont: False
      with 1(2,3) R c False have run: "read_loop B h limit (chunks @ [c]) (got + int (length c)) u
          = (Inr raw, t)" by (simp add: read_loop.simps [of B h limit chunks])
      have "nat (limit - got) = length c + nat (limit - (got + int (length c)))"
        using cont p(2) by linarith
      moreover from 1(1) [OF R [folded 1(3), unfolded c, symmetric] refl False cont] run cont 1(3) R c
      have "raw = concat (chunks @ [c]) @ take (nat (limit - (got + int (length c)))) (pending h u)"
        by simp
      ultimately show ?thesis using p(1) by simp
    qed
  qed
qed

lemma read_capped_take:
  "read_capped B h limit s = (Inr raw, t) \<Longrightarrow> raw = take (nat limit) (pending h s)"
  by (cases "0 \<le> limit") (auto simp: read_capped_def dest!: read_loop_take)

end

section \<open>One turn of the loop\<close>

lemma after_attemptE:
  assumes "after_attempt B T deadline attempt again (result, ra) s = (r, t)"
  obtains (Returned) "r = Inr result" "t = s"
    | (No_Backoff) e where "backoff_ms B (tr_policy T) attempt ra s = (Inl e, t)" "r = Inl e"
    | (No_Clock) b u e where "backoff_ms B (tr_policy T) attempt ra s = (Inr b, u)"
        "ob_monotonic B u = (Inl e, t)" "r = Inl e"
    | (Late) b u now where "backoff_ms B (tr_policy T) attempt ra s = (Inr b, u)"
        "ob_monotonic B u = (Inr now, t)" "r = Inr result"
    | (Interrupted) b u now v e where "backoff_ms B (tr_policy T) attempt ra s = (Inr b, u)"
        "ob_monotonic B u = (Inr now, v)" "\<not> (deadline - now) * 1000 \<le> b"
        "ob_sleep B (b / 1000) v = (Inl e, t)" "r = Inl e"
    | (Again) b u now v w where "retryable (jr_failure result)"
        "backoff_ms B (tr_policy T) attempt ra s = (Inr b, u)"
        "ob_monotonic B u = (Inr now, v)" "\<not> (deadline - now) * 1000 \<le> b"
        "ob_sleep B (b / 1000) v = (Inr (), w)" "again result w = (r, t)"
  using assms unfolding after_attempt_def
  by (auto simp only: prod.case split: if_splits elim!: pbindE pthenE)
    (auto split: if_splits elim!: pthenE, blast+)

lemma attempts_fromE:
  assumes "attempts_from B T url payload deadline result (attempt # later) s = (r, t)"
  obtains (No_Clock) e where "ob_monotonic B s = (Inl e, t)" "r = Inl e"
    | (Exhausted) now where "ob_monotonic B s = (Inr now, t)" "r = Inr (failed None BUDGET_EXHAUSTED)"
    | (Raised) now u e where "ob_monotonic B s = (Inr now, u)" "0 < (deadline - now) * 1000"
        "single_attempt B T url payload ((deadline - now) * 1000) u = (Inl e, t)" "r = Inl e"
    | (Answered) now u res ra v where "ob_monotonic B s = (Inr now, u)" "0 < (deadline - now) * 1000"
        "single_attempt B T url payload ((deadline - now) * 1000) u = (Inr (res, ra), v)"
        "after_attempt B T deadline attempt
           (\<lambda>result. attempts_from B T url payload deadline result later) (res, ra) v = (r, t)"
proof -
  from assms show ?thesis unfolding attempts_from.simps
  proof (cases rule: pbindE)
    case (Raised e)
    then show ?thesis by (rule No_Clock)
  next
    case (Continued now u)
    show ?thesis
    proof (cases "(deadline - now) * 1000 \<le> 0")
      case True
      with Continued Exhausted show ?thesis by simp
    next
      case False
      with Continued(2) have "pbind (single_attempt B T url payload ((deadline - now) * 1000))
           (after_attempt B T deadline attempt
             (\<lambda>result. attempts_from B T url payload deadline result later)) u = (r, t)" by simp
      then show ?thesis
        by (cases rule: pbindE) (use False Continued(1) assms Raised Answered in \<open>force+\<close>)
    qed
  qed
qed

section \<open>What a success says\<close>

text \<open>Somebody answered a request of this call with this object, whole and within the cap.\<close>

definition answered_with ::
  "'s outbound \<Rightarrow> (http_response \<Rightarrow> 's \<Rightarrow> string) \<Rightarrow> transport \<Rightarrow> string \<Rightarrow> pyval \<Rightarrow> int
     \<Rightarrow> (string \<times> pyval) list \<Rightarrow> bool" where
  "answered_with B pending T url payload status body \<longleftrightarrow>
     (\<exists>q s0 h s1. ob_post B q s0 = (Inr h, s1) \<and> hq_url q = url \<and> hq_json q = payload
        \<and> \<not> hq_allow_redirects q \<and> hr_status h = status \<and> status < 300
        \<and> int (length (pending h s1)) \<le> tp_max_response_bytes (tr_policy T)
        \<and> json_loads (ob_recursion_limit B) (pending h s1) = Inr (VDict body))"

definition sound_response ::
  "'s outbound \<Rightarrow> (http_response \<Rightarrow> 's \<Rightarrow> string) \<Rightarrow> transport \<Rightarrow> string \<Rightarrow> pyval \<Rightarrow> json_response \<Rightarrow> bool"
  where
  "sound_response B pending T url payload r \<longleftrightarrow>
     (if jr_failure r = NONE
      then \<exists>status body. jr_status r = Some status \<and> jr_body r = Some body
             \<and> answered_with B pending T url payload status body
      else jr_body r = None)"

lemma sound_failed [simp]: "f \<noteq> NONE \<Longrightarrow> sound_response B pending T url payload (failed st f)"
  by (simp add: sound_response_def failed_def)

lemma decode_object_Some:
  "decode_object depth raw = Inr (Some body) \<longleftrightarrow> json_loads depth raw = Inr (VDict body)"
  by (auto simp: decode_object_def split: sum.splits pyval.splits if_splits)

lemma classify_cases:
  assumes "classify depth policy status raw = Inr r"
  obtains (Failed) f where "r = failed (Some status) f" "f \<noteq> NONE"
        | (Good) body where "r = \<lparr>jr_status = Some status, jr_body = Some body, jr_failure = NONE\<rparr>"
            "status < 300" "int (length raw) \<le> tp_max_response_bytes policy"
            "json_loads depth raw = Inr (VDict body)"
proof (cases "decode_object depth raw")
  case (Inl e)
  with assms Failed show ?thesis by (auto simp: classify_def split: if_splits)
next
  case (Inr b)
  show ?thesis
  proof (cases b)
    case None
    with Inr assms Failed show ?thesis by (auto simp: classify_def split: if_splits)
  next
    case (Some body)
    with Inr assms Failed Good [of body] show ?thesis
      by (fastforce simp: classify_def decode_object_Some [symmetric] split: if_splits)
  qed
qed

context byte_stream
begin

lemma receive_sound:
  assumes "receive B (tr_policy T) h s = (Inr (r, ra), t)"
    and "ob_post B q s0 = (Inr h, s)" "hq_url q = url" "hq_json q = payload" "\<not> hq_allow_redirects q"
  shows "sound_response B pending T url payload r"
proof -
  from assms(1) obtain raw u where raw:
      "read_capped B h (tp_max_response_bytes (tr_policy T) + 1) s = (Inr raw, u)"
      "classify (ob_recursion_limit B) (tr_policy T) (hr_status h) raw = Inr r"
    by (auto simp: receive_def elim!: pfinallyE pbindE)
  from raw(2) show ?thesis
  proof (cases rule: classify_cases)
    case (Good body)
    have "raw = take (nat (tp_max_response_bytes (tr_policy T) + 1)) (pending h s)"
      by (rule read_capped_take [OF raw(1)])
    with Good(3) have "pending h s = raw" by (auto simp: min_def split: if_splits)
    with assms Good show ?thesis by (auto simp: sound_response_def answered_with_def)
  qed (simp add: sound_failed)
qed

lemma single_attempt_sound:
  assumes "single_attempt B T url payload rem s = (Inr (r, ra), t)"
  shows "sound_response B pending T url payload r"
  using assms unfolding single_attempt_def
proof (cases rule: pcatchE)
  case (Returned x)
  then show ?thesis
    by (auto simp: exchange_def elim!: pbindE intro!: receive_sound [where url = url and payload = payload]
        simp: timed_request_def)
qed (auto simp: sound_failed split: if_splits)

lemma attempts_sound:
  "attempts_from B T url payload deadline result as s = (Inr r, t) \<Longrightarrow>
     sound_response B pending T url payload result \<Longrightarrow> sound_response B pending T url payload r"
proof (induction as arbitrary: result s)
  case (Cons a as)
  from Cons.prems(1) show ?case
  proof (cases rule: attempts_fromE)
    case (Answered now u res ra v)
    note sound = single_attempt_sound [OF Answered(3)]
    from Answered(4) show ?thesis by (cases rule: after_attemptE) (use sound Cons.IH in auto)
  qed simp_all
qed simp

lemma post_json_sound:
  assumes "post_json B T path payload operation s = (Inr r, t)"
  shows "sound_response B pending T (call_url T path) payload r"
  using assms
  by (auto simp: post_json_def guarded_post_def attempt_loop_def Let_def elim!: pbindE pthenE pfinallyE
      split: if_splits) (erule attempts_sound, simp)

end

section \<open>What leaves the process\<close>

lemma read_loop_keeps:
  assumes "reflp R" "transp R" "\<And>n. keeps R (ob_read B h n)"
  shows "keeps R (read_loop B h limit chunks got)"
proof (rule keepsI)
  fix s r t
  assume "read_loop B h limit chunks got s = (r, t)"
  then show "R s t" using assms
  proof (induction B h limit chunks got s arbitrary: r t rule: read_loop.induct)
    case (1 B h limit chunks got s)
    obtain q u where Q: "ob_read B h (limit - got) s = (q, u)" by fastforce
    with 1(5) have "R s u" by (blast dest: keepsD)
    show ?case
    proof (cases q)
      case (Inl e)
      with 1(2) Q \<open>R s u\<close> show ?thesis by (auto simp: read_loop.simps [of B h limit])
    next
      case (Inr c)
      show ?thesis
      proof (cases "c = [] \<or> limit \<le> got + int (length c)")
        case True
        with 1(2) Q Inr \<open>R s u\<close> show ?thesis
          by (auto simp: read_loop.simps [of B h limit] split: if_splits)
      next
        case False
        with 1(2) Q Inr have "read_loop B h limit (chunks @ [c]) (got + int (length c)) u = (r, t)"
          by (simp add: read_loop.simps [of B h limit chunks])
        with 1(1) [OF Q [unfolded Inr, symmetric] refl] False 1(3-5) have "R u t" by blast
        with \<open>R s u\<close> 1(4) show ?thesis by (blast dest: transpD)
      qed
    qed
  qed
qed

lemma receive_keeps:
  assumes "reflp R" "transp R" "\<And>n. keeps R (ob_read B h n)" "keeps R (ob_close B h)"
  shows "keeps R (receive B policy h)"
  unfolding receive_def read_capped_def using assms
  by (intro keeps_finally keeps_bind read_loop_keeps keeps_lift keeps_ret) auto

definition proper_request :: "transport \<Rightarrow> string \<Rightarrow> pyval \<Rightarrow> http_request \<Rightarrow> bool" where
  "proper_request T url payload q \<longleftrightarrow>
     hq_url q = url \<and> hq_json q = payload \<and> \<not> hq_allow_redirects q
     \<and> hq_total_timeout q \<le> of_int (tp_total_timeout_ms (tr_policy T)) / 1000"

locale logged_session =
  fixes B :: "'s outbound" and sent :: "'s \<Rightarrow> http_request list"
  assumes post_sent: "ob_post B q s = (r, t) \<Longrightarrow> sent t = sent s @ [q]"
    and others_silent: "\<And>p l h n a b d m.
      keeps (\<lambda>s t. sent t = sent s) (ob_lease_enter B p) \<and> keeps (\<lambda>s t. sent t = sent s) (ob_lease_exit B p l)
      \<and> keeps (\<lambda>s t. sent t = sent s) (ob_monotonic B) \<and> keeps (\<lambda>s t. sent t = sent s) (ob_perf_counter B)
      \<and> keeps (\<lambda>s t. sent t = sent s) (ob_sleep B d) \<and> keeps (\<lambda>s t. sent t = sent s) (ob_uniform B a b)
      \<and> keeps (\<lambda>s t. sent t = sent s) (ob_correlation_id B) \<and> keeps (\<lambda>s t. sent t = sent s) (ob_read B h n)
      \<and> keeps (\<lambda>s t. sent t = sent s) (ob_close B h) \<and> keeps (\<lambda>s t. sent t = sent s) (ob_observe B m)"
begin

abbreviation silent :: "'s \<Rightarrow> 's \<Rightarrow> bool" where
  "silent s t \<equiv> sent t = sent s"

lemma silent_ops:
  "keeps silent (ob_lease_enter B p)" "keeps silent (ob_lease_exit B p l)"
  "keeps silent (ob_monotonic B)" "keeps silent (ob_perf_counter B)" "keeps silent (ob_sleep B d)"
  "keeps silent (ob_uniform B a b)" "keeps silent (ob_correlation_id B)"
  "keeps silent (ob_read B h n)" "keeps silent (ob_close B h)" "keeps silent (ob_observe B m)"
  using others_silent by blast+

lemma silent_order: "reflp silent" "transp silent"
  by (auto intro: reflpI transpI)

lemma silent_receive: "keeps silent (receive B policy h)"
  by (intro receive_keeps silent_order silent_ops)

lemma silent_backoff: "keeps silent (backoff_ms B policy attempt ra)"
  by (auto simp: backoff_ms_def intro!: silent_ops silent_order keeps_ret
      split: option.split py_float.split)

lemma silentD: "keeps silent m \<Longrightarrow> m s = (r, t) \<Longrightarrow> sent t = sent s"
  by (rule keepsD)

lemma exchange_sent:
  assumes "exchange B T url payload rem s = (r, t)"
  shows "sent t = sent s \<or> (\<exists>q. sent t = sent s @ [q] \<and> proper_request T url payload q)"
proof -
  have h: "keeps silent (transport_headers B T)"
    unfolding transport_headers_def by (intro keeps_bind silent_ops silent_order keeps_ret)
  have p: "proper_request T url payload (timed_request (tr_policy T) url payload rem headers)" for headers
    by (simp add: proper_request_def timed_request_def divide_right_mono)
  from assms show ?thesis unfolding exchange_def
    by (elim pbindE) (use p in \<open>auto dest!: silentD [OF h] post_sent silentD [OF silent_receive]\<close>)
qed

lemma single_attempt_sent:
  assumes "single_attempt B T url payload rem s = (r, t)"
  shows "sent t = sent s \<or> (\<exists>q. sent t = sent s @ [q] \<and> proper_request T url payload q)"
  using assms unfolding single_attempt_def
  by (elim pcatchE) (auto dest!: exchange_sent split: if_splits)

lemma attempts_sent:
  "attempts_from B T url payload deadline result as s = (r, t) \<Longrightarrow>
     \<exists>qs. sent t = sent s @ qs \<and> length qs \<le> length as \<and> list_all (proper_request T url payload) qs"
proof (induction as arbitrary: result s)
  case (Cons a as)
  note quiet = silentD [OF silent_ops(3)] silentD [OF silent_ops(5)] silentD [OF silent_backoff]
  from Cons.prems show ?case
  proof (cases rule: attempts_fromE)
    case (Raised now u e)
    from single_attempt_sent [OF Raised(3)] quiet(1) [OF Raised(1)] show ?thesis
      by (auto intro: exI [of _ "[]"] exI [of _ "[x]" for x])
  next
    case (Answered now u res ra v)
    from single_attempt_sent [OF Answered(3)] quiet(1) [OF Answered(1)]
    have v: "\<exists>qs. sent v = sent s @ qs \<and> length qs \<le> 1 \<and> list_all (proper_request T url payload) qs"
      by (auto intro: exI [of _ "[]"] exI [of _ "[x]" for x])
    from Answered(4) have "sent t = sent v \<or> (\<exists>w. sent w = sent v
        \<and> attempts_from B T url payload deadline res as w = (r, t))"
      by (cases rule: after_attemptE) (auto dest!: quiet)
    with v Cons.IH show ?thesis by (force intro: exI [of _ "x @ y" for x y])
  qed (auto dest!: quiet)
qed simp

lemma post_json_sent:
  assumes "post_json B T path payload operation s = (r, t)"
  shows "\<exists>qs. sent t = sent s @ qs \<and> int (length qs) \<le> max 0 (tp_max_attempts (tr_policy T))
    \<and> list_all (proper_request T (call_url T path) payload) qs"
proof -
  let ?url = "call_url T path"
  let ?P = "\<lambda>s t. \<exists>qs. sent t = sent s @ qs \<and> int (length qs) \<le> max 0 (tp_max_attempts (tr_policy T))
    \<and> list_all (proper_request T ?url payload) qs"
  have none: "sent v = sent u \<Longrightarrow> ?P u v" for u v by (intro exI [of _ "[]"]) simp
  have attempts: "?P u v" if "attempts_from B T ?url payload d res
      [1 .. tp_max_attempts (tr_policy T)] u = (q, v)" for u v d res q
    using attempts_sent [OF that] by auto
  have loop: "?P u v" if "attempt_loop B T path payload u = (q, v)" for u v q
    using that unfolding attempt_loop_def
    by (elim pbindE) (auto dest!: silentD [OF silent_ops(3)] attempts intro: none)
  have guarded: "?P u v" if "guarded_post B T path payload u = (q, v)" for u v q
    using that unfolding guarded_post_def Let_def
    by (elim pbindE pfinallyE)
      (auto dest!: silentD [OF silent_ops(1)] silentD [OF silent_ops(2)] loop intro: none split: if_splits)
  show ?thesis using assms unfolding post_json_def
    by (elim pbindE pthenE)
      (auto dest!: silentD [OF silent_ops(4)] silentD [OF silent_ops(10)] guarded intro: none)
qed

end

section \<open>How long it takes\<close>

definition by_time :: "('s \<Rightarrow> seconds) \<Rightarrow> (http_response \<Rightarrow> 's \<Rightarrow> seconds) \<Rightarrow> http_response \<Rightarrow> 's \<Rightarrow> 's \<Rightarrow> bool"
  where
  "by_time clock due h s t \<longleftrightarrow> clock t \<le> max (clock s) (due h s) \<and> due h t = due h s"

text \<open>A timeout that is not positive is none, so the bound is stated for positive ones.\<close>

locale timed_session =
  fixes B :: "'s outbound" and clock :: "'s \<Rightarrow> seconds" and due :: "http_response \<Rightarrow> 's \<Rightarrow> seconds"
  assumes reading: "ob_monotonic B s = (r, t) \<Longrightarrow> clock t = clock s \<and> (\<forall>x. r = Inr x \<longrightarrow> x = clock s)"
    and uniform_prompt: "keeps (\<lambda>s t. clock t = clock s) (ob_uniform B a b)"
    and correlation_prompt: "keeps (\<lambda>s t. clock t = clock s) (ob_correlation_id B)"
    and post_timeout: "ob_post B q s = (r', t) \<Longrightarrow> 0 < hq_total_timeout q \<Longrightarrow>
      clock t \<le> clock s + hq_total_timeout q
      \<and> (\<forall>h. r' = Inr h \<longrightarrow> due h t \<le> clock s + hq_total_timeout q)"
    and read_timeout: "keeps (by_time clock due h) (ob_read B h n)"
    and close_timeout: "keeps (by_time clock due h) (ob_close B h)"
    and sleeping: "ob_sleep B d s = (r'', t) \<Longrightarrow> clock t \<le> clock s + max 0 d"
begin

lemma receive_time: "keeps (by_time clock due h) (receive B policy h)"
  by (intro receive_keeps read_timeout close_timeout reflpI transpI) (auto simp: by_time_def)

lemma exchange_time:
  assumes "exchange B T url payload rem s = (r, t)"
    and "0 < tp_total_timeout_ms (tr_policy T)" "0 < rem"
  shows "clock t \<le> clock s + rem / 1000"
proof -
  have h: "keeps (\<lambda>s t. clock t = clock s) (transport_headers B T)" unfolding transport_headers_def
    by (intro keeps_bind correlation_prompt keeps_ret reflpI transpI) auto
  from assms(1) show ?thesis unfolding exchange_def
  proof (cases rule: pbindE)
    case (Raised e)
    then show ?thesis using keepsD [OF h] assms(3) by fastforce
  next
    case (Continued headers s1)
    let ?q = "timed_request (tr_policy T) url payload rem headers"
    have q: "0 < hq_total_timeout ?q" "hq_total_timeout ?q \<le> rem / 1000"
      using assms(2,3) by (simp_all add: timed_request_def divide_right_mono)
    have s1: "clock s1 = clock s" using keepsD [OF h Continued(1)] .
    from Continued(2) show ?thesis
    proof (cases rule: pbindE)
      case (Raised e)
      with post_timeout [OF Raised(1) q(1)] q(2) s1 show ?thesis by auto
    next
      case (Continued h s2)
      with post_timeout [OF Continued(1) q(1)] q s1 keepsD [OF receive_time Continued(2)]
      show ?thesis by (auto simp: by_time_def)
    qed
  qed
qed

lemma single_attempt_time:
  assumes "single_attempt B T url payload rem s = (r, t)"
    and "0 < tp_total_timeout_ms (tr_policy T)" "0 < rem"
  shows "clock t \<le> clock s + rem / 1000"
  using assms(1) unfolding single_attempt_def
  by (elim pcatchE) (auto dest: exchange_time [OF _ assms(2,3)] split: if_splits)

lemma attempts_time:
  assumes "0 < tp_total_timeout_ms (tr_policy T)"
  shows "attempts_from B T url payload deadline result as s = (r, t) \<Longrightarrow> clock s \<le> deadline \<Longrightarrow>
    clock t \<le> deadline"
proof (induction as arbitrary: result s)
  case (Cons a as)
  have b: "keeps (\<lambda>s t. clock t = clock s) (backoff_ms B (tr_policy T) n ra)" for n ra
    by (auto simp: backoff_ms_def intro!: uniform_prompt keeps_ret reflpI
        split: option.split py_float.split)
  have attempt: "clock w \<le> clock u + (deadline - now)"
    if "single_attempt B T url payload ((deadline - now) * 1000) u = (q, w)" "0 < (deadline - now) * 1000"
    for now u q w
    using single_attempt_time [OF that(1) assms that(2)] by (simp add: diff_divide_distrib)
  from Cons.prems(1) show ?case
  proof (cases rule: attempts_fromE)
    case (Raised now u e)
    from attempt [OF Raised(3,2)] reading [OF Raised(1)] show ?thesis by simp
  next
    case (Answered now u res ra v)
    from attempt [OF Answered(3,2)] reading [OF Answered(1)] have v: "clock v \<le> deadline" by simp
    note slept = sleeping reading keepsD [OF b]
    from Answered(4) show ?thesis
    proof (cases rule: after_attemptE)
      case (Interrupted b u' now' v' e)
      with slept(1) [OF Interrupted(4)] slept(2) [OF Interrupted(2)] slept(3) [OF Interrupted(1)] v
      show ?thesis by (auto simp: max_def split: if_splits)
    next
      case (Again b u' now' v' w)
      with slept(1) [OF Again(5)] slept(2) [OF Again(3)] slept(3) [OF Again(2)] v
      have "clock w \<le> deadline" by (auto simp: max_def split: if_splits)
      with Cons.IH Again(6) show ?thesis by blast
    qed (use v slept in \<open>fastforce+\<close>)
  qed (use reading Cons.prems(2) in \<open>fastforce+\<close>)
qed simp

lemma attempt_loop_time:
  assumes "attempt_loop B T path payload s = (r, t)"
    and "0 < tp_total_timeout_ms (tr_policy T)" "0 \<le> tp_budget_ms (tr_policy T)"
  shows "clock t \<le> clock s + of_int (tp_budget_ms (tr_policy T)) / 1000"
  using assms(1) unfolding attempt_loop_def
proof (cases rule: pbindE)
  case (Raised e)
  then show ?thesis using reading assms(3) by simp
next
  case (Continued now u)
  from reading [OF Continued(1)] attempts_time [OF assms(2) Continued(2)] assms(3) show ?thesis by simp
qed

end

section \<open>A client that disturbs nothing\<close>

text \<open>A relation every operation of the client respects is one the whole call respects.\<close>

definition outbound_keeps :: "('s \<Rightarrow> 's \<Rightarrow> bool) \<Rightarrow> 's outbound \<Rightarrow> bool" where
  "outbound_keeps R B \<longleftrightarrow> (\<forall>p l h n a b d m q.
     keeps R (ob_lease_enter B p) \<and> keeps R (ob_lease_exit B p l) \<and> keeps R (ob_monotonic B)
     \<and> keeps R (ob_perf_counter B) \<and> keeps R (ob_sleep B d) \<and> keeps R (ob_uniform B a b)
     \<and> keeps R (ob_correlation_id B) \<and> keeps R (ob_post B q) \<and> keeps R (ob_read B h n)
     \<and> keeps R (ob_close B h) \<and> keeps R (ob_observe B m))"

lemma outbound_keepsD:
  assumes "outbound_keeps R B"
  shows "keeps R (ob_lease_enter B p)" "keeps R (ob_lease_exit B p l)" "keeps R (ob_monotonic B)"
    "keeps R (ob_perf_counter B)" "keeps R (ob_sleep B d)" "keeps R (ob_uniform B a b)"
    "keeps R (ob_correlation_id B)" "keeps R (ob_post B q)" "keeps R (ob_read B h n)"
    "keeps R (ob_close B h)" "keeps R (ob_observe B m)"
  using assms unfolding outbound_keeps_def by blast+

lemma post_json_keeps:
  assumes "outbound_keeps R B" "reflp R" "transp R"
  shows "keeps R (post_json B T path payload operation)"
proof -
  note ops = outbound_keepsD [OF assms(1)]
  note calc = keeps_bind [OF assms(3)] keeps_then [OF assms(3)] keeps_catch [OF assms(3)]
    keeps_finally [OF assms(3)] keeps_ret [OF assms(2)] keeps_raise [OF assms(2)] keeps_lift [OF assms(2)]
  have backoff: "keeps R (backoff_ms B policy n ra)" for policy n ra
    by (auto simp: backoff_ms_def intro!: ops calc split: option.split py_float.split)
  have attempt: "keeps R (single_attempt B T url payload rem)" for url rem
    unfolding single_attempt_def exchange_def transport_headers_def
    by (auto intro!: calc ops receive_keeps assms(2,3))
  have attempts: "keeps R (attempts_from B T url payload deadline result as)" for url deadline result as
  proof (induction as arbitrary: result)
    case (Cons a as)
    have "keeps R (after_attempt B T deadline a again x)"
      if "\<And>res. keeps R (again res)" for again x
      unfolding after_attempt_def using that by (auto split: prod.split intro!: calc ops backoff)
    with Cons show ?case unfolding attempts_from.simps by (auto intro!: calc ops attempt)
  qed (auto intro!: calc)
  show ?thesis unfolding post_json_def guarded_post_def attempt_loop_def Let_def
    by (auto intro!: calc ops attempts)
qed

section \<open>A scripted server\<close>

text \<open>Each request gets the next line of the script: an answer after a delay, whose body comes in
  the given segments, silence, or a refused connection.\<close>

datatype wire_reply = Reply int "string option" "string list" seconds | Silence | Refuse

record wire =
  wi_clock :: seconds
  wi_sent :: "http_request list"
  wi_script :: "wire_reply list"
  wi_body :: "string list"
  wi_due :: seconds

definition timeout_error :: exn where
  "timeout_error = PyExn ''TimeoutError''"

definition connector_error :: exn where
  "connector_error = PyExn ''ClientConnectorError''"

definition wire_post :: "http_request \<Rightarrow> (wire, exn, http_response) prog" where
  "wire_post q w =
     (let late = wi_clock w + hq_total_timeout q;
          w' = w\<lparr>wi_sent := wi_sent w @ [q], wi_script := tl (wi_script w)\<rparr>
      in case wi_script w of
           Reply status ra segments d # _ \<Rightarrow>
             if hq_total_timeout q < d then (Inl timeout_error, w'\<lparr>wi_clock := late\<rparr>)
             else (Inr \<lparr>hr_id = length (wi_sent w), hr_status = status, hr_retry_after = ra\<rparr>,
                   w'\<lparr>wi_clock := wi_clock w + d, wi_body := segments,
                      wi_due := late\<rparr>)
         | Silence # _ \<Rightarrow> (Inl timeout_error, w'\<lparr>wi_clock := late\<rparr>)
         | _ \<Rightarrow> (Inl connector_error, w'))"

definition wire_read :: "http_response \<Rightarrow> int \<Rightarrow> (wire, exn, string) prog" where
  "wire_read h n w =
     (case filter (\<lambda>x. x \<noteq> []) (wi_body w) of
        [] \<Rightarrow> (Inr [], w)
      | seg # segs \<Rightarrow>
          (Inr (take (nat n) seg),
           w\<lparr>wi_body := (if length seg \<le> nat n then segs else drop (nat n) seg # segs)\<rparr>))"

definition wire_outbound :: "wire outbound" where
  "wire_outbound =
     \<lparr>ob_lease_enter = (\<lambda>p. pret (0, True)), ob_lease_exit = (\<lambda>p l. pret ()),
      ob_monotonic = (\<lambda>w. (Inr (wi_clock w), w)), ob_perf_counter = (\<lambda>w. (Inr (wi_clock w), w)),
      ob_sleep = (\<lambda>d w. (Inr (), w\<lparr>wi_clock := wi_clock w + max 0 d\<rparr>)),
      ob_uniform = (\<lambda>a b. pret a), ob_correlation_id = pret None, ob_post = wire_post,
      ob_read = wire_read, ob_close = (\<lambda>h. pret ()),
      ob_is_timeout = (\<lambda>e. e = timeout_error), ob_is_client_error = (\<lambda>e. e = connector_error),
      ob_observe = (\<lambda>m. pret ()), ob_recursion_limit = 1000\<rparr>"

definition wire_start :: "wire_reply list \<Rightarrow> wire" where
  "wire_start script =
     \<lparr>wi_clock = 0, wi_sent = [], wi_script = script, wi_body = [], wi_due = 0\<rparr>"

definition wire_pending :: "http_response \<Rightarrow> wire \<Rightarrow> string" where
  "wire_pending h w = concat (wi_body w)"

lemma concat_nonempty: "concat (filter (\<lambda>x. x \<noteq> []) xss) = concat xss"
  by (induction xss) auto

interpretation wire: byte_stream wire_outbound wire_pending
proof
  fix h n s c t
  assume run: "ob_read wire_outbound h n s = (Inr c, t)" and n: "0 \<le> n"
  let ?segs = "filter (\<lambda>x. x \<noteq> []) (wi_body s)"
  have p: "wire_pending h s = concat ?segs" by (simp add: wire_pending_def concat_nonempty)
  show "wire_pending h s = c @ wire_pending h t \<and> int (length c) \<le> n"
    using run n unfolding p
    by (auto simp: wire_outbound_def wire_read_def wire_pending_def filter_empty_conv
        split: list.splits if_splits)
next
  fix h n s t
  assume run: "ob_read wire_outbound h n s = (Inr [], t)" and n: "0 \<le> n"
  let ?segs = "filter (\<lambda>x. x \<noteq> []) (wi_body s)"
  have p: "wire_pending h s = concat ?segs" by (simp add: wire_pending_def concat_nonempty)
  show "n = 0 \<or> wire_pending h s = []"
  proof (cases ?segs)
    case Nil
    then show ?thesis unfolding p by simp
  next
    case (Cons seg segs)
    then have "seg \<in> set ?segs" by simp
    then have "seg \<noteq> []" by simp
    with run n Cons show ?thesis by (simp add: wire_outbound_def wire_read_def)
  qed
qed

interpretation wire: logged_session wire_outbound wi_sent
  by unfold_locales
    (auto simp: wire_outbound_def wire_post_def wire_read_def Let_def keeps_def
      split: list.splits wire_reply.splits if_splits)

interpretation wire: timed_session wire_outbound wi_clock "\<lambda>h. wi_due"
  by unfold_locales
    (auto simp: wire_outbound_def wire_post_def wire_read_def Let_def keeps_def by_time_def
      split: list.splits wire_reply.splits if_splits)

section \<open>A run\<close>

definition demo_transport :: transport where
  "demo_transport = transport_init (transport_policy_default ''risk'') ''https://risk.test/'' None"

text \<open>A slow refusal of service first, then an answer in three segments.\<close>

definition demo_wire :: wire where
  "demo_wire = wire_start [Reply 503 (Some ''0.1'') [''busy''] 1,
     Reply 200 None [''{\"deci'', ''sion\": \"all'', ''ow\"}''] (1 / 4)]"

lemmas transport_defs =
  post_json_def guarded_post_def attempt_loop_def after_attempt_def single_attempt_def
  exchange_def receive_def transport_headers_def timed_request_def classify_def backoff_ms_def
  read_capped_def read_loop.simps decode_object_def outbound_bulkhead_def failed_def retryable_def
  retry_after_ms_def transport_init_def transport_policy_default_def call_url_def strip_left_def
  strip_right_def outcome_label_def pbind_def pthen_def pcatch_def pfinally_def

lemmas wire_defs =
  wire_outbound_def wire_post_def wire_read_def wire_start_def timeout_error_def connector_error_def
  Let_def

lemmas json_eval_defs =
  json_loads_def json_bytes_text_def detect_encoding_def json_loads_text_def skip_ws_def json_space_def
  json_key_def json_scalar_def json_run.simps(1) code_def dict_set_def

lemma two_attempts: "[1 .. 2 :: int] = [1, 2]"
  by (simp add: upto.simps)

lemma demo_call:
  "\<exists>r t. post_json wire_outbound demo_transport ''/decisions'' VNone ''assess'' demo_wire = (Inr r, t)
     \<and> jr_failure r = NONE \<and> length (wi_sent t) = 2 \<and> wi_clock t = 21 / 20"
  by (simp add: demo_transport_def demo_wire_def transport_defs wire_defs two_attempts json_eval_defs)

lemma demo_called:
  obtains r t where "post_json wire_outbound demo_transport ''/decisions'' VNone ''assess'' demo_wire
      = (Inr r, t)" "jr_failure r = NONE" "length (wi_sent t) = 2" "wi_clock t = 21 / 20"
  using demo_call by blast

section \<open>Properties\<close>

text \<open>A successful outbound call is somebody's answer to it: the body it returns is a JSON object
  that decodes the complete response to a request for the configured URL with this payload, of
  status below 300 and within the size cap, in however many segments it arrived; every other
  outcome carries no body.\<close>

theorem transport_success_sound:
  assumes "byte_stream B pending" and "post_json B T path payload operation s = (Inr r, t)"
  shows "if jr_failure r = NONE
    then \<exists>status body. jr_status r = Some status \<and> jr_body r = Some body
           \<and> answered_with B pending T (call_url T path) payload status body
    else jr_body r = None"
  using byte_stream.post_json_sound [OF assms] by (simp add: sound_response_def)

theorem transport_success_sound_witness:
  "\<exists>r t status body. post_json wire_outbound demo_transport ''/decisions'' VNone ''assess'' demo_wire
       = (Inr r, t) \<and> jr_body r = Some body
     \<and> answered_with wire_outbound wire_pending demo_transport (call_url demo_transport ''/decisions'')
         VNone status body"
proof -
  obtain r t where run: "post_json wire_outbound demo_transport ''/decisions'' VNone ''assess''
      demo_wire = (Inr r, t)" "jr_failure r = NONE" by (rule demo_called)
  from transport_success_sound [OF wire.byte_stream_axioms run(1)] run show ?thesis by auto
qed

text \<open>One call sends at most \<open>max_attempts\<close> requests, whatever the provider does and whether the
  call returns or raises; each carries the payload to the configured URL with a timeout no longer
  than the policy's, and none may be redirected elsewhere.\<close>

theorem transport_requests_bounded:
  assumes "logged_session B sent" and "post_json B T path payload operation s = (r, t)"
  shows "\<exists>qs. sent t = sent s @ qs \<and> int (length qs) \<le> max 0 (tp_max_attempts (tr_policy T))
    \<and> (\<forall>q \<in> set qs. hq_url q = call_url T path \<and> hq_json q = payload \<and> \<not> hq_allow_redirects q
         \<and> hq_total_timeout q \<le> of_int (tp_total_timeout_ms (tr_policy T)) / 1000)"
  using logged_session.post_json_sent [OF assms] by (simp add: list_all_iff proper_request_def)

theorem transport_requests_bounded_witness:
  "\<exists>r t. post_json wire_outbound demo_transport ''/decisions'' VNone ''assess'' demo_wire = (Inr r, t)
     \<and> length (wi_sent t) = 2 \<and> (\<forall>q \<in> set (wi_sent t). hq_url q = ''https://risk.test/decisions'')"
proof -
  obtain r t where run: "post_json wire_outbound demo_transport ''/decisions'' VNone ''assess''
      demo_wire = (Inr r, t)" "length (wi_sent t) = 2" by (rule demo_called)
  have "wi_sent demo_wire = []" "call_url demo_transport ''/decisions'' = ''https://risk.test/decisions''"
    by (simp_all add: demo_wire_def wire_start_def call_url_def demo_transport_def transport_init_def
        strip_left_def strip_right_def)
  with transport_requests_bounded [OF wire.logged_session_axioms run(1)] run show ?thesis by auto
qed

text \<open>C23: retries, backoff and slow answers together stay within the budget: if the client keeps its
  timeouts, and the loop's own computation takes no time, the attempts of a call are over
  \<open>budget_ms\<close> after they began.\<close>

theorem transport_within_budget:
  assumes "timed_session B clock due" and "attempt_loop B T path payload s = (r, t)"
    and "0 < tp_total_timeout_ms (tr_policy T)" and "0 \<le> tp_budget_ms (tr_policy T)"
  shows "clock t \<le> clock s + of_int (tp_budget_ms (tr_policy T)) / 1000"
  using timed_session.attempt_loop_time [OF assms] .

theorem transport_within_budget_witness:
  "\<exists>r t. attempt_loop wire_outbound demo_transport ''/decisions'' VNone demo_wire = (r, t)
     \<and> length (wi_sent t) = 2 \<and> wi_clock t \<le> 3 / 2"
proof -
  obtain r t where run: "attempt_loop wire_outbound demo_transport ''/decisions'' VNone demo_wire = (r, t)"
    by fastforce
  obtain r' t' where whole: "post_json wire_outbound demo_transport ''/decisions'' VNone ''assess''
      demo_wire = (Inr r', t')" "length (wi_sent t') = 2" by (rule demo_called)
  with run have "t' = t"
    by (auto simp: post_json_def guarded_post_def wire_outbound_def elim!: pbindE pthenE pfinallyE)
  moreover have "0 < tp_total_timeout_ms (tr_policy demo_transport)"
      "tp_budget_ms (tr_policy demo_transport) = 1500" "wi_clock demo_wire = 0"
    by (simp_all add: demo_transport_def transport_init_def transport_policy_default_def demo_wire_def
        wire_start_def)
  ultimately show ?thesis
    using transport_within_budget [OF wire.timed_session_axioms run] run whole by auto
qed

end
