(* ===== verification/Sha256.thy ===== *)
theory Sha256
  imports Json_Text
begin

text \<open>
  \<open>hashlib.sha256(...).hexdigest()\<close>: the secure hash of FIPS 180-4 on 32-bit words, as the
  fingerprints of the service and the fencing of the adapters use it. Nothing is assumed of the
  function; statements about fingerprints name a collision where one would break them.
\<close>

unbundle bit_operations_syntax

type_synonym u32 = "32 word"

text \<open>
  The constants are the first 32 bits of the fractional parts of cube roots (\<open>sha_k\<close>) and square
  roots (\<open>sha_init\<close>) of the first primes: \<open>root_bits\<close> finds the integer root bit by bit.
\<close>

fun root_bits :: "nat \<Rightarrow> nat \<Rightarrow> nat \<Rightarrow> nat \<Rightarrow> nat" where
  "root_bits k n 0 r = r"
| "root_bits k n (Suc b) r =
     (let r' = r + 2 ^ b in root_bits k n b (if r' ^ k \<le> n then r' else r))"

definition root_fraction :: "nat \<Rightarrow> nat \<Rightarrow> u32" where
  "root_fraction k p = word_of_nat (root_bits k (p * 2 ^ (32 * k)) 40 0)"

definition small_primes :: "nat list" where
  "small_primes = filter (\<lambda>p. \<forall>d \<in> set [2..<p]. p mod d \<noteq> 0) [2..<312]"

definition sha_k :: "u32 list" where
  "sha_k = map (root_fraction 3) small_primes"

record sha_state =
  sh_a :: u32
  sh_b :: u32
  sh_c :: u32
  sh_d :: u32
  sh_e :: u32
  sh_f :: u32
  sh_g :: u32
  sh_h :: u32

definition sha_init :: sha_state where
  "sha_init = (let h = map (root_fraction 2) small_primes in
     \<lparr>sh_a = h ! 0, sh_b = h ! 1, sh_c = h ! 2, sh_d = h ! 3,
      sh_e = h ! 4, sh_f = h ! 5, sh_g = h ! 6, sh_h = h ! 7\<rparr>)"

definition rotr :: "nat \<Rightarrow> u32 \<Rightarrow> u32" where
  "rotr n x = word_rotr n x"

text \<open>The message schedule, latest word first.\<close>

fun sha_schedule :: "nat \<Rightarrow> u32 list \<Rightarrow> u32 list" where
  "sha_schedule 0 ws = ws"
| "sha_schedule (Suc n) ws =
     (let w2 = ws ! 1; w7 = ws ! 6; w15 = ws ! 14; w16 = ws ! 15;
          s0 = rotr 7 w15 XOR rotr 18 w15 XOR drop_bit 3 w15;
          s1 = rotr 17 w2 XOR rotr 19 w2 XOR drop_bit 10 w2
      in sha_schedule n ((w16 + s0 + w7 + s1) # ws))"

definition sha_round :: "u32 \<times> u32 \<Rightarrow> sha_state \<Rightarrow> sha_state" where
  "sha_round kw s =
     (let s1 = rotr 6 (sh_e s) XOR rotr 11 (sh_e s) XOR rotr 25 (sh_e s);
          ch = (sh_e s AND sh_f s) XOR (NOT (sh_e s) AND sh_g s);
          t1 = sh_h s + s1 + ch + fst kw + snd kw;
          s0 = rotr 2 (sh_a s) XOR rotr 13 (sh_a s) XOR rotr 22 (sh_a s);
          maj = (sh_a s AND sh_b s) XOR (sh_a s AND sh_c s) XOR (sh_b s AND sh_c s);
          t2 = s0 + maj
      in \<lparr>sh_a = t1 + t2, sh_b = sh_a s, sh_c = sh_b s, sh_d = sh_c s,
          sh_e = sh_d s + t1, sh_f = sh_e s, sh_g = sh_f s, sh_h = sh_g s\<rparr>)"

definition sha_block :: "u32 list \<Rightarrow> sha_state \<Rightarrow> sha_state" where
  "sha_block ws s =
     (let t = fold sha_round (zip sha_k (rev (sha_schedule 48 (rev ws)))) s
      in \<lparr>sh_a = sh_a s + sh_a t, sh_b = sh_b s + sh_b t, sh_c = sh_c s + sh_c t,
          sh_d = sh_d s + sh_d t, sh_e = sh_e s + sh_e t, sh_f = sh_f s + sh_f t,
          sh_g = sh_g s + sh_g t, sh_h = sh_h s + sh_h t\<rparr>)"

text \<open>Padding, big-endian words and blocks of sixteen words.\<close>

definition sha_pad :: "nat list \<Rightarrow> nat list" where
  "sha_pad bs =
     bs @ [128] @ replicate ((119 - length bs mod 64) mod 64) 0
        @ map (\<lambda>i. (length bs * 8) div 256 ^ i mod 256) [7, 6, 5, 4, 3, 2, 1, 0]"

fun be_words :: "nat list \<Rightarrow> u32 list" where
  "be_words (a # b # c # d # bs) =
     word_of_nat (((a * 256 + b) * 256 + c) * 256 + d) # be_words bs"
| "be_words _ = []"

function sha_blocks :: "u32 list \<Rightarrow> sha_state \<Rightarrow> sha_state" where
  "sha_blocks ws s =
     (if length ws < 16 then s else sha_blocks (drop 16 ws) (sha_block (take 16 ws) s))"
  by auto
termination by (relation "measure (length \<circ> fst)") auto

declare sha_blocks.simps [simp del]

definition sha256_words :: "nat list \<Rightarrow> u32 list" where
  "sha256_words bs =
     (let s = sha_blocks (be_words (sha_pad bs)) sha_init
      in [sh_a s, sh_b s, sh_c s, sh_d s, sh_e s, sh_f s, sh_g s, sh_h s])"

definition sha256_hex :: "string \<Rightarrow> string" where
  "sha256_hex text = concat (map (\<lambda>w. hex_digits 8 (unat w)) (sha256_words (map code text)))"

section \<open>Shape\<close>

lemma length_sha256_hex [simp]: "length (sha256_hex t) = 64"
  by (simp add: sha256_hex_def sha256_words_def Let_def)

end
