(* ===== verification/Movement.thy ===== *)
theory Movement
  imports Ports Sha256
begin

text \<open>
  \<open>application/services/wallet_movement.py\<close>: the one place where a balance changes. Each
  method of \<open>WalletMovementService\<close> is a program over the ports; the wallet that
  \<open>deposit\<close>/\<open>withdraw\<close> mutate is a local value that \<open>wallet_move\<close> returns.

  The lemmas of this theory are the ones that hold for every adapter: what each method does on
  each branch. What depends on the adapters is proved in \<open>Movement_Safety\<close>.
\<close>

section \<open>Data\<close>

record movement_settings =
  ms_lock_ttl_ms :: int
  ms_lock_wait_ms :: int
  ms_idempotency_ttl_seconds :: int

definition movement_settings_default :: movement_settings where
  "movement_settings_default =
     \<lparr>ms_lock_ttl_ms = 5000, ms_lock_wait_ms = 2000, ms_idempotency_ttl_seconds = 24 * 3600\<rparr>"

record movement_outcome =
  mo_wallet :: wallet
  mo_entry :: ledger_entry
  mo_replayed :: bool
  mo_balance :: money

record movement_request =
  mr_wallet_id :: wallet_id
  mr_owner_id :: owner_id
  mr_amount :: money
  mr_direction :: ledger_direction
  mr_description :: string
  mr_idempotency_key :: "string option"

section \<open>Keys\<close>

definition scoped_key :: "movement_request \<Rightarrow> string" where
  "scoped_key req =
     uuid_str (oid_value (mr_owner_id req)) @ '':''
       @ (case mr_idempotency_key req of None \<Rightarrow> ''None'' | Some k \<Rightarrow> k)"

text \<open>The members in the order of \<open>sort_keys=True\<close>.\<close>

definition fingerprint_payload :: "movement_request \<Rightarrow> string" where
  "fingerprint_payload req = json_object
     [(''amount'', dec_str (m_amount (mr_amount req))),
      (''currency'', cc_value (m_currency (mr_amount req))),
      (''description'', mr_description req),
      (''direction'', ledger_direction_value (mr_direction req)),
      (''owner_id'', uuid_str (oid_value (mr_owner_id req))),
      (''wallet_id'', uuid_str (wid_value (mr_wallet_id req)))]"

definition fingerprint :: "movement_request \<Rightarrow> string" where
  "fingerprint req = sha256_hex (fingerprint_payload req)"

definition movement_lock_key :: "movement_request \<Rightarrow> string" where
  "movement_lock_key req = ''wallet:'' @ uuid_str (wid_value (mr_wallet_id req))"

section \<open>The reservation\<close>

definition key_error :: exn where
  "key_error = PyExn ''KeyError''"

text \<open>\<open>UUID(str(value))\<close>: of the values a record may hold, text parses as a UUID, an integer by
  its digits; every other \<open>str\<close> is too short or holds a character that is no hex digit.\<close>

definition uuid_of_value :: "pyval \<Rightarrow> exn + uuid" where
  "uuid_of_value v =
     (case v of VStr t \<Rightarrow> uuid_parse t | VInt n \<Rightarrow> uuid_parse (show_int n) | _ \<Rightarrow> Inl value_error)"

definition recorded_entry_id :: "response \<Rightarrow> exn + ledger_entry_id" where
  "recorded_entry_id response =
     (case map_of response ''entry_id'' of
        None \<Rightarrow> Inl key_error
      | Some v \<Rightarrow> (case uuid_of_value v of Inl e \<Rightarrow> Inl e | Inr u \<Rightarrow> Inr (LedgerEntryId u)))"

definition receipt :: "ledger_entry \<Rightarrow> wallet \<Rightarrow> response" where
  "receipt entry w =
     [(''entry_id'', VStr (uuid_str (eid_value (le_id entry)))),
      (''wallet_id'', VStr (uuid_str (wid_value (w_id w))))]"

definition mv_replay ::
  "'s ports \<Rightarrow> movement_request \<Rightarrow> idempotency_record \<Rightarrow> ('s, exn, movement_outcome option) prog"
  where
  "mv_replay P req rec =
     pbind (plift (recorded_entry_id (ir_response rec))) (\<lambda>entry_id.
     pbind (ledger_read P entry_id (mr_owner_id req)) (\<lambda>entry.
     pbind (wallets_read P (mr_wallet_id req) (mr_owner_id req) False) (\<lambda>w.
       case (entry, w) of
         (Some entry, Some w) \<Rightarrow>
           pthen (tx_rollback P)
             (pret (Some \<lparr>mo_wallet = w, mo_entry = entry, mo_replayed = True,
                          mo_balance = le_balance_after entry\<rparr>))
       | _ \<Rightarrow> pret None)))"

definition mv_claim ::
  "'s ports \<Rightarrow> movement_settings \<Rightarrow> movement_request \<Rightarrow> ('s, exn, movement_outcome option) prog"
  where
  "mv_claim P cfg req =
     (case mr_idempotency_key req of
        None \<Rightarrow> pret None
      | Some key \<Rightarrow>
          pbind (idem_reserve P (scoped_key req) (fingerprint req) (ms_idempotency_ttl_seconds cfg))
            (\<lambda>reservation.
              if may_proceed reservation then pret None
              else if res_outcome reservation = CONFLICT then
                praise (app_exn ConflictError IDEMPOTENCY_KEY_REUSED
                  (Some [(''idempotency_key'', VStr key)]))
              else if res_outcome reservation = IN_PROGRESS then
                praise (app_exn ConflictError MOVEMENT_IN_PROGRESS
                  (Some [(''idempotency_key'', VStr key)]))
              else case res_record reservation of
                None \<Rightarrow> pret None
              | Some rec \<Rightarrow> mv_replay P req rec))"

definition mv_release :: "'s ports \<Rightarrow> movement_request \<Rightarrow> ('s, exn, unit) prog" where
  "mv_release P req =
     (case mr_idempotency_key req of None \<Rightarrow> pret () | Some _ \<Rightarrow> idem_release P (scoped_key req))"

text \<open>
  The value of the guarded block is the label \<open>outcome\<close> holds when \<open>finally\<close> reads it. The log
  line of the handler is not modelled.
\<close>

definition mv_confirm ::
  "'s ports \<Rightarrow> movement_settings \<Rightarrow> movement_request \<Rightarrow> wallet \<Rightarrow> ledger_entry
     \<Rightarrow> ('s, exn, unit) prog" where
  "mv_confirm P cfg req w entry =
     (case mr_idempotency_key req of
        None \<Rightarrow> pret ()
      | Some _ \<Rightarrow>
          pbind (perf_counter P) (\<lambda>started_at.
          pthen
            (pfinally
              (pcatch
                (pthen (idem_confirm P (scoped_key req) (receipt entry w)
                          (ms_idempotency_ttl_seconds cfg))
                       (pret ''success''))
                (\<lambda>e. if is_exception e then pret ''unavailable'' else praise e))
              (\<lambda>r. pbind (perf_counter P) (\<lambda>now.
                 observe P (ObserveExternalCall ''idempotency'' ''confirm''
                   (case r of Inl _ \<Rightarrow> ''error'' | Inr outcome \<Rightarrow> outcome) (now - started_at)))))
            (pret ())))"

section \<open>Applying a movement\<close>

text \<open>The way every refusal leaves: roll back, give the key back, raise.\<close>

definition mv_refuse :: "'s ports \<Rightarrow> movement_request \<Rightarrow> exn \<Rightarrow> ('s, exn, 'a) prog" where
  "mv_refuse P req e = pthen (tx_rollback P) (pthen (mv_release P req) (praise e))"

definition mv_write ::
  "'s ports \<Rightarrow> movement_settings \<Rightarrow> movement_request \<Rightarrow> wallet \<Rightarrow> int \<Rightarrow> money \<Rightarrow> datetime
     \<Rightarrow> ('s, exn, movement_outcome) prog" where
  "mv_write P cfg req w expected_version balance_after now =
     pbind (new_uuid P) (\<lambda>u.
     let entry = ledger_record (LedgerEntryId u) (w_id w) (mr_direction req) (mr_amount req)
                   balance_after (mr_description req) now in
     pthen (ledger_add P entry)
     (pbind (wallets_update P w expected_version) (\<lambda>updated.
       if \<not> updated then
         mv_refuse P req (app_exn ConflictError WALLET_VERSION_CONFLICT
           (Some [(''wallet_id'', VStr (uuid_str (wid_value (w_id w))))]))
       else
         pthen (tx_commit P)
         (pthen (mv_confirm P cfg req w entry)
           (pret \<lparr>mo_wallet = w, mo_entry = entry, mo_replayed = False,
                   mo_balance = w_balance w\<rparr>)))))"

definition mv_apply_locked ::
  "'s ports \<Rightarrow> movement_settings \<Rightarrow> movement_request \<Rightarrow> ('s, exn, movement_outcome) prog" where
  "mv_apply_locked P cfg req =
     pbind (wallets_read P (mr_wallet_id req) (mr_owner_id req) True) (\<lambda>found.
       case found of
         None \<Rightarrow>
           mv_refuse P req (app_exn NotFoundError WALLET_NOT_FOUND
             (Some [(''wallet_id'', VStr (uuid_str (wid_value (mr_wallet_id req))))]))
       | Some w \<Rightarrow>
           pbind (clock_now P) (\<lambda>now.
             case wallet_move (mr_direction req) (mr_amount req) now w of
               (Inl e, w') \<Rightarrow> if is_domain_exn e then mv_refuse P req e else praise e
             | (Inr balance_after, w') \<Rightarrow>
                 mv_write P cfg req w' (w_version w) balance_after now))"

definition mv_locked_body ::
  "'s ports \<Rightarrow> movement_settings \<Rightarrow> movement_request \<Rightarrow> seconds \<Rightarrow> lock_handle
     \<Rightarrow> ('s, exn, movement_outcome) prog" where
  "mv_locked_body P cfg req started_at lock =
     pbind (perf_counter P) (\<lambda>now.
     pthen (observe P (ObserveLock ''wallet_movement''
              (if lh_acquired lock then ''acquired'' else ''timeout'') (now - started_at)))
       (if \<not> lh_acquired lock then
          mv_refuse P req (app_exn ConflictError WALLET_BUSY
            (Some [(''wallet_id'', VStr (uuid_str (wid_value (mr_wallet_id req))))]))
        else mv_apply_locked P cfg req))"

definition mv_apply ::
  "'s ports \<Rightarrow> movement_settings \<Rightarrow> movement_request \<Rightarrow> ('s, exn, movement_outcome) prog" where
  "mv_apply P cfg req =
     pbind (mv_claim P cfg req) (\<lambda>replay.
       case replay of
         Some outcome \<Rightarrow> pret outcome
       | None \<Rightarrow>
           pbind (perf_counter P) (\<lambda>started_at.
             with_lock P (movement_lock_key req) (ms_lock_ttl_ms cfg) (ms_lock_wait_ms cfg)
               (mv_locked_body P cfg req started_at)))"

section \<open>Properties\<close>

text \<open>Two requests have the same fingerprint payload exactly when they agree on wallet, owner,
  printed amount, currency, direction and description, so a key used with any of them changed has
  another payload and only a SHA-256 collision could make it pass for the first.\<close>

theorem fingerprint_payload_exact:
  "fingerprint_payload r = fingerprint_payload r' \<longleftrightarrow>
     mr_wallet_id r = mr_wallet_id r' \<and> mr_owner_id r = mr_owner_id r'
     \<and> dec_str (m_amount (mr_amount r)) = dec_str (m_amount (mr_amount r'))
     \<and> m_currency (mr_amount r) = m_currency (mr_amount r')
     \<and> mr_direction r = mr_direction r' \<and> mr_description r = mr_description r'"
proof
  assume "fingerprint_payload r = fingerprint_payload r'"
  from json_object_inject [OF _ this [unfolded fingerprint_payload_def]]
  have e: "dec_str (m_amount (mr_amount r)) = dec_str (m_amount (mr_amount r'))"
      "cc_value (m_currency (mr_amount r)) = cc_value (m_currency (mr_amount r'))"
      "mr_description r = mr_description r'"
      "ledger_direction_value (mr_direction r) = ledger_direction_value (mr_direction r')"
      "oid_value (mr_owner_id r) = oid_value (mr_owner_id r')"
      "wid_value (mr_wallet_id r) = wid_value (mr_wallet_id r')" by simp_all
  from e(4) have "mr_direction r = mr_direction r'"
    by (cases "mr_direction r"; cases "mr_direction r'") simp_all
  with e show "mr_wallet_id r = mr_wallet_id r' \<and> mr_owner_id r = mr_owner_id r'
     \<and> dec_str (m_amount (mr_amount r)) = dec_str (m_amount (mr_amount r'))
     \<and> m_currency (mr_amount r) = m_currency (mr_amount r')
     \<and> mr_direction r = mr_direction r' \<and> mr_description r = mr_description r'"
    by (simp add: wallet_id.expand owner_id.expand currency_code.expand)
qed (simp add: fingerprint_payload_def)

text \<open>A key is one slot per owner: two requests meet in the store exactly when the owner and
  the text of the key are the same, whatever characters a caller puts into the key.\<close>

theorem scoped_key_exact:
  "scoped_key (r\<lparr>mr_idempotency_key := Some k\<rparr>) = scoped_key (r'\<lparr>mr_idempotency_key := Some k'\<rparr>)
     \<longleftrightarrow> mr_owner_id r = mr_owner_id r' \<and> k = k'"
proof -
  have "length (uuid_str (oid_value (mr_owner_id r))) = length (uuid_str (oid_value (mr_owner_id r')))"
    by simp
  then show ?thesis
    by (auto simp: scoped_key_def append_eq_append_conv intro: owner_id.expand)
qed

end
