(* ===== verification/Book.thy ===== *)
theory Book
  imports Entities
begin

text \<open>
  The abstract store a movement acts on: accounts by wallet and the postings of the ledger in
  order. \<open>post\<close> is the whole effect of one accepted movement; \<open>reconciled\<close> is the bookkeeping
  invariant, that every account is what its postings add up to.
\<close>

record posting =
  po_id :: ledger_entry_id
  po_wallet :: wallet_id
  po_direction :: ledger_direction
  po_cents :: int
  po_currency :: currency_code
  po_after :: int
  po_description :: string
  po_at :: datetime

definition posting_of :: "ledger_entry \<Rightarrow> posting" where
  "posting_of e =
     \<lparr>po_id = le_id e, po_wallet = le_wallet_id e, po_direction = le_direction e,
      po_cents = cents (le_amount e), po_currency = m_currency (le_amount e),
      po_after = cents (le_balance_after e), po_description = le_description e,
      po_at = le_occurred_at e\<rparr>"

definition posting_delta :: "posting \<Rightarrow> int" where
  "posting_delta p = signed_cents (po_direction p) (po_cents p)"

record book =
  bk_accounts :: "wallet_id \<Rightarrow> account option"
  bk_postings :: "posting list"

definition empty_book :: book where
  "empty_book = \<lparr>bk_accounts = \<lambda>_. None, bk_postings = []\<rparr>"

definition put_account :: "wallet_id \<Rightarrow> account \<Rightarrow> book \<Rightarrow> book" where
  "put_account i a b = b\<lparr>bk_accounts := (bk_accounts b)(i \<mapsto> a)\<rparr>"

definition add_posting :: "posting \<Rightarrow> book \<Rightarrow> book" where
  "add_posting p b = b\<lparr>bk_postings := bk_postings b @ [p]\<rparr>"

definition owned :: "book \<Rightarrow> wallet_id \<Rightarrow> owner_id \<Rightarrow> account option" where
  "owned b i ow =
     (case bk_accounts b i of None \<Rightarrow> None | Some a \<Rightarrow> if ac_owner a = ow then Some a else None)"

definition wallet_postings :: "book \<Rightarrow> wallet_id \<Rightarrow> posting list" where
  "wallet_postings b i = filter (\<lambda>p. po_wallet p = i) (bk_postings b)"

text \<open>A movement of an owner's wallet, recorded under the id \<open>u\<close> at \<open>now\<close>.\<close>

definition post ::
  "wallet_id \<Rightarrow> owner_id \<Rightarrow> ledger_direction \<Rightarrow> int \<Rightarrow> currency_code \<Rightarrow> string \<Rightarrow> ledger_entry_id
     \<Rightarrow> datetime \<Rightarrow> book \<Rightarrow> book option" where
  "post i ow dir n cur descr u now b =
     (case owned b i ow of
        None \<Rightarrow> None
      | Some a \<Rightarrow>
          if u \<in> po_id ` set (bk_postings b) then None
          else case account_move dir n cur now a of
            None \<Rightarrow> None
          | Some a' \<Rightarrow>
              Some (put_account i a'
                (add_posting \<lparr>po_id = u, po_wallet = i, po_direction = dir, po_cents = n,
                   po_currency = cur, po_after = ac_cents a', po_description = descr,
                   po_at = now\<rparr> b)))"

text \<open>Running a ledger from a balance: each posting moves a positive amount of the right
  currency, its \<open>balance_after\<close> is the running balance, and the balance stays in range.\<close>

fun run_postings :: "currency_code \<Rightarrow> int \<Rightarrow> posting list \<Rightarrow> int option" where
  "run_postings cur bal [] = Some bal"
| "run_postings cur bal (p # ps) =
     (if po_currency p = cur \<and> 0 < po_cents p \<and> po_after p = bal + posting_delta p
         \<and> 0 \<le> po_after p \<and> po_after p \<le> cents_limit
      then run_postings cur (po_after p) ps else None)"

definition account_reconciled :: "book \<Rightarrow> wallet_id \<Rightarrow> account \<Rightarrow> bool" where
  "account_reconciled b i a \<longleftrightarrow>
     run_postings (ac_currency a) 0 (wallet_postings b i) = Some (ac_cents a)
       \<and> ac_version a = int (length (wallet_postings b i))"

definition reconciled :: "book \<Rightarrow> bool" where
  "reconciled b \<longleftrightarrow>
     (\<forall>i a. bk_accounts b i = Some a \<longrightarrow> account_reconciled b i a)
       \<and> (\<forall>p \<in> set (bk_postings b). bk_accounts b (po_wallet p) \<noteq> None)
       \<and> distinct (map po_id (bk_postings b))"

section \<open>Facts\<close>

lemma book_simps [simp]:
  "bk_accounts (put_account i a b) = (bk_accounts b)(i \<mapsto> a)"
  "bk_postings (put_account i a b) = bk_postings b"
  "bk_accounts (add_posting p b) = bk_accounts b"
  "bk_postings (add_posting p b) = bk_postings b @ [p]"
  by (simp_all add: put_account_def add_posting_def)

lemma posting_of_simps [simp]:
  "po_id (posting_of e) = le_id e" "po_wallet (posting_of e) = le_wallet_id e"
  "po_direction (posting_of e) = le_direction e" "po_cents (posting_of e) = cents (le_amount e)"
  "po_currency (posting_of e) = m_currency (le_amount e)"
  "po_after (posting_of e) = cents (le_balance_after e)"
  "po_description (posting_of e) = le_description e" "po_at (posting_of e) = le_occurred_at e"
  by (simp_all add: posting_of_def)

lemma owned_Some: "owned b i ow = Some a \<longleftrightarrow> bk_accounts b i = Some a \<and> ac_owner a = ow"
  by (auto simp: owned_def split: option.splits)

lemma run_postings_append:
  "run_postings cur bal (ps @ qs) =
     (case run_postings cur bal ps of None \<Rightarrow> None | Some b \<Rightarrow> run_postings cur b qs)"
  by (induction ps arbitrary: bal) auto

lemma run_postings_sum:
  "run_postings cur bal ps = Some b \<Longrightarrow> b = bal + sum_list (map posting_delta ps)"
proof (induction ps arbitrary: bal)
  case (Cons p ps)
  from Cons.prems Cons.IH [of "po_after p"] show ?case by (auto split: if_splits)
qed simp

lemma run_postings_range:
  "run_postings cur bal ps = Some b \<Longrightarrow> 0 \<le> bal \<Longrightarrow> bal \<le> cents_limit \<Longrightarrow> 0 \<le> b \<and> b \<le> cents_limit"
  by (induction ps arbitrary: bal) (auto split: if_splits)

lemma postE:
  assumes "post i ow dir n cur descr u now b = Some b'"
  obtains a a' where "bk_accounts b i = Some a" "ac_owner a = ow"
    "u \<notin> po_id ` set (bk_postings b)" "account_move dir n cur now a = Some a'"
    "b' = put_account i a' (add_posting \<lparr>po_id = u, po_wallet = i, po_direction = dir,
       po_cents = n, po_currency = cur, po_after = ac_cents a', po_description = descr,
       po_at = now\<rparr> b)"
  using assms by (auto simp: post_def owned_Some split: option.splits if_splits)

lemma post_other_accounts:
  "post i ow dir n cur descr u now b = Some b' \<Longrightarrow> j \<noteq> i
     \<Longrightarrow> bk_accounts b' j = bk_accounts b j \<and> wallet_postings b' j = wallet_postings b j"
  by (auto elim!: postE simp: wallet_postings_def)

lemma reconciled_empty [simp]: "reconciled empty_book"
  by (simp add: reconciled_def empty_book_def)

lemma reconciled_open:
  assumes "reconciled b" "bk_accounts b i = None" "ac_cents a = 0" "ac_version a = 0"
  shows "reconciled (put_account i a b)"
proof -
  have "wallet_postings b i = []"
    using assms(1,2) by (force simp: reconciled_def wallet_postings_def filter_empty_conv)
  with assms show ?thesis
    by (auto simp: reconciled_def account_reconciled_def wallet_postings_def)
qed

lemma post_reconciled:
  assumes "reconciled b" "post i ow dir n cur descr u now b = Some b'"
  shows "reconciled b'"
  using assms(2)
proof (cases rule: postE)
  case (1 a a')
  note move = 1
  from move(4) have a': "ac_currency a' = ac_currency a" "ac_version a' = ac_version a + 1"
    by (auto elim: account_moveE)
  from assms(1) move(1) have rec: "account_reconciled b i a" by (simp add: reconciled_def)
  have "account_reconciled b' i a'"
    using rec move(4) a' unfolding move(5)
    by (auto simp: account_reconciled_def wallet_postings_def run_postings_append
        posting_delta_def elim!: account_moveE)
  moreover have "account_reconciled b' j x" if "j \<noteq> i" "bk_accounts b' j = Some x" for j x
  proof -
    from post_other_accounts [OF assms(2) that(1)] that(2) assms(1)
    show ?thesis by (auto simp: account_reconciled_def reconciled_def)
  qed
  moreover have "\<forall>p \<in> set (bk_postings b'). bk_accounts b' (po_wallet p) \<noteq> None"
      "distinct (map po_id (bk_postings b'))"
    using assms(1) move unfolding move(5) by (auto simp: reconciled_def)
  ultimately show ?thesis
    unfolding reconciled_def using move(5) by (metis book_simps(1) fun_upd_same option.inject)
qed

end
