(* ===== verification/Movement_Safety.thy ===== *)
theory Movement_Safety
  imports Movement Book
begin

text \<open>
  What the movement service guarantees on any backend that keeps the promises of its ports.

  \<open>movement_backend\<close> is that contract: a session sees a book (\<open>sess\<close>), the database holds the
  committed one (\<open>comm\<close>), the repositories act on the session, and only \<open>commit\<close> moves the
  committed book. Every operation may raise at any call, a commit that raises may or may not have
  taken effect. \<open>returning_backend\<close> adds that the calls after a commit (lock release, metrics, clock of
  the timer) do not raise, \<open>reliable_backend\<close> that a raised commit did not take effect.
\<close>

definition quiet :: "('s \<Rightarrow> book) \<Rightarrow> ('s \<Rightarrow> book) \<Rightarrow> ('s, exn, 'a) prog \<Rightarrow> bool" where
  "quiet sess comm m \<longleftrightarrow> keeps (\<lambda>s t. sess t = sess s \<and> comm t = comm s) m"

lemma quietD: "quiet sess comm m \<Longrightarrow> m s = (r, t) \<Longrightarrow> sess t = sess s \<and> comm t = comm s"
  unfolding quiet_def by (drule keepsD)

lemma quietI: "(\<And>s r t. m s = (r, t) \<Longrightarrow> sess t = sess s \<and> comm t = comm s) \<Longrightarrow> quiet sess comm m"
  unfolding quiet_def by (rule keepsI)

lemma quiet_simps [simp]:
  "quiet sess comm (pret x)" "quiet sess comm (praise e)" "quiet sess comm (plift r)"
  by (auto intro!: quietI)

lemma quiet_bind [intro]:
  "quiet sess comm m \<Longrightarrow> (\<And>x. quiet sess comm (f x)) \<Longrightarrow> quiet sess comm (pbind m f)"
  by (rule quietI) (fastforce elim!: pbindE dest: quietD)

lemma quiet_then [intro]: "quiet sess comm m \<Longrightarrow> quiet sess comm n \<Longrightarrow> quiet sess comm (pthen m n)"
  by (auto simp: pthen_def)

lemma quiet_catch [intro]:
  "quiet sess comm m \<Longrightarrow> (\<And>e. quiet sess comm (h e)) \<Longrightarrow> quiet sess comm (pcatch m h)"
  by (rule quietI) (fastforce elim!: pcatchE dest: quietD)

lemma quiet_finally [intro]:
  "quiet sess comm m \<Longrightarrow> (\<And>r. quiet sess comm (fin r)) \<Longrightarrow> quiet sess comm (pfinally m fin)"
  by (rule quietI) (fastforce elim!: pfinallyE dest: quietD)

text \<open>The committed book alone.\<close>

definition still :: "('s \<Rightarrow> book) \<Rightarrow> ('s, exn, 'a) prog \<Rightarrow> bool" where
  "still comm m \<longleftrightarrow> keeps (\<lambda>s t. comm t = comm s) m"

lemma stillD: "still comm m \<Longrightarrow> m s = (r, t) \<Longrightarrow> comm t = comm s"
  unfolding still_def by (drule keepsD)

lemma stillI: "(\<And>s r t. m s = (r, t) \<Longrightarrow> comm t = comm s) \<Longrightarrow> still comm m"
  unfolding still_def by (rule keepsI)

lemma quiet_still: "quiet sess comm m \<Longrightarrow> still comm m"
  by (rule stillI) (auto dest: quietD)

lemma still_simps [simp]: "still comm (pret x)" "still comm (praise e)" "still comm (plift r)"
  by (auto intro!: stillI)

lemma still_bind [intro]:
  "still comm m \<Longrightarrow> (\<And>x. still comm (f x)) \<Longrightarrow> still comm (pbind m f)"
  by (rule stillI) (fastforce elim!: pbindE dest: stillD)

lemma still_then [intro]: "still comm m \<Longrightarrow> still comm n \<Longrightarrow> still comm (pthen m n)"
  by (auto simp: pthen_def)

text \<open>A program that, when it raises, has left the committed book alone.\<close>

definition undone :: "('s \<Rightarrow> book) \<Rightarrow> ('s, exn, 'a) prog \<Rightarrow> bool" where
  "undone comm m \<longleftrightarrow> (\<forall>s e t. m s = (Inl e, t) \<longrightarrow> comm t = comm s)"

lemma undoneI: "(\<And>s e t. m s = (Inl e, t) \<Longrightarrow> comm t = comm s) \<Longrightarrow> undone comm m"
  by (simp add: undone_def)

lemma undoneD: "undone comm m \<Longrightarrow> m s = (Inl e, t) \<Longrightarrow> comm t = comm s"
  by (simp add: undone_def)

lemma still_undone: "still comm m \<Longrightarrow> undone comm m"
  by (rule undoneI) (rule stillD)

lemma undone_bind: "still comm m \<Longrightarrow> (\<And>x. undone comm (f x)) \<Longrightarrow> undone comm (pbind m f)"
  by (rule undoneI) (fastforce elim!: pbindE dest: stillD undoneD)

lemma undone_then: "still comm m \<Longrightarrow> undone comm n \<Longrightarrow> undone comm (pthen m n)"
  by (simp add: pthen_def undone_bind)

section \<open>The contract\<close>

locale movement_backend =
  fixes P :: "'s ports"
    and sess :: "'s \<Rightarrow> book"
    and comm :: "'s \<Rightarrow> book"
  assumes read_still: "still comm (wallets_read P i ow fu)"
    and read_session: "wallets_read P i ow fu s = (Inr x, t) \<Longrightarrow> sess t = sess s"
    and read_found: "wallets_read P i ow fu s = (Inr (Some w), t) \<Longrightarrow>
      wf_wallet w \<and> w_id w = i \<and> owned (sess s) i ow = Some (account_of w)"
    and read_missing: "wallets_read P i ow fu s = (Inr None, t) \<Longrightarrow> owned (sess s) i ow = None"
    and update_still: "still comm (wallets_update P w v)"
    and update_done: "wallets_update P w v s = (Inr True, t) \<Longrightarrow>
      wf_wallet w \<Longrightarrow> \<exists>a. bk_accounts (sess s) (w_id w) = Some a \<and> ac_version a = v
        \<and> sess t = put_account (w_id w) ((account_of w)\<lparr>ac_created_at := ac_created_at a\<rparr>) (sess s)"
    and update_stale: "wallets_update P w v s = (Inr False, t) \<Longrightarrow> sess t = sess s
      \<and> (\<forall>a. bk_accounts (sess s) (w_id w) = Some a \<longrightarrow> ac_version a \<noteq> v)"
    and entry_still: "still comm (ledger_add P en)"
    and entry_added: "ledger_add P en s = (Inr (), t) \<Longrightarrow>
      valid_money (le_amount en) \<Longrightarrow> valid_money (le_balance_after en) \<Longrightarrow>
      m_currency (le_balance_after en) = m_currency (le_amount en) \<Longrightarrow>
      le_id en \<notin> po_id ` set (bk_postings (sess s)) \<and> sess t = add_posting (posting_of en) (sess s)"
    and entry_read_still: "still comm (ledger_read P u ow)"
    and entry_read_session: "ledger_read P u ow s = (Inr y, t) \<Longrightarrow> sess t = sess s"
    and entry_found: "ledger_read P u ow s = (Inr (Some en), t) \<Longrightarrow>
      le_id en = u \<and> posting_of en \<in> set (bk_postings (sess s))
        \<and> owned (sess s) (le_wallet_id en) ow \<noteq> None"
    and commit_done: "tx_commit P s = (Inr (), t) \<Longrightarrow> comm t = sess s \<and> sess t = sess s"
    and commit_raised: "tx_commit P s = (Inl e, t) \<Longrightarrow> comm t = comm s \<or> comm t = sess s"
    and rollback_still: "still comm (tx_rollback P)"
    and rollback_done: "tx_rollback P s = (Inr (), t) \<Longrightarrow> sess t = comm s"
    and lock_quiet: "quiet sess comm (lock_enter P k ttl wait)" "quiet sess comm (lock_exit P h)"
    and idem_quiet: "quiet sess comm (idem_reserve P k f n)"
      "quiet sess comm (idem_confirm P k r n)" "quiet sess comm (idem_release P k)"
    and misc_quiet: "quiet sess comm (clock_now P)" "quiet sess comm (new_uuid P)"
      "quiet sess comm (perf_counter P)" "quiet sess comm (observe P m)"

locale returning_backend = movement_backend +
  assumes exit_returns: "\<exists>t. lock_exit P h s = (Inr (), t)"
    and observe_returns: "\<exists>t. observe P m s = (Inr (), t)"
    and timer_returns: "\<exists>x t. perf_counter P s = (Inr x, t)"
    and confirm_not_cancelled: "idem_confirm P k r n s = (Inl e, t) \<Longrightarrow> is_exception e"

locale reliable_backend = returning_backend +
  assumes commit_atomic: "tx_commit P s = (Inl e, t) \<Longrightarrow> comm t = comm s"

text \<open>The book after the movement that \<open>req\<close> asks for, under the entry id and time chosen.\<close>

definition post_request ::
  "movement_request \<Rightarrow> ledger_entry_id \<Rightarrow> datetime \<Rightarrow> book \<Rightarrow> book option" where
  "post_request req u now b =
     post (mr_wallet_id req) (mr_owner_id req) (mr_direction req) (cents (mr_amount req))
       (m_currency (mr_amount req)) (py_strip (mr_description req)) u now b"

text \<open>What a fresh outcome tells the caller, against the books before and after.\<close>

definition reports :: "movement_request \<Rightarrow> movement_outcome \<Rightarrow> book \<Rightarrow> book \<Rightarrow> bool" where
  "reports req out b b' \<longleftrightarrow>
     post_request req (le_id (mo_entry out)) (le_occurred_at (mo_entry out)) b = Some b'
       \<and> bk_postings b' = bk_postings b @ [posting_of (mo_entry out)]
       \<and> bk_accounts b' (mr_wallet_id req) = Some (account_of (mo_wallet out))
       \<and> w_id (mo_wallet out) = mr_wallet_id req
       \<and> mo_balance out = w_balance (mo_wallet out)
       \<and> le_balance_after (mo_entry out) = mo_balance out"

text \<open>The result of a run of the write path.\<close>

definition applied ::
  "movement_request \<Rightarrow> book \<Rightarrow> exn + movement_outcome \<Rightarrow> book \<Rightarrow> bool" where
  "applied req b r b' \<longleftrightarrow>
     (case r of
        Inl e \<Rightarrow> b' = b \<or> (\<exists>u now. post_request req u now b = Some b')
      | Inr out \<Rightarrow> reports req out b b' \<and> \<not> mo_replayed out)"

text \<open>What a replay tells the caller.\<close>

definition replays :: "movement_request \<Rightarrow> book \<Rightarrow> movement_outcome \<Rightarrow> bool" where
  "replays req b out \<longleftrightarrow> mo_replayed out
     \<and> posting_of (mo_entry out) \<in> set (bk_postings b)
     \<and> owned b (le_wallet_id (mo_entry out)) (mr_owner_id req) \<noteq> None
     \<and> owned b (mr_wallet_id req) (mr_owner_id req) = Some (account_of (mo_wallet out))
     \<and> w_id (mo_wallet out) = mr_wallet_id req
     \<and> mo_balance out = le_balance_after (mo_entry out)"

lemma applied_raise [intro]: "b' = b \<Longrightarrow> applied req b (Inl e) b'"
  by (simp add: applied_def)

lemma applied_weaken: "applied req b r b' \<Longrightarrow> applied req b (Inl e) b'"
  by (auto simp: applied_def reports_def split: sum.splits)

context movement_backend begin

lemmas quiet_ports [simp, intro] =
  lock_quiet idem_quiet misc_quiet

lemmas still_ports [simp] =
  quiet_ports [THEN quiet_still] read_still entry_read_still update_still entry_still
  rollback_still

lemma release_quiet [simp, intro]: "quiet sess comm (mv_release P req)"
  by (auto simp: mv_release_def split: option.splits)

lemma confirm_quiet [simp, intro]: "quiet sess comm (mv_confirm P cfg req w en)"
  unfolding mv_confirm_def
  by (cases "mr_idempotency_key req")
    (auto intro!: quiet_bind quiet_then quiet_finally quiet_catch)

lemma refuse_still [simp, intro]: "still comm (mv_refuse P req e)"
  unfolding mv_refuse_def
  by (rule still_then, rule rollback_still, rule still_then, rule quiet_still, rule release_quiet) simp

lemma refuse_raises: "mv_refuse P req e s = (r, t) \<Longrightarrow> \<exists>e'. r = Inl e' \<and> comm t = comm s"
  using stillD [OF refuse_still, of req e s r t] unfolding mv_refuse_def by (auto elim!: pthenE)

lemma refuse_applied: "mv_refuse P req e s = (r, t) \<Longrightarrow> applied req (comm s) r (comm t)"
  by (drule refuse_raises) auto

text \<open>One fact per port for a run.\<close>

lemma read_run:
  "wallets_read P i ow fu s = (r, t) \<Longrightarrow> comm t = comm s \<and> (\<forall>x. r = Inr x \<longrightarrow> sess t = sess s)
     \<and> (\<forall>w. r = Inr (Some w) \<longrightarrow>
          wf_wallet w \<and> w_id w = i \<and> owned (sess s) i ow = Some (account_of w))
     \<and> (r = Inr None \<longrightarrow> owned (sess s) i ow = None)"
  using stillD [OF read_still] read_session read_found read_missing by (cases r) auto

lemma entry_run:
  "ledger_read P u ow s = (r, t) \<Longrightarrow> comm t = comm s \<and> (\<forall>x. r = Inr x \<longrightarrow> sess t = sess s)
     \<and> (\<forall>en. r = Inr (Some en) \<longrightarrow> le_id en = u \<and> posting_of en \<in> set (bk_postings (sess s))
          \<and> owned (sess s) (le_wallet_id en) ow \<noteq> None)"
  using stillD [OF entry_read_still] entry_read_session entry_found by blast

text \<open>The claim never touches the books; if it lets the caller go on, the session is as it was.\<close>

lemma replay_run:
  assumes "mv_replay P req rec s = (r, t)"
  shows "comm t = comm s \<and> (r = Inr None \<longrightarrow> sess t = sess s)
    \<and> (\<forall>out. r = Inr (Some out) \<longrightarrow> replays req (sess s) out
         \<and> recorded_entry_id (ir_response rec) = Inr (le_id (mo_entry out)))"
proof (cases "recorded_entry_id (ir_response rec)")
  case (Inl e)
  with assms show ?thesis by (auto simp: mv_replay_def pbind_def)
next
  case (Inr x)
  obtain r1 s1 where E: "ledger_read P x (mr_owner_id req) s = (r1, s1)" by fastforce
  obtain r2 s2 where W: "wallets_read P (mr_wallet_id req) (mr_owner_id req) False s1 = (r2, s2)"
    by fastforce
  obtain r3 s3 where R: "tx_rollback P s2 = (r3, s3)" by fastforce
  show ?thesis
    using assms Inr entry_run [OF E] read_run [OF W] stillD [OF rollback_still R]
    by (cases r1; cases r2; cases r3)
      (auto simp: mv_replay_def pbind_def pthen_def E W R replays_def split: option.splits)
qed

lemma claim_run:
  assumes "mv_claim P cfg req s = (r, t)"
  shows "comm t = comm s \<and> (r = Inr None \<longrightarrow> sess t = sess s)
    \<and> (\<forall>out. r = Inr (Some out) \<longrightarrow> replays req (sess s) out)"
proof (cases "mr_idempotency_key req")
  case None
  with assms show ?thesis by (auto simp: mv_claim_def)
next
  case (Some k)
  obtain r1 s1 where R: "idem_reserve P (scoped_key req) (fingerprint req)
      (ms_idempotency_ttl_seconds cfg) s = (r1, s1)" by fastforce
  note q = quietD [OF idem_quiet(1) R]
  show ?thesis
  proof (cases "\<exists>x rec. r1 = Inr x \<and> \<not> may_proceed x \<and> res_outcome x \<notin> {CONFLICT, IN_PROGRESS}
      \<and> res_record x = Some rec")
    case True
    then obtain rec where "mv_replay P req rec s1 = (r, t)"
      using assms Some R by (auto simp: mv_claim_def pbind_def)
    from replay_run [OF this] q show ?thesis by auto
  next
    case False
    then show ?thesis
      using assms Some R q
      by (cases r1) (auto simp: mv_claim_def pbind_def split: if_splits option.splits)
  qed
qed

text \<open>The write path, from a wallet that the entity has already moved.\<close>

lemma write_run:
  assumes run: "mv_write P cfg req w v bal now s = (r, t)"
    and fresh: "sess s = comm s"
    and w: "wf_wallet w" "w_id w = mr_wallet_id req" "w_balance w = bal"
    and v: "valid_money (mr_amount req)"
    and a: "owned (comm s) (mr_wallet_id req) (mr_owner_id req) = Some a"
      "ac_created_at a = w_created_at w"
      "account_move (mr_direction req) (cents (mr_amount req)) (m_currency (mr_amount req)) now a
         = Some (account_of w)"
  shows "applied req (comm s) r (comm t)"
proof -
  obtain r1 s1 where U: "new_uuid P s = (r1, s1)" by fastforce
  note qU = quietD [OF misc_quiet(2) U]
  show ?thesis
  proof (cases r1)
    case (Inl e)
    with run U qU show ?thesis by (auto simp: mv_write_def pbind_def)
  next
    case (Inr u)
    define en where "en = ledger_record (LedgerEntryId u) (w_id w) (mr_direction req)
      (mr_amount req) bal (mr_description req) now"
    have en: "le_id en = LedgerEntryId u" "le_occurred_at en = now" "le_balance_after en = bal"
        "posting_of en = \<lparr>po_id = LedgerEntryId u, po_wallet = mr_wallet_id req,
           po_direction = mr_direction req, po_cents = cents (mr_amount req),
           po_currency = m_currency (mr_amount req), po_after = ac_cents (account_of w),
           po_description = py_strip (mr_description req), po_at = now\<rparr>"
      by (simp_all add: en_def ledger_record_def posting_of_def w)
    obtain r2 s2 where L: "ledger_add P en s1 = (r2, s2)" by fastforce
    note cL = stillD [OF entry_still L]
    obtain r3 s3 where W: "wallets_update P w v s2 = (r3, s3)" by fastforce
    note cW = stillD [OF update_still W]
    have run': "(case r2 of Inl e \<Rightarrow> (Inl e, s2) | Inr _ \<Rightarrow> (case r3 of Inl e \<Rightarrow> (Inl e, s3)
        | Inr ok \<Rightarrow> if \<not> ok then mv_refuse P req (app_exn ConflictError WALLET_VERSION_CONFLICT
             (Some [(''wallet_id'', VStr (uuid_str (wid_value (w_id w))))])) s3
           else pthen (tx_commit P) (pthen (mv_confirm P cfg req w en)
             (pret \<lparr>mo_wallet = w, mo_entry = en, mo_replayed = False,
                     mo_balance = w_balance w\<rparr>)) s3)) = (r, t)"
      using run
      by (cases r2; cases r3; cases "projr r3")
        (simp_all add: mv_write_def pbind_def pthen_def U Inr L W en_def [symmetric] Let_def)
    show ?thesis
    proof (cases "r2 = Inr () \<and> r3 = Inr True")
      case False
      then show ?thesis
        using run' cL cW qU by (auto split: sum.splits if_splits dest: refuse_applied)
    next
      case True
      with L have L': "ledger_add P en s1 = (Inr (), s2)" by simp
      have "m_currency bal = m_currency (mr_amount req)"
        using account_move_currency [OF a(3)] w(3) by (simp add: wallet_currency_def)
      then have "valid_money (le_amount en)" "valid_money (le_balance_after en)"
          "m_currency (le_balance_after en) = m_currency (le_amount en)"
        using v w(1,3) by (simp_all add: en_def ledger_record_def wf_wallet_def)
      note add = entry_added [OF L' this]
      from True W have "wallets_update P w v s2 = (Inr True, s3)" by simp
      from update_done [OF this w(1)] add a qU w(2) fresh
      have new: "sess s3 = put_account (mr_wallet_id req) (account_of w) (sess s2)"
        by (auto simp: owned_Some)
      have post: "post_request req (le_id en) (le_occurred_at en) (comm s) = Some (sess s3)"
        using add qU fresh a by (simp add: post_request_def post_def new en)
      obtain r4 s4 where C: "tx_commit P s3 = (r4, s4)" by fastforce
      have C': "comm s4 = sess s3 \<or> (\<exists>e. r4 = Inl e \<and> comm s4 = comm s)"
        using C cW cL qU by (cases r4) (auto dest: commit_done commit_raised)
      obtain r5 s5 where F: "mv_confirm P cfg req w en s4 = (r5, s5)" by fastforce
      note qF = quietD [OF confirm_quiet F]
      have "(\<exists>e. r = Inl e \<and> (comm t = comm s \<or> comm t = sess s3))
          \<or> (r = Inr \<lparr>mo_wallet = w, mo_entry = en, mo_replayed = False, mo_balance = bal\<rparr>
              \<and> comm t = sess s3)"
        using run' True C' qF w(3) by (cases r4; cases r5) (auto simp: pthen_def pbind_def C F)
      then show ?thesis
        using post add new qU fresh w en by (auto simp: applied_def reports_def)
    qed
  qed
qed

lemma apply_locked_run:
  assumes run: "mv_apply_locked P cfg req s = (r, t)"
    and fresh: "sess s = comm s"
    and v: "valid_money (mr_amount req)"
  shows "applied req (comm s) r (comm t)"
proof -
  obtain r1 s1 where R: "wallets_read P (mr_wallet_id req) (mr_owner_id req) True s = (r1, s1)"
    by fastforce
  note rd = read_run [OF R]
  obtain r2 s2 where N: "clock_now P s1 = (r2, s2)" by fastforce
  note qN = quietD [OF misc_quiet(1) N]
  show ?thesis
  proof (cases "\<exists>w now. r1 = Inr (Some w) \<and> r2 = Inr now")
    case False
    then show ?thesis
      using run rd qN
      by (cases r1; cases "projr r1"; cases r2)
        (auto simp: mv_apply_locked_def pbind_def R N dest: refuse_applied)
  next
    case True
    then obtain w now where w: "r1 = Inr (Some w)" "r2 = Inr now" by blast
    with rd fresh have own: "wf_wallet w" "w_id w = mr_wallet_id req"
        "owned (comm s) (mr_wallet_id req) (mr_owner_id req) = Some (account_of w)" by auto
    note ref = wallet_move_refines [OF own(1) v, of "mr_direction req" now]
    obtain r3 w' where M: "wallet_move (mr_direction req) (mr_amount req) now w = (r3, w')" by fastforce
    show ?thesis
    proof (cases r3)
      case (Inl e)
      with run w M ref have "mv_refuse P req e s2 = (r, t)"
        by (simp add: mv_apply_locked_def pbind_def R N)
      from refuse_applied [OF this] rd qN show ?thesis by simp
    next
      case (Inr bal)
      with run w M have "mv_write P cfg req w' (w_version w) bal now s2 = (r, t)"
        by (simp add: mv_apply_locked_def pbind_def R N)
      from write_run [OF this _ _ _ _ v, of "account_of w"] show ?thesis
        using ref M Inr own rd qN fresh w by auto
    qed
  qed
qed

lemma locked_body_run:
  assumes run: "mv_locked_body P cfg req st h s = (r, t)"
    and fresh: "sess s = comm s" and v: "valid_money (mr_amount req)"
  shows "applied req (comm s) r (comm t)"
proof -
  obtain r1 s1 where T: "perf_counter P s = (r1, s1)" by fastforce
  note qT = quietD [OF misc_quiet(3) T]
  show ?thesis
  proof (cases r1)
    case (Inl e)
    with run T qT show ?thesis by (auto simp: mv_locked_body_def pbind_def)
  next
    case (Inr now)
    obtain r2 s2 where O: "observe P (ObserveLock ''wallet_movement''
        (if lh_acquired h then ''acquired'' else ''timeout'') (now - st)) s1 = (r2, s2)" by fastforce
    note qO = quietD [OF misc_quiet(4) O]
    show ?thesis
      using run T Inr O qT qO fresh apply_locked_run [OF _ _ v, of cfg s2 r t]
      by (cases r2) (auto simp: mv_locked_body_def pbind_def pthen_def dest: refuse_applied
          split: if_splits)
  qed
qed

lemma with_lock_run:
  assumes run: "with_lock P k ttl wait body s = (r, t)" and fresh: "sess s = comm s"
    and body: "\<And>h s r t. body h s = (r, t) \<Longrightarrow> sess s = comm s \<Longrightarrow> applied req (comm s) r (comm t)"
  shows "applied req (comm s) r (comm t)"
proof -
  obtain r1 s1 where E: "lock_enter P k ttl wait s = (r1, s1)" by fastforce
  note qE = quietD [OF lock_quiet(1) E]
  show ?thesis
  proof (cases r1)
    case (Inl e)
    with run E qE show ?thesis by (auto simp: with_lock_def pbind_def)
  next
    case (Inr h)
    obtain r2 s2 where B: "body h s1 = (r2, s2)" by fastforce
    with body [OF B] qE fresh have ap: "applied req (comm s) r2 (comm s2)" by simp
    obtain r3 s3 where X: "lock_exit P h s2 = (r3, s3)" by fastforce
    note qX = quietD [OF lock_quiet(2) X]
    show ?thesis
      using run E Inr B X ap qX
      by (cases r3) (auto simp: with_lock_def pbind_def pfinally_def intro: applied_weaken)
  qed
qed

text \<open>A run of \<open>apply\<close>: a replay that leaves the books alone, or the write path's result.\<close>

lemma apply_run:
  assumes run: "mv_apply P cfg req s = (r, t)"
    and fresh: "sess s = comm s" and v: "valid_money (mr_amount req)"
  shows "applied req (comm s) r (comm t)
    \<or> (\<exists>out. r = Inr out \<and> replays req (comm s) out \<and> comm t = comm s)"
proof -
  obtain r1 s1 where C: "mv_claim P cfg req s = (r1, s1)" by fastforce
  note cl = claim_run [OF C]
  show ?thesis
  proof (cases "r1 = Inr None")
    case False
    with run C cl fresh show ?thesis
      by (cases r1; cases "projr r1") (auto simp: mv_apply_def pbind_def)
  next
    case True
    obtain r2 s2 where T: "perf_counter P s1 = (r2, s2)" by fastforce
    note qT = quietD [OF misc_quiet(3) T]
    show ?thesis
    proof (cases r2)
      case (Inl e)
      with run C True T qT cl show ?thesis by (auto simp: mv_apply_def pbind_def)
    next
      case (Inr st)
      with run C True T have "with_lock P (movement_lock_key req) (ms_lock_ttl_ms cfg)
          (ms_lock_wait_ms cfg) (mv_locked_body P cfg req st) s2 = (r, t)"
        by (simp add: mv_apply_def pbind_def)
      from with_lock_run [OF this, of req] locked_body_run [OF _ _ v] show ?thesis
        using qT cl True fresh by auto
    qed
  qed
qed

end

context returning_backend begin

lemma confirm_returns: "\<exists>t. mv_confirm P cfg req w en s = (Inr (), t)"
proof (cases "mr_idempotency_key req")
  case None
  then show ?thesis by (simp add: mv_confirm_def)
next
  case (Some k)
  obtain st s1 where T: "perf_counter P s = (Inr st, s1)" using timer_returns by blast
  obtain r2 s2 where C: "idem_confirm P (scoped_key req) (receipt en w)
      (ms_idempotency_ttl_seconds cfg) s1 = (r2, s2)" by fastforce
  obtain now s3 where T2: "perf_counter P s2 = (Inr now, s3)" using timer_returns by blast
  have O: "\<exists>t. observe P m s3 = (Inr (), t)" for m by (rule observe_returns)
  show ?thesis
  proof (cases r2)
    case (Inl e)
    with C confirm_not_cancelled have "is_exception e" by blast
    moreover obtain t where "observe P (ObserveExternalCall ''idempotency'' ''confirm''
        ''unavailable'' (now - st)) s3 = (Inr (), t)" using O by blast
    ultimately show ?thesis
      by (simp add: mv_confirm_def pbind_def pthen_def pcatch_def pfinally_def Some T C T2 Inl)
  next
    case (Inr x)
    moreover obtain t where "observe P (ObserveExternalCall ''idempotency'' ''confirm''
        ''success'' (now - st)) s3 = (Inr (), t)" using O by blast
    ultimately show ?thesis
      by (simp add: mv_confirm_def pbind_def pthen_def pcatch_def pfinally_def Some T C T2)
  qed
qed

end

context reliable_backend begin

lemma commit_undone:
  "undone comm (pthen (tx_commit P) (pthen (mv_confirm P cfg req w en) (pret x)))"
proof (rule undoneI)
  fix s e t
  assume "pthen (tx_commit P) (pthen (mv_confirm P cfg req w en) (pret x)) s = (Inl e, t)"
  then show "comm t = comm s"
  proof (cases rule: pthenE)
    case (Raised e')
    then show ?thesis by (auto dest: commit_atomic)
  next
    case (Continued y u)
    with confirm_returns [of cfg req w en u] show ?thesis by (auto simp: pthen_def pbind_def)
  qed
qed

lemma write_undone: "undone comm (mv_write P cfg req w v bal now)"
  unfolding mv_write_def Let_def
  by (intro undone_bind undone_then still_ports)
    (simp add: still_undone commit_undone)

lemma apply_locked_undone: "undone comm (mv_apply_locked P cfg req)"
  unfolding mv_apply_locked_def
  by (intro undone_bind still_ports)
    (auto intro!: undone_bind write_undone simp: still_undone
      split: option.split prod.split sum.split)

lemma locked_body_undone: "undone comm (mv_locked_body P cfg req st h)"
  unfolding mv_locked_body_def
  by (intro undone_bind undone_then still_ports)
    (simp add: still_undone apply_locked_undone)

lemma with_lock_undone:
  assumes "\<And>h. undone comm (body h)" shows "undone comm (with_lock P k ttl wait body)"
  unfolding with_lock_def
proof (rule undone_bind)
  show "still comm (lock_enter P k ttl wait)" by simp
next
  fix h
  show "undone comm (pfinally (body h) (\<lambda>_. lock_exit P h))"
  proof (rule undoneI)
    fix s e t
    assume "pfinally (body h) (\<lambda>_. lock_exit P h) s = (Inl e, t)"
    then show "comm t = comm s"
    proof (cases rule: pfinallyE)
      case (Clean b u)
      with undoneD [OF assms] quietD [OF lock_quiet(2)] show ?thesis by metis
    next
      case (Replaced b u e')
      with exit_returns [of h u] show ?thesis by auto
    qed
  qed
qed

text \<open>On a reliable backend an error always means that nothing happened.\<close>

lemma apply_undone: "undone comm (mv_apply P cfg req)"
  unfolding mv_apply_def
proof (rule undone_bind)
  show "still comm (mv_claim P cfg req)" by (rule stillI) (simp add: claim_run)
next
  fix replay
  have "undone comm (pbind (perf_counter P) (\<lambda>started_at.
      with_lock P (movement_lock_key req) (ms_lock_ttl_ms cfg) (ms_lock_wait_ms cfg)
        (mv_locked_body P cfg req started_at)))"
    by (rule undone_bind) (simp_all add: with_lock_undone locked_body_undone)
  then show "undone comm (case replay of None \<Rightarrow> pbind (perf_counter P) (\<lambda>started_at.
      with_lock P (movement_lock_key req) (ms_lock_ttl_ms cfg) (ms_lock_wait_ms cfg)
        (mv_locked_body P cfg req started_at)) | Some outcome \<Rightarrow> pret outcome)"
    by (simp add: still_undone split: option.split)
qed

end

end
