(* ===== verification/Memory_State.thy ===== *)
theory Memory_State
  imports Ports
begin

text \<open>
  The objects the in-process adapters of \<open>infrastructure/adapters/memory/\<close> keep, in one record,
  and the process clock they read. \<open>time.monotonic()\<close> and \<open>time.perf_counter()\<close> return the
  current reading and let an arbitrary, never negative delay pass: \<open>pr_delays\<close> lists how long
  each stretch of code between two readings takes, so a statement about every state is one about
  every timing.
  A run of several tasks is a sequence of calls; a wait that succeeds because another task lets
  go is the call made after that task's call.
\<close>

section \<open>State\<close>

text \<open>\<open>_Entry\<close> of the idempotency store.\<close>

record idem_entry =
  ie_fingerprint :: string
  ie_expires_at :: seconds
  ie_response :: "response option"

text \<open>\<open>_Holder\<close> of the lock: whether \<open>primitive\<close> is locked, and the lease.\<close>

record holder =
  ho_locked :: bool
  ho_expires_at :: seconds

record memory =
  pr_now :: seconds
  pr_delays :: "seconds list"
  pr_tokens :: nat
  mm_entries :: "string \<Rightarrow> idem_entry option"
  mm_holders :: "string \<Rightarrow> holder option"
  mm_windows :: "string \<Rightarrow> (seconds \<times> int) option"
  mm_occupancy :: "string \<Rightarrow> (nat \<times> seconds) list option"

definition memory_start :: "seconds \<Rightarrow> seconds list \<Rightarrow> memory" where
  "memory_start now delays =
     \<lparr>pr_now = now, pr_delays = delays, pr_tokens = 0,
      mm_entries = \<lambda>_. None, mm_holders = \<lambda>_. None, mm_windows = \<lambda>_. None,
      mm_occupancy = \<lambda>_. None\<rparr>"

lemma memory_start_simps [simp]:
  "pr_now (memory_start t ds) = t" "pr_delays (memory_start t ds) = ds"
  "pr_tokens (memory_start t ds) = 0" "mm_entries (memory_start t ds) = (\<lambda>_. None)"
  "mm_holders (memory_start t ds) = (\<lambda>_. None)" "mm_windows (memory_start t ds) = (\<lambda>_. None)"
  "mm_occupancy (memory_start t ds) = (\<lambda>_. None)"
  by (simp_all add: memory_start_def)

section \<open>Time\<close>

definition elapse :: "seconds \<Rightarrow> 'z memory_scheme \<Rightarrow> 'z memory_scheme" where
  "elapse d s = s\<lparr>pr_now := pr_now s + max 0 d\<rparr>"

definition monotonic :: "('z memory_scheme, exn, seconds) prog" where
  "monotonic = (\<lambda>s.
     (Inr (pr_now s),
      case pr_delays s of [] \<Rightarrow> s | d # ds \<Rightarrow> (elapse d s)\<lparr>pr_delays := ds\<rparr>))"

lemma elapse_simps [simp]:
  "pr_now (elapse d s) = pr_now s + max 0 d" "pr_delays (elapse d s) = pr_delays s"
  "mm_entries (elapse d s) = mm_entries s" "mm_holders (elapse d s) = mm_holders s"
  "mm_windows (elapse d s) = mm_windows s" "mm_occupancy (elapse d s) = mm_occupancy s"
  "memory.more (elapse d s) = memory.more s" "pr_tokens (elapse d s) = pr_tokens s"
  by (simp_all add: elapse_def)

text \<open>What a reading of the clock does, in the form proofs use.\<close>

lemma monotonicE:
  obtains t where "monotonic s = (Inr (pr_now s), t)" "pr_now s \<le> pr_now t"
    "mm_entries t = mm_entries s" "mm_holders t = mm_holders s" "mm_windows t = mm_windows s"
    "mm_occupancy t = mm_occupancy s" "memory.more t = memory.more s" "pr_tokens t = pr_tokens s"
proof -
  have "pr_now s \<le> pr_now (snd (monotonic s))" by (simp add: monotonic_def split: list.split)
  then show ?thesis
    by (intro that [of "snd (monotonic s)"]) (simp_all add: monotonic_def split: list.split)
qed

end
