(* ===== verification/Memory_Idempotency.thy ===== *)
theory Memory_Idempotency
  imports Memory_State
begin

text \<open>
  \<open>infrastructure/adapters/memory/idempotency.py\<close> and the contract of \<open>IdempotencyStore\<close>
  (\<open>application/ports/infrastructure.py\<close>), which the service relies on. The contract is the
  locale \<open>idempotency_store\<close>; its lemmas are what a caller may conclude over any sequence of
  operations: a live claim cannot be claimed again, and a completed record is never lost early.
\<close>

section \<open>The adapter\<close>

definition ie_completed :: "idem_entry \<Rightarrow> bool" where
  "ie_completed e \<longleftrightarrow> ie_response e \<noteq> None"

definition drop_entry :: "string \<Rightarrow> ('z memory_scheme, exn, unit) prog" where
  "drop_entry key = (\<lambda>s. (Inr (), s\<lparr>mm_entries := (mm_entries s)(key := None)\<rparr>))"

definition put_entry :: "string \<Rightarrow> idem_entry \<Rightarrow> ('z memory_scheme, exn, unit) prog" where
  "put_entry key e = (\<lambda>s. (Inr (), s\<lparr>mm_entries := (mm_entries s)(key \<mapsto> e)\<rparr>))"

definition im_live :: "string \<Rightarrow> ('z memory_scheme, exn, idem_entry option) prog" where
  "im_live key = (\<lambda>s.
     case mm_entries s key of
       None \<Rightarrow> (Inr None, s)
     | Some entry \<Rightarrow>
         pbind monotonic (\<lambda>now.
           if ie_expires_at entry \<le> now then pthen (drop_entry key) (pret None)
           else pret (Some entry)) s)"

definition reserved :: idempotency_reservation where
  "reserved = \<lparr>res_outcome = RESERVED, res_record = None\<rparr>"

text \<open>What a taken key answers.\<close>

definition taken :: "string \<Rightarrow> string \<Rightarrow> idem_entry \<Rightarrow> idempotency_reservation" where
  "taken key fp e =
     (if ie_fingerprint e \<noteq> fp then \<lparr>res_outcome = CONFLICT, res_record = None\<rparr>
      else if \<not> ie_completed e then \<lparr>res_outcome = IN_PROGRESS, res_record = None\<rparr>
      else \<lparr>res_outcome = COMPLETED,
            res_record = Some \<lparr>ir_key = key, ir_fingerprint = ie_fingerprint e,
              ir_response = (case ie_response e of None \<Rightarrow> [] | Some r \<Rightarrow> r)\<rparr>\<rparr>)"

definition im_reserve ::
  "string \<Rightarrow> string \<Rightarrow> int \<Rightarrow> ('z memory_scheme, exn, idempotency_reservation) prog" where
  "im_reserve key fp ttl =
     (if ttl \<le> 0 then pret reserved
      else pbind (im_live key) (\<lambda>existing.
        case existing of
          None \<Rightarrow>
            pbind monotonic (\<lambda>now.
              pthen (put_entry key \<lparr>ie_fingerprint = fp, ie_expires_at = now + of_int ttl,
                                    ie_response = None\<rparr>)
                (pret reserved))
        | Some e \<Rightarrow> pret (taken key fp e)))"

definition im_confirm :: "string \<Rightarrow> response \<Rightarrow> int \<Rightarrow> ('z memory_scheme, exn, unit) prog" where
  "im_confirm key response ttl =
     (if ttl \<le> 0 then pret ()
      else pbind (im_live key) (\<lambda>existing.
        case existing of
          None \<Rightarrow> pret ()
        | Some e \<Rightarrow>
            pbind monotonic (\<lambda>now.
              put_entry key (e\<lparr>ie_response := Some response, ie_expires_at := now + of_int ttl\<rparr>))))"

definition im_release :: "string \<Rightarrow> ('z memory_scheme, exn, unit) prog" where
  "im_release key =
     pbind (im_live key) (\<lambda>existing.
       case existing of
         None \<Rightarrow> pret ()
       | Some e \<Rightarrow> if \<not> ie_completed e then drop_entry key else pret ())"

section \<open>The contract\<close>

text \<open>
  \<open>slots\<close> is the content of the store and \<open>now\<close> its clock. An entry that has not expired when a
  call ends was live during the call. A call that raises may have done its work or not.
\<close>

definition live_in :: "('s \<Rightarrow> string \<Rightarrow> idem_entry option) \<Rightarrow> ('s \<Rightarrow> seconds) \<Rightarrow> string \<Rightarrow> idem_entry
    \<Rightarrow> 's \<Rightarrow> 's \<Rightarrow> bool" where
  "live_in slots now k e s t \<longleftrightarrow> slots s k = Some e \<and> now t < ie_expires_at e"

locale idempotency_store =
  fixes reserve :: "string \<Rightarrow> string \<Rightarrow> int \<Rightarrow> ('s, exn, idempotency_reservation) prog"
    and confirm :: "string \<Rightarrow> response \<Rightarrow> int \<Rightarrow> ('s, exn, unit) prog"
    and release :: "string \<Rightarrow> ('s, exn, unit) prog"
    and slots :: "'s \<Rightarrow> string \<Rightarrow> idem_entry option"
    and now :: "'s \<Rightarrow> seconds"
  assumes reserve_frame: "reserve k fp ttl s = (rr, t) \<Longrightarrow>
      now s \<le> now t \<and> (\<forall>k'. k' \<noteq> k \<longrightarrow> slots t k' = slots s k')"
    and confirm_frame: "confirm k resp ttl s = (rc, t) \<Longrightarrow>
      now s \<le> now t \<and> (\<forall>k'. k' \<noteq> k \<longrightarrow> slots t k' = slots s k')"
    and release_frame: "release k s = (rc, t) \<Longrightarrow>
      now s \<le> now t \<and> (\<forall>k'. k' \<noteq> k \<longrightarrow> slots t k' = slots s k')"
    and reserve_expired: "ttl \<le> 0 \<Longrightarrow> reserve k fp ttl s = (Inr res, t) \<Longrightarrow>
      slots t = slots s \<and> res = reserved"
    and reserve_live: "reserve k fp ttl s = (rr, t) \<Longrightarrow> live_in slots now k e s t \<Longrightarrow>
      slots t k = Some e \<and> (\<forall>res. 0 < ttl \<longrightarrow> rr = Inr res \<longrightarrow> res = taken k fp e)"
    and reserve_free: "reserve k fp ttl s = (Inr res, t) \<Longrightarrow> 0 < ttl \<Longrightarrow>
      (\<forall>e. slots s k = Some e \<longrightarrow> ie_expires_at e \<le> now s) \<Longrightarrow> res = reserved"
    and reserve_claims: "reserve k fp ttl s = (Inr res, t) \<Longrightarrow> 0 < ttl \<Longrightarrow> may_proceed res \<Longrightarrow>
      \<exists>x \<ge> now s + of_int ttl.
        slots t k = Some \<lparr>ie_fingerprint = fp, ie_expires_at = x, ie_response = None\<rparr>"
    and reserve_completed: "reserve k fp ttl s = (Inr res, t) \<Longrightarrow> res_outcome res = COMPLETED \<Longrightarrow>
      \<exists>e. slots s k = Some e \<and> ie_completed e"
    and confirm_live: "confirm k resp ttl s = (rc, t) \<Longrightarrow> live_in slots now k e s t \<Longrightarrow>
      (\<exists>x \<ge> now s + of_int ttl. 0 < ttl \<and>
         slots t k = Some (e\<lparr>ie_response := Some resp, ie_expires_at := x\<rparr>))
      \<or> (ttl \<le> 0 \<or> (\<exists>err. rc = Inl err)) \<and> slots t k = Some e"
    and release_live: "release k s = (rc, t) \<Longrightarrow> live_in slots now k e s t \<Longrightarrow>
      (if ie_completed e then slots t k = Some e
       else slots t k = None \<or> (\<exists>err. rc = Inl err) \<and> slots t k = Some e)"

text \<open>What the service needs of it, and what a store that prints its entries as text can promise: the laws for
  fingerprints in hexadecimal and responses that hold ids. An entry of another form is as good as completed.\<close>

definition plain_response :: "response \<Rightarrow> bool" where
  "plain_response r \<longleftrightarrow> map fst r = [''entry_id'', ''wallet_id'']
     \<and> list_all (\<lambda>(k, v). case v of VStr t \<Rightarrow> list_all (\<lambda>c. is_hex c \<or> c = CHR ''-'') t | _ \<Rightarrow> False) r"

locale claim_store =
  fixes reserve :: "string \<Rightarrow> string \<Rightarrow> int \<Rightarrow> ('s, exn, idempotency_reservation) prog"
    and confirm :: "string \<Rightarrow> response \<Rightarrow> int \<Rightarrow> ('s, exn, unit) prog"
    and release :: "string \<Rightarrow> ('s, exn, unit) prog"
    and slots :: "'s \<Rightarrow> string \<Rightarrow> idem_entry option"
    and now :: "'s \<Rightarrow> seconds"
  assumes reserve_frame: "reserve k fp ttl s = (rr, t) \<Longrightarrow>
      now s \<le> now t \<and> (\<forall>k'. k' \<noteq> k \<longrightarrow> slots t k' = slots s k')"
    and confirm_frame: "confirm k resp ttl s = (rc, t) \<Longrightarrow>
      now s \<le> now t \<and> (\<forall>k'. k' \<noteq> k \<longrightarrow> slots t k' = slots s k')"
    and release_frame: "release k s = (rc, t) \<Longrightarrow>
      now s \<le> now t \<and> (\<forall>k'. k' \<noteq> k \<longrightarrow> slots t k' = slots s k')"
    and reserve_live: "reserve k fp ttl s = (rr, t) \<Longrightarrow> live_in slots now k e s t \<Longrightarrow>
      list_all is_hex (ie_fingerprint e) \<Longrightarrow>
      slots t k = Some e \<and> (\<forall>res. 0 < ttl \<longrightarrow> rr = Inr res \<longrightarrow> res = taken k fp e)"
    and reserve_claims: "reserve k fp ttl s = (Inr res, t) \<Longrightarrow> 0 < ttl \<Longrightarrow> may_proceed res \<Longrightarrow>
      list_all is_hex fp \<Longrightarrow> (\<And>e. slots s k = Some e \<Longrightarrow> \<not> ie_completed e) \<Longrightarrow>
      \<exists>x \<ge> now s + of_int ttl.
        slots t k = Some \<lparr>ie_fingerprint = fp, ie_expires_at = x, ie_response = None\<rparr>"
    and reserve_completed: "reserve k fp ttl s = (Inr res, t) \<Longrightarrow> res_outcome res = COMPLETED \<Longrightarrow>
      \<exists>e. slots s k = Some e \<and> ie_completed e"
    and confirm_live: "confirm k resp ttl s = (rc, t) \<Longrightarrow> live_in slots now k e s t \<Longrightarrow>
      list_all is_hex (ie_fingerprint e) \<Longrightarrow> plain_response resp \<Longrightarrow>
      (\<exists>x \<ge> now s + of_int ttl. 0 < ttl \<and>
         slots t k = Some (e\<lparr>ie_response := Some resp, ie_expires_at := x\<rparr>))
      \<or> (ttl \<le> 0 \<or> (\<exists>err. rc = Inl err)) \<and> slots t k = Some e"
    and release_live: "release k s = (rc, t) \<Longrightarrow> live_in slots now k e s t \<Longrightarrow>
      list_all is_hex (ie_fingerprint e) \<Longrightarrow>
      (if ie_completed e then slots t k = Some e
       else slots t k = None \<or> (\<exists>err. rc = Inl err) \<and> slots t k = Some e)"

sublocale idempotency_store < claims: claim_store
  by unfold_locales (fact reserve_frame confirm_frame release_frame reserve_completed
    | rule reserve_live reserve_claims confirm_live release_live; assumption)+

text \<open>Any sequence of calls with one lifetime, as the service makes them.\<close>

datatype idem_call = Reserve string string | Confirm string response | Release string

fun run_calls ::
  "(string \<Rightarrow> string \<Rightarrow> int \<Rightarrow> ('s, exn, idempotency_reservation) prog)
     \<Rightarrow> (string \<Rightarrow> response \<Rightarrow> int \<Rightarrow> ('s, exn, unit) prog) \<Rightarrow> (string \<Rightarrow> ('s, exn, unit) prog)
     \<Rightarrow> int \<Rightarrow> idem_call list \<Rightarrow> 's \<Rightarrow> 's" where
  "run_calls res con rel ttl [] s = s"
| "run_calls res con rel ttl (Reserve k fp # cs) s = run_calls res con rel ttl cs (snd (res k fp ttl s))"
| "run_calls res con rel ttl (Confirm k r # cs) s = run_calls res con rel ttl cs (snd (con k r ttl s))"
| "run_calls res con rel ttl (Release k # cs) s = run_calls res con rel ttl cs (snd (rel k s))"

text \<open>The slot of \<open>k\<close> is taken for the payload \<open>fp\<close> until \<open>until\<close>, completed if \<open>c\<close>.\<close>

definition guarded ::
  "('s \<Rightarrow> string \<Rightarrow> idem_entry option) \<Rightarrow> string \<Rightarrow> string \<Rightarrow> seconds \<Rightarrow> bool \<Rightarrow> 's \<Rightarrow> bool" where
  "guarded slots k fp until c s \<longleftrightarrow>
     (\<exists>e. slots s k = Some e \<and> ie_fingerprint e = fp \<and> until \<le> ie_expires_at e
        \<and> (c \<longrightarrow> ie_completed e))"

context idempotency_store begin

lemma guarded_live:
  "guarded slots k fp until c s \<Longrightarrow> now t < until \<Longrightarrow>
     \<exists>e. live_in slots now k e s t \<and> ie_fingerprint e = fp \<and> until \<le> ie_expires_at e
       \<and> (c \<longrightarrow> ie_completed e)"
  by (auto simp: guarded_def live_in_def)

lemma guarded_reserve:
  assumes "guarded slots k fp until c s" "reserve k' fp' ttl s = (rr, t)" "now t < until"
  shows "guarded slots k fp until c t"
proof (cases "k' = k")
  case True
  with guarded_live [OF assms(1,3)] assms(2) show ?thesis
    by (auto simp: guarded_def dest: reserve_live)
qed (use assms reserve_frame in \<open>force simp: guarded_def\<close>)

lemma guarded_confirm:
  assumes "guarded slots k fp until c s" "confirm k' resp ttl s = (rc, t)" "now t < until"
    and "until \<le> now s + of_int ttl"
  shows "guarded slots k fp until c t"
proof (cases "k' = k")
  case True
  from guarded_live [OF assms(1,3)] obtain e where e: "live_in slots now k e s t"
      "ie_fingerprint e = fp" "until \<le> ie_expires_at e" "c \<longrightarrow> ie_completed e" by auto
  from confirm_live [of k resp ttl s rc t e] e assms(2,4) True show ?thesis
    by (fastforce simp: guarded_def ie_completed_def)
qed (use assms confirm_frame in \<open>force simp: guarded_def\<close>)

lemma guarded_release:
  assumes "guarded slots k fp until c s" "release k' s = (rc, t)" "now t < until" "c \<or> k' \<noteq> k"
  shows "guarded slots k fp until c t"
proof (cases "k' = k")
  case True
  from guarded_live [OF assms(1,3)] obtain e where e: "live_in slots now k e s t"
      "ie_fingerprint e = fp" "until \<le> ie_expires_at e" "c \<longrightarrow> ie_completed e" by auto
  with release_live [of k s rc t e] assms(2,4) True show ?thesis
    by (auto simp: guarded_def)
qed (use assms release_frame in \<open>force simp: guarded_def\<close>)

lemma call_clock:
  "now s \<le> now (snd (reserve k fp ttl s))" "now s \<le> now (snd (confirm k r ttl s))"
  "now s \<le> now (snd (release k s))"
  using reserve_frame confirm_frame release_frame by (metis prod.collapse)+

lemma run_calls_clock: "now s \<le> now (run_calls reserve confirm release ttl cs s)"
proof (induction cs arbitrary: s)
  case (Cons c cs)
  then show ?case by (cases c) (auto intro: order_trans [OF call_clock(1)]
      order_trans [OF call_clock(2)] order_trans [OF call_clock(3)])
qed simp

lemma run_calls_guarded:
  assumes "guarded slots k fp until c s" "until \<le> now s + of_int ttl"
    and "now (run_calls reserve confirm release ttl cs s) < until"
    and "c \<or> Release k \<notin> set cs"
  shows "guarded slots k fp until c (run_calls reserve confirm release ttl cs s)"
  using assms
proof (induction cs arbitrary: s)
  case (Cons x cs)
  define t where "t = run_calls reserve confirm release ttl [x] s"
  have rest: "run_calls reserve confirm release ttl (x # cs) s
      = run_calls reserve confirm release ttl cs t"
    by (cases x) (simp_all add: t_def)
  have clock: "now s \<le> now t" using run_calls_clock [of s ttl "[x]"] by (simp add: t_def)
  have before: "now t < until"
    using Cons.prems(3) run_calls_clock [of t ttl cs] rest by simp
  have "guarded slots k fp until c t"
  proof (cases x)
    case (Reserve k' fp')
    with Cons.prems(1) before show ?thesis
      by (auto simp: t_def intro: guarded_reserve [OF _ prod.collapse [symmetric]])
  next
    case (Confirm k' r)
    with Cons.prems(1,2) before show ?thesis
      by (auto simp: t_def intro: guarded_confirm [OF _ prod.collapse [symmetric]])
  next
    case (Release k')
    with Cons.prems(1,4) before show ?thesis
      by (auto simp: t_def intro: guarded_release [OF _ prod.collapse [symmetric]])
  qed
  then show ?case
    unfolding rest using Cons.prems clock rest by (intro Cons.IH) auto
qed simp

lemma guarded_answer:
  assumes "guarded slots k fp until c s" "reserve k fp' ttl s = (Inr res, t)" "now t < until" "0 < ttl"
  shows "\<not> may_proceed res" "fp' \<noteq> fp \<Longrightarrow> res_outcome res = CONFLICT"
    "c \<Longrightarrow> fp' = fp \<Longrightarrow> res_outcome res = COMPLETED"
proof -
  from guarded_live [OF assms(1,3)] obtain e where e: "live_in slots now k e s t"
      "ie_fingerprint e = fp" "c \<longrightarrow> ie_completed e" by auto
  from reserve_live [OF assms(2) e(1)] assms(4) have "res = taken k fp' e" by auto
  with e(2,3) show "\<not> may_proceed res" "fp' \<noteq> fp \<Longrightarrow> res_outcome res = CONFLICT"
    "c \<Longrightarrow> fp' = fp \<Longrightarrow> res_outcome res = COMPLETED"
    by (auto simp: taken_def may_proceed_def)
qed

text \<open>Until its lifetime is over, a claim that nobody gives back is not granted a second time.\<close>

lemma no_double_claim:
  assumes "0 < ttl" "reserve k fp ttl s = (Inr res, s1)" "may_proceed res"
    and "Release k \<notin> set cs"
    and "reserve k fp' ttl (run_calls reserve confirm release ttl cs s1) = (Inr res', t)"
    and "now t < now s + of_int ttl"
  shows "\<not> may_proceed res'" "fp' \<noteq> fp \<Longrightarrow> res_outcome res' = CONFLICT"
proof -
  let ?u = "run_calls reserve confirm release ttl cs s1"
  have clock: "now s \<le> now s1" "now ?u \<le> now t"
    using reserve_frame [OF assms(2)] reserve_frame [OF assms(5)] by auto
  have "guarded slots k fp (now s + of_int ttl) False s1"
    using reserve_claims [OF assms(2,1,3)] by (auto simp: guarded_def)
  from run_calls_guarded [OF this, of ttl cs]
  have g: "guarded slots k fp (now s + of_int ttl) False ?u"
    using assms(4,6) clock by auto
  from guarded_answer [OF g assms(5,6,1)] show "\<not> may_proceed res'"
    "fp' \<noteq> fp \<Longrightarrow> res_outcome res' = CONFLICT" by auto
qed

text \<open>A confirmed claim answers with a replay for its whole lifetime, releases included.\<close>

lemma completed_stays:
  assumes "0 < ttl" "guarded slots k fp until False s" "until \<le> now s + of_int ttl"
    and "confirm k resp ttl s = (Inr (), s1)"
    and "reserve k fp ttl (run_calls reserve confirm release ttl cs s1) = (Inr res, t)"
    and "now t < until"
  shows "res_outcome res = COMPLETED"
proof -
  let ?u = "run_calls reserve confirm release ttl cs s1"
  have clock: "now s \<le> now s1" "now ?u \<le> now t" "now s1 \<le> now ?u"
    using confirm_frame [OF assms(4)] reserve_frame [OF assms(5)] run_calls_clock by auto
  then have "now s1 < until" using assms(6) by simp
  from guarded_live [OF assms(2) this] obtain e where "live_in slots now k e s s1"
      "ie_fingerprint e = fp" by auto
  from confirm_live [OF assms(4) this(1)] this(2) assms(1,3)
  have "guarded slots k fp until True s1" by (auto simp: guarded_def ie_completed_def)
  from run_calls_guarded [OF this, of ttl cs] have "guarded slots k fp until True ?u"
    using assms(3,6) clock by auto
  from guarded_answer(3) [OF this assms(5,6,1)] show ?thesis by simp
qed

text \<open>A claim that is confirmed answers with a replay until the claim's own lifetime is over.\<close>

lemma claim_confirm_replay:
  assumes "0 < ttl" "reserve k fp ttl s = (Inr res, s1)" "may_proceed res"
    and "Release k \<notin> set cs"
    and "confirm k resp ttl (run_calls reserve confirm release ttl cs s1) = (Inr (), s2)"
    and "reserve k fp ttl (run_calls reserve confirm release ttl cs' s2) = (Inr res', t)"
    and "now t < now s + of_int ttl"
  shows "res_outcome res' = COMPLETED"
proof -
  let ?u = "run_calls reserve confirm release ttl cs s1"
  have clock: "now s \<le> now s1" "now s1 \<le> now ?u" "now ?u \<le> now s2"
      "now s2 \<le> now (run_calls reserve confirm release ttl cs' s2)"
      "now (run_calls reserve confirm release ttl cs' s2) \<le> now t"
    using reserve_frame [OF assms(2)] reserve_frame [OF assms(6)] confirm_frame [OF assms(5)]
      run_calls_clock by auto
  have "guarded slots k fp (now s + of_int ttl) False s1"
    using reserve_claims [OF assms(2,1,3)] by (auto simp: guarded_def)
  from run_calls_guarded [OF this, of ttl cs]
  have "guarded slots k fp (now s + of_int ttl) False ?u" using assms(4,7) clock by auto
  from completed_stays [OF assms(1) this _ assms(5,6,7)] clock show ?thesis by simp
qed

end

section \<open>The adapter keeps the contract\<close>

definition live_at :: "seconds \<Rightarrow> (string \<Rightarrow> idem_entry option) \<Rightarrow> string \<Rightarrow> idem_entry option" where
  "live_at tm m key =
     (case m key of None \<Rightarrow> None | Some e \<Rightarrow> if ie_expires_at e \<le> tm then None else Some e)"

lemma live_at_Some: "live_at tm m k = Some e \<longleftrightarrow> m k = Some e \<and> tm < ie_expires_at e"
  by (auto simp: live_at_def split: option.splits)

lemma live_at_None: "live_at tm m k = None \<longleftrightarrow> (\<forall>e. m k = Some e \<longrightarrow> ie_expires_at e \<le> tm)"
  by (auto simp: live_at_def split: option.splits)

text \<open>A look at the live entry: what it returns and what it leaves, by the clock.\<close>

lemma im_live_run:
  obtains t where "im_live k s = (Inr (live_at (pr_now s) (mm_entries s) k), t)"
    "pr_now s \<le> pr_now t" "memory.more t = memory.more s"
    "mm_entries t = (case live_at (pr_now s) (mm_entries s) k of
       None \<Rightarrow> (mm_entries s)(k := None) | Some _ \<Rightarrow> mm_entries s)"
proof (cases "mm_entries s k")
  case None
  then have "(mm_entries s)(k := None) = mm_entries s" by auto
  with None show ?thesis by (intro that [of s]) (simp_all add: im_live_def live_at_def)
next
  case (Some e)
  obtain u where "monotonic s = (Inr (pr_now s), u)" "pr_now s \<le> pr_now u"
      "mm_entries u = mm_entries s" "memory.more u = memory.more s" by (rule monotonicE)
  with Some show ?thesis
    by (intro that [of "snd (im_live k s)"])
      (simp_all add: im_live_def pbind_def pthen_def drop_entry_def live_at_def)
qed

lemma im_reserve_run:
  assumes "im_reserve k fp ttl s = (rr, t)"
  shows "pr_now s \<le> pr_now t \<and> memory.more t = memory.more s
    \<and> (if ttl \<le> 0 then t = s \<and> rr = Inr reserved
       else case live_at (pr_now s) (mm_entries s) k of
         Some e \<Rightarrow> rr = Inr (taken k fp e) \<and> mm_entries t = mm_entries s
       | None \<Rightarrow> rr = Inr reserved \<and> (\<exists>x \<ge> pr_now s + of_int ttl. mm_entries t = (mm_entries s)
           (k \<mapsto> \<lparr>ie_fingerprint = fp, ie_expires_at = x, ie_response = None\<rparr>)))"
proof (cases "ttl \<le> 0")
  case True
  with assms show ?thesis by (simp add: im_reserve_def)
next
  case False
  obtain u where L: "im_live k s = (Inr (live_at (pr_now s) (mm_entries s) k), u)"
    "pr_now s \<le> pr_now u" "memory.more u = memory.more s"
    "mm_entries u = (case live_at (pr_now s) (mm_entries s) k of
       None \<Rightarrow> (mm_entries s)(k := None) | Some _ \<Rightarrow> mm_entries s)" by (rule im_live_run)
  obtain v where M: "monotonic u = (Inr (pr_now u), v)" "pr_now u \<le> pr_now v"
      "mm_entries v = mm_entries u" "memory.more v = memory.more u" by (rule monotonicE)
  show ?thesis
    using assms False L M
    by (cases "live_at (pr_now s) (mm_entries s) k")
      (auto simp: im_reserve_def pbind_def pthen_def put_entry_def fun_upd_def
        intro!: exI [of _ "pr_now u + of_int ttl"])
qed

lemma im_confirm_run:
  assumes "im_confirm k resp ttl s = (rc, t)"
  shows "pr_now s \<le> pr_now t \<and> memory.more t = memory.more s \<and> rc = Inr ()
    \<and> (if ttl \<le> 0 then t = s
       else case live_at (pr_now s) (mm_entries s) k of
         None \<Rightarrow> mm_entries t = (mm_entries s)(k := None)
       | Some e \<Rightarrow> (\<exists>x \<ge> pr_now s + of_int ttl. mm_entries t = (mm_entries s)
           (k \<mapsto> e\<lparr>ie_response := Some resp, ie_expires_at := x\<rparr>)))"
proof (cases "ttl \<le> 0")
  case True
  with assms show ?thesis by (simp add: im_confirm_def)
next
  case False
  obtain u where L: "im_live k s = (Inr (live_at (pr_now s) (mm_entries s) k), u)"
    "pr_now s \<le> pr_now u" "memory.more u = memory.more s"
    "mm_entries u = (case live_at (pr_now s) (mm_entries s) k of
       None \<Rightarrow> (mm_entries s)(k := None) | Some _ \<Rightarrow> mm_entries s)" by (rule im_live_run)
  obtain v where M: "monotonic u = (Inr (pr_now u), v)" "pr_now u \<le> pr_now v"
      "mm_entries v = mm_entries u" "memory.more v = memory.more u" by (rule monotonicE)
  show ?thesis
    using assms False L M
    by (cases "live_at (pr_now s) (mm_entries s) k")
      (auto simp: im_confirm_def pbind_def put_entry_def
        intro!: exI [of _ "pr_now u + of_int ttl"])
qed

lemma im_release_run:
  assumes "im_release k s = (rc, t)"
  shows "pr_now s \<le> pr_now t \<and> memory.more t = memory.more s \<and> rc = Inr ()
    \<and> mm_entries t = (case live_at (pr_now s) (mm_entries s) k of
         None \<Rightarrow> (mm_entries s)(k := None)
       | Some e \<Rightarrow> if ie_completed e then mm_entries s else (mm_entries s)(k := None))"
proof -
  obtain u where L: "im_live k s = (Inr (live_at (pr_now s) (mm_entries s) k), u)"
    "pr_now s \<le> pr_now u" "memory.more u = memory.more s"
    "mm_entries u = (case live_at (pr_now s) (mm_entries s) k of
       None \<Rightarrow> (mm_entries s)(k := None) | Some _ \<Rightarrow> mm_entries s)" by (rule im_live_run)
  with assms show ?thesis
    by (cases "live_at (pr_now s) (mm_entries s) k")
      (auto simp: im_release_def pbind_def drop_entry_def split: if_splits)
qed

lemma live_in_live_at:
  "live_in mm_entries pr_now k e s t \<Longrightarrow> pr_now s \<le> pr_now t
     \<Longrightarrow> live_at (pr_now s) (mm_entries s) k = Some e"
  by (auto simp: live_in_def live_at_Some)

interpretation im: idempotency_store im_reserve im_confirm im_release mm_entries pr_now
proof (unfold_locales, goal_cases)
  case 1
  then show ?case by (auto dest!: im_reserve_run split: if_splits option.splits)
next
  case 2
  then show ?case by (auto dest!: im_confirm_run split: if_splits option.splits)
next
  case 3
  then show ?case by (auto dest!: im_release_run split: if_splits option.splits)
next
  case 4
  then show ?case by (auto dest!: im_reserve_run)
next
  case (5 k fp ttl s rr t e)
  with im_reserve_run [OF 5(1)] live_in_live_at [OF 5(2)] show ?case
    by (auto simp: live_in_def split: if_splits)
next
  case (6 k fp ttl s res t)
  then have "live_at (pr_now s) (mm_entries s) k = None" by (simp add: live_at_None)
  with im_reserve_run [OF 6(1)] 6(2) show ?case by simp
next
  case (7 k fp ttl s res t)
  with im_reserve_run [OF 7(1)] show ?case
    by (auto simp: may_proceed_def taken_def split: option.splits if_splits)
next
  case (8 k fp ttl s res t)
  with im_reserve_run [OF 8(1)] show ?case
    by (auto simp: reserved_def taken_def live_at_Some split: option.splits if_splits)
next
  case (9 k resp ttl s rc t e)
  with im_confirm_run [OF 9(1)] live_in_live_at [OF 9(2)] show ?case
    by (auto simp: live_in_def split: if_splits)
next
  case (10 k s rc t e)
  with im_release_run [OF 10(1)] live_in_live_at [OF 10(2)] show ?case
    by (auto simp: live_in_def)
qed

section \<open>Properties\<close>

text \<open>C14: of the in-memory store: while a claim lives and nobody gives it back, no second request
  is told to proceed with the key, and one with another payload is told of the conflict,
  whatever other calls happen in between.\<close>

theorem idempotency_claim_exclusive:
  assumes "0 < ttl" "im_reserve k fp ttl s = (Inr res, s1)" "may_proceed res"
    and "Release k \<notin> set cs"
    and "im_reserve k fp' ttl (run_calls im_reserve im_confirm im_release ttl cs s1) = (Inr res', t)"
    and "pr_now t < pr_now s + of_int ttl"
  shows "\<not> may_proceed res' \<and> (fp' \<noteq> fp \<longrightarrow> res_outcome res' = CONFLICT)"
  using im.no_double_claim [OF assms] by blast

lemma im_reserve_fresh:
  "im_reserve k fp ttl (memory_start 0 []) = (Inr reserved,
     if ttl \<le> 0 then memory_start 0 []
     else (memory_start 0 [])\<lparr>mm_entries := [k \<mapsto> \<lparr>ie_fingerprint = fp,
       ie_expires_at = of_int ttl, ie_response = None\<rparr>]\<rparr>)"
  by (simp add: im_reserve_def im_live_def monotonic_def pbind_def pthen_def put_entry_def)

theorem idempotency_claim_exclusive_witness:
  "res_outcome (projr (fst (im_reserve ''k'' ''other'' 60
     (run_calls im_reserve im_confirm im_release 60 [Release ''x'', Reserve ''k'' ''other'']
       (snd (im_reserve ''k'' ''fp'' 60 (memory_start 0 []))))))) = CONFLICT"
proof -
  let ?s1 = "snd (im_reserve ''k'' ''fp'' 60 (memory_start 0 []))"
  let ?u = "run_calls im_reserve im_confirm im_release 60 [Release ''x'', Reserve ''k'' ''other''] ?s1"
  obtain res t where r: "im_reserve ''k'' ''other'' 60 ?u = (Inr res, t)" "pr_now t = 0"
    by (simp add: im_reserve_def im_release_def im_live_def monotonic_def pbind_def pthen_def
        put_entry_def)
  from idempotency_claim_exclusive [OF _ _ _ _ r(1), of "''fp''" "memory_start 0 []" reserved]
  have "res_outcome res = CONFLICT"
    using r(2) by (simp add: im_reserve_fresh may_proceed_def reserved_def)
  with r(1) show ?thesis by simp
qed

text \<open>of the in-memory store: a claim that was confirmed answers every later request with the
  same payload with the recorded result, until the lifetime of the claim is over, even if the
  key is released in between.\<close>

lemma idempotency_confirmed_replays:
  assumes "0 < ttl" "im_reserve k fp ttl s = (Inr res, s1)" "may_proceed res"
    and "Release k \<notin> set cs"
    and "im_confirm k resp ttl (run_calls im_reserve im_confirm im_release ttl cs s1) = (Inr (), s2)"
    and "im_reserve k fp ttl (run_calls im_reserve im_confirm im_release ttl cs' s2) = (Inr res', t)"
    and "pr_now t < pr_now s + of_int ttl"
  shows "res_outcome res' = COMPLETED"
  using im.claim_confirm_replay [OF assms] .

lemma idempotency_confirmed_replays_witness:
  "res_outcome (projr (fst (im_reserve ''k'' ''fp'' 60
     (run_calls im_reserve im_confirm im_release 60 [Release ''k'']
       (snd (im_confirm ''k'' [(''entry_id'', VStr ''e'')] 60
         (snd (im_reserve ''k'' ''fp'' 60 (memory_start 0 [])))))))))  = COMPLETED"
proof -
  let ?s1 = "snd (im_reserve ''k'' ''fp'' 60 (memory_start 0 []))"
  let ?s2 = "snd (im_confirm ''k'' [(''entry_id'', VStr ''e'')] 60 ?s1)"
  let ?u = "run_calls im_reserve im_confirm im_release 60 [Release ''k''] ?s2"
  obtain res t where r: "im_reserve ''k'' ''fp'' 60 ?u = (Inr res, t)" "pr_now t = 0"
    by (simp add: im_reserve_def im_release_def im_confirm_def im_live_def monotonic_def pbind_def
        pthen_def put_entry_def ie_completed_def)
  have c: "im_confirm ''k'' [(''entry_id'', VStr ''e'')] 60
      (run_calls im_reserve im_confirm im_release 60 [] ?s1) = (Inr (), ?s2)"
    by (simp add: im_reserve_def im_confirm_def im_live_def monotonic_def pbind_def pthen_def
        put_entry_def)
  from idempotency_confirmed_replays [OF _ _ _ _ c r(1), of "memory_start 0 []" reserved]
  have "res_outcome res = COMPLETED"
    using r(2) by (simp add: im_reserve_fresh may_proceed_def reserved_def)
  with r(1) show ?thesis by simp
qed

end
