(* ===== verification/Movement_Idempotence.thy ===== *)
theory Movement_Idempotence
  imports Movement_Safety Memory_Idempotency
begin

text \<open>
  The idempotency key and the books together. \<open>keyed_backend\<close> is a movement backend whose
  idempotency operations keep the store's contract and whose other operations leave the store
  alone. On it a movement that was committed under a key leaves the key taken, whatever was
  answered, and a retry with the key moves nothing: it replays the committed movement, or raises.
\<close>

text \<open>Programs that touch the store under the keys of \<open>K\<close> only, while its clock goes on.\<close>

definition store_frame :: "('s \<Rightarrow> string \<Rightarrow> idem_entry option) \<Rightarrow> ('s \<Rightarrow> seconds) \<Rightarrow> string set
    \<Rightarrow> 's \<Rightarrow> 's \<Rightarrow> bool" where
  "store_frame slots now K s t \<longleftrightarrow> now s \<le> now t \<and> (\<forall>k. k \<notin> K \<longrightarrow> slots t k = slots s k)"

definition steady :: "('s \<Rightarrow> string \<Rightarrow> idem_entry option) \<Rightarrow> ('s \<Rightarrow> seconds) \<Rightarrow> string set
    \<Rightarrow> ('s, exn, 'a) prog \<Rightarrow> bool" where
  "steady slots now K m \<longleftrightarrow> keeps (store_frame slots now K) m"

lemma store_frame_order [simp]:
  "reflp (store_frame slots now K)" "transp (store_frame slots now K)"
  by (auto simp: store_frame_def intro!: reflpI transpI)

lemma steadyD:
  "steady slots now K m \<Longrightarrow> m s = (r, t) \<Longrightarrow>
     now s \<le> now t \<and> (\<forall>k. k \<notin> K \<longrightarrow> slots t k = slots s k)"
  unfolding steady_def by (drule keepsD) (auto simp: store_frame_def)

lemma steadyI:
  "(\<And>s r t. m s = (r, t) \<Longrightarrow> now s \<le> now t \<and> (\<forall>k. k \<notin> K \<longrightarrow> slots t k = slots s k))
     \<Longrightarrow> steady slots now K m"
  unfolding steady_def by (rule keepsI) (auto simp: store_frame_def)

lemma steady_simps [simp, intro]:
  "steady slots now K (pret x)" "steady slots now K (praise e)" "steady slots now K (plift r)"
  by (simp_all add: steady_def)

lemma steady_mono: "steady slots now {} m \<Longrightarrow> steady slots now K m"
  by (rule steadyI) (auto dest: steadyD)

lemma steady_intros [intro]:
  "steady slots now K m \<Longrightarrow> (\<And>x. steady slots now K (f x)) \<Longrightarrow> steady slots now K (pbind m f)"
  "steady slots now K m \<Longrightarrow> steady slots now K n \<Longrightarrow> steady slots now K (pthen m n)"
  "steady slots now K m \<Longrightarrow> (\<And>e. steady slots now K (h e)) \<Longrightarrow> steady slots now K (pcatch m h)"
  "steady slots now K m \<Longrightarrow> (\<And>r. steady slots now K (fin r)) \<Longrightarrow> steady slots now K (pfinally m fin)"
  by (simp_all add: steady_def keeps_bind keeps_then keeps_catch keeps_finally)

text \<open>The handles that the lock gives out.\<close>

definition issued :: "'s ports \<Rightarrow> lock_handle \<Rightarrow> bool" where
  "issued P h \<longleftrightarrow> (\<exists>k ttl wait s t. lock_enter P k ttl wait s = (Inr h, t))"

lemma issuedI: "lock_enter P k ttl wait s = (Inr h, t) \<Longrightarrow> issued P h"
  unfolding issued_def by (intro exI)

locale keyed_backend =
  movement_backend P sess comm
    + claim_store "idem_reserve P" "idem_confirm P" "idem_release P" slots now
  for P :: "'s ports" and sess comm :: "'s \<Rightarrow> book"
    and slots :: "'s \<Rightarrow> string \<Rightarrow> idem_entry option" and now :: "'s \<Rightarrow> seconds" +
  assumes steady_ports:
      "steady slots now {} (wallets_read P i ow fu)" "steady slots now {} (wallets_update P w v)"
      "steady slots now {} (ledger_add P en)" "steady slots now {} (ledger_read P u ow)"
      "steady slots now {} (tx_commit P)" "steady slots now {} (tx_rollback P)"
      "steady slots now {} (lock_enter P k ttl wait)" "issued P h \<Longrightarrow> steady slots now {} (lock_exit P h)"
      "steady slots now {} (clock_now P)" "steady slots now {} (new_uuid P)"
      "steady slots now {} (perf_counter P)" "steady slots now {} (observe P m)"
    and entry_missing: "ledger_read P u ow s = (Inr None, t) \<Longrightarrow>
      \<forall>p \<in> set (bk_postings (sess s)). po_id p = u \<longrightarrow> owned (sess s) (po_wallet p) ow = None"

text \<open>The key's slot after the claim, and after the movement \<open>u\<close> was committed under it.\<close>

definition pending :: "('s \<Rightarrow> string \<Rightarrow> idem_entry option) \<Rightarrow> movement_request \<Rightarrow> seconds \<Rightarrow> 's \<Rightarrow> bool"
  where
  "pending slots req until s \<longleftrightarrow>
     (\<exists>e. slots s (scoped_key req) = Some e \<and> ie_fingerprint e = fingerprint req
        \<and> until \<le> ie_expires_at e \<and> ie_response e = None)"

definition settled ::
  "('s \<Rightarrow> string \<Rightarrow> idem_entry option) \<Rightarrow> movement_request \<Rightarrow> seconds \<Rightarrow> ledger_entry_id \<Rightarrow> 's
     \<Rightarrow> bool" where
  "settled slots req until u s \<longleftrightarrow>
     (\<exists>e. slots s (scoped_key req) = Some e \<and> ie_fingerprint e = fingerprint req
        \<and> until \<le> ie_expires_at e
        \<and> (\<forall>resp. ie_response e = Some resp \<longrightarrow> recorded_entry_id resp = Inr u))"

text \<open>The movement is on the books of its owner, under the entry \<open>u\<close>.\<close>

definition booked :: "movement_request \<Rightarrow> ledger_entry_id \<Rightarrow> book \<Rightarrow> bool" where
  "booked req u b \<longleftrightarrow> owned b (mr_wallet_id req) (mr_owner_id req) \<noteq> None
     \<and> (\<exists>p \<in> set (bk_postings b). po_id p = u \<and> po_wallet p = mr_wallet_id req)"

text \<open>The key is free for the request: nothing completed is recorded under it.\<close>

definition unrecorded :: "('s \<Rightarrow> string \<Rightarrow> idem_entry option) \<Rightarrow> movement_request \<Rightarrow> 's \<Rightarrow> bool" where
  "unrecorded slots req s \<longleftrightarrow> (\<forall>e. slots s (scoped_key req) = Some e \<longrightarrow> \<not> ie_completed e)"

lemma pending_settled: "pending slots req until s \<Longrightarrow> settled slots req until u s"
  by (auto simp: pending_def settled_def)

lemma fingerprint_hex [simp]: "list_all is_hex (fingerprint req)"
proof -
  have "list_all is_hex (concat (map (\<lambda>w. hex_digits 8 (unat w)) ws))" for ws :: "u32 list"
    by (induction ws) (simp_all add: hex_digits_hex)
  then show ?thesis by (simp add: fingerprint_def sha256_hex_def)
qed

lemma plain_receipt [simp]: "plain_response (receipt en w)"
  using uuid_str_chars by (auto simp: plain_response_def receipt_def list_all_iff)

lemma recorded_receipt [simp]: "recorded_entry_id (receipt en w) = Inr (le_id en)"
  by (simp add: recorded_entry_id_def receipt_def uuid_of_value_def)

lemma steady_pending:
  "steady slots now {} m \<Longrightarrow> m s = (r, t) \<Longrightarrow> pending slots req until s \<Longrightarrow> pending slots req until t"
  by (auto simp: pending_def dest: steadyD)

lemma steady_settled:
  "steady slots now {} m \<Longrightarrow> m s = (r, t) \<Longrightarrow> settled slots req until u s
     \<Longrightarrow> settled slots req until u t"
  by (auto simp: settled_def dest: steadyD)

text \<open>The ways a run of the write path ends.\<close>

lemma mv_writeE:
  assumes "mv_write P cfg req w v bal n s = (r, t)"
  obtains (NoId) e where "new_uuid P s = (Inl e, t)"
    | (NoEntry) u s1 e where "new_uuid P s = (Inr u, s1)"
        "ledger_add P (ledger_record (LedgerEntryId u) (w_id w) (mr_direction req) (mr_amount req)
           bal (mr_description req) n) s1 = (Inl e, t)"
    | (NoUpdate) u s1 s2 e where "new_uuid P s = (Inr u, s1)"
        "ledger_add P (ledger_record (LedgerEntryId u) (w_id w) (mr_direction req) (mr_amount req)
           bal (mr_description req) n) s1 = (Inr (), s2)"
        "wallets_update P w v s2 = (Inl e, t)"
    | (Stale) u s1 s2 s3 e where "new_uuid P s = (Inr u, s1)"
        "ledger_add P (ledger_record (LedgerEntryId u) (w_id w) (mr_direction req) (mr_amount req)
           bal (mr_description req) n) s1 = (Inr (), s2)"
        "wallets_update P w v s2 = (Inr False, s3)" "mv_refuse P req e s3 = (r, t)"
    | (Committed) u s1 s2 s3 en rc s4 where "new_uuid P s = (Inr u, s1)"
        "en = ledger_record (LedgerEntryId u) (w_id w) (mr_direction req) (mr_amount req)
           bal (mr_description req) n"
        "ledger_add P en s1 = (Inr (), s2)" "wallets_update P w v s2 = (Inr True, s3)"
        "tx_commit P s3 = (rc, s4)"
        "case rc of Inl _ \<Rightarrow> t = s4 | Inr _ \<Rightarrow> \<exists>rf. mv_confirm P cfg req w en s4 = (rf, t)"
proof -
  obtain r1 s1 where U: "new_uuid P s = (r1, s1)" by fastforce
  note run = assms [unfolded mv_write_def Let_def pbind_def pthen_def]
  show ?thesis
  proof (cases r1)
    case (Inl e)
    with U run show ?thesis by (intro NoId) simp
  next
    case (Inr u)
    define en where "en = ledger_record (LedgerEntryId u) (w_id w) (mr_direction req)
      (mr_amount req) bal (mr_description req) n"
    note U = U [unfolded Inr]
    obtain r2 s2 where L: "ledger_add P en s1 = (r2, s2)" by fastforce
    obtain r3 s3 where W: "wallets_update P w v s2 = (r3, s3)" by fastforce
    obtain r4 s4 where C: "tx_commit P s3 = (r4, s4)" by fastforce
    obtain r5 s5 where F: "mv_confirm P cfg req w en s4 = (r5, s5)" by fastforce
    note run = run [unfolded U prod.case sum.case en_def [symmetric]]
    consider e where "r2 = Inl e" | e where "r2 = Inr ()" "r3 = Inl e"
      | "r2 = Inr ()" "r3 = Inr False" | "r2 = Inr ()" "r3 = Inr True"
      by (cases r2; cases r3) auto
    then show ?thesis
    proof cases
      case 1
      with run L U show ?thesis by (intro NoEntry) (auto simp: en_def)
    next
      case 2
      with run L U W show ?thesis by (intro NoUpdate) (auto simp: en_def)
    next
      case 3
      with run L U W show ?thesis by (intro Stale [OF U]) (auto simp: en_def)
    next
      case 4
      with run L U W C F show ?thesis
        by (intro Committed [OF U en_def, of s2 s3 r4 s4]) (auto split: sum.splits)
    qed
  qed
qed

text \<open>A posting on the books of an owner stays there, whatever is posted later.\<close>

lemma post_request_booked:
  "post_request q v n b = Some b' \<Longrightarrow> booked req u b \<Longrightarrow> booked req u b'"
  unfolding post_request_def booked_def
  by (erule postE) (auto simp: owned_def elim!: account_moveE split: option.splits if_splits)

lemma applied_booked: "applied q b r b' \<Longrightarrow> booked req u b \<Longrightarrow> booked req u b'"
  by (auto simp: applied_def reports_def intro: post_request_booked split: sum.splits)

definition own_keys :: "movement_request \<Rightarrow> string set" where
  "own_keys req = (if mr_idempotency_key req = None then {} else {scoped_key req})"

section \<open>Which keys a movement touches\<close>

context keyed_backend begin

lemmas steady_all [simp, intro] = steady_ports [THEN steady_mono]

lemma steady_idem [simp, intro]:
  "k \<in> K \<Longrightarrow> steady slots now K (idem_reserve P k fp n)"
  "k \<in> K \<Longrightarrow> steady slots now K (idem_confirm P k resp n)"
  "k \<in> K \<Longrightarrow> steady slots now K (idem_release P k)"
  by (rule steadyI, drule reserve_frame confirm_frame release_frame, force)+

lemma release_steady [simp, intro]: "steady slots now (own_keys req) (mv_release P req)"
  by (auto simp: mv_release_def own_keys_def split: option.splits)

lemma confirm_steady [simp, intro]: "steady slots now (own_keys req) (mv_confirm P cfg req w en)"
  unfolding mv_confirm_def
  by (cases "mr_idempotency_key req") (auto intro!: steady_intros simp: own_keys_def)

lemma refuse_steady [simp, intro]: "steady slots now (own_keys req) (mv_refuse P req e)"
  by (auto simp: mv_refuse_def)

lemma replay_steady [simp, intro]: "steady slots now K (mv_replay P req rec)"
  unfolding mv_replay_def by (auto intro!: steady_intros split: option.split)

lemma claim_steady [simp, intro]: "steady slots now (own_keys req) (mv_claim P cfg req)"
  unfolding mv_claim_def
  by (auto intro!: steady_intros simp: own_keys_def split: option.split)

lemma write_steady [simp, intro]: "steady slots now (own_keys req) (mv_write P cfg req w v bal n)"
  unfolding mv_write_def Let_def by (intro steady_intros) auto

lemma apply_locked_steady [simp, intro]: "steady slots now (own_keys req) (mv_apply_locked P cfg req)"
  unfolding mv_apply_locked_def
  by (intro steady_intros steady_all) (auto intro!: steady_intros split: option.split prod.split sum.split)

lemma with_lock_steady:
  assumes "\<And>h. steady slots now K (body h)"
  shows "steady slots now K (with_lock P k ttl wait body)"
proof (rule steadyI)
  fix s r t
  assume "with_lock P k ttl wait body s = (r, t)"
  then show "now s \<le> now t \<and> (\<forall>k. k \<notin> K \<longrightarrow> slots t k = slots s k)"
    unfolding with_lock_def
  proof (cases rule: pbindE)
    case (Raised e)
    from steadyD [OF steady_ports(7) Raised(1)] show ?thesis by simp
  next
    case (Continued h u)
    from Continued(1) have "issued P h" by (rule issuedI)
    with assms have "steady slots now K (pfinally (body h) (\<lambda>_. lock_exit P h))" by (intro steady_intros) auto
    from steadyD [OF steady_ports(7) Continued(1)] steadyD [OF this Continued(2)] show ?thesis by auto
  qed
qed

lemma locked_steady: "steady slots now (own_keys req)
    (with_lock P k ttl wait (mv_locked_body P cfg req st))"
  unfolding mv_locked_body_def by (rule with_lock_steady) (auto intro!: steady_intros)

lemma apply_steady: "steady slots now (own_keys req) (mv_apply P cfg req)"
  unfolding mv_apply_def
  by (intro steady_intros) (auto intro!: steady_intros locked_steady split: option.split)

end

section \<open>A committed movement leaves its key taken\<close>

text \<open>Programs that, started under the claim and on fresh books, leave the claim settled if they
  move the committed books.\<close>

definition settles :: "('s \<Rightarrow> book) \<Rightarrow> ('s \<Rightarrow> book) \<Rightarrow> ('s \<Rightarrow> string \<Rightarrow> idem_entry option) \<Rightarrow> ('s \<Rightarrow> seconds)
    \<Rightarrow> movement_request \<Rightarrow> seconds \<Rightarrow> int \<Rightarrow> ('s, exn, 'a) prog \<Rightarrow> bool" where
  "settles sess comm slots now req until ttl m \<longleftrightarrow>
     (\<forall>s r t. m s = (r, t) \<longrightarrow> sess s = comm s \<longrightarrow> pending slots req until s
        \<longrightarrow> until \<le> now s + of_int ttl \<longrightarrow> now t < until \<longrightarrow> comm t \<noteq> comm s
        \<longrightarrow> (\<exists>u. settled slots req until u t \<and> booked req u (comm t)))"

lemma settlesI:
  "(\<And>s r t. m s = (r, t) \<Longrightarrow> sess s = comm s \<Longrightarrow> pending slots req until s
      \<Longrightarrow> until \<le> now s + of_int ttl \<Longrightarrow> now t < until \<Longrightarrow> comm t \<noteq> comm s
      \<Longrightarrow> \<exists>u. settled slots req until u t \<and> booked req u (comm t))
    \<Longrightarrow> settles sess comm slots now req until ttl m"
  by (auto simp: settles_def)

lemma settlesD:
  "settles sess comm slots now req until ttl m \<Longrightarrow> m s = (r, t) \<Longrightarrow> sess s = comm s
     \<Longrightarrow> pending slots req until s \<Longrightarrow> until \<le> now s + of_int ttl \<Longrightarrow> now t < until
     \<Longrightarrow> comm t \<noteq> comm s \<Longrightarrow> \<exists>u. settled slots req until u t \<and> booked req u (comm t)"
  by (auto simp: settles_def)

context keyed_backend begin

abbreviation "settling \<equiv> settles sess comm slots now"

lemma settles_still: "still comm m \<Longrightarrow> settling req until ttl m"
  by (rule settlesI) (auto dest: stillD)

text \<open>The clock and the claim over one operation that leaves the store alone.\<close>

lemma steady_step:
  assumes "steady slots now {} m" "m s = (r, t)" "pending slots req until s"
    and "until \<le> now s + of_int ttl"
  shows "pending slots req until t" "until \<le> now t + of_int ttl" "now s \<le> now t"
  using steadyD [OF assms(1,2)] steady_pending [OF assms(1-3)] assms(4) by auto

lemma settles_bind:
  assumes m: "steady slots now {} m" "quiet sess comm m"
    and f: "\<And>x. settling req until ttl (f x)"
  shows "settling req until ttl (pbind m f)"
proof (rule settlesI)
  fix s r t
  assume run: "pbind m f s = (r, t)" and s: "sess s = comm s" "pending slots req until s"
    "until \<le> now s + of_int ttl" "now t < until" "comm t \<noteq> comm s"
  from run show "\<exists>u. settled slots req until u t \<and> booked req u (comm t)"
  proof (cases rule: pbindE)
    case (Raised e)
    with s(5) quietD [OF m(2)] show ?thesis by auto
  next
    case (Continued x v)
    from quietD [OF m(2) Continued(1)] steady_step [OF m(1) Continued(1) s(2,3)] s
    show ?thesis by (intro settlesD [OF f Continued(2)]) auto
  qed
qed

lemma confirm_settles:
  assumes run: "mv_confirm P cfg req w en s = (r, t)" and p: "pending slots req until s"
    and c: "until \<le> now s + of_int (ms_idempotency_ttl_seconds cfg)" "now t < until"
  shows "settled slots req until (le_id en) t"
proof (cases "mr_idempotency_key req")
  case None
  with run p show ?thesis by (auto simp: mv_confirm_def intro: pending_settled)
next
  case (Some k)
  let ?ttl = "ms_idempotency_ttl_seconds cfg"
  have settle: "settled slots req until (le_id en) v"
    if "idem_confirm P (scoped_key req) (receipt en w) ?ttl u = (rc, v)" "pending slots req until u"
      "until \<le> now u + of_int ?ttl" "now v < until" for u rc v
  proof -
    from that(2,4) obtain e where e: "live_in slots now (scoped_key req) e u v"
        "ie_fingerprint e = fingerprint req" "until \<le> ie_expires_at e" "ie_response e = None"
      by (auto simp: pending_def live_in_def)
    from confirm_live [OF that(1) e(1)] e(2) have "(\<exists>x \<ge> now u + of_int ?ttl. 0 < ?ttl
        \<and> slots v (scoped_key req) = Some (e\<lparr>ie_response := Some (receipt en w), ie_expires_at := x\<rparr>))
      \<or> (?ttl \<le> 0 \<or> (\<exists>err. rc = Inl err)) \<and> slots v (scoped_key req) = Some e" by simp
    with e that(3) show ?thesis by (auto simp: settled_def)
  qed
  let ?body = "pcatch (pthen (idem_confirm P (scoped_key req) (receipt en w) ?ttl)
    (pret ''success'')) (\<lambda>e. if is_exception e then pret ''unavailable'' else praise e)"
  let ?fin = "\<lambda>st r. pbind (perf_counter P) (\<lambda>n. observe P (ObserveExternalCall ''idempotency''
    ''confirm'' (case r of Inl _ \<Rightarrow> ''error'' | Inr outcome \<Rightarrow> outcome) (n - st)))"
  from run Some have R: "pbind (perf_counter P) (\<lambda>st. pthen (pfinally ?body (?fin st)) (pret ())) s
      = (r, t)" by (simp add: mv_confirm_def)
  have fin: "steady slots now {} (?fin st r)" for st r by (intro steady_intros) auto
  from R show ?thesis
  proof (cases rule: pbindE)
    case (Raised e)
    from steady_pending [OF steady_ports(11) Raised(1) p] show ?thesis by (rule pending_settled)
  next
    case (Continued st u)
    note st = steady_step [OF steady_ports(11) Continued(1) p c(1)]
    from Continued(2) obtain r' where F: "pfinally ?body (?fin st) u = (r', t)"
      by (auto elim!: pthenE)
    from F obtain b v where B: "?body u = (b, v)" and G: "\<exists>g. ?fin st b v = (g, t)"
      by (auto elim!: pfinallyE)
    from G obtain g where G: "?fin st b v = (g, t)" by blast
    from B obtain rc where C: "idem_confirm P (scoped_key req) (receipt en w) ?ttl u = (rc, v)"
      by (auto elim!: pcatchE pthenE split: if_splits)
    from steadyD [OF fin G] c(2) have "now v < until" by simp
    from steady_settled [OF fin G settle [OF C st(1,2) this]] show ?thesis .
  qed
qed

end

text \<open>The posting of a request, by the entry it is recorded under.\<close>

lemma post_request_postings:
  assumes "post_request req u n b = Some b'"
  shows "booked req u b'" "\<exists>p. bk_postings b' = bk_postings b @ [p] \<and> po_id p = u"
  using assms unfolding post_request_def booked_def
  by (auto elim!: postE simp: owned_def elim!: account_moveE)

context keyed_backend begin

lemma write_settles:
  assumes run: "mv_write P cfg req w ver bal n s = (r, t)" and fresh: "sess s = comm s"
    and w: "wf_wallet w" "w_id w = mr_wallet_id req" "w_balance w = bal"
    and v: "valid_money (mr_amount req)"
    and a: "owned (comm s) (mr_wallet_id req) (mr_owner_id req) = Some a"
      "ac_created_at a = w_created_at w"
      "account_move (mr_direction req) (cents (mr_amount req)) (m_currency (mr_amount req)) n a
         = Some (account_of w)"
    and p: "pending slots req until s" "until \<le> now s + of_int (ms_idempotency_ttl_seconds cfg)"
      "now t < until" "comm t \<noteq> comm s"
  shows "\<exists>u. settled slots req until u t \<and> booked req u (comm t)"
proof -
  from write_run [OF run fresh w v a] p(4)
  obtain u m where post: "post_request req u m (comm s) = Some (comm t)"
    by (auto simp: applied_def reports_def split: sum.splits)
  note bk = post_request_postings [OF post]
  have "settled slots req until u t"
    using run
  proof (cases rule: mv_writeE)
    case (Committed u' s1 s2 s3 en rc s4)
    note pU = steady_step [OF steady_ports(10) Committed(1) p(1,2)]
    note pL = steady_step [OF steady_ports(3) Committed(3) pU(1,2)]
    note pW = steady_step [OF steady_ports(2) Committed(4) pL(1,2)]
    note pC = steady_step [OF steady_ports(5) Committed(5) pW(1,2)]
    show ?thesis
    proof (cases rc)
      case (Inl e)
      with Committed(6) pC(1) show ?thesis by (auto intro: pending_settled)
    next
      case (Inr x)
      with Committed(6) obtain rf where F: "mv_confirm P cfg req w en s4 = (rf, t)" by auto
      have "m_currency bal = m_currency (mr_amount req)"
        using account_move_currency [OF a(3)] w(3) by (simp add: wallet_currency_def)
      then have "valid_money (le_amount en)" "valid_money (le_balance_after en)"
          "m_currency (le_balance_after en) = m_currency (le_amount en)"
        using v w(1,3) Committed(2) by (simp_all add: ledger_record_def wf_wallet_def)
      from entry_added [OF Committed(3) this] quietD [OF misc_quiet(2) Committed(1)] fresh
      have "bk_postings (sess s2) = bk_postings (comm s) @ [posting_of en]" by simp
      moreover have "sess s3 = put_account (w_id w) (X s2) (sess s2) \<Longrightarrow>
          bk_postings (sess s3) = bk_postings (sess s2)" for X by simp
      ultimately have "bk_postings (sess s3) = bk_postings (comm s) @ [posting_of en]"
        using update_done [OF Committed(4) w(1)] by auto
      moreover have "comm t = sess s3"
        using commit_done [of s3 s4] Committed(5) Inr quietD [OF confirm_quiet F] by simp
      ultimately have "le_id en = u" using bk(2) by auto
      with confirm_settles [OF F pC(1,2) p(3)] show ?thesis by simp
    qed
  qed (use p(4) in \<open>auto dest!: stillD [OF still_ports(7)] stillD [OF entry_still]
      stillD [OF update_still] refuse_raises stillD [OF misc_quiet(2) [THEN quiet_still]]\<close>)
  with bk(1) show ?thesis by blast
qed

lemma apply_locked_settles:
  assumes v: "valid_money (mr_amount req)"
  shows "settling req until (ms_idempotency_ttl_seconds cfg) (mv_apply_locked P cfg req)"
proof (rule settlesI)
  fix s r t
  assume run: "mv_apply_locked P cfg req s = (r, t)" and fresh: "sess s = comm s"
    and p: "pending slots req until s" "until \<le> now s + of_int (ms_idempotency_ttl_seconds cfg)"
      "now t < until" "comm t \<noteq> comm s"
  obtain r1 s1 where R: "wallets_read P (mr_wallet_id req) (mr_owner_id req) True s = (r1, s1)"
    by fastforce
  note rd = read_run [OF R]
  obtain r2 s2 where N: "clock_now P s1 = (r2, s2)" by fastforce
  note qN = quietD [OF misc_quiet(1) N]
  have moved: "\<not> mv_refuse P req e s' = (r, t)" if "comm s' = comm s" for e s'
    using p(4) that by (auto dest: refuse_raises)
  have "\<exists>w n. r1 = Inr (Some w) \<and> r2 = Inr n"
    using run rd qN p(4) moved
    by (cases r1; cases "projr r1"; cases r2) (auto simp: mv_apply_locked_def pbind_def R N)
  then obtain w n where w: "r1 = Inr (Some w)" "r2 = Inr n" by blast
  with rd fresh have own: "wf_wallet w" "w_id w = mr_wallet_id req"
      "owned (comm s) (mr_wallet_id req) (mr_owner_id req) = Some (account_of w)" by auto
  note ref = wallet_move_refines [OF own(1) v, of "mr_direction req" n]
  obtain r3 w' where M: "wallet_move (mr_direction req) (mr_amount req) n w = (r3, w')" by fastforce
  from run w M moved [of s2] ref rd qN obtain bal where bal: "r3 = Inr bal"
      "mv_write P cfg req w' (w_version w) bal n s2 = (r, t)"
    by (cases r3) (auto simp: mv_apply_locked_def pbind_def R N)
  note pR = steady_step [OF steady_ports(1) R p(1,2)]
  note pN = steady_step [OF steady_ports(9) N pR(1,2)]
  from write_settles [OF bal(2) _ _ _ _ v _ _ _ pN(1,2) p(3), of "account_of w"]
  show "\<exists>u. settled slots req until u t \<and> booked req u (comm t)"
    using ref M bal(1) own rd qN fresh w p(4) by auto
qed

lemma settles_then:
  "steady slots now {} m \<Longrightarrow> quiet sess comm m \<Longrightarrow> settling req until ttl n
     \<Longrightarrow> settling req until ttl (pthen m n)"
  by (simp add: pthen_def settles_bind)

lemma settles_finally:
  assumes m: "settling req until ttl m"
    and fin: "\<And>r. steady slots now {} (fin r)" "\<And>r. quiet sess comm (fin r)"
  shows "settling req until ttl (pfinally m fin)"
proof (rule settlesI)
  fix s r t
  assume run: "pfinally m fin s = (r, t)" and s: "sess s = comm s" "pending slots req until s"
    "until \<le> now s + of_int ttl" "now t < until" "comm t \<noteq> comm s"
  from run obtain b g v where B: "m s = (b, v)" and G: "fin b v = (g, t)"
    by (auto elim!: pfinallyE)
  from steadyD [OF fin(1) G] quietD [OF fin(2) G] s(4,5)
  have "now v < until" "comm v \<noteq> comm s" "comm t = comm v" by auto
  with settlesD [OF m B s(1-3)] steady_settled [OF fin(1) G]
  show "\<exists>u. settled slots req until u t \<and> booked req u (comm t)" by metis
qed

lemma locked_settles:
  assumes "valid_money (mr_amount req)"
  shows "settling req until (ms_idempotency_ttl_seconds cfg)
    (with_lock P k ttl wait (mv_locked_body P cfg req st))"
proof (rule settlesI)
  let ?ttl = "ms_idempotency_ttl_seconds cfg"
  fix s r t
  assume run: "with_lock P k ttl wait (mv_locked_body P cfg req st) s = (r, t)"
    and s: "sess s = comm s" "pending slots req until s" "until \<le> now s + of_int ?ttl" "now t < until" "comm t \<noteq> comm s"
  from run show "\<exists>u. settled slots req until u t \<and> booked req u (comm t)"
    unfolding with_lock_def
  proof (cases rule: pbindE)
    case (Raised e)
    with s(5) quietD [OF lock_quiet(1)] show ?thesis by auto
  next
    case (Continued h v)
    from Continued(1) have h: "issued P h" by (rule issuedI)
    have "settling req until ?ttl (pfinally (mv_locked_body P cfg req st h) (\<lambda>_. lock_exit P h))"
      unfolding mv_locked_body_def
      by (intro settles_bind settles_finally settles_then quiet_ports steady_ports h)
        (auto intro: apply_locked_settles [OF assms] settles_still)
    from settlesD [OF this Continued(2)] quietD [OF lock_quiet(1) Continued(1)]
      steady_step [OF steady_ports(7) Continued(1) s(2,3)] s show ?thesis by auto
  qed
qed

lemma claim_pending:
  assumes run: "mv_claim P cfg req s = (Inr None, t)" and key: "mr_idempotency_key req = Some k"
    and free: "unrecorded slots req s" and ttl: "0 < ms_idempotency_ttl_seconds cfg"
  shows "pending slots req (now s + of_int (ms_idempotency_ttl_seconds cfg)) t"
proof -
  obtain r1 s1 where R: "idem_reserve P (scoped_key req) (fingerprint req)
      (ms_idempotency_ttl_seconds cfg) s = (r1, s1)" by fastforce
  from run key R obtain res where r1: "r1 = Inr res" by (cases r1) (auto simp: mv_claim_def pbind_def)
  note R = R [unfolded r1]
  have "res_outcome res \<noteq> COMPLETED"
    using reserve_completed [OF R] free by (auto simp: unrecorded_def)
  with run key R have "may_proceed res \<and> t = s1"
    by (cases "res_outcome res")
      (auto simp: mv_claim_def pbind_def may_proceed_def split: if_splits)
  moreover have "\<And>e. slots s (scoped_key req) = Some e \<Longrightarrow> \<not> ie_completed e"
    using free by (simp add: unrecorded_def)
  ultimately show ?thesis using reserve_claims [OF R ttl] by (auto simp: pending_def)
qed

lemma apply_settles:
  assumes run: "mv_apply P cfg req s = (r, t)" and fresh: "sess s = comm s"
    and v: "valid_money (mr_amount req)" and key: "mr_idempotency_key req = Some k"
    and free: "unrecorded slots req s" and ttl: "0 < ms_idempotency_ttl_seconds cfg"
    and soon: "now t < now s + of_int (ms_idempotency_ttl_seconds cfg)"
    and moved: "comm t \<noteq> comm s"
  shows "\<exists>u. settled slots req (now s + of_int (ms_idempotency_ttl_seconds cfg)) u t
    \<and> booked req u (comm t)"
proof -
  obtain r1 s1 where C: "mv_claim P cfg req s = (r1, s1)" by fastforce
  note cl = claim_run [OF C]
  from run C cl moved have r1: "r1 = Inr None"
    by (cases r1; cases "projr r1") (auto simp: mv_apply_def pbind_def)
  note p = claim_pending [OF C [unfolded r1] key free ttl]
  from run C r1 have rest: "pbind (perf_counter P) (\<lambda>st. with_lock P (movement_lock_key req)
      (ms_lock_ttl_ms cfg) (ms_lock_wait_ms cfg) (mv_locked_body P cfg req st)) s1 = (r, t)"
    by (simp add: mv_apply_def pbind_def)
  have "settling req until (ms_idempotency_ttl_seconds cfg) (pbind (perf_counter P)
      (\<lambda>st. with_lock P (movement_lock_key req) (ms_lock_ttl_ms cfg) (ms_lock_wait_ms cfg)
        (mv_locked_body P cfg req st)))" for until
    by (intro settles_bind locked_settles v) auto
  from settlesD [OF this rest _ p _ soon] show ?thesis
    using cl r1 fresh moved steadyD [OF claim_steady C] by simp
qed

section \<open>A retry moves nothing\<close>

text \<open>What the store answers about a settled key.\<close>

lemma settled_answer:
  assumes "settled slots req until u s"
    and R: "idem_reserve P (scoped_key req) fp ttl s = (r1, s1)" and "now s1 < until" "0 < ttl"
  shows "settled slots req until u s1" "r1 = Inr res \<Longrightarrow> fp \<noteq> fingerprint req \<Longrightarrow> res_outcome res = CONFLICT"
    "r1 = Inr res \<Longrightarrow> fp = fingerprint req \<Longrightarrow> res_outcome res = IN_PROGRESS
       \<or> (\<exists>rec. res_outcome res = COMPLETED \<and> res_record res = Some rec
            \<and> recorded_entry_id (ir_response rec) = Inr u)"
proof -
  from assms(1,3) obtain e where e: "live_in slots now (scoped_key req) e s s1"
      "ie_fingerprint e = fingerprint req" "until \<le> ie_expires_at e"
      "\<forall>resp. ie_response e = Some resp \<longrightarrow> recorded_entry_id resp = Inr u"
    by (auto simp: settled_def live_in_def)
  from reserve_live [OF R e(1)] e(2) assms(4)
  have res: "slots s1 (scoped_key req) = Some e" "\<forall>res. r1 = Inr res \<longrightarrow> res = taken (scoped_key req) fp e"
    by auto
  from res(1) e(2-4) show "settled slots req until u s1" by (auto simp: settled_def)
  show "r1 = Inr res \<Longrightarrow> fp \<noteq> fingerprint req \<Longrightarrow> res_outcome res = CONFLICT"
    using res(2) e(2) by (auto simp: taken_def)
  show "r1 = Inr res \<Longrightarrow> fp = fingerprint req \<Longrightarrow> res_outcome res = IN_PROGRESS
       \<or> (\<exists>rec. res_outcome res = COMPLETED \<and> res_record res = Some rec
            \<and> recorded_entry_id (ir_response rec) = Inr u)"
    using res(2) e(2,4) by (auto simp: taken_def ie_completed_def)
qed

text \<open>The recorded movement is found, so a replay is never given up.\<close>

lemma replay_found:
  assumes run: "mv_replay P q rec s = (r, t)"
    and rec: "recorded_entry_id (ir_response rec) = Inr u"
    and b: "booked req u (sess s)" "mr_wallet_id q = mr_wallet_id req" "mr_owner_id q = mr_owner_id req"
  shows "(\<exists>e. r = Inl e) \<or> (\<exists>out. r = Inr (Some out) \<and> mo_replayed out \<and> le_id (mo_entry out) = u)"
proof -
  obtain r1 s1 where E: "ledger_read P u (mr_owner_id q) s = (r1, s1)" by fastforce
  obtain r2 s2 where W: "wallets_read P (mr_wallet_id q) (mr_owner_id q) False s1 = (r2, s2)" by fastforce
  obtain r3 s3 where R: "tx_rollback P s2 = (r3, s3)" by fastforce
  have "r1 \<noteq> Inr None"
    using entry_missing [of u "mr_owner_id q" s s1] E b by (fastforce simp: booked_def)
  moreover have "r1 = Inr x \<Longrightarrow> r2 \<noteq> Inr None" for x
    using entry_run [OF E] read_run [OF W] b by (auto simp: booked_def)
  ultimately show ?thesis
    using run rec entry_run [OF E] E W R
    by (cases r1; cases r2; cases r3; cases "projr r1"; cases "projr r2")
      (auto simp: mv_replay_def pbind_def pthen_def)
qed

text \<open>What the claim does with the store's answer.\<close>

abbreviation claim_answer :: "movement_request \<Rightarrow> string \<Rightarrow> idempotency_reservation
    \<Rightarrow> ('s, exn, movement_outcome option) prog" where
  "claim_answer q k res \<equiv>
     (if may_proceed res then pret None
      else if res_outcome res = CONFLICT then praise (app_exn ConflictError IDEMPOTENCY_KEY_REUSED
          (Some [(''idempotency_key'', VStr k)]))
      else if res_outcome res = IN_PROGRESS then praise (app_exn ConflictError MOVEMENT_IN_PROGRESS
          (Some [(''idempotency_key'', VStr k)]))
      else case res_record res of None \<Rightarrow> pret None | Some rec \<Rightarrow> mv_replay P q rec)"

lemma claim_answer_steady: "steady slots now {} (claim_answer q k res)"
  by (auto split: option.split)

lemma claimE:
  assumes "mv_claim P cfg q s = (r, t)" "mr_idempotency_key q = Some k"
  obtains (Raised) e where "idem_reserve P (scoped_key q) (fingerprint q)
        (ms_idempotency_ttl_seconds cfg) s = (Inl e, t)" "r = Inl e"
    | (Answered) res s1 where "idem_reserve P (scoped_key q) (fingerprint q)
        (ms_idempotency_ttl_seconds cfg) s = (Inr res, s1)" "claim_answer q k res s1 = (r, t)"
  using assms by (auto simp: mv_claim_def elim: pbindE)

lemma claim_retry:
  assumes C: "mv_claim P cfg q s = (r, t)" and fresh: "sess s = comm s"
    and same: "scoped_key q = scoped_key req" "mr_idempotency_key q = Some k"
    and st: "settled slots req until u s" "booked req u (comm s)"
    and ids: "fingerprint q = fingerprint req \<Longrightarrow>
      mr_wallet_id q = mr_wallet_id req \<and> mr_owner_id q = mr_owner_id req"
    and ttl: "0 < ms_idempotency_ttl_seconds cfg" "now t < until"
  shows "settled slots req until u t \<and> ((\<exists>e. r = Inl e)
    \<or> (\<exists>out. r = Inr (Some out) \<and> fingerprint q = fingerprint req \<and> mo_replayed out
         \<and> le_id (mo_entry out) = u))"
  using C same(2)
proof (cases rule: claimE)
  case (Raised e)
  from settled_answer(1) [OF st(1) Raised(1) [unfolded same(1)] ttl(2,1)] Raised(2)
  show ?thesis by simp
next
  case (Answered res s1)
  from steadyD [OF claim_answer_steady Answered(2)] ttl(2) have n: "now s1 < until" by simp
  note ans = settled_answer [OF st(1) Answered(1) [unfolded same(1)] n ttl(1)]
  have st': "settled slots req until u t"
    by (rule steady_settled [OF claim_answer_steady Answered(2) ans(1)])
  show ?thesis
  proof (cases "fingerprint q = fingerprint req \<and> res_outcome res = COMPLETED")
    case True
    with ans(3) obtain rec where rec: "res_record res = Some rec"
        "recorded_entry_id (ir_response rec) = Inr u" by auto
    with Answered(2) True have rep: "mv_replay P q rec s1 = (r, t)" by (simp add: may_proceed_def)
    from replay_found [OF this rec(2)] st(2) quietD [OF idem_quiet(1) Answered(1)] fresh ids True st'
    show ?thesis by auto
  next
    case False
    with ans(2,3) have "res_outcome res = CONFLICT \<or> res_outcome res = IN_PROGRESS" by blast
    with Answered(2) st' show ?thesis by (elim disjE) (auto simp: may_proceed_def)
  qed
qed

lemma retry:
  assumes run: "mv_apply P cfg q s = (r, t)" and fresh: "sess s = comm s"
    and same: "scoped_key q = scoped_key req" "mr_idempotency_key q = Some k"
    and st: "settled slots req until u s" "booked req u (comm s)"
    and ids: "fingerprint q = fingerprint req \<Longrightarrow>
      mr_wallet_id q = mr_wallet_id req \<and> mr_owner_id q = mr_owner_id req"
    and ttl: "0 < ms_idempotency_ttl_seconds cfg" "now t < until"
  shows "comm t = comm s" "settled slots req until u t"
    "\<forall>out. r = Inr out \<longrightarrow>
      fingerprint q = fingerprint req \<and> mo_replayed out \<and> le_id (mo_entry out) = u"
proof -
  obtain r0 s0 where C: "mv_claim P cfg q s = (r0, s0)" by fastforce
  have rest: "steady slots now (own_keys q) (case replay of Some outcome \<Rightarrow> pret outcome
      | None \<Rightarrow> pbind (perf_counter P) (\<lambda>st. with_lock P (movement_lock_key q) (ms_lock_ttl_ms cfg)
          (ms_lock_wait_ms cfg) (mv_locked_body P cfg q st)))" for replay
    by (auto intro!: steady_intros locked_steady split: option.split)
  from run C have "now s0 \<le> now t"
    unfolding mv_apply_def by (auto elim!: pbindE dest: steadyD [OF rest])
  with ttl(2) have "now s0 < until" by simp
  from claim_retry [OF C fresh same st ids ttl(1) this] run C
  have "t = s0 \<and> settled slots req until u s0 \<and> (\<forall>out. r = Inr out \<longrightarrow>
      fingerprint q = fingerprint req \<and> mo_replayed out \<and> le_id (mo_entry out) = u)"
    by (auto simp: mv_apply_def pbind_def)
  with claim_run [OF C] show "comm t = comm s" "settled slots req until u t"
    "\<forall>out. r = Inr out \<longrightarrow>
      fingerprint q = fingerprint req \<and> mo_replayed out \<and> le_id (mo_entry out) = u" by auto
qed

text \<open>A request with another key, or with none, leaves the settled key settled.\<close>

lemma other_request:
  assumes run: "mv_apply P cfg q s = (r, t)" and "sess s = comm s" "valid_money (mr_amount q)"
    and other: "scoped_key req \<notin> own_keys q"
    and st: "settled slots req until u s" "booked req u (comm s)"
  shows "settled slots req until u t \<and> booked req u (comm t)"
  using steadyD [OF apply_steady run] other st apply_run [OF run assms(2,3)]
  by (auto simp: settled_def dest: applied_booked)

end

end
