(* ===== verification/Interactors.thy ===== *)
theory Interactors
  imports Movement_Safety
begin

text \<open>
  \<open>application/interactors/wallets/\<close>: the use cases around the movement service. Each keeps a
  local \<open>outcome\<close> that \<open>finally\<close> reports as the label of the metric. Here that variable travels
  with the result: the body of a use case returns its value with the label it leaves behind, and
  raises an exception with the label at that moment (\<open>with_label\<close>); \<open>observed\<close> is the
  \<open>try ... finally\<close> around the body.
\<close>

section \<open>The reported outcome\<close>

type_synonym ('s, 'a) labelled = "('s, exn \<times> string, 'a \<times> string) prog"

text \<open>A call made while \<open>outcome\<close> is \<open>l\<close>.\<close>

definition with_label :: "string \<Rightarrow> ('s, exn, 'a) prog \<Rightarrow> ('s, exn \<times> string, 'a) prog" where
  "with_label l m = (\<lambda>s. case m s of (Inl e, t) \<Rightarrow> (Inl (e, l), t) | (Inr x, t) \<Rightarrow> (Inr x, t))"

fun reported_label :: "exn \<times> string + 'a \<times> string \<Rightarrow> string" where
  "reported_label (Inl (e, l)) = l"
| "reported_label (Inr (x, l)) = l"

fun drop_label :: "exn \<times> string + 'a \<times> string \<Rightarrow> exn + 'a" where
  "drop_label (Inl (e, l)) = Inl e"
| "drop_label (Inr (x, l)) = Inr x"

definition observed :: "'s ports \<Rightarrow> string \<Rightarrow> ('s, 'a) labelled \<Rightarrow> ('s, exn, 'a) prog" where
  "observed P name body =
     pbind (perf_counter P) (\<lambda>started_at s.
       case body s of (r, t) \<Rightarrow>
         pfinally (plift (drop_label r)) (\<lambda>_.
           pbind (perf_counter P) (\<lambda>now.
             observe P (ObserveInteractor name (reported_label r) (now - started_at)))) t)"

section \<open>Moving money\<close>

record move_money_settings =
  mms_rate_limit_enabled :: bool
  mms_rate_limit_limit :: int
  mms_rate_limit_window_seconds :: seconds
  mms_risk_fail_open :: bool

definition move_money_settings_default :: move_money_settings where
  "move_money_settings_default =
     \<lparr>mms_rate_limit_enabled = True, mms_rate_limit_limit = 30,
      mms_rate_limit_window_seconds = 60, mms_risk_fail_open = False\<rparr>"

record movement_result =
  mvr_entry_id :: ledger_entry_id
  mvr_wallet_id :: wallet_id
  mvr_balance :: money
  mvr_replayed :: bool

text \<open>What the two subclasses of \<open>_MovementInteractor\<close> fix.\<close>

fun movement_metric_name :: "ledger_direction \<Rightarrow> string" where
  "movement_metric_name CREDIT = ''deposit_to_wallet''"
| "movement_metric_name DEBIT = ''withdraw_from_wallet''"

definition refusal_details :: "risk_decision \<Rightarrow> (string \<times> pyval) list option" where
  "refusal_details d =
     (if rk_reference d \<noteq> [] then Some [(''reference'', VStr (rk_reference d))] else None)"

definition rate_limit_gate ::
  "'s ports \<Rightarrow> move_money_settings \<Rightarrow> movement_request \<Rightarrow> ('s, exn \<times> string, unit) prog" where
  "rate_limit_gate P mms req =
     (if \<not> mms_rate_limit_enabled mms then pret ()
      else
        let name = movement_metric_name (mr_direction req) in
        pbind (with_label ''error''
            (rate_consume P (name @ '':'' @ uuid_str (oid_value (mr_owner_id req)))
              \<lparr>rl_name = name, rl_limit = mms_rate_limit_limit mms,
               rl_window_seconds = mms_rate_limit_window_seconds mms\<rparr> 1)) (\<lambda>decision.
        pthen (with_label ''error''
            (observe P (ObserveRateLimit name
              (if rd_allowed decision then ''allowed'' else ''denied''))))
          (if rd_allowed decision then pret ()
           else praise (app_exn RateLimitedError RATE_LIMITED
             (Some [(''retry_after_seconds'', VNum (rd_retry_after_seconds decision))]),
             ''rate_limited''))))"

definition risk_gate ::
  "'s ports \<Rightarrow> move_money_settings \<Rightarrow> movement_request \<Rightarrow> ('s, exn \<times> string, risk_decision) prog"
  where
  "risk_gate P mms req =
     pbind (with_label ''error'' (risk_assess P
         \<lparr>rc_wallet_id = mr_wallet_id req, rc_owner_id = mr_owner_id req,
          rc_amount = mr_amount req, rc_direction = mr_direction req,
          rc_idempotency_key = mr_idempotency_key req\<rparr>)) (\<lambda>decision.
       if rk_outcome decision = REFUSED then
         praise (app_exn ForbiddenError MOVEMENT_REFUSED (refusal_details decision),
           ''risk_refused'')
       else if \<not> risk_available decision \<and> \<not> mms_risk_fail_open mms then
         praise (app_exn DependencyUnavailableError DEPENDENCY_UNAVAILABLE
           (Some [(''dependency'', VStr ''risk'')]), ''risk_unavailable'')
       else pret decision)"

text \<open>The block under \<open>try\<close>, then with \<open>except ApplicationError\<close>.\<close>

definition movement_try ::
  "'s ports \<Rightarrow> movement_settings \<Rightarrow> move_money_settings \<Rightarrow> movement_request
     \<Rightarrow> ('s, movement_result) labelled" where
  "movement_try P cfg mms req =
     pthen (rate_limit_gate P mms req)
     (pbind (risk_gate P mms req) (\<lambda>decision.
      pbind (with_label ''error'' (mv_apply P cfg req)) (\<lambda>result.
        pret (\<lparr>mvr_entry_id = le_id (mo_entry result), mvr_wallet_id = w_id (mo_wallet result),
               mvr_balance = mo_balance result, mvr_replayed = mo_replayed result\<rparr>,
              if \<not> risk_available decision then ''success_unassessed''
              else if mo_replayed result then ''replayed'' else ''success''))))"

fun relabel :: "exn \<times> string \<Rightarrow> exn \<times> string" where
  "relabel (AppExn a, l) =
     (AppExn a, if l = ''error'' then py_lower (app_code_value (ae_code a)) else l)"
| "relabel (e, l) = (e, l)"

definition movement_body ::
  "'s ports \<Rightarrow> movement_settings \<Rightarrow> move_money_settings \<Rightarrow> movement_request
     \<Rightarrow> ('s, movement_result) labelled" where
  "movement_body P cfg mms req = pcatch (movement_try P cfg mms req) (\<lambda>e. praise (relabel e))"

definition movement_run ::
  "'s ports \<Rightarrow> movement_settings \<Rightarrow> move_money_settings \<Rightarrow> movement_request
     \<Rightarrow> ('s, exn, movement_result) prog" where
  "movement_run P cfg mms req =
     observed P (movement_metric_name (mr_direction req)) (movement_body P cfg mms req)"

record deposit_command =
  dep_wallet_id :: wallet_id
  dep_owner_id :: owner_id
  dep_amount :: money
  dep_description :: string
  dep_idempotency_key :: "string option"

record withdraw_command =
  wdr_wallet_id :: wallet_id
  wdr_owner_id :: owner_id
  wdr_amount :: money
  wdr_description :: string
  wdr_idempotency_key :: "string option"

definition deposit_request :: "deposit_command \<Rightarrow> movement_request" where
  "deposit_request c =
     \<lparr>mr_wallet_id = dep_wallet_id c, mr_owner_id = dep_owner_id c, mr_amount = dep_amount c,
      mr_direction = CREDIT,
      mr_description = (if dep_description c = [] then ''deposit'' else dep_description c),
      mr_idempotency_key = dep_idempotency_key c\<rparr>"

definition withdraw_request :: "withdraw_command \<Rightarrow> movement_request" where
  "withdraw_request c =
     \<lparr>mr_wallet_id = wdr_wallet_id c, mr_owner_id = wdr_owner_id c, mr_amount = wdr_amount c,
      mr_direction = DEBIT,
      mr_description = (if wdr_description c = [] then ''withdrawal'' else wdr_description c),
      mr_idempotency_key = wdr_idempotency_key c\<rparr>"

definition deposit_to_wallet ::
  "'s ports \<Rightarrow> movement_settings \<Rightarrow> move_money_settings \<Rightarrow> deposit_command
     \<Rightarrow> ('s, exn, movement_result) prog" where
  "deposit_to_wallet P cfg mms c = movement_run P cfg mms (deposit_request c)"

definition withdraw_from_wallet ::
  "'s ports \<Rightarrow> movement_settings \<Rightarrow> move_money_settings \<Rightarrow> withdraw_command
     \<Rightarrow> ('s, exn, movement_result) prog" where
  "withdraw_from_wallet P cfg mms c = movement_run P cfg mms (withdraw_request c)"

section \<open>Opening a wallet\<close>

record open_wallet_command =
  owc_owner_id :: owner_id
  owc_currency :: currency_code

record open_wallet_result =
  owr_wallet_id :: wallet_id
  owr_currency :: currency_code

text \<open>The block under \<open>try\<close>, with the value of \<open>outcome\<close> at its return.\<close>

definition open_wallet_try ::
  "'s ports \<Rightarrow> open_wallet_command \<Rightarrow> ('s, exn, open_wallet_result \<times> string) prog" where
  "open_wallet_try P c =
     pbind (new_uuid P) (\<lambda>u.
     pbind (clock_now P) (\<lambda>now.
     pbind (plift (wallet_open (WalletId u) (owc_owner_id c) (owc_currency c) now)) (\<lambda>w.
     pthen (wallets_add P w)
     (pthen (tx_commit P)
       (pret (\<lparr>owr_wallet_id = w_id w, owr_currency = wallet_currency w\<rparr>, ''created''))))))"

definition open_wallet ::
  "'s ports \<Rightarrow> open_wallet_command \<Rightarrow> ('s, exn, open_wallet_result) prog" where
  "open_wallet P c = observed P ''open_wallet'' (with_label ''error'' (open_wallet_try P c))"

section \<open>Reading\<close>

definition max_page_size :: int where
  "max_page_size = 100"

definition page_limit_error :: exn where
  "page_limit_error = app_exn ValidationError VALIDATION_FAILED
     (Some [(''limit'', VStr (''must be between 1 and '' @ show_int max_page_size))])"

record get_wallet_query =
  gwq_wallet_id :: wallet_id
  gwq_owner_id :: owner_id

record list_wallets_query =
  lwq_owner_id :: owner_id
  lwq_limit :: int
  lwq_cursor :: "string option"

record list_ledger_query =
  llq_wallet_id :: wallet_id
  llq_owner_id :: owner_id
  llq_limit :: int
  llq_cursor :: "string option"

definition list_wallets_query_new ::
  "owner_id \<Rightarrow> int \<Rightarrow> string option \<Rightarrow> exn + list_wallets_query" where
  "list_wallets_query_new ow limit cursor =
     (if limit < 1 \<or> max_page_size < limit then Inl page_limit_error
      else Inr \<lparr>lwq_owner_id = ow, lwq_limit = limit, lwq_cursor = cursor\<rparr>)"

definition list_ledger_query_new ::
  "wallet_id \<Rightarrow> owner_id \<Rightarrow> int \<Rightarrow> string option \<Rightarrow> exn + list_ledger_query" where
  "list_ledger_query_new i ow limit cursor =
     (if limit < 1 \<or> max_page_size < limit then Inl page_limit_error
      else Inr \<lparr>llq_wallet_id = i, llq_owner_id = ow, llq_limit = limit, llq_cursor = cursor\<rparr>)"

definition wallet_not_found :: "wallet_id \<Rightarrow> exn" where
  "wallet_not_found i =
     app_exn NotFoundError WALLET_NOT_FOUND (Some [(''wallet_id'', VStr (uuid_str (wid_value i)))])"

definition get_wallet :: "'s ports \<Rightarrow> get_wallet_query \<Rightarrow> ('s, exn, wallet) prog" where
  "get_wallet P q =
     observed P ''get_wallet''
       (pbind (with_label ''error'' (wallets_read P (gwq_wallet_id q) (gwq_owner_id q) False))
         (\<lambda>found. case found of
            None \<Rightarrow> praise (wallet_not_found (gwq_wallet_id q), ''not_found'')
          | Some w \<Rightarrow> pret (w, ''success'')))"

definition list_wallets :: "'s ports \<Rightarrow> list_wallets_query \<Rightarrow> ('s, exn, wallet page) prog" where
  "list_wallets P q =
     observed P ''list_wallets''
       (pbind (with_label ''success''
           (wallets_list_by_owner P (lwq_owner_id q) (lwq_limit q) (lwq_cursor q)))
         (\<lambda>pg. pret (pg, ''success'')))"

definition list_ledger_entries ::
  "'s ports \<Rightarrow> list_ledger_query \<Rightarrow> ('s, exn, ledger_entry page) prog" where
  "list_ledger_entries P q =
     observed P ''list_ledger_entries''
       (pbind (with_label ''error'' (wallets_read P (llq_wallet_id q) (llq_owner_id q) False))
         (\<lambda>found. case found of
            None \<Rightarrow> praise (wallet_not_found (llq_wallet_id q), ''not_found'')
          | Some w \<Rightarrow>
              pbind (with_label ''error'' (ledger_list_by_wallet P (llq_wallet_id q)
                  (llq_owner_id q) (llq_limit q) (llq_cursor q)))
                (\<lambda>pg. pret (pg, ''success''))))"

section \<open>Runs\<close>

lemma with_labelE:
  assumes "with_label l m s = (r, t)"
  obtains (Raised) e where "m s = (Inl e, t)" "r = Inl (e, l)"
        | (Returned) x where "m s = (Inr x, t)" "r = Inr x"
  using assms by (auto simp: with_label_def split: prod.splits sum.splits)

lemma observedE:
  assumes "observed P name body s = (r, t)"
  obtains (Untimed) e where "perf_counter P s = (Inl e, t)" "r = Inl e"
    | (Ran) st s0 b u f where "perf_counter P s = (Inr st, s0)" "body s0 = (b, u)"
        "pbind (perf_counter P) (\<lambda>now. observe P (ObserveInteractor name (reported_label b)
           (now - st))) u = (f, t)"
        "r = (case f of Inl e \<Rightarrow> Inl e | Inr _ \<Rightarrow> drop_label b)"
proof (cases "perf_counter P s")
  case (Pair q s0)
  show ?thesis
  proof (cases q)
    case (Inl e)
    with Pair assms show ?thesis by (intro Untimed) (auto simp: observed_def pbind_def)
  next
    case (Inr st)
    obtain b u where B: "body s0 = (b, u)" by fastforce
    obtain f v where F: "pbind (perf_counter P) (\<lambda>now. observe P (ObserveInteractor name
      (reported_label b) (now - st))) u = (f, v)" by fastforce
    from assms Pair Inr B have "pfinally (plift (drop_label b)) (\<lambda>_. pbind (perf_counter P) (\<lambda>now.
        observe P (ObserveInteractor name (reported_label b) (now - st)))) u = (r, t)"
      by (simp add: observed_def pbind_Inr [of "perf_counter P" s st s0])
    with F have "v = t \<and> r = (case f of Inl e \<Rightarrow> Inl e | Inr _ \<Rightarrow> drop_label b)"
      by (cases f) (auto simp: pfinally_def)
    with Pair Inr B F show ?thesis by (intro Ran) auto
  qed
qed

text \<open>The gates, passed.\<close>

definition limiter_passed :: "'s ports \<Rightarrow> move_money_settings \<Rightarrow> movement_request \<Rightarrow> 's \<Rightarrow> 's \<Rightarrow> bool"
  where
  "limiter_passed P mms req s t \<longleftrightarrow>
     (if mms_rate_limit_enabled mms then
        \<exists>d s1. rate_consume P (movement_metric_name (mr_direction req) @ '':''
              @ uuid_str (oid_value (mr_owner_id req)))
            \<lparr>rl_name = movement_metric_name (mr_direction req),
             rl_limit = mms_rate_limit_limit mms,
             rl_window_seconds = mms_rate_limit_window_seconds mms\<rparr> 1 s = (Inr d, s1)
          \<and> rd_allowed d
          \<and> observe P (ObserveRateLimit (movement_metric_name (mr_direction req)) ''allowed'') s1
              = (Inr (), t)
      else t = s)"

definition assessed_as ::
  "'s ports \<Rightarrow> move_money_settings \<Rightarrow> movement_request \<Rightarrow> risk_decision \<Rightarrow> 's \<Rightarrow> 's \<Rightarrow> bool" where
  "assessed_as P mms req d s t \<longleftrightarrow>
     risk_assess P \<lparr>rc_wallet_id = mr_wallet_id req, rc_owner_id = mr_owner_id req,
         rc_amount = mr_amount req, rc_direction = mr_direction req,
         rc_idempotency_key = mr_idempotency_key req\<rparr> s = (Inr d, t)
       \<and> (rk_outcome d = ALLOWED \<or> rk_outcome d = UNAVAILABLE \<and> mms_risk_fail_open mms)"

lemma rate_limit_gate_passed:
  "rate_limit_gate P mms req s = (Inr (), t) \<longleftrightarrow> limiter_passed P mms req s t"
  by (auto simp: rate_limit_gate_def limiter_passed_def Let_def with_label_def pbind_def pthen_def
      split: prod.splits sum.splits if_splits)

lemma risk_gate_passed:
  "risk_gate P mms req s = (Inr d, t) \<longleftrightarrow> assessed_as P mms req d s t"
  by (cases "rk_outcome d")
    (auto simp: risk_gate_def assessed_as_def with_label_def pbind_def risk_available_def
      split: prod.splits sum.splits if_splits)

text \<open>A run of the body: stopped at a gate, or the service's run past both.\<close>

lemma movement_tryE:
  assumes "movement_try P cfg mms req s = (r, t)"
  obtains (Limited) e where "rate_limit_gate P mms req s = (Inl e, t)" "r = Inl e"
    | (Refused) s1 e where "limiter_passed P mms req s s1" "risk_gate P mms req s1 = (Inl e, t)"
        "r = Inl e"
    | (Ran) s1 d s2 q where "limiter_passed P mms req s s1" "assessed_as P mms req d s1 s2"
        "mv_apply P cfg req s2 = (q, t)"
        "r = (case q of Inl e \<Rightarrow> Inl (e, ''error'') | Inr result \<Rightarrow>
           Inr (\<lparr>mvr_entry_id = le_id (mo_entry result), mvr_wallet_id = w_id (mo_wallet result),
                 mvr_balance = mo_balance result, mvr_replayed = mo_replayed result\<rparr>,
             if rk_outcome d = UNAVAILABLE then ''success_unassessed''
             else if mo_replayed result then ''replayed'' else ''success''))"
proof (cases "rate_limit_gate P mms req s")
  case (Pair g s1)
  show ?thesis
  proof (cases g)
    case (Inl e)
    with Pair assms show ?thesis by (intro Limited) (auto simp: movement_try_def pthen_def pbind_def)
  next
    case (Inr x)
    with Pair have lp: "limiter_passed P mms req s s1" by (simp add: rate_limit_gate_passed [symmetric])
    from assms Pair Inr have rest: "pbind (risk_gate P mms req) (\<lambda>decision.
        pbind (with_label ''error'' (mv_apply P cfg req)) (\<lambda>result.
        pret (\<lparr>mvr_entry_id = le_id (mo_entry result), mvr_wallet_id = w_id (mo_wallet result),
               mvr_balance = mo_balance result, mvr_replayed = mo_replayed result\<rparr>,
              if \<not> risk_available decision then ''success_unassessed''
              else if mo_replayed result then ''replayed'' else ''success''))) s1 = (r, t)"
      by (simp add: movement_try_def pthen_def pbind_def)
    then show ?thesis
    proof (cases rule: pbindE)
      case (Raised e)
      with lp show ?thesis by (intro Refused)
    next
      case (Continued d s2)
      then have as: "assessed_as P mms req d s1 s2" by (simp add: risk_gate_passed)
      obtain q u where A: "mv_apply P cfg req s2 = (q, u)" by fastforce
      with Continued(2) lp as show ?thesis
        by (cases q) (auto simp: pbind_def with_label_def risk_available_def intro!: Ran)
    qed
  qed
qed

section \<open>Labels\<close>

lemma code_label: "py_lower (app_code_value c) \<noteq> ''error''"
  by (cases c) (simp_all add: py_lower_def)

lemma gate_labels:
  "rate_limit_gate P mms req s = (Inl (e, l), t) \<Longrightarrow>
     l = ''error'' \<or> l = ''rate_limited'' \<and> is_app_exn e"
  "risk_gate P mms req s = (Inl (e, l), t) \<Longrightarrow>
     l = ''error'' \<or> l \<in> {''risk_refused'', ''risk_unavailable''} \<and> is_app_exn e"
  by (auto simp: rate_limit_gate_def risk_gate_def Let_def elim!: pbindE pthenE with_labelE
      split: if_splits)

lemma movement_body_try:
  "movement_body P cfg mms req s = (b, t) \<Longrightarrow>
     \<exists>b'. movement_try P cfg mms req s = (b', t) \<and> b = map_sum relabel id b'"
  by (auto simp: movement_body_def elim!: pcatchE)

lemma relabel_label:
  "l = ''error'' \<or> l \<noteq> ''error'' \<and> is_app_exn e \<Longrightarrow> relabel (e, l) = (e', l') \<Longrightarrow>
     e' = e \<and> (l' = ''error'' \<longleftrightarrow> \<not> is_app_exn e)"
  using code_label by (cases e) (auto split: if_splits)

section \<open>What a use case does to the books\<close>

lemma drop_relabel [simp]: "drop_label (Inl (relabel (e, l))) = Inl e"
  by (cases e) auto

lemma observed_comm:
  assumes "observed P name body s = (r, t)"
    and "\<And>m. quiet sess comm (observe P m)" "quiet sess comm (perf_counter P)"
  shows "(\<exists>e. r = Inl e) \<and> sess t = sess s \<and> comm t = comm s
    \<or> (\<exists>s0 b u. sess s0 = sess s \<and> comm s0 = comm s \<and> body s0 = (b, u)
         \<and> sess t = sess u \<and> comm t = comm u \<and> ((\<exists>e. r = Inl e) \<or> r = drop_label b))"
  using assms(1)
proof (cases rule: observedE)
  case (Untimed e)
  with quietD [OF assms(3)] show ?thesis by blast
next
  case (Ran st s0 b u f)
  have "quiet sess comm (pbind (perf_counter P) (\<lambda>now. observe P (ObserveInteractor name
      (reported_label b) (now - st))))" using assms(2,3) by (intro quiet_bind)
  from quietD [OF this Ran(3)] quietD [OF assms(3) Ran(1)] Ran(2,4) show ?thesis
    by (cases f) auto
qed

locale gated_backend = movement_backend +
  assumes gates_quiet: "quiet sess comm (rate_consume P k policy cost)"
    "quiet sess comm (risk_assess P check)"
begin

lemma passed_quiet:
  "limiter_passed P mms req s t \<Longrightarrow> sess t = sess s \<and> comm t = comm s"
  "assessed_as P mms req d s t \<Longrightarrow> sess t = sess s \<and> comm t = comm s"
  by (auto simp: limiter_passed_def assessed_as_def
      dest!: quietD [OF gates_quiet(1)] quietD [OF gates_quiet(2)] quietD [OF misc_quiet(4)]
      split: if_splits)

lemma with_label_quiet: "quiet sess comm m \<Longrightarrow> with_label l m s = (r, t) \<Longrightarrow>
    sess t = sess s \<and> comm t = comm s"
  by (auto elim!: with_labelE dest: quietD)

lemma gate_stopped:
  "rate_limit_gate P mms req s = (Inl e, t) \<Longrightarrow> sess t = sess s \<and> comm t = comm s"
  "risk_gate P mms req s = (Inl e, t) \<Longrightarrow> sess t = sess s \<and> comm t = comm s"
  by (auto simp: rate_limit_gate_def risk_gate_def Let_def elim!: pbindE pthenE
      dest!: with_label_quiet [OF gates_quiet(1)] with_label_quiet [OF gates_quiet(2)]
        with_label_quiet [OF misc_quiet(4)] split: if_splits)

text \<open>The whole use case: what its answer says of the books, and the gates it went through when
  it moved them.\<close>

lemma movement_run_books:
  assumes run: "movement_run P cfg mms req s = (r, t)"
    and fresh: "sess s = comm s" and v: "valid_money (mr_amount req)"
  shows "comm t = comm s \<and> (\<forall>res. r = Inr res \<longrightarrow> mvr_replayed res)
    \<or> (\<exists>s0 s1 d s2 q u. limiter_passed P mms req s0 s1 \<and> assessed_as P mms req d s1 s2
         \<and> mv_apply P cfg req s2 = (q, u) \<and> applied req (comm s) q (comm t)
         \<and> (\<forall>res. r = Inr res \<longrightarrow> (\<exists>out. q = Inr out \<and> mvr_entry_id res = le_id (mo_entry out)
              \<and> mvr_wallet_id res = w_id (mo_wallet out) \<and> mvr_balance res = mo_balance out
              \<and> mvr_replayed res = mo_replayed out)))"
proof -
  from observed_comm [OF run [unfolded movement_run_def] misc_quiet(4,3)]
  consider e where "r = Inl e" "comm t = comm s"
    | s0 b u where "sess s0 = sess s" "comm s0 = comm s" "movement_body P cfg mms req s0 = (b, u)"
        "comm t = comm u" "(\<exists>e. r = Inl e) \<or> r = drop_label b" by auto
  then show ?thesis
  proof cases
    case 1
    then show ?thesis by simp
  next
    case 2
    from movement_body_try [OF 2(3)] obtain b' where T: "movement_try P cfg mms req s0 = (b', u)"
        "b = map_sum relabel id b'" by blast
    from T(1) show ?thesis
    proof (cases rule: movement_tryE)
      case (Ran s1 d s2 q)
      have c: "sess s2 = comm s2" "comm s2 = comm s"
        using passed_quiet(1) [OF Ran(1)] passed_quiet(2) [OF Ran(2)] 2 fresh by simp_all
      from apply_run [OF Ran(3) c(1) v] show ?thesis
      proof
        assume "applied req (comm s2) q (comm u)"
        then have ap: "applied req (comm s) q (comm t)" using c 2(4) by simp
        have "\<forall>res. r = Inr res \<longrightarrow> (\<exists>out. q = Inr out \<and> mvr_entry_id res = le_id (mo_entry out)
            \<and> mvr_wallet_id res = w_id (mo_wallet out) \<and> mvr_balance res = mo_balance out
            \<and> mvr_replayed res = mo_replayed out)"
          using 2(5) Ran(4) T(2) by (cases q) auto
        with ap Ran show ?thesis by blast
      next
        assume "\<exists>out. q = Inr out \<and> replays req (comm s2) out \<and> comm u = comm s2"
        with c 2(4,5) Ran T(2) show ?thesis by (intro disjI1) (auto simp: replays_def)
      qed
    qed (use 2 T in \<open>auto dest!: gate_stopped passed_quiet\<close>)
  qed
qed

end

text \<open>The account a new wallet is.\<close>

definition new_account :: "owner_id \<Rightarrow> currency_code \<Rightarrow> datetime \<Rightarrow> account" where
  "new_account ow cur now =
     \<lparr>ac_owner = ow, ac_currency = cur, ac_cents = 0, ac_open = True, ac_version = 0,
      ac_created_at = now, ac_updated_at = now\<rparr>"

text \<open>\<open>b'\<close> is \<open>b\<close> with the new wallet \<open>i\<close> of the command.\<close>

definition opened :: "open_wallet_command \<Rightarrow> wallet_id \<Rightarrow> book \<Rightarrow> book \<Rightarrow> bool" where
  "opened c i b b' \<longleftrightarrow> bk_accounts b i = None
     \<and> (\<exists>now. b' = put_account i (new_account (owc_owner_id c) (owc_currency c) now) b)"

lemma wallet_open_account:
  assumes "wallet_open i ow cur now = Inr w"
  shows "wf_wallet w" "w_id w = i" "account_of w = new_account ow cur now" "wallet_currency w = cur"
  using wallet_open_eq [of i ow cur now] assms
  by (auto simp: account_of_def new_account_def)

locale wallet_backend = movement_backend +
  assumes add_still: "still comm (wallets_add P w)"
    and add_done: "wallets_add P w s = (Inr (), t) \<Longrightarrow> wf_wallet w \<Longrightarrow>
      bk_accounts (sess s) (w_id w) = None
        \<and> sess t = put_account (w_id w) (account_of w) (sess s)"
begin

lemma open_wallet_tryE:
  assumes "open_wallet_try P c s = (r, t)"
  obtains (Stopped) e where "comm t = comm s" "r = Inl e"
    | (Stored) i w now s1 q where "wallet_open (WalletId i) (owc_owner_id c) (owc_currency c) now = Inr w"
        "sess s1 = sess s" "comm s1 = comm s"
        "pthen (wallets_add P w) (tx_commit P) s1 = (q, t)"
        "r = (case q of Inl e \<Rightarrow> Inl e
           | Inr _ \<Rightarrow> Inr (\<lparr>owr_wallet_id = w_id w, owr_currency = wallet_currency w\<rparr>, ''created''))"
proof -
  obtain q1 s1 where U: "new_uuid P s = (q1, s1)" by fastforce
  obtain q2 s2 where N: "clock_now P s1 = (q2, s2)" by fastforce
  note qU = quietD [OF misc_quiet(2) U] and qN = quietD [OF misc_quiet(1) N]
  show ?thesis
  proof (cases "\<exists>i now. q1 = Inr i \<and> q2 = Inr now")
    case False
    with assms U N qU qN show ?thesis
      by (cases q1; cases q2) (auto simp: open_wallet_try_def pbind_def intro: Stopped)
  next
    case True
    then obtain i now where q: "q1 = Inr i" "q2 = Inr now" by blast
    obtain w where O: "wallet_open (WalletId i) (owc_owner_id c) (owc_currency c) now = Inr w"
      using wallet_open_eq by blast
    obtain q3 s3 where A: "pthen (wallets_add P w) (tx_commit P) s2 = (q3, s3)" by fastforce
    show ?thesis
    proof (rule Stored [OF O, of s2 q3])
      show "sess s2 = sess s" "comm s2 = comm s" using qU qN by simp_all
    qed (use assms U N q O A in \<open>auto simp: open_wallet_try_def pbind_def pthen_def
        split: sum.splits prod.splits\<close>)
  qed
qed

lemma open_wallet_try_run:
  assumes run: "open_wallet_try P c s = (r, t)" and fresh: "sess s = comm s"
  shows "case r of
      Inl e \<Rightarrow> comm t = comm s \<or> (\<exists>i. opened c i (comm s) (comm t))
    | Inr (res, l) \<Rightarrow> opened c (owr_wallet_id res) (comm s) (comm t) \<and> owr_currency res = owc_currency c"
  using run
proof (cases rule: open_wallet_tryE)
  case (Stored i w now s1 q)
  note w = wallet_open_account [OF Stored(1)]
  from Stored(4) show ?thesis
  proof (cases rule: pthenE)
    case (Raised e)
    with stillD [OF add_still Raised(1)] Stored show ?thesis by simp
  next
    case (Continued x s2)
    with stillD [OF add_still Continued(1)] add_done [of w s1 s2] w Stored(2,3) fresh
    have op: "opened c (WalletId i) (comm s) (sess s2)" and c2: "comm s2 = comm s"
      by (auto simp: opened_def)
    have "(\<exists>e. q = Inl e \<and> (comm t = comm s \<or> comm t = sess s2)) \<or> q = Inr () \<and> comm t = sess s2"
      using Continued(2) c2 by (cases q) (auto dest: commit_done commit_raised)
    with Stored(5) op w show ?thesis by auto
  qed
qed simp

lemma open_wallet_run:
  assumes run: "open_wallet P c s = (r, t)" and fresh: "sess s = comm s"
  shows "case r of
      Inl e \<Rightarrow> comm t = comm s \<or> (\<exists>i. opened c i (comm s) (comm t))
    | Inr res \<Rightarrow> opened c (owr_wallet_id res) (comm s) (comm t) \<and> owr_currency res = owc_currency c"
proof -
  from observed_comm [OF run [unfolded open_wallet_def] misc_quiet(4,3)]
  consider e where "r = Inl e" "comm t = comm s"
    | s0 q u where "sess s0 = sess s" "comm s0 = comm s"
        "with_label ''error'' (open_wallet_try P c) s0 = (q, u)"
        "comm t = comm u" "(\<exists>e. r = Inl e) \<or> r = drop_label q" by auto
  then show ?thesis
  proof cases
    case 2
    from 2(3) obtain q' where T: "open_wallet_try P c s0 = (q', u)"
      "drop_label q = (case q' of Inl e \<Rightarrow> Inl e | Inr (x, l) \<Rightarrow> Inr x)"
      by (auto elim!: with_labelE)
    from open_wallet_try_run [OF T(1)] 2 T(2) fresh show ?thesis
      by (cases q') (auto split: sum.splits)
  qed simp
qed

end

text \<open>The label a run of the body leaves behind.\<close>

lemma movement_body_labels:
  assumes "movement_body P cfg mms req s = (r, t)"
  shows "case r of
      Inl (e, l) \<Rightarrow> l = ''error'' \<longleftrightarrow> \<not> is_app_exn e
    | Inr (res, l) \<Rightarrow> l \<in> {''success'', ''replayed'', ''success_unassessed''}
        \<and> (l = ''success'' \<longrightarrow> \<not> mvr_replayed res) \<and> (l = ''replayed'' \<longrightarrow> mvr_replayed res)"
proof -
  from movement_body_try [OF assms] obtain r' where T: "movement_try P cfg mms req s = (r', t)"
    "r = map_sum relabel id r'" by blast
  from T(1) show ?thesis
  proof (cases rule: movement_tryE)
    case (Limited e)
    obtain x l where e: "e = (x, l)" by fastforce
    from gate_labels(1) [OF Limited(1) [unfolded e]]
    have "l = ''error'' \<or> l \<noteq> ''error'' \<and> is_app_exn x" by auto
    from relabel_label [OF this] show ?thesis
      using T(2) Limited(2) e by (auto split: prod.splits)
  next
    case (Refused s1 e)
    obtain x l where e: "e = (x, l)" by fastforce
    from gate_labels(2) [OF Refused(2) [unfolded e]]
    have "l = ''error'' \<or> l \<noteq> ''error'' \<and> is_app_exn x" by auto
    from relabel_label [OF this] show ?thesis
      using T(2) Refused(3) e by (auto split: prod.splits)
  next
    case (Ran s1 d s2 q)
    then show ?thesis
      using T(2) relabel_label [of "''error''"] by (cases q) (auto split: prod.splits)
  qed
qed

end
