(* ===== verification/Use_Cases.thy ===== *)
theory Use_Cases
  imports Movement_Idempotence Interactors
begin

text \<open>
  Sequences of use cases on one process. \<open>served\<close> is the step relation of the service: each call
  runs on a fresh session, with time passing in between. Over any such history the books stay
  reconciled, and a movement committed under a key stays the only one of that key until the key's
  lifetime is over, whatever else is served in between.
\<close>

section \<open>The use cases, one call at a time\<close>

datatype service_call = Move movement_request | Open open_wallet_command

fun serve ::
  "'s ports \<Rightarrow> movement_settings \<Rightarrow> move_money_settings \<Rightarrow> service_call \<Rightarrow> 's \<Rightarrow> 's" where
  "serve P cfg mms (Move req) s = snd (movement_run P cfg mms req s)"
| "serve P cfg mms (Open c) s = snd (open_wallet P c s)"

fun valid_call :: "service_call \<Rightarrow> bool" where
  "valid_call (Move req) \<longleftrightarrow> valid_money (mr_amount req)"
| "valid_call (Open c) \<longleftrightarrow> True"

text \<open>The next call finds the books as they were committed and the store as it was left.\<close>

definition new_session :: "('s \<Rightarrow> book) \<Rightarrow> ('s \<Rightarrow> book) \<Rightarrow> ('s \<Rightarrow> string \<Rightarrow> idem_entry option)
    \<Rightarrow> ('s \<Rightarrow> seconds) \<Rightarrow> 's \<Rightarrow> 's \<Rightarrow> bool" where
  "new_session sess comm slots now s t \<longleftrightarrow>
     comm t = comm s \<and> sess t = comm s \<and> slots t = slots s \<and> now s \<le> now t"

inductive served ::
  "'s ports \<Rightarrow> movement_settings \<Rightarrow> move_money_settings \<Rightarrow> ('s \<Rightarrow> book) \<Rightarrow> ('s \<Rightarrow> book)
     \<Rightarrow> ('s \<Rightarrow> string \<Rightarrow> idem_entry option) \<Rightarrow> ('s \<Rightarrow> seconds) \<Rightarrow> 's \<Rightarrow> service_call list \<Rightarrow> 's \<Rightarrow> bool"
  for P cfg mms sess comm slots now where
  served_none: "served P cfg mms sess comm slots now s [] s"
| served_call: "served P cfg mms sess comm slots now s qs t \<Longrightarrow>
    new_session sess comm slots now t t' \<Longrightarrow> valid_call q \<Longrightarrow>
    served P cfg mms sess comm slots now s (qs @ [q]) (serve P cfg mms q t')"

inductive_cases served_snocE: "served P cfg mms sess comm slots now s (qs @ [q]) t"

text \<open>Any stores, locks and gates that stay out of the books keep them reconciled.\<close>

locale bookkeeping = gated_backend P sess comm + wallet_backend P sess comm
  for P :: "'s ports" and sess comm :: "'s \<Rightarrow> book"
begin

text \<open>What one call does to the books.\<close>

lemma movement_run_posts:
  assumes "movement_run P cfg mms req s = (r, t)" "sess s = comm s" "valid_money (mr_amount req)"
  shows "comm t = comm s \<or> (\<exists>u n. post_request req u n (comm s) = Some (comm t))"
proof -
  have posts: "applied req b q b' \<Longrightarrow> b' = b \<or> (\<exists>u n. post_request req u n b = Some b')" for b q b'
    by (cases q) (auto simp: applied_def reports_def)
  note books = movement_run_books [OF assms]
  show ?thesis
  proof (cases "comm t = comm s")
    case False
    from books show ?thesis
    proof (elim disjE exE conjE)
      fix q
      assume "applied req (comm s) q (comm t)"
      then show ?thesis by (rule posts)
    qed (use False in simp)
  qed simp
qed

lemma serve_books:
  assumes "sess s = comm s" "valid_call q" "t = serve P cfg mms q s"
  shows "comm t = comm s
    \<or> (\<exists>req u n. q = Move req \<and> post_request req u n (comm s) = Some (comm t))
    \<or> (\<exists>c i. q = Open c \<and> opened c i (comm s) (comm t))"
proof (cases q)
  case (Move req)
  obtain r v where run: "movement_run P cfg mms req s = (r, v)" by fastforce
  from movement_run_posts [OF run assms(1)] Move assms(2,3) run show ?thesis by auto
next
  case (Open c)
  obtain r v where run: "open_wallet P c s = (r, v)" by fastforce
  from open_wallet_run [OF run assms(1)] Open assms(3) run show ?thesis
    by (auto split: sum.splits)
qed

lemma opened_reconciled: "opened c i b b' \<Longrightarrow> reconciled b \<Longrightarrow> reconciled b'"
  by (auto simp: opened_def new_account_def intro!: reconciled_open)

lemma opened_booked: "opened c i b b' \<Longrightarrow> booked req u b \<Longrightarrow> booked req u b'"
  by (auto simp: opened_def booked_def owned_def split: option.splits if_splits)

lemma served_reconciled:
  assumes "served P cfg mms sess comm slots now s qs t" "reconciled (comm s)"
  shows "reconciled (comm t)"
  using assms
proof (induction rule: served.induct)
  case (served_call s qs t t' q)
  then have "sess t' = comm t'" "reconciled (comm t')" by (auto simp: new_session_def)
  from serve_books [OF this(1) served_call.hyps(3) refl, of cfg mms] this(2) show ?case
    by (auto simp: post_request_def intro: post_reconciled opened_reconciled)
qed

end

locale use_cases = keyed_backend P sess comm slots now + bookkeeping P sess comm
  for P :: "'s ports" and sess comm :: "'s \<Rightarrow> book"
    and slots :: "'s \<Rightarrow> string \<Rightarrow> idem_entry option" and now :: "'s \<Rightarrow> seconds" +
  assumes steady_gates: "steady slots now {} (rate_consume P k policy cost)"
      "steady slots now {} (risk_assess P check)" "steady slots now {} (wallets_add P w)"
begin

text \<open>Two states that differ in nothing the contracts speak of, but for time.\<close>

definition alike :: "'s \<Rightarrow> 's \<Rightarrow> bool" where
  "alike s t \<longleftrightarrow> sess t = sess s \<and> comm t = comm s \<and> slots t = slots s \<and> now s \<le> now t"

lemma alike_trans: "alike s t \<Longrightarrow> alike t u \<Longrightarrow> alike s u"
  by (auto simp: alike_def)

lemma alikeI: "quiet sess comm m \<Longrightarrow> steady slots now {} m \<Longrightarrow> m s = (r, t) \<Longrightarrow> alike s t"
  using quietD [of sess comm m s r t] steadyD [of slots now "{}" m s r t]
  by (auto simp: alike_def)

lemma alike_label:
  "quiet sess comm m \<Longrightarrow> steady slots now {} m \<Longrightarrow> with_label l m s = (r, t) \<Longrightarrow> alike s t"
  by (auto elim!: with_labelE intro: alikeI)

lemma alike_observed:
  assumes "observed P name body s = (r, t)"
  shows "(\<exists>e. r = Inl e) \<and> alike s t
    \<or> (\<exists>s0 b u. alike s s0 \<and> body s0 = (b, u) \<and> alike u t \<and> ((\<exists>e. r = Inl e) \<or> r = drop_label b))"
  using assms
proof (cases rule: observedE)
  case (Untimed e)
  with alikeI [OF misc_quiet(3) steady_ports(11)] show ?thesis by blast
next
  case (Ran st s0 b u f)
  have "alike s s0" by (rule alikeI [OF misc_quiet(3) steady_ports(11) Ran(1)])
  moreover have "quiet sess comm (pbind (perf_counter P) (\<lambda>now. observe P (ObserveInteractor name
      (reported_label b) (now - st))))" by (auto intro!: quiet_bind)
  moreover have "steady slots now {} (pbind (perf_counter P) (\<lambda>now. observe P (ObserveInteractor name
      (reported_label b) (now - st))))" by (auto intro!: steady_intros)
  ultimately have "alike s s0" "alike u t" using alikeI Ran(3) by blast+
  moreover have "(\<exists>e. r = Inl e) \<or> r = drop_label b" using Ran(4) by (cases f) auto
  ultimately show ?thesis using Ran(2) by blast
qed

lemma alike_gates:
  "rate_limit_gate P mms req s = (Inl e, t) \<Longrightarrow> alike s t"
  "limiter_passed P mms req s t \<Longrightarrow> alike s t"
  "risk_gate P mms req s = (Inl e, t) \<Longrightarrow> alike s t"
  "assessed_as P mms req d s t \<Longrightarrow> alike s t"
  by (auto simp: rate_limit_gate_def limiter_passed_def risk_gate_def assessed_as_def Let_def
      elim!: pbindE pthenE split: if_splits
      dest!: alike_label [OF gates_quiet(1) steady_gates(1)]
        alike_label [OF gates_quiet(2) steady_gates(2)]
        alike_label [OF misc_quiet(4) steady_ports(12)]
        alikeI [OF gates_quiet(1) steady_gates(1)] alikeI [OF gates_quiet(2) steady_gates(2)]
        alikeI [OF misc_quiet(4) steady_ports(12)] intro: alike_trans)
    (simp_all add: alike_def)

text \<open>A movement use case: nothing, or one run of the service.\<close>

lemma movement_run_core:
  assumes "movement_run P cfg mms req s = (r, t)"
  obtains (Stopped) "alike s t" "\<nexists>res. r = Inr res"
    | (Applied) s2 q u where "alike s s2" "mv_apply P cfg req s2 = (q, u)" "alike u t"
        "\<And>res. r = Inr res \<Longrightarrow> \<exists>out. q = Inr out \<and> mvr_entry_id res = le_id (mo_entry out)
           \<and> mvr_replayed res = mo_replayed out"
proof -
  from alike_observed [OF assms [unfolded movement_run_def]]
  consider e where "r = Inl e" "alike s t"
    | s0 b u where "alike s s0" "movement_body P cfg mms req s0 = (b, u)" "alike u t"
        "(\<exists>e. r = Inl e) \<or> r = drop_label b" by blast
  then show ?thesis
  proof cases
    case 1
    then show ?thesis by (intro Stopped) auto
  next
    case 2
    from movement_body_try [OF 2(2)] obtain b' where T: "movement_try P cfg mms req s0 = (b', u)"
      "b = map_sum relabel id b'" by blast
    from T(1) show ?thesis
    proof (cases rule: movement_tryE)
      case (Limited e)
      have "alike s t" using 2 alike_gates(1) [OF Limited(1)] by (blast intro: alike_trans)
      with 2(4) T(2) Limited(2) show ?thesis by (cases e) (auto intro: Stopped)
    next
      case (Refused s1 e)
      have "alike s t" using 2 alike_gates(2) [OF Refused(1)] alike_gates(3) [OF Refused(2)]
        by (blast intro: alike_trans)
      with 2(4) T(2) Refused(3) show ?thesis by (cases e) (auto intro: Stopped)
    next
      case (Ran s1 d s2 q)
      show ?thesis
      proof (rule Applied [OF _ Ran(3) 2(3)])
        show "alike s s2"
          using 2(1) alike_gates(2) [OF Ran(1)] alike_gates(4) [OF Ran(2)] by (blast intro: alike_trans)
      qed (use 2(4) T(2) Ran(4) in \<open>cases q; auto\<close>)
    qed
  qed
qed

lemma alikeD:
  "alike s t \<Longrightarrow> sess t = sess s" "alike s t \<Longrightarrow> comm t = comm s" "alike s t \<Longrightarrow> slots t = slots s"
  "alike s t \<Longrightarrow> now s \<le> now t"
  by (auto simp: alike_def)

lemma settled_slots: "slots t = slots s \<Longrightarrow> settled slots req until u t = settled slots req until u s"
  by (simp add: settled_def)

text \<open>What one call does to a key under which a movement was committed.\<close>

lemma open_wallet_alike:
  assumes "open_wallet P c s = (r, t)"
  shows "slots t = slots s \<and> now s \<le> now t"
proof -
  have st: "steady slots now {} (open_wallet_try P c)"
    unfolding open_wallet_try_def using steady_gates by (intro steady_intros) auto
  have "with_label l (open_wallet_try P c) s0 = (b, u) \<Longrightarrow> slots u = slots s0 \<and> now s0 \<le> now u"
    for l s0 b u by (elim with_labelE) (auto dest: steadyD [OF st])
  with alike_observed [OF assms [unfolded open_wallet_def]] show ?thesis
    by (fastforce dest: alikeD(3,4) intro: order_trans)
qed

lemma serve_clock: "now s \<le> now (serve P cfg mms q s)"
proof (cases q)
  case (Move req)
  obtain r t where run: "movement_run P cfg mms req s = (r, t)" by fastforce
  then have "now s \<le> now t"
    by (cases rule: movement_run_core) (auto dest!: alikeD(4) steadyD [OF apply_steady])
  with run Move show ?thesis by simp
next
  case (Open c)
  with open_wallet_alike [of c s] show ?thesis by (metis prod.collapse serve.simps(2))
qed

text \<open>The books and the slot of a movement that was committed under its key.\<close>

definition done_once :: "movement_request \<Rightarrow> seconds \<Rightarrow> ledger_entry_id \<Rightarrow> 's \<Rightarrow> bool" where
  "done_once req until u s \<longleftrightarrow> settled slots req until u s \<and> booked req u (comm s)"

lemma done_once_alike: "alike s t \<Longrightarrow> done_once req until u t = done_once req until u s"
  by (simp add: done_once_def alike_def settled_def)

lemma move_done_once:
  assumes run: "movement_run P cfg mms q s = (r, t)" and fresh: "sess s = comm s"
    and v: "valid_money (mr_amount q)" and st: "done_once req until u s"
    and ids: "fingerprint q = fingerprint req \<Longrightarrow> scoped_key q = scoped_key req \<Longrightarrow>
      mr_wallet_id q = mr_wallet_id req \<and> mr_owner_id q = mr_owner_id req"
    and ttl: "0 < ms_idempotency_ttl_seconds cfg" "now t < until"
  shows "done_once req until u t"
    "mr_idempotency_key q = Some k \<Longrightarrow> scoped_key q = scoped_key req \<Longrightarrow> comm t = comm s
       \<and> (\<forall>res. r = Inr res \<longrightarrow> fingerprint q = fingerprint req \<and> mvr_replayed res
            \<and> mvr_entry_id res = u)"
  using run
proof (atomize (full), cases rule: movement_run_core)
  case Stopped
  then show "done_once req until u t \<and> (mr_idempotency_key q = Some k \<longrightarrow>
      scoped_key q = scoped_key req \<longrightarrow> comm t = comm s \<and> (\<forall>res. r = Inr res \<longrightarrow>
        fingerprint q = fingerprint req \<and> mvr_replayed res \<and> mvr_entry_id res = u))"
    using st by (auto simp: done_once_alike alikeD)
next
  case (Applied s2 p w)
  note a = alikeD [OF Applied(1)] alikeD [OF Applied(3)]
  have f2: "sess s2 = comm s2" and n: "now w < until" using a fresh ttl(2) by simp_all
  have "done_once req until u s2" using st done_once_alike [OF Applied(1)] by blast
  then have st2: "settled slots req until u s2" "booked req u (comm s2)"
    by (simp_all add: done_once_def)
  show "done_once req until u t \<and> (mr_idempotency_key q = Some k \<longrightarrow>
      scoped_key q = scoped_key req \<longrightarrow> comm t = comm s \<and> (\<forall>res. r = Inr res \<longrightarrow>
        fingerprint q = fingerprint req \<and> mvr_replayed res \<and> mvr_entry_id res = u))"
  proof (cases "scoped_key req \<in> own_keys q")
    case True
    then have same: "scoped_key q = scoped_key req" "mr_idempotency_key q \<noteq> None"
      by (auto simp: own_keys_def split: if_splits)
    then obtain k' where k': "mr_idempotency_key q = Some k'" by blast
    note rt = retry [OF Applied(2) f2 same(1) k' st2 _ ttl(1) n]
    from rt ids same a have "done_once req until u t" "comm t = comm s"
        "\<forall>out. p = Inr out \<longrightarrow> fingerprint q = fingerprint req \<and> mo_replayed out
           \<and> le_id (mo_entry out) = u"
      using st2 settled_slots [of t w req until u] by (auto simp: done_once_def)
    then show ?thesis using Applied(4) by fastforce
  next
    case False
    from other_request [OF Applied(2) f2 v this st2] a settled_slots [of t w req until u]
    have "done_once req until u t" by (simp add: done_once_def)
    with False show ?thesis by (auto simp: own_keys_def)
  qed
qed

lemma move_first:
  assumes run: "movement_run P cfg mms req s = (r, t)" and fresh: "sess s = comm s"
    and v: "valid_money (mr_amount req)" and key: "mr_idempotency_key req = Some k"
    and free: "unrecorded slots req s" and ttl: "0 < ms_idempotency_ttl_seconds cfg"
    and soon: "now t < now s + of_int (ms_idempotency_ttl_seconds cfg)" and moved: "comm t \<noteq> comm s"
  shows "\<exists>u. done_once req (now s + of_int (ms_idempotency_ttl_seconds cfg)) u t"
  using run
proof (cases rule: movement_run_core)
  case Stopped
  with moved show ?thesis by (simp add: alikeD)
next
  case (Applied s2 q w)
  note a = alikeD [OF Applied(1)] alikeD [OF Applied(3)]
  have pre: "sess s2 = comm s2" "unrecorded slots req s2"
      "now w < now s2 + of_int (ms_idempotency_ttl_seconds cfg)" "comm w \<noteq> comm s2"
    using a fresh free soon moved by (auto simp: unrecorded_def)
  from apply_settles [OF Applied(2) pre(1) v key pre(2) ttl pre(3,4)]
  obtain u where "settled slots req (now s2 + of_int (ms_idempotency_ttl_seconds cfg)) u w"
    "booked req u (comm w)" by blast
  with a settled_slots [of t w] show ?thesis
    by (intro exI [of _ u]) (fastforce simp: done_once_def settled_def intro: order_trans)
qed

lemma serve_done_once:
  assumes fresh: "sess s = comm s" and q: "valid_call q" and st: "done_once req until u s"
    and ids: "\<And>m. q = Move m \<Longrightarrow> fingerprint m = fingerprint req \<Longrightarrow>
      scoped_key m = scoped_key req \<Longrightarrow> mr_wallet_id m = mr_wallet_id req \<and> mr_owner_id m = mr_owner_id req"
    and ttl: "0 < ms_idempotency_ttl_seconds cfg" "now (serve P cfg mms q s) < until"
  shows "done_once req until u (serve P cfg mms q s)"
proof (cases q)
  case (Move m)
  obtain r t where run: "movement_run P cfg mms m s = (r, t)" by fastforce
  from move_done_once(1) [OF run fresh _ st _ ttl(1)] ids [OF Move] q ttl(2) Move run
  show ?thesis by simp
next
  case (Open c)
  obtain r t where run: "open_wallet P c s = (r, t)" by fastforce
  from open_wallet_run [OF run fresh] have "comm t = comm s \<or> (\<exists>i. opened c i (comm s) (comm t))"
    by (auto split: sum.splits)
  with open_wallet_alike [OF run] st settled_slots [of t s] run Open show ?thesis
    by (auto simp: done_once_def intro: opened_booked)
qed

lemma served_clock: "served P cfg mms sess comm slots now s qs t \<Longrightarrow> now s \<le> now t"
proof (induction rule: served.induct)
  case (served_call s qs t t' q)
  then have "now s \<le> now t" "now t \<le> now t'" by (simp_all add: new_session_def)
  with serve_clock [of t' cfg mms q] show ?case by (meson order_trans)
qed simp

lemma served_done_once:
  assumes "served P cfg mms sess comm slots now s qs t" "done_once req until u s"
    and "\<And>m. Move m \<in> set qs \<Longrightarrow> fingerprint m = fingerprint req \<Longrightarrow>
      scoped_key m = scoped_key req \<Longrightarrow> mr_wallet_id m = mr_wallet_id req \<and> mr_owner_id m = mr_owner_id req"
    and "0 < ms_idempotency_ttl_seconds cfg" "now t < until"
  shows "done_once req until u t"
  using assms
proof (induction rule: served.induct)
  case (served_call s qs t t' q)
  have n: "now t' \<le> now (serve P cfg mms q t')" by (rule serve_clock)
  have al: "slots t' = slots t" "comm t' = comm t" "sess t' = comm t'" "now t \<le> now t'"
    using served_call.hyps(2) by (auto simp: new_session_def)
  have "done_once req until u t"
    using served_call.prems n al by (intro served_call.IH) auto
  then have d: "done_once req until u t'"
    using al settled_slots [of t' t] by (simp add: done_once_def)
  show ?case
  proof (rule serve_done_once [OF al(3) served_call.hyps(3) d _ served_call.prems(3,4)])
    fix m
    assume "q = Move m" "fingerprint m = fingerprint req" "scoped_key m = scoped_key req"
    then show "mr_wallet_id m = mr_wallet_id req \<and> mr_owner_id m = mr_owner_id req"
      by (intro served_call.prems(2)) simp_all
  qed
qed

text \<open>Once per key: after a movement that moved the books, no call with its key moves them.\<close>

lemma once_per_key:
  assumes first: "movement_run P cfg mms req s = (r, s1)" "sess s = comm s"
      "valid_money (mr_amount req)" "mr_idempotency_key req = Some k" "unrecorded slots req s"
      "comm s1 \<noteq> comm s"
    and between: "served P cfg mms sess comm slots now s1 qs s2" "new_session sess comm slots now s2 s3"
    and again: "movement_run P cfg mms q s3 = (r', t)" "valid_money (mr_amount q)"
      "mr_idempotency_key q = Some k" "mr_owner_id q = mr_owner_id req"
    and ttl: "0 < ms_idempotency_ttl_seconds cfg"
      "now t < now s + of_int (ms_idempotency_ttl_seconds cfg)"
    and hash: "\<And>m. m = q \<or> Move m \<in> set qs \<Longrightarrow> fingerprint m = fingerprint req \<Longrightarrow>
      mr_wallet_id m = mr_wallet_id req \<and> mr_owner_id m = mr_owner_id req"
  shows "comm t = comm s3 \<and> (\<forall>res. r' = Inr res \<longrightarrow> fingerprint q = fingerprint req
    \<and> mvr_replayed res \<and> (\<exists>p \<in> set (bk_postings (comm t)). po_id p = mvr_entry_id res
        \<and> po_wallet p = mr_wallet_id req))"
proof -
  define until where "until = now s + of_int (ms_idempotency_ttl_seconds cfg)"
  have s3: "slots s3 = slots s2" "comm s3 = comm s2" "sess s3 = comm s3" "now s2 \<le> now s3"
    using between(2) by (auto simp: new_session_def)
  have n: "now s1 \<le> now s2" by (rule served_clock [OF between(1)])
  have "now s3 \<le> now t" using serve_clock [of s3 cfg mms "Move q"] unfolding serve.simps again(1) snd_conv .
  with n s3(4) ttl(2) have "now s1 < until" "now s2 < until" unfolding until_def by linarith+
  from move_first [OF first(1-5) ttl(1) this(1) [unfolded until_def] first(6)]
  obtain u where "done_once req until u s1" by (auto simp: until_def)
  from served_done_once [OF between(1) this _ ttl(1) \<open>now s2 < until\<close>] hash
  have "done_once req until u s2" by blast
  then have st: "done_once req until u s3"
    using s3 settled_slots [of s3 s2] by (simp add: done_once_def)
  have same: "scoped_key q = scoped_key req"
    using again(3,4) first(4) by (simp add: scoped_key_def)
  note hq = hash [OF disjI1 [OF refl]] and n4 = ttl(2) [folded until_def]
  note once = move_done_once [OF again(1) s3(3) again(2) st hq ttl(1) n4, simplified]
  from once(1) have "booked req u (comm t)" by (simp add: done_once_def)
  then obtain p where "p \<in> set (bk_postings (comm t))" "po_id p = u" "po_wallet p = mr_wallet_id req"
    unfolding booked_def by blast
  with once(2) [OF again(3) same] show ?thesis by metis
qed

end

end
