(* ===== verification/Cursor.thy ===== *)
theory Cursor
  imports Ids
begin

text \<open>
  \<open>infrastructure/adapters/sqla/cursor.py\<close>: the opaque cursor is the URL-safe Base64 of an id's
  sixteen bytes. Encoding and decoding follow the standard library, whose decoder is lenient: it
  skips characters outside the alphabet and stops at the padding. The lemmas: a cursor decodes to
  the id it was made of, and a text that is no cursor is a validation error and nothing else.
\<close>

section \<open>Base64\<close>

text \<open>The alphabet: upper case, lower case, digits, \<open>-\<close> and \<open>_\<close>.\<close>

definition b64_char :: "nat \<Rightarrow> char" where
  "b64_char n =
     (if n < 26 then char_of (65 + n)
      else if n < 52 then char_of (71 + n)
      else if n < 62 then char_of (48 + (n - 52))
      else if n = 62 then CHR ''-'' else CHR ''_'')"

text \<open>After the translation of \<open>-_\<close> to \<open>+/\<close>, both spellings of the last two digits are read.\<close>

definition b64_value :: "char \<Rightarrow> nat option" where
  "b64_value c =
     (if is_upper c then Some (code c - 65)
      else if is_lower c then Some (code c - 71)
      else if is_digit c then Some (code c + 4)
      else if c = CHR ''-'' \<or> c = CHR ''+'' then Some 62
      else if c = CHR ''_'' \<or> c = CHR 0x2F then Some 63
      else None)"

fun b64_encode :: "nat list \<Rightarrow> string" where
  "b64_encode [] = []"
| "b64_encode [a] = [b64_char (a div 4), b64_char (a mod 4 * 16), CHR ''='', CHR ''='']"
| "b64_encode [a, b] =
     [b64_char (a div 4), b64_char (a mod 4 * 16 + b div 16), b64_char (b mod 16 * 4), CHR ''='']"
| "b64_encode (a # b # c # bs) =
     [b64_char (a div 4), b64_char (a mod 4 * 16 + b div 16), b64_char (b mod 16 * 4 + c div 64),
      b64_char (c mod 64)] @ b64_encode bs"

text \<open>
  \<open>binascii.a2b_base64\<close>: \<open>quad\<close> digits of a group of four are in, \<open>left\<close> are the bits not yet
  written, \<open>pads\<close> the padding characters in a row.
\<close>

fun b64_scan :: "nat \<Rightarrow> nat \<Rightarrow> nat \<Rightarrow> string \<Rightarrow> exn + nat list" where
  "b64_scan quad left pads [] =
     (if quad = 0 then Inr [] else Inl (PyExn ''binascii.Error''))"
| "b64_scan quad left pads (c # cs) =
     (if c = CHR ''='' then
        (if 2 \<le> quad \<and> 4 \<le> quad + pads + 1 then Inr []
         else b64_scan quad left (if 2 \<le> quad then pads + 1 else pads) cs)
      else case b64_value c of
        None \<Rightarrow> b64_scan quad left pads cs
      | Some v \<Rightarrow>
          (if quad = 0 then b64_scan 1 v 0 cs
           else
             let rest =
               (if quad = 1 then b64_scan 2 (v mod 16) 0 cs
                else if quad = 2 then b64_scan 3 (v mod 4) 0 cs
                else b64_scan 0 0 0 cs);
                 byte =
               (if quad = 1 then left * 4 + v div 16
                else if quad = 2 then left * 16 + v div 4
                else left * 64 + v)
             in case rest of Inl e \<Rightarrow> Inl e | Inr bs \<Rightarrow> Inr (byte # bs)))"

definition b64_decode :: "string \<Rightarrow> exn + nat list" where
  "b64_decode s = b64_scan 0 0 0 s"

section \<open>Cursors\<close>

text \<open>\<open>uuid.bytes\<close> and \<open>UUID(bytes=...)\<close>.\<close>

fun be_bytes :: "nat \<Rightarrow> nat \<Rightarrow> nat list" where
  "be_bytes 0 n = []"
| "be_bytes (Suc k) n = be_bytes k (n div 256) @ [n mod 256]"

definition bytes_be :: "nat list \<Rightarrow> nat" where
  "bytes_be bs = foldl (\<lambda>n b. n * 256 + b) 0 bs"

definition uuid_bytes :: "uuid \<Rightarrow> nat list" where
  "uuid_bytes u = be_bytes 16 (unat u)"

definition uuid_of_bytes :: "nat list \<Rightarrow> exn + uuid" where
  "uuid_of_bytes bs =
     (if length bs \<noteq> 16 then Inl value_error else Inr (word_of_nat (bytes_be bs)))"

definition encode_cursor :: "uuid \<Rightarrow> string" where
  "encode_cursor last_id = b64_encode (uuid_bytes last_id)"

definition decode_cursor :: "string option \<Rightarrow> exn + uuid option" where
  "decode_cursor cursor =
     (case cursor of
        None \<Rightarrow> Inr None
      | Some text \<Rightarrow>
          (case (case b64_decode text of Inl e \<Rightarrow> Inl e | Inr bs \<Rightarrow> uuid_of_bytes bs) of
             Inl _ \<Rightarrow> Inl (app_exn ValidationError VALIDATION_FAILED
                 (Some [(''cursor'', VStr ''malformed cursor'')]))
           | Inr u \<Rightarrow> Inr (Some u)))"

section \<open>Round trip\<close>

lemma b64_value_char [simp]: "n < 64 \<Longrightarrow> b64_value (b64_char n) = Some n"
proof -
  assume "n < 64"
  then consider "n < 26" | "26 \<le> n" "n < 52" | k where "n = 52 + k" "k < 10" | "n = 62" | "n = 63"
    using le_Suc_ex [of 52 n] by fastforce
  then show ?thesis
    by cases (simp_all add: b64_char_def b64_value_def is_upper_def is_lower_def is_digit_def code_def)
qed

lemma b64_char_not_pad [simp]: "n < 64 \<Longrightarrow> b64_char n \<noteq> CHR ''=''"
proof
  assume "n < 64" "b64_char n = CHR ''=''"
  with b64_value_char [of n] have "b64_value (CHR ''='') = Some n" by simp
  then show False by (simp add: b64_value_def is_upper_def is_lower_def is_digit_def code_def)
qed

text \<open>Scanning what was encoded, digit by digit and group by group.\<close>

lemma b64_scan_digit [simp]:
  assumes "v < 64"
  shows "b64_scan 0 l p (b64_char v # cs) = b64_scan 1 v 0 cs"
    "b64_scan (Suc 0) l p (b64_char v # cs) =
       (case b64_scan 2 (v mod 16) 0 cs of Inl e \<Rightarrow> Inl e | Inr bs \<Rightarrow> Inr ((l * 4 + v div 16) # bs))"
    "b64_scan 2 l p (b64_char v # cs) =
       (case b64_scan 3 (v mod 4) 0 cs of Inl e \<Rightarrow> Inl e | Inr bs \<Rightarrow> Inr ((l * 16 + v div 4) # bs))"
    "b64_scan 3 l p (b64_char v # cs) =
       (case b64_scan 0 0 0 cs of Inl e \<Rightarrow> Inl e | Inr bs \<Rightarrow> Inr ((l * 64 + v) # bs))"
  using assms by (simp_all add: Let_def)

lemma b64_scan_pad:
  "b64_scan 2 l 0 (CHR ''='' # CHR ''='' # cs) = Inr []" "b64_scan 3 l 0 (CHR ''='' # cs) = Inr []"
  by simp_all

lemma b64_scan_encode:
  "\<forall>b \<in> set bs. b < 256 \<Longrightarrow> b64_scan 0 0 0 (b64_encode bs) = Inr bs"
proof (induction bs rule: b64_encode.induct)
  case (2 a)
  then have "a div 4 < 64" "a mod 4 * 16 < 64" "a mod 4 * 16 div 16 = a mod 4" by auto
  then show ?case by (simp add: b64_scan_pad del: b64_scan.simps)
next
  case (3 a b)
  then have "a div 4 < 64" "a mod 4 * 16 + b div 16 < 64" "b mod 16 * 4 < 64"
      "(a mod 4 * 16 + b div 16) div 16 = a mod 4" "(a mod 4 * 16 + b div 16) mod 16 = b div 16"
    by auto
  then show ?case by (simp add: b64_scan_pad del: b64_scan.simps)
next
  case (4 a b c bs)
  then have "a div 4 < 64" "a mod 4 * 16 + b div 16 < 64" "b mod 16 * 4 + c div 64 < 64"
      "(a mod 4 * 16 + b div 16) div 16 = a mod 4" "(a mod 4 * 16 + b div 16) mod 16 = b div 16"
      "(b mod 16 * 4 + c div 64) div 4 = b mod 16" "(b mod 16 * 4 + c div 64) mod 4 = c div 64"
    by auto
  with 4 show ?case by (simp del: b64_scan.simps)
qed simp

lemma be_bytes_less: "b \<in> set (be_bytes k n) \<Longrightarrow> b < 256"
  by (induction k arbitrary: n) auto

lemma length_be_bytes [simp]: "length (be_bytes k n) = k"
  by (induction k arbitrary: n) auto

lemma bytes_be_bytes: "bytes_be (be_bytes k n) = n mod 256 ^ k"
proof (induction k arbitrary: n)
  case 0
  then show ?case by (simp add: bytes_be_def)
next
  case (Suc k)
  then have "bytes_be (be_bytes (Suc k) n) = (n div 256) mod 256 ^ k * 256 + n mod 256"
    by (simp add: bytes_be_def)
  also have "\<dots> = n mod 256 ^ Suc k" by (simp add: mod_mult2_eq mult.commute)
  finally show ?case .
qed

lemma uuid_of_uuid_bytes [simp]: "uuid_of_bytes (uuid_bytes u) = Inr u"
proof -
  have "unat u < 256 ^ 16" using unsigned_less [of u, where 'a = nat] by simp
  then show ?thesis by (simp add: uuid_of_bytes_def uuid_bytes_def bytes_be_bytes)
qed

lemma decode_encode_cursor [simp]: "decode_cursor (Some (encode_cursor u)) = Inr (Some u)"
proof -
  have "b64_decode (b64_encode (uuid_bytes u)) = Inr (uuid_bytes u)"
    unfolding b64_decode_def uuid_bytes_def by (rule b64_scan_encode) (auto dest: be_bytes_less)
  then show ?thesis by (simp add: decode_cursor_def encode_cursor_def)
qed

lemma encode_cursor_inject: "encode_cursor u = encode_cursor v \<longleftrightarrow> u = v"
  using decode_encode_cursor [of u] decode_encode_cursor [of v] by (metis option.inject sum.inject(2))

lemma decode_cursor_error:
  "decode_cursor c = Inl e \<Longrightarrow> e = app_exn ValidationError VALIDATION_FAILED
     (Some [(''cursor'', VStr ''malformed cursor'')])"
  by (auto simp: decode_cursor_def split: option.splits sum.splits)

text \<open>Sixteen bytes and an id are the same thing, so what is accepted is what decodes to the bytes of the id.\<close>

lemma be_bytes_of:
  "\<forall>b \<in> set bs. b < 256 \<Longrightarrow> be_bytes (length bs) (bytes_be bs) = bs \<and> bytes_be bs < 256 ^ length bs"
proof (induction bs rule: rev_induct)
  case (snoc b bs)
  then have "bytes_be (bs @ [b]) = bytes_be bs * 256 + b" "b < 256" by (simp_all add: bytes_be_def)
  with snoc show ?case by simp
qed (simp add: bytes_be_def)

lemma digit_less: "b64_value c = Some v \<Longrightarrow> v < 64"
  by (auto simp: b64_value_def is_upper_def is_lower_def is_digit_def split: if_splits)

text \<open>What the scanner keeps of a group of four: fewer bits than its digits have.\<close>

definition left_ok :: "nat \<Rightarrow> nat \<Rightarrow> bool" where
  "left_ok quad left \<longleftrightarrow> quad < 4 \<and> (quad = 0 \<or> left < (if quad = 1 then 64 else if quad = 2 then 16 else 4))"

definition b64_digits :: "string \<Rightarrow> nat" where
  "b64_digits s = length (filter (\<lambda>c. b64_value c \<noteq> None) s)"

lemma byte_scan_Inr:
  "(case r of Inl e \<Rightarrow> Inl e | Inr bs \<Rightarrow> Inr (b # bs)) = Inr cs \<longleftrightarrow> (\<exists>bs. r = Inr bs \<and> cs = b # bs)"
  by (cases r) auto

lemma scan_padded:
  assumes "b64_scan quad left pads (c # cs) = Inr bs" "c = CHR ''=''"
  shows "bs = [] \<or> (\<exists>p. b64_scan quad left p cs = Inr bs)"
proof (cases "2 \<le> quad \<and> 4 \<le> quad + pads + 1")
  case False
  with assms have "b64_scan quad left (if 2 \<le> quad then pads + 1 else pads) cs = Inr bs"
    by (simp only: b64_scan.simps(2) if_True if_False simp_thms)
  then show ?thesis by blast
qed (use assms in simp)

lemma scan_bytes:
  assumes "b64_scan quad left pads s = Inr bs" "left_ok quad left"
  shows "(\<forall>b \<in> set bs. b < 256) \<and> 4 * length bs \<le> (if quad = 0 then 0 else 4 - quad) + 3 * b64_digits s"
  using assms
proof (induction s arbitrary: quad left pads bs)
  case (Cons c cs)
  show ?case
  proof (cases "c = CHR ''=''")
    case True
    then have "b64_digits (c # cs) = b64_digits cs"
      by (simp add: b64_digits_def b64_value_def is_upper_def is_lower_def is_digit_def code_def)
    moreover from Cons.prems(1) True have "bs = [] \<or> (\<exists>p. b64_scan quad left p cs = Inr bs)"
      by (rule scan_padded)
    ultimately show ?thesis using Cons.IH [OF _ Cons.prems(2)] by fastforce
  next
    case pad: False
    show ?thesis
    proof (cases "b64_value c")
      case None
      then have "b64_digits (c # cs) = b64_digits cs" by (simp add: b64_digits_def)
      with Cons None pad show ?thesis by simp
    next
      case (Some v)
      have d: "b64_digits (c # cs) = Suc (b64_digits cs)" using Some by (simp add: b64_digits_def)
      have v: "v < 64" by (rule digit_less [OF Some])
      consider "quad = 0" | "quad = 1" | "quad = 2" | "quad = 3" using Cons.prems(2) by (fastforce simp: left_ok_def)
      then show ?thesis
      proof cases
        case 1
        with Cons.prems Some pad have "b64_scan 1 v 0 cs = Inr bs" by simp
        from Cons.IH [OF this] v d 1 show ?thesis by (simp add: left_ok_def)
      next
        case 2
        with Cons.prems Some pad obtain bs' where b: "b64_scan 2 (v mod 16) 0 cs = Inr bs'" "bs = (left * 4 + v div 16) # bs'"
          by (auto simp: byte_scan_Inr)
        from Cons.IH [OF b(1)] b(2) v d 2 Cons.prems(2) show ?thesis by (simp add: left_ok_def)
      next
        case 3
        with Cons.prems Some pad obtain bs' where b: "b64_scan 3 (v mod 4) 0 cs = Inr bs'" "bs = (left * 16 + v div 4) # bs'"
          by (auto simp: byte_scan_Inr)
        from Cons.IH [OF b(1)] b(2) v d 3 Cons.prems(2) show ?thesis by (simp add: left_ok_def)
      next
        case 4
        with Cons.prems Some pad obtain bs' where b: "b64_scan 0 0 0 cs = Inr bs'" "bs = (left * 64 + v) # bs'"
          by (auto simp: byte_scan_Inr)
        from Cons.IH [OF b(1)] b(2) v d 4 Cons.prems(2) show ?thesis by (simp add: left_ok_def)
      qed
    qed
  qed
qed (auto split: if_splits)

lemma decode_cursor_accepts: "decode_cursor (Some t) = Inr (Some u) \<longleftrightarrow> b64_decode t = Inr (uuid_bytes u)"
proof
  assume "decode_cursor (Some t) = Inr (Some u)"
  then obtain bs where bs: "b64_decode t = Inr bs" "length bs = 16" "u = word_of_nat (bytes_be bs)"
    by (auto simp: decode_cursor_def uuid_of_bytes_def split: sum.splits if_splits)
  then have "\<forall>b \<in> set bs. b < 256" using scan_bytes [of 0 0 0 t bs] by (simp add: b64_decode_def left_ok_def)
  with be_bytes_of [of bs] bs have "be_bytes 16 (bytes_be bs) = bs" "bytes_be bs < 2 ^ 128" by simp_all
  with bs show "b64_decode t = Inr (uuid_bytes u)" by (simp add: uuid_bytes_def unat_of_nat take_bit_nat_eq_self unsigned_of_nat)
qed (simp add: decode_cursor_def)

section \<open>Properties\<close>

text \<open>C35: a cursor decodes to the id it was made from, and no two ids share a cursor. A text is accepted exactly
  when its Base64 is the sixteen bytes of an id, which is then the answer; every other text is the
  validation error and nothing else. In particular a text of fewer than 22 digits of the alphabet is refused.\<close>

theorem cursor_round_trip:
  "decode_cursor (Some (encode_cursor u)) = Inr (Some u)
    \<and> (encode_cursor u = encode_cursor v \<longleftrightarrow> u = v)
    \<and> decode_cursor None = Inr None
    \<and> (decode_cursor (Some t) = Inr (Some w) \<longleftrightarrow> b64_decode t = Inr (uuid_bytes w))
    \<and> ((\<nexists>x. b64_decode t = Inr (uuid_bytes x)) \<or> b64_digits t < 22
       \<longrightarrow> decode_cursor (Some t) = Inl (app_exn ValidationError VALIDATION_FAILED
             (Some [(''cursor'', VStr ''malformed cursor'')])))"
proof (intro conjI impI)
  let ?refused = "decode_cursor (Some t) = Inl (app_exn ValidationError VALIDATION_FAILED
             (Some [(''cursor'', VStr ''malformed cursor'')]))"
  have refused: ?refused if "\<nexists>x. b64_decode t = Inr (uuid_bytes x)"
  proof (cases "decode_cursor (Some t)")
    case (Inl e)
    with decode_cursor_error show ?thesis by simp
  next
    case (Inr y)
    then obtain x where "decode_cursor (Some t) = Inr (Some x)"
      by (cases y) (auto simp: decode_cursor_def split: sum.splits)
    with that decode_cursor_accepts show ?thesis by blast
  qed
  assume "(\<nexists>x. b64_decode t = Inr (uuid_bytes x)) \<or> b64_digits t < 22"
  moreover have "22 \<le> b64_digits t" if "b64_decode t = Inr (uuid_bytes x)" for x
    using scan_bytes [of 0 0 0 t "uuid_bytes x"] that by (simp add: b64_decode_def left_ok_def uuid_bytes_def)
  ultimately show ?refused using refused by fastforce
qed (simp_all add: encode_cursor_inject decode_cursor_accepts decode_cursor_def [of None])

text \<open>The padding alone, and an id's cursor cut short.\<close>

theorem cursor_round_trip_witness:
  "decode_cursor (Some ''===='') = Inl (app_exn ValidationError VALIDATION_FAILED
     (Some [(''cursor'', VStr ''malformed cursor'')]))
   \<and> decode_cursor (Some ''AAAAAAAAAAAAAAAAAAAAA'') = Inl (app_exn ValidationError VALIDATION_FAILED
     (Some [(''cursor'', VStr ''malformed cursor'')]))"
proof -
  have "b64_digits ''===='' < 22" "b64_digits ''AAAAAAAAAAAAAAAAAAAAA'' < 22" by code_simp+
  with cursor_round_trip [of 0 0 "''====''" 0] cursor_round_trip [of 0 0 "''AAAAAAAAAAAAAAAAAAAAA''" 0]
  show ?thesis by simp
qed

end
