(* ===== verification/Tables.thy ===== *)
theory Tables
  imports Book Cursor "HOL-Library.DAList"
begin

text \<open>
  The two tables of \<open>infrastructure/sqla/tables.py\<close>, the statements the repositories issue, and
  what a PostgreSQL server documents for them. \<open>eval_stmt\<close> is that documented behaviour on one
  session's view of the tables: primary keys, the foreign key, the check constraints, the widths
  of the columns, the rounding of \<open>NUMERIC(20, 2)\<close>. The server itself is not modelled: \<open>engine\<close>
  holds its three operations, and the locale \<open>sql_engine\<close> says that what returns did what the
  statement means; any operation may raise at any time.
\<close>

section \<open>Rows\<close>

text \<open>The columns beside the primary key, which is the key of the table's association list.\<close>

record wallet_row =
  wr_owner_id :: uuid
  wr_balance_amount :: decimal
  wr_currency :: string
  wr_status :: string
  wr_version :: int
  wr_created_at :: datetime
  wr_updated_at :: datetime

record entry_row =
  er_wallet_id :: uuid
  er_direction :: string
  er_amount :: decimal
  er_currency :: string
  er_balance_after :: decimal
  er_description :: string
  er_occurred_at :: datetime

record tables =
  tb_wallets :: "(uuid, wallet_row) alist"
  tb_entries :: "(uuid, entry_row) alist"

definition empty_tables :: tables where
  "empty_tables = \<lparr>tb_wallets = DAList.empty, tb_entries = DAList.empty\<rparr>"

section \<open>Statements\<close>

datatype wallet_cond = WalletIdIs uuid | OwnerIdIs uuid | VersionIs int | WalletIdBelow uuid

text \<open>The conditions on \<open>ledger_entries\<close>; \<open>EntryOwnerIs\<close> is the one on the joined \<open>wallets\<close> row.\<close>

datatype entry_cond = EntryIdIs uuid | EntryWalletIs uuid | EntryOwnerIs uuid | EntryIdBelow uuid

text \<open>A limit comes with \<open>ORDER BY id DESC\<close>, as in the source.\<close>

datatype statement =
    SelectWallets "wallet_cond list" "int option" bool
  | InsertWallet uuid wallet_row
  | UpdateWallets "wallet_cond list" wallet_row
  | SelectEntries "entry_cond list" "int option"
  | InsertEntry uuid entry_row

datatype sql_result =
    WalletRows "(uuid \<times> wallet_row) list"
  | EntryRows "(uuid \<times> entry_row) list"
  | RowCount int

section \<open>Their documented meaning\<close>

definition integrity_error :: exn where "integrity_error = PyExn ''IntegrityError''"
definition db_api_error :: exn where "db_api_error = PyExn ''DBAPIError''"

text \<open>A value entering a \<open>NUMERIC(20, 2)\<close> column: rounded half away from zero, refused when it
  does not fit. There is no negative zero.\<close>

definition sql_numeric :: "decimal \<Rightarrow> exn + decimal" where
  "sql_numeric d =
     (case d of
        Fin s c e \<Rightarrow>
          (let q = (if - 2 \<le> e then c * 10 ^ nat (e + 2)
                    else (c + 5 * 10 ^ nat (- e - 3)) div 10 ^ nat (- 2 - e))
           in if cents_limit < int q then Inl db_api_error
              else Inr (Fin (s \<and> q \<noteq> 0) q (- 2)))
      | NotANumber _ _ \<Rightarrow> Inr (NotANumber False False)
      | Infinite _ \<Rightarrow> Inl db_api_error)"

fun wallet_matches :: "wallet_cond \<Rightarrow> uuid \<Rightarrow> wallet_row \<Rightarrow> bool" where
  "wallet_matches (WalletIdIs u) i r \<longleftrightarrow> i = u"
| "wallet_matches (OwnerIdIs u) i r \<longleftrightarrow> wr_owner_id r = u"
| "wallet_matches (VersionIs v) i r \<longleftrightarrow> wr_version r = v"
| "wallet_matches (WalletIdBelow u) i r \<longleftrightarrow> i < u"

fun entry_matches :: "tables \<Rightarrow> entry_cond \<Rightarrow> uuid \<Rightarrow> entry_row \<Rightarrow> bool" where
  "entry_matches tb (EntryIdIs u) i r \<longleftrightarrow> i = u"
| "entry_matches tb (EntryWalletIs u) i r \<longleftrightarrow> er_wallet_id r = u"
| "entry_matches tb (EntryOwnerIs u) i r \<longleftrightarrow>
     (case DAList.lookup (tb_wallets tb) (er_wallet_id r) of
        None \<Rightarrow> False | Some w \<Rightarrow> wr_owner_id w = u)"
| "entry_matches tb (EntryIdBelow u) i r \<longleftrightarrow> i < u"

text \<open>\<open>ORDER BY id DESC LIMIT n\<close>, when there is a limit.\<close>

definition select_rows :: "(uuid \<times> 'r \<Rightarrow> bool) \<Rightarrow> int option \<Rightarrow> (uuid \<times> 'r) list \<Rightarrow> (uuid \<times> 'r) list" where
  "select_rows p lmt rows =
     (case lmt of
        None \<Rightarrow> filter p rows
      | Some n \<Rightarrow> take (nat n) (rev (sort_key fst (filter p rows))))"

text \<open>The checks on a row of \<open>wallets\<close>: column widths, then \<open>balance_non_negative\<close>.\<close>

definition check_wallet_row :: "wallet_row \<Rightarrow> exn + wallet_row" where
  "check_wallet_row r =
     (case sql_numeric (wr_balance_amount r) of
        Inl e \<Rightarrow> Inl e
      | Inr b \<Rightarrow>
          if 3 < length (wr_currency r) \<or> 16 < length (wr_status r)
             \<or> wr_version r < - (2 ^ 31) \<or> 2 ^ 31 \<le> wr_version r then Inl db_api_error
          else if dec_is_finite b \<and> dec_lt_zero b then Inl integrity_error
          else Inr (r\<lparr>wr_balance_amount := b\<rparr>))"

definition check_entry_row :: "tables \<Rightarrow> entry_row \<Rightarrow> exn + entry_row" where
  "check_entry_row tb r =
     (case sql_numeric (er_amount r) of
        Inl e \<Rightarrow> Inl e
      | Inr a \<Rightarrow>
          (case sql_numeric (er_balance_after r) of
             Inl e \<Rightarrow> Inl e
           | Inr b \<Rightarrow>
               if 3 < length (er_currency r) \<or> 8 < length (er_direction r) then Inl db_api_error
               else if dec_is_finite a \<and> dec_le_zero a then Inl integrity_error
               else if DAList.lookup (tb_wallets tb) (er_wallet_id r) = None
                 then Inl integrity_error
               else Inr (r\<lparr>er_amount := a, er_balance_after := b\<rparr>)))"

text \<open>An update sets every column but \<open>id\<close> and \<open>created_at\<close>.\<close>

definition set_wallet_row :: "wallet_row \<Rightarrow> wallet_row \<Rightarrow> wallet_row" where
  "set_wallet_row new old = new\<lparr>wr_created_at := wr_created_at old\<rparr>"

fun eval_stmt :: "statement \<Rightarrow> tables \<Rightarrow> exn + sql_result \<times> tables" where
  "eval_stmt (SelectWallets cs lmt for_update) tb =
     Inr (WalletRows (select_rows (\<lambda>(i, r). \<forall>c \<in> set cs. wallet_matches c i r) lmt
            (DAList.impl_of (tb_wallets tb))), tb)"
| "eval_stmt (InsertWallet i r) tb =
     (case check_wallet_row r of
        Inl e \<Rightarrow> Inl e
      | Inr r \<Rightarrow>
          if DAList.lookup (tb_wallets tb) i \<noteq> None then Inl integrity_error
          else Inr (RowCount 1, tb\<lparr>tb_wallets := DAList.update i r (tb_wallets tb)\<rparr>))"
| "eval_stmt (UpdateWallets cs new) tb =
     (case check_wallet_row new of
        Inl e \<Rightarrow> Inl e
      | Inr new \<Rightarrow>
          let hit = filter (\<lambda>(i, r). \<forall>c \<in> set cs. wallet_matches c i r)
                      (DAList.impl_of (tb_wallets tb)) in
          Inr (RowCount (int (length hit)),
               tb\<lparr>tb_wallets :=
                    foldl (\<lambda>t (i, r). DAList.update i (set_wallet_row new r) t)
                      (tb_wallets tb) hit\<rparr>))"
| "eval_stmt (SelectEntries cs lmt) tb =
     Inr (EntryRows (select_rows (\<lambda>(i, r). \<forall>c \<in> set cs. entry_matches tb c i r) lmt
            (DAList.impl_of (tb_entries tb))), tb)"
| "eval_stmt (InsertEntry i r) tb =
     (case check_entry_row tb r of
        Inl e \<Rightarrow> Inl e
      | Inr r \<Rightarrow>
          if DAList.lookup (tb_entries tb) i \<noteq> None then Inl integrity_error
          else Inr (RowCount 1, tb\<lparr>tb_entries := DAList.update i r (tb_entries tb)\<rparr>))"

section \<open>The engine\<close>

record 'd engine =
  en_execute :: "statement \<Rightarrow> ('d, exn, sql_result) prog"
  en_commit :: "('d, exn, unit) prog"
  en_rollback :: "('d, exn, unit) prog"

locale sql_engine =
  fixes E :: "'d engine"
    and sess_tb :: "'d \<Rightarrow> tables"
    and comm_tb :: "'d \<Rightarrow> tables"
  assumes execute_done: "en_execute E st d = (Inr res, d') \<Longrightarrow>
      eval_stmt st (sess_tb d) = Inr (res, sess_tb d')"
    and execute_uncommitted: "en_execute E st d = (r, d') \<Longrightarrow> comm_tb d' = comm_tb d"
    and commit_done: "en_commit E d = (Inr (), d') \<Longrightarrow> comm_tb d' = sess_tb d \<and> sess_tb d' = sess_tb d"
    and commit_raised: "en_commit E d = (Inl e, d') \<Longrightarrow> comm_tb d' = comm_tb d \<or> comm_tb d' = sess_tb d"
    and rollback_uncommitted: "en_rollback E d = (rb, d') \<Longrightarrow> comm_tb d' = comm_tb d"
    and rollback_done: "en_rollback E d = (Inr (), d') \<Longrightarrow> sess_tb d' = comm_tb d"

text \<open>A server whose failed commits leave nothing behind.\<close>

locale atomic_sql_engine = sql_engine +
  assumes commit_atomic: "en_commit E d = (Inl e, d') \<Longrightarrow> comm_tb d' = comm_tb d"

section \<open>A reference engine\<close>

text \<open>
  One session on a server that follows \<open>eval_stmt\<close> and fails as \<open>rf_faults\<close> says: one entry per
  operation, a failed commit before or after it took effect.
\<close>

datatype fault = Healthy | Fails exn | FailsAfter exn

record ref_db =
  rf_comm :: tables
  rf_sess :: tables
  rf_faults :: "fault list"

definition next_fault :: "ref_db \<Rightarrow> fault \<times> ref_db" where
  "next_fault d =
     (case rf_faults d of [] \<Rightarrow> (Healthy, d) | f # fs \<Rightarrow> (f, d\<lparr>rf_faults := fs\<rparr>))"

definition ref_execute :: "statement \<Rightarrow> (ref_db, exn, sql_result) prog" where
  "ref_execute st d =
     (case next_fault d of
        (Healthy, d) \<Rightarrow>
          (case eval_stmt st (rf_sess d) of
             Inl e \<Rightarrow> (Inl e, d)
           | Inr (res, tb) \<Rightarrow> (Inr res, d\<lparr>rf_sess := tb\<rparr>))
      | (Fails e, d) \<Rightarrow> (Inl e, d)
      | (FailsAfter e, d) \<Rightarrow> (Inl e, d))"

definition ref_commit :: "(ref_db, exn, unit) prog" where
  "ref_commit d =
     (case next_fault d of
        (Healthy, d) \<Rightarrow> (Inr (), d\<lparr>rf_comm := rf_sess d\<rparr>)
      | (Fails e, d) \<Rightarrow> (Inl e, d)
      | (FailsAfter e, d) \<Rightarrow> (Inl e, d\<lparr>rf_comm := rf_sess d\<rparr>))"

definition ref_rollback :: "(ref_db, exn, unit) prog" where
  "ref_rollback d =
     (case next_fault d of
        (Healthy, d) \<Rightarrow> (Inr (), d\<lparr>rf_sess := rf_comm d\<rparr>)
      | (Fails e, d) \<Rightarrow> (Inl e, d)
      | (FailsAfter e, d) \<Rightarrow> (Inl e, d))"

definition ref_engine :: "ref_db engine" where
  "ref_engine =
     \<lparr>en_execute = ref_execute, en_commit = ref_commit, en_rollback = ref_rollback\<rparr>"

definition ref_start :: "tables \<Rightarrow> fault list \<Rightarrow> ref_db" where
  "ref_start tb faults = \<lparr>rf_comm = tb, rf_sess = tb, rf_faults = faults\<rparr>"

lemma next_fault_views:
  "next_fault d = (f, d') \<Longrightarrow> rf_comm d' = rf_comm d \<and> rf_sess d' = rf_sess d"
  by (auto simp: next_fault_def split: list.splits)

interpretation ref: sql_engine ref_engine rf_sess rf_comm
proof (unfold_locales, goal_cases)
  case (1 st d res d')
  then show ?case
    by (auto simp: ref_engine_def ref_execute_def split: prod.splits fault.splits sum.splits
        dest!: next_fault_views)
next
  case (2 st d r d')
  then show ?case
    by (auto simp: ref_engine_def ref_execute_def split: prod.splits fault.splits sum.splits
        dest!: next_fault_views)
qed (auto simp: ref_engine_def ref_commit_def ref_rollback_def split: prod.splits fault.splits
    dest!: next_fault_views)

text \<open>The same server with a commit that takes effect only when it returns.\<close>

definition ref_atomic_commit :: "(ref_db, exn, unit) prog" where
  "ref_atomic_commit d =
     (case next_fault d of
        (Healthy, d) \<Rightarrow> (Inr (), d\<lparr>rf_comm := rf_sess d\<rparr>)
      | (Fails e, d) \<Rightarrow> (Inl e, d)
      | (FailsAfter e, d) \<Rightarrow> (Inl e, d))"

definition ref_atomic_engine :: "ref_db engine" where
  "ref_atomic_engine = ref_engine\<lparr>en_commit := ref_atomic_commit\<rparr>"

interpretation ref_atomic: atomic_sql_engine ref_atomic_engine rf_sess rf_comm
proof (unfold_locales, goal_cases)
  case (1 st d res d')
  then have "en_execute ref_engine st d = (Inr res, d')" by (simp add: ref_atomic_engine_def)
  then show ?case by (rule ref.execute_done)
next
  case (2 st d r d')
  then have "en_execute ref_engine st d = (r, d')" by (simp add: ref_atomic_engine_def)
  then show ?case by (rule ref.execute_uncommitted)
next
  case (5 d rb d')
  then have "en_rollback ref_engine d = (rb, d')" by (simp add: ref_atomic_engine_def)
  then show ?case by (rule ref.rollback_uncommitted)
next
  case (6 d d')
  then have "en_rollback ref_engine d = (Inr (), d')" by (simp add: ref_atomic_engine_def)
  then show ?case by (rule ref.rollback_done)
qed (auto simp: ref_atomic_engine_def ref_atomic_commit_def split: prod.splits fault.splits
    dest!: next_fault_views)

section \<open>The book the tables hold\<close>

definition account_of_row :: "wallet_row \<Rightarrow> account" where
  "account_of_row r =
     \<lparr>ac_owner = OwnerId (wr_owner_id r), ac_currency = CurrencyCode (wr_currency r),
      ac_cents = amount_cents (wr_balance_amount r), ac_open = (wr_status r = ''open''),
      ac_version = wr_version r, ac_created_at = wr_created_at r, ac_updated_at = wr_updated_at r\<rparr>"

definition direction_of_value :: "string \<Rightarrow> ledger_direction" where
  "direction_of_value v = (if v = ''credit'' then CREDIT else DEBIT)"

definition posting_of_row :: "uuid \<times> entry_row \<Rightarrow> posting" where
  "posting_of_row ir =
     \<lparr>po_id = LedgerEntryId (fst ir), po_wallet = WalletId (er_wallet_id (snd ir)),
      po_direction = direction_of_value (er_direction (snd ir)),
      po_cents = amount_cents (er_amount (snd ir)), po_currency = CurrencyCode (er_currency (snd ir)),
      po_after = amount_cents (er_balance_after (snd ir)),
      po_description = er_description (snd ir), po_at = er_occurred_at (snd ir)\<rparr>"

definition book_of :: "tables \<Rightarrow> book" where
  "book_of tb =
     \<lparr>bk_accounts = (\<lambda>i. map_option account_of_row (DAList.lookup (tb_wallets tb) (wid_value i))),
      bk_postings = map posting_of_row (DAList.impl_of (tb_entries tb))\<rparr>"

lemma book_of_simps [simp]:
  "bk_accounts (book_of tb) i = map_option account_of_row (DAList.lookup (tb_wallets tb) (wid_value i))"
  "bk_postings (book_of tb) = map posting_of_row (DAList.impl_of (tb_entries tb))"
  by (simp_all add: book_of_def)

lemma po_ids: "po_id ` set (map posting_of_row rows) = LedgerEntryId ` fst ` set rows"
  by (force simp: posting_of_row_def)

text \<open>Valid amounts survive the column type.\<close>

lemma sql_numeric_valid:
  assumes "valid_amount a"
  obtains b where "sql_numeric a = Inr b" "valid_amount b" "amount_cents b = amount_cents a"
proof -
  from assms obtain s c e where a: "a = Fin s c e" "- 2 \<le> e" "\<bar>amount_cents a\<bar> \<le> cents_limit"
    by (rule valid_amountE)
  then have "sql_numeric a = Inr (Fin (s \<and> c * 10 ^ nat (e + 2) \<noteq> 0) (c * 10 ^ nat (e + 2)) (- 2))"
    by (simp add: sql_numeric_def abs_amount_cents Let_def)
  moreover define b where "b = Fin (s \<and> c * 10 ^ nat (e + 2) \<noteq> 0) (c * 10 ^ nat (e + 2)) (- 2)"
  moreover have "amount_cents b = amount_cents a"
    by (auto simp: b_def amount_cents_Fin a(1))
  moreover from this a(3) have "valid_amount b" by (simp add: valid_amount_def b_def)
  ultimately show ?thesis by (intro that [of b]) simp_all
qed

end
