(* ===== verification/Repositories.thy ===== *)
theory Repositories
  imports Tables Ports
begin

text \<open>
  \<open>infrastructure/adapters/sqla/\<close>: the wallet and ledger repositories, translated statement by
  statement. \<open>wallet_to_row\<close> and \<open>wallet_to_entity\<close> are \<open>_to_row\<close> and \<open>_to_entity\<close>. The lemmas
  say what each repository method means for the book the tables hold, on any engine that keeps
  its documented behaviour.
\<close>

section \<open>Row mapping\<close>

definition wallet_status_of :: "string \<Rightarrow> exn + wallet_status" where
  "wallet_status_of v =
     (if v = ''open'' then Inr OPEN else if v = ''closed'' then Inr CLOSED else Inl value_error)"

definition direction_of :: "string \<Rightarrow> exn + ledger_direction" where
  "direction_of v =
     (if v = ''credit'' then Inr CREDIT else if v = ''debit'' then Inr DEBIT else Inl value_error)"

definition wallet_to_row :: "wallet \<Rightarrow> uuid \<times> wallet_row" where
  "wallet_to_row w =
     (wid_value (w_id w),
      \<lparr>wr_owner_id = oid_value (w_owner_id w), wr_balance_amount = m_amount (w_balance w),
       wr_currency = cc_value (m_currency (w_balance w)),
       wr_status = wallet_status_value (w_status w), wr_version = w_version w,
       wr_created_at = w_created_at w, wr_updated_at = w_updated_at w\<rparr>)"

definition wallet_to_entity :: "uuid \<times> wallet_row \<Rightarrow> exn + wallet" where
  "wallet_to_entity ir =
     (let i = fst ir; r = snd ir in
      case currency_new (wr_currency r) of Inl e \<Rightarrow> Inl e | Inr currency \<Rightarrow>
      case money_new (wr_balance_amount r) currency of Inl e \<Rightarrow> Inl e | Inr balance \<Rightarrow>
      case wallet_status_of (wr_status r) of Inl e \<Rightarrow> Inl e | Inr status \<Rightarrow>
      wallet_new (WalletId i) (OwnerId (wr_owner_id r)) balance status (wr_version r)
        (wr_created_at r) (wr_updated_at r))"

definition entry_to_row :: "ledger_entry \<Rightarrow> uuid \<times> entry_row" where
  "entry_to_row en =
     (eid_value (le_id en),
      \<lparr>er_wallet_id = wid_value (le_wallet_id en),
       er_direction = ledger_direction_value (le_direction en),
       er_amount = m_amount (le_amount en), er_currency = cc_value (m_currency (le_amount en)),
       er_balance_after = m_amount (le_balance_after en), er_description = le_description en,
       er_occurred_at = le_occurred_at en\<rparr>)"

definition entry_to_entity :: "uuid \<times> entry_row \<Rightarrow> exn + ledger_entry" where
  "entry_to_entity ir =
     (let i = fst ir; r = snd ir in
      case currency_new (er_currency r) of Inl e \<Rightarrow> Inl e | Inr currency \<Rightarrow>
      case direction_of (er_direction r) of Inl e \<Rightarrow> Inl e | Inr dir \<Rightarrow>
      case money_new (er_amount r) currency of Inl e \<Rightarrow> Inl e | Inr amount \<Rightarrow>
      case money_new (er_balance_after r) currency of Inl e \<Rightarrow> Inl e | Inr balance_after \<Rightarrow>
      case entity_init False of Inl e \<Rightarrow> Inl e | Inr _ \<Rightarrow>
      Inr \<lparr>le_id = LedgerEntryId i, le_wallet_id = WalletId (er_wallet_id r), le_direction = dir,
           le_amount = amount, le_balance_after = balance_after,
           le_description = er_description r, le_occurred_at = er_occurred_at r\<rparr>)"

text \<open>The first exception of a list comprehension, or all its values.\<close>

fun map_result :: "('a \<Rightarrow> 'e + 'b) \<Rightarrow> 'a list \<Rightarrow> 'e + 'b list" where
  "map_result f [] = Inr []"
| "map_result f (x # xs) =
     (case f x of Inl e \<Rightarrow> Inl e | Inr y \<Rightarrow>
        (case map_result f xs of Inl e \<Rightarrow> Inl e | Inr ys \<Rightarrow> Inr (y # ys)))"

section \<open>Results\<close>

text \<open>\<open>one_or_none()\<close>; a result of another shape than the statement's does not occur.\<close>

definition one_or_none :: "'r list \<Rightarrow> exn + 'r option" where
  "one_or_none rows =
     (case rows of [] \<Rightarrow> Inr None | [r] \<Rightarrow> Inr (Some r)
      | _ \<Rightarrow> Inl (PyExn ''MultipleResultsFound''))"

definition wallet_rows :: "sql_result \<Rightarrow> (uuid \<times> wallet_row) list" where
  "wallet_rows res = (case res of WalletRows rows \<Rightarrow> rows | _ \<Rightarrow> [])"

definition entry_rows :: "sql_result \<Rightarrow> (uuid \<times> entry_row) list" where
  "entry_rows res = (case res of EntryRows rows \<Rightarrow> rows | _ \<Rightarrow> [])"

definition row_count :: "sql_result \<Rightarrow> int" where
  "row_count res = (case res of RowCount n \<Rightarrow> n | WalletRows rows \<Rightarrow> int (length rows)
     | EntryRows rows \<Rightarrow> int (length rows))"

text \<open>\<open>_paginate\<close>: one row more than the limit was asked for, and says whether there are more.
  \<open>rows[:limit]\<close> is \<open>take\<close> for the limits the queries allow; a negative one drops from the end.\<close>

definition py_take :: "int \<Rightarrow> 'r list \<Rightarrow> 'r list" where
  "py_take n rows = (if 0 \<le> n then take (nat n) rows else take (length rows - nat (- n)) rows)"

definition paginate ::
  "(uuid \<times> 'r \<Rightarrow> exn + 'a) \<Rightarrow> (uuid \<times> 'r) list \<Rightarrow> int \<Rightarrow> exn + 'a page" where
  "paginate to_entity rows limit =
     (let has_more = limit < int (length rows);
          visible = py_take limit rows
      in case map_result to_entity visible of Inl e \<Rightarrow> Inl e
         | Inr items \<Rightarrow>
             Inr \<lparr>pg_items = items,
                  pg_next_cursor =
                    (if has_more \<and> visible \<noteq> [] then Some (encode_cursor (fst (last visible)))
                     else None)\<rparr>)"

section \<open>The wallet repository\<close>

definition sqla_wallet_read ::
  "'d engine \<Rightarrow> wallet_id \<Rightarrow> owner_id \<Rightarrow> bool \<Rightarrow> ('d, exn, wallet option) prog" where
  "sqla_wallet_read E i ow for_update =
     pbind (en_execute E
       (SelectWallets [WalletIdIs (wid_value i), OwnerIdIs (oid_value ow)] None for_update)) (\<lambda>res.
     pbind (plift (one_or_none (wallet_rows res))) (\<lambda>row.
       case row of
         None \<Rightarrow> pret None
       | Some r \<Rightarrow> pbind (plift (wallet_to_entity r)) (\<lambda>w. pret (Some w))))"

definition after_cond :: "(uuid \<Rightarrow> 'c) \<Rightarrow> uuid option \<Rightarrow> 'c list" where
  "after_cond below after = (case after of None \<Rightarrow> [] | Some u \<Rightarrow> [below u])"

definition sqla_wallet_list_by_owner ::
  "'d engine \<Rightarrow> owner_id \<Rightarrow> int \<Rightarrow> string option \<Rightarrow> ('d, exn, wallet page) prog" where
  "sqla_wallet_list_by_owner E ow limit cursor =
     pbind (plift (decode_cursor cursor)) (\<lambda>after.
     pbind (en_execute E (SelectWallets
         (OwnerIdIs (oid_value ow) # after_cond WalletIdBelow after) (Some (limit + 1)) False)) (\<lambda>res.
       plift (paginate wallet_to_entity (wallet_rows res) limit)))"

definition sqla_wallet_add :: "'d engine \<Rightarrow> wallet \<Rightarrow> ('d, exn, unit) prog" where
  "sqla_wallet_add E w =
     (let (i, r) = wallet_to_row w in pthen (en_execute E (InsertWallet i r)) (pret ()))"

definition sqla_wallet_update :: "'d engine \<Rightarrow> wallet \<Rightarrow> int \<Rightarrow> ('d, exn, bool) prog" where
  "sqla_wallet_update E w expected_version =
     (let (i, r) = wallet_to_row w in
      pbind (en_execute E (UpdateWallets [WalletIdIs i, VersionIs expected_version] r))
        (\<lambda>res. pret (row_count res = 1)))"

section \<open>The ledger repository\<close>

definition sqla_ledger_add :: "'d engine \<Rightarrow> ledger_entry \<Rightarrow> ('d, exn, unit) prog" where
  "sqla_ledger_add E en =
     (let (i, r) = entry_to_row en in pthen (en_execute E (InsertEntry i r)) (pret ()))"

definition sqla_ledger_read ::
  "'d engine \<Rightarrow> ledger_entry_id \<Rightarrow> owner_id \<Rightarrow> ('d, exn, ledger_entry option) prog" where
  "sqla_ledger_read E u ow =
     pbind (en_execute E
       (SelectEntries [EntryIdIs (eid_value u), EntryOwnerIs (oid_value ow)] None)) (\<lambda>res.
     pbind (plift (one_or_none (entry_rows res))) (\<lambda>row.
       case row of
         None \<Rightarrow> pret None
       | Some r \<Rightarrow> pbind (plift (entry_to_entity r)) (\<lambda>en. pret (Some en))))"

definition sqla_ledger_list_by_wallet ::
  "'d engine \<Rightarrow> wallet_id \<Rightarrow> owner_id \<Rightarrow> int \<Rightarrow> string option \<Rightarrow> ('d, exn, ledger_entry page) prog"
  where
  "sqla_ledger_list_by_wallet E i ow limit cursor =
     pbind (plift (decode_cursor cursor)) (\<lambda>after.
     pbind (en_execute E (SelectEntries
         ([EntryWalletIs (wid_value i), EntryOwnerIs (oid_value ow)]
            @ after_cond EntryIdBelow after) (Some (limit + 1)))) (\<lambda>res.
       plift (paginate entry_to_entity (entry_rows res) limit)))"

section \<open>Rows and entities\<close>

lemma filter_key:
  "distinct (map fst xs) \<Longrightarrow> filter (\<lambda>(i, r). i = u \<and> q r) xs =
     (case map_of xs u of None \<Rightarrow> [] | Some r \<Rightarrow> if q r then [(u, r)] else [])"
proof (induction xs)
  case (Cons x xs)
  obtain i r where x: "x = (i, r)" by fastforce
  show ?case
  proof (cases "i = u")
    case True
    then have "map_of xs u = None" using Cons.prems x by (simp add: map_of_eq_None_iff)
    with Cons x True show ?thesis by simp
  next
    case False
    with Cons x show ?thesis by simp
  qed
qed simp

lemma filter_alist_key:
  "filter (\<lambda>(i, r). i = u \<and> q r) (DAList.impl_of m) =
     (case DAList.lookup m u of None \<Rightarrow> [] | Some r \<Rightarrow> if q r then [(u, r)] else [])"
  using filter_key [OF DAList.impl_of_distinct] by (simp add: DAList.lookup_def)

lemma update_append: "k \<notin> fst ` set xs \<Longrightarrow> AList.update k v xs = xs @ [(k, v)]"
  by (induction xs) auto

lemma impl_of_update_new:
  assumes "DAList.lookup m k = None" shows "DAList.impl_of (DAList.update k v m) = DAList.impl_of m @ [(k, v)]"
proof -
  have "k \<notin> fst ` set (DAList.impl_of m)"
    using assms by (simp add: DAList.lookup_def map_of_eq_None_iff)
  then have "AList.update k v (DAList.impl_of m) = DAList.impl_of m @ [(k, v)]"
    by (rule update_append)
  then show ?thesis by (simp add: DAList.update.rep_eq)
qed

lemma wallet_to_entity_ok:
  assumes "wallet_to_entity (i, r) = Inr w"
  shows "wf_wallet w \<and> w_id w = WalletId i \<and> account_of w = account_of_row r"
proof -
  from assms obtain cur bal st where c: "currency_new (wr_currency r) = Inr cur"
      "money_new (wr_balance_amount r) cur = Inr bal" "wallet_status_of (wr_status r) = Inr st"
      "wallet_new (WalletId i) (OwnerId (wr_owner_id r)) bal st (wr_version r) (wr_created_at r)
         (wr_updated_at r) = Inr w"
    by (auto simp: wallet_to_entity_def Let_def split: sum.splits)
  from c(1) have "cur = CurrencyCode (wr_currency r)" by (auto simp: currency_new_def split: sum.splits)
  moreover from c(3) have "st = OPEN \<longleftrightarrow> wr_status r = ''open''"
    by (auto simp: wallet_status_of_def split: if_splits)
  ultimately show ?thesis
    using c(2,4) wf_wallet_new [OF c(4) valid_money_new [OF c(2)]]
    by (auto simp: wallet_new_Inr_iff money_new_Inr_iff account_of_def account_of_row_def
        wallet_currency_def cents_def)
qed

lemma entry_to_entity_ok:
  assumes "entry_to_entity (i, r) = Inr en"
  shows "le_id en = LedgerEntryId i \<and> le_wallet_id en = WalletId (er_wallet_id r)
    \<and> posting_of en = posting_of_row (i, r)"
proof -
  from assms obtain cur dir a b where c: "currency_new (er_currency r) = Inr cur"
      "direction_of (er_direction r) = Inr dir" "money_new (er_amount r) cur = Inr a"
      "money_new (er_balance_after r) cur = Inr b"
      "en = \<lparr>le_id = LedgerEntryId i, le_wallet_id = WalletId (er_wallet_id r), le_direction = dir,
             le_amount = a, le_balance_after = b, le_description = er_description r,
             le_occurred_at = er_occurred_at r\<rparr>"
    by (auto simp: entry_to_entity_def Let_def entity_init_def split: sum.splits)
  from c(1) have "cur = CurrencyCode (er_currency r)" by (auto simp: currency_new_def split: sum.splits)
  moreover from c(2) have "dir = direction_of_value (er_direction r)"
    by (auto simp: direction_of_def direction_of_value_def split: if_splits)
  ultimately show ?thesis
    using c by (auto simp: money_new_Inr_iff posting_of_def posting_of_row_def cents_def)
qed

text \<open>What the checks let through keeps the account, for a wallet the entity code produced.\<close>

lemma check_wallet_row_ok:
  assumes "wf_wallet w" "check_wallet_row (snd (wallet_to_row w)) = Inr r"
  shows "account_of_row r = account_of w"
proof -
  obtain b where "sql_numeric (m_amount (w_balance w)) = Inr b"
      "amount_cents b = amount_cents (m_amount (w_balance w))"
    using assms(1) sql_numeric_valid by (metis valid_money_def wf_walletD(1))
  with assms(2) show ?thesis
    by (cases "w_status w")
      (auto simp: check_wallet_row_def wallet_to_row_def account_of_row_def account_of_def cents_def
        wallet_currency_def split: if_splits)
qed

lemma check_entry_row_ok:
  assumes "valid_money (le_amount en)" "valid_money (le_balance_after en)"
    and "m_currency (le_balance_after en) = m_currency (le_amount en)"
    and "check_entry_row tb (snd (entry_to_row en)) = Inr r"
  shows "posting_of_row (eid_value (le_id en), r) = posting_of en"
proof -
  obtain a b where "sql_numeric (m_amount (le_amount en)) = Inr a"
      "amount_cents a = amount_cents (m_amount (le_amount en))"
      "sql_numeric (m_amount (le_balance_after en)) = Inr b"
      "amount_cents b = amount_cents (m_amount (le_balance_after en))"
    using assms(1,2) sql_numeric_valid by (metis valid_money_def)
  with assms(4) show ?thesis
    by (cases "le_direction en")
      (auto simp: check_entry_row_def entry_to_row_def posting_of_row_def posting_of_def cents_def
        direction_of_value_def split: if_splits)
qed

section \<open>What the statements mean for the book\<close>

lemma select_wallet_by_id:
  "eval_stmt (SelectWallets [WalletIdIs u, OwnerIdIs o'] None fu) tb =
     Inr (WalletRows (case DAList.lookup (tb_wallets tb) u of
            None \<Rightarrow> [] | Some r \<Rightarrow> if wr_owner_id r = o' then [(u, r)] else []), tb)"
  using filter_alist_key [of u "\<lambda>r. wr_owner_id r = o'" "tb_wallets tb"] by (simp add: select_rows_def)

lemma select_entry_by_id:
  "eval_stmt (SelectEntries [EntryIdIs u, EntryOwnerIs o'] None) tb =
     Inr (EntryRows (case DAList.lookup (tb_entries tb) u of
            None \<Rightarrow> [] | Some r \<Rightarrow>
              if (case DAList.lookup (tb_wallets tb) (er_wallet_id r) of
                    None \<Rightarrow> False | Some w \<Rightarrow> wr_owner_id w = o') then [(u, r)] else []), tb)"
  using filter_alist_key [of u "\<lambda>r. case DAList.lookup (tb_wallets tb) (er_wallet_id r) of
      None \<Rightarrow> False | Some w \<Rightarrow> wr_owner_id w = o'" "tb_entries tb"]
  by (simp add: select_rows_def)

lemma update_wallet_by_version:
  "eval_stmt (UpdateWallets [WalletIdIs u, VersionIs v] new) tb =
     (case check_wallet_row new of Inl e \<Rightarrow> Inl e
      | Inr new \<Rightarrow>
          (case DAList.lookup (tb_wallets tb) u of
             None \<Rightarrow> Inr (RowCount 0, tb)
           | Some r \<Rightarrow>
               if wr_version r = v
               then Inr (RowCount 1, tb\<lparr>tb_wallets :=
                      DAList.update u (set_wallet_row new r) (tb_wallets tb)\<rparr>)
               else Inr (RowCount 0, tb)))"
  using filter_alist_key [of u "\<lambda>r. wr_version r = v" "tb_wallets tb"]
  by (auto split: sum.split option.split)

lemma wid_value_eq: "wid_value i = wid_value j \<longleftrightarrow> i = j"
  by (auto intro: wallet_id.expand)

lemma oid_value_eq: "oid_value i = oid_value j \<longleftrightarrow> i = j"
  by (auto intro: owner_id.expand)

lemma book_of_put:
  "book_of (tb\<lparr>tb_wallets := DAList.update (wid_value i) r (tb_wallets tb)\<rparr>)
     = put_account i (account_of_row r) (book_of tb)"
  by (auto simp: book_of_def put_account_def fun_eq_iff DAList.lookup_update wid_value_eq)

lemma book_of_add:
  assumes "DAList.lookup (tb_entries tb) u = None"
  shows "book_of (tb\<lparr>tb_entries := DAList.update u r (tb_entries tb)\<rparr>)
     = add_posting (posting_of_row (u, r)) (book_of tb)"
  by (simp add: book_of_def add_posting_def impl_of_update_new [OF assms])

lemma account_of_set_row:
  "account_of_row (set_wallet_row new old)
     = (account_of_row new)\<lparr>ac_created_at := ac_created_at (account_of_row old)\<rparr>"
  by (simp add: set_wallet_row_def account_of_row_def)

context sql_engine begin

lemma wallet_read_run:
  assumes "sqla_wallet_read E i ow fu d = (r, d')"
  shows "comm_tb d' = comm_tb d \<and> (\<forall>x. r = Inr x \<longrightarrow> sess_tb d' = sess_tb d)
    \<and> (\<forall>w. r = Inr (Some w) \<longrightarrow> wf_wallet w \<and> w_id w = i
          \<and> owned (book_of (sess_tb d)) i ow = Some (account_of w))
    \<and> (r = Inr None \<longrightarrow> owned (book_of (sess_tb d)) i ow = None)"
proof -
  obtain q d1 where X: "en_execute E
      (SelectWallets [WalletIdIs (wid_value i), OwnerIdIs (oid_value ow)] None fu) d = (q, d1)"
    by fastforce
  note comm = execute_uncommitted [OF X]
  show ?thesis
  proof (cases q)
    case (Inl e)
    with assms X comm show ?thesis by (auto simp: sqla_wallet_read_def pbind_def)
  next
    case (Inr res)
    with X execute_done have ev: "eval_stmt
        (SelectWallets [WalletIdIs (wid_value i), OwnerIdIs (oid_value ow)] None fu) (sess_tb d)
        = Inr (res, sess_tb d1)" by blast
    show ?thesis
    proof (cases "owned (book_of (sess_tb d)) i ow")
      case None
      then have "wallet_rows res = []" "sess_tb d1 = sess_tb d"
        using ev unfolding select_wallet_by_id
        by (auto simp: wallet_rows_def owned_def account_of_row_def split: option.splits if_splits)
      with assms X Inr comm None show ?thesis
        by (auto simp: sqla_wallet_read_def pbind_def one_or_none_def)
    next
      case (Some a)
      then obtain row where row: "wallet_rows res = [(wid_value i, row)]" "sess_tb d1 = sess_tb d"
          "a = account_of_row row"
        using ev unfolding select_wallet_by_id
        by (cases ow) (auto simp: wallet_rows_def owned_def account_of_row_def
            split: option.splits if_splits)
      with assms X Inr comm have "r = (case wallet_to_entity (wid_value i, row) of
          Inl e \<Rightarrow> Inl e | Inr w \<Rightarrow> Inr (Some w))" "d' = d1"
        by (auto simp: sqla_wallet_read_def pbind_def one_or_none_def split: sum.splits)
      with row comm Some show ?thesis
        by (auto dest: wallet_to_entity_ok split: sum.splits)
    qed
  qed
qed

lemma ledger_read_run:
  assumes "sqla_ledger_read E u ow d = (r, d')"
  shows "comm_tb d' = comm_tb d \<and> (\<forall>x. r = Inr x \<longrightarrow> sess_tb d' = sess_tb d)
    \<and> (\<forall>en. r = Inr (Some en) \<longrightarrow> le_id en = u
          \<and> posting_of en \<in> set (bk_postings (book_of (sess_tb d)))
          \<and> owned (book_of (sess_tb d)) (le_wallet_id en) ow \<noteq> None)"
proof -
  obtain q d1 where X: "en_execute E
      (SelectEntries [EntryIdIs (eid_value u), EntryOwnerIs (oid_value ow)] None) d = (q, d1)"
    by fastforce
  note comm = execute_uncommitted [OF X]
  show ?thesis
  proof (cases q)
    case (Inl e)
    with assms X comm show ?thesis by (auto simp: sqla_ledger_read_def pbind_def)
  next
    case (Inr res)
    with X execute_done have ev: "eval_stmt
        (SelectEntries [EntryIdIs (eid_value u), EntryOwnerIs (oid_value ow)] None) (sess_tb d)
        = Inr (res, sess_tb d1)" by blast
    then have same: "sess_tb d1 = sess_tb d" unfolding select_entry_by_id by simp
    show ?thesis
    proof (cases "entry_rows res = []")
      case True
      with assms X Inr comm same show ?thesis
        by (auto simp: sqla_ledger_read_def pbind_def one_or_none_def)
    next
      case False
      then obtain row wrow where row: "entry_rows res = [(eid_value u, row)]"
          "DAList.lookup (tb_entries (sess_tb d)) (eid_value u) = Some row"
          "DAList.lookup (tb_wallets (sess_tb d)) (er_wallet_id row) = Some wrow"
          "wr_owner_id wrow = oid_value ow"
        using ev unfolding select_entry_by_id
        by (auto simp: entry_rows_def split: option.splits if_splits)
      have mem: "(eid_value u, row) \<in> set (DAList.impl_of (tb_entries (sess_tb d)))"
        using row(2) by (intro map_of_SomeD) (simp add: DAList.lookup_def)
      have run: "r = (case entry_to_entity (eid_value u, row) of
          Inl e \<Rightarrow> Inl e | Inr en \<Rightarrow> Inr (Some en))" "d' = d1"
        using assms X Inr row(1)
        by (auto simp: sqla_ledger_read_def pbind_def one_or_none_def split: sum.splits)
      have post: "posting_of_row (eid_value u, row) \<in> set (bk_postings (book_of (sess_tb d)))"
        using mem by (simp add: image_iff) blast
      have own: "owned (book_of (sess_tb d)) (WalletId (er_wallet_id row)) ow \<noteq> None"
        using row(3,4) by (cases ow) (simp add: owned_def account_of_row_def)
      show ?thesis
      proof (cases "entry_to_entity (eid_value u, row)")
        case (Inl e)
        with run comm same show ?thesis by simp
      next
        case (Inr en)
        from entry_to_entity_ok [OF this] post own run Inr comm same show ?thesis by simp
      qed
    qed
  qed
qed

lemma ledger_read_missing:
  assumes "sqla_ledger_read E u ow d = (Inr None, d')"
  shows "\<forall>p \<in> set (bk_postings (book_of (sess_tb d))). po_id p = u \<longrightarrow>
    owned (book_of (sess_tb d)) (po_wallet p) ow = None"
proof (intro ballI impI)
  fix p
  assume "p \<in> set (bk_postings (book_of (sess_tb d)))" and u: "po_id p = u"
  then obtain i row where row: "(i, row) \<in> set (DAList.impl_of (tb_entries (sess_tb d)))"
    "p = posting_of_row (i, row)" by auto
  with u have i: "i = eid_value u" by (auto simp: posting_of_row_def)
  with row(1) have l: "DAList.lookup (tb_entries (sess_tb d)) (eid_value u) = Some row"
    by (auto simp: DAList.lookup_def)
  obtain res d1 where X: "en_execute E
      (SelectEntries [EntryIdIs (eid_value u), EntryOwnerIs (oid_value ow)] None) d = (Inr res, d1)"
    and rows: "one_or_none (entry_rows res) = Inr None"
    using assms by (auto simp: sqla_ledger_read_def elim!: pbindE split: option.splits sum.splits)
  from rows have "entry_rows res = []" by (auto simp: one_or_none_def split: list.splits)
  with execute_done [OF X] l
  show "owned (book_of (sess_tb d)) (po_wallet p) ow = None"
    unfolding select_entry_by_id
    by (cases ow) (auto simp: entry_rows_def owned_def account_of_row_def row(2) posting_of_row_def
        split: if_splits option.splits)
qed

lemma ledger_add_run:
  assumes "sqla_ledger_add E en d = (r, d')"
  shows "comm_tb d' = comm_tb d"
    and "r = Inr () \<Longrightarrow> valid_money (le_amount en) \<Longrightarrow> valid_money (le_balance_after en) \<Longrightarrow>
      m_currency (le_balance_after en) = m_currency (le_amount en) \<Longrightarrow>
      le_id en \<notin> po_id ` set (bk_postings (book_of (sess_tb d)))
        \<and> book_of (sess_tb d') = add_posting (posting_of en) (book_of (sess_tb d))"
proof -
  define row where "row = snd (entry_to_row en)"
  have er: "entry_to_row en = (eid_value (le_id en), row)" by (simp add: row_def entry_to_row_def)
  obtain q d1 where X: "en_execute E (InsertEntry (eid_value (le_id en)) row) d = (q, d1)" by fastforce
  have d: "d' = d1" "r = Inr () \<Longrightarrow> \<exists>res. q = Inr res"
    using assms X by (auto simp: sqla_ledger_add_def er pthen_def pbind_def split: sum.splits)
  then show "comm_tb d' = comm_tb d" using execute_uncommitted [OF X] by simp
  assume r: "r = Inr ()" and v: "valid_money (le_amount en)" "valid_money (le_balance_after en)"
    "m_currency (le_balance_after en) = m_currency (le_amount en)"
  from d r X execute_done obtain res where
    "eval_stmt (InsertEntry (eid_value (le_id en)) row) (sess_tb d) = Inr (res, sess_tb d')" by blast
  then obtain row' where ins: "check_entry_row (sess_tb d) row = Inr row'"
      "DAList.lookup (tb_entries (sess_tb d)) (eid_value (le_id en)) = None"
      "sess_tb d' = (sess_tb d)\<lparr>tb_entries :=
         DAList.update (eid_value (le_id en)) row' (tb_entries (sess_tb d))\<rparr>"
    by (auto split: sum.splits if_splits)
  from check_entry_row_ok [OF v] ins(1) have "posting_of_row (eid_value (le_id en), row') = posting_of en"
    by (simp add: row_def)
  moreover have "eid_value (le_id en) \<notin> fst ` set (DAList.impl_of (tb_entries (sess_tb d)))"
    using ins(2) by (simp add: DAList.lookup_def map_of_eq_None_iff)
  then have "le_id en \<notin> po_id ` set (bk_postings (book_of (sess_tb d)))"
    unfolding book_of_simps po_ids by (cases "le_id en") auto
  ultimately show "le_id en \<notin> po_id ` set (bk_postings (book_of (sess_tb d)))
        \<and> book_of (sess_tb d') = add_posting (posting_of en) (book_of (sess_tb d))"
    using ins(3) book_of_add [OF ins(2)] by simp
qed

lemma wallet_update_run:
  assumes "sqla_wallet_update E w v d = (r, d')"
  shows "comm_tb d' = comm_tb d"
    and "r = Inr True \<Longrightarrow> wf_wallet w \<Longrightarrow>
      \<exists>a. bk_accounts (book_of (sess_tb d)) (w_id w) = Some a \<and> ac_version a = v
        \<and> book_of (sess_tb d') = put_account (w_id w)
             ((account_of w)\<lparr>ac_created_at := ac_created_at a\<rparr>) (book_of (sess_tb d))"
    and "r = Inr False \<Longrightarrow> sess_tb d' = sess_tb d
      \<and> (\<forall>a. bk_accounts (book_of (sess_tb d)) (w_id w) = Some a \<longrightarrow> ac_version a \<noteq> v)"
proof -
  define row where "row = snd (wallet_to_row w)"
  have wr: "wallet_to_row w = (wid_value (w_id w), row)" by (simp add: row_def wallet_to_row_def)
  obtain q d1 where X: "en_execute E
      (UpdateWallets [WalletIdIs (wid_value (w_id w)), VersionIs v] row) d = (q, d1)" by fastforce
  have d: "d' = d1" "\<And>b. r = Inr b \<Longrightarrow> \<exists>res. q = Inr res \<and> b = (row_count res = 1)"
    using assms X by (auto simp: sqla_wallet_update_def wr pbind_def split: sum.splits)
  then show "comm_tb d' = comm_tb d" using execute_uncommitted [OF X] by simp
  have ev: "\<exists>res new. check_wallet_row row = Inr new \<and> b = (row_count res = 1)
      \<and> (case DAList.lookup (tb_wallets (sess_tb d)) (wid_value (w_id w)) of
           None \<Rightarrow> res = RowCount 0 \<and> sess_tb d' = sess_tb d
         | Some old \<Rightarrow>
             if wr_version old = v
             then res = RowCount 1 \<and> sess_tb d' = (sess_tb d)\<lparr>tb_wallets :=
               DAList.update (wid_value (w_id w)) (set_wallet_row new old) (tb_wallets (sess_tb d))\<rparr>
             else res = RowCount 0 \<and> sess_tb d' = sess_tb d)" if "r = Inr b" for b
  proof -
    from d(2) [OF that] obtain res where q: "q = Inr res" "b = (row_count res = 1)" by blast
    with X execute_done have "eval_stmt
        (UpdateWallets [WalletIdIs (wid_value (w_id w)), VersionIs v] row) (sess_tb d)
        = Inr (res, sess_tb d1)" by blast
    then show ?thesis
      unfolding update_wallet_by_version using q(2) d(1)
      by (intro exI [of _ res]) (auto split: sum.splits option.splits if_splits)
  qed
  show "\<exists>a. bk_accounts (book_of (sess_tb d)) (w_id w) = Some a \<and> ac_version a = v
      \<and> book_of (sess_tb d') = put_account (w_id w)
           ((account_of w)\<lparr>ac_created_at := ac_created_at a\<rparr>) (book_of (sess_tb d))"
    if "r = Inr True" "wf_wallet w"
  proof -
    from ev [OF that(1)] obtain new old where u: "check_wallet_row row = Inr new"
        "DAList.lookup (tb_wallets (sess_tb d)) (wid_value (w_id w)) = Some old" "wr_version old = v"
        "sess_tb d' = (sess_tb d)\<lparr>tb_wallets :=
           DAList.update (wid_value (w_id w)) (set_wallet_row new old) (tb_wallets (sess_tb d))\<rparr>"
      by (auto simp: row_count_def split: option.splits if_splits)
    from check_wallet_row_ok [OF that(2)] u(1) have "account_of_row new = account_of w"
      by (simp add: row_def)
    with u show ?thesis
      by (simp add: book_of_put account_of_set_row) (simp add: account_of_row_def)
  qed
  show "sess_tb d' = sess_tb d
      \<and> (\<forall>a. bk_accounts (book_of (sess_tb d)) (w_id w) = Some a \<longrightarrow> ac_version a \<noteq> v)"
    if "r = Inr False"
    using ev [OF that] by (auto simp: row_count_def account_of_row_def split: option.splits if_splits)
qed

lemma wallet_add_run:
  assumes "sqla_wallet_add E w d = (r, d')"
  shows "comm_tb d' = comm_tb d"
    and "r = Inr () \<Longrightarrow> wf_wallet w \<Longrightarrow>
      bk_accounts (book_of (sess_tb d)) (w_id w) = None
        \<and> book_of (sess_tb d') = put_account (w_id w) (account_of w) (book_of (sess_tb d))"
proof -
  define row where "row = snd (wallet_to_row w)"
  have wr: "wallet_to_row w = (wid_value (w_id w), row)" by (simp add: row_def wallet_to_row_def)
  obtain q d1 where X: "en_execute E (InsertWallet (wid_value (w_id w)) row) d = (q, d1)" by fastforce
  have d: "d' = d1" "r = Inr () \<Longrightarrow> \<exists>res. q = Inr res"
    using assms X by (auto simp: sqla_wallet_add_def wr pthen_def pbind_def split: sum.splits)
  then show "comm_tb d' = comm_tb d" using execute_uncommitted [OF X] by simp
  assume r: "r = Inr ()" and w: "wf_wallet w"
  from d r X execute_done obtain res where
    "eval_stmt (InsertWallet (wid_value (w_id w)) row) (sess_tb d) = Inr (res, sess_tb d')" by blast
  then obtain new where ins: "check_wallet_row row = Inr new"
      "DAList.lookup (tb_wallets (sess_tb d)) (wid_value (w_id w)) = None"
      "sess_tb d' = (sess_tb d)\<lparr>tb_wallets :=
         DAList.update (wid_value (w_id w)) new (tb_wallets (sess_tb d))\<rparr>"
    by (auto split: sum.splits if_splits)
  from check_wallet_row_ok [OF w] ins(1) have "account_of_row new = account_of w"
    by (simp add: row_def)
  with ins show "bk_accounts (book_of (sess_tb d)) (w_id w) = None
        \<and> book_of (sess_tb d') = put_account (w_id w) (account_of w) (book_of (sess_tb d))"
    by (simp add: book_of_put)
qed

end

end
