(* ===== verification/Memory_Locking.thy ===== *)
theory Memory_Locking
  imports Memory_State
begin

text \<open>
  \<open>infrastructure/adapters/memory/locking.py\<close>: the in-process lock with its lease, and the
  contract of \<open>DistributedLockPort\<close> as the locale \<open>distributed_lock\<close>. From it follows that a lease
  is exclusive until it is given back or runs out.
\<close>

section \<open>The lock\<close>

definition holder_of :: "'z memory_scheme \<Rightarrow> string \<Rightarrow> holder" where
  "holder_of s key =
     (case mm_holders s key of None \<Rightarrow> \<lparr>ho_locked = False, ho_expires_at = 0\<rparr> | Some h \<Rightarrow> h)"

definition put_holder :: "string \<Rightarrow> holder \<Rightarrow> ('z memory_scheme, exn, unit) prog" where
  "put_holder key h = (\<lambda>s. (Inr (), s\<lparr>mm_holders := (mm_holders s)(key \<mapsto> h)\<rparr>))"

definition lease_expired :: "holder \<Rightarrow> ('z memory_scheme, exn, bool) prog" where
  "lease_expired h =
     (if ho_locked h then pbind monotonic (\<lambda>now. pret (ho_expires_at h \<le> now)) else pret False)"

text \<open>\<open>lock(key, ...)\<close> makes sure the key has a holder; \<open>lk_enter\<close> is that and \<open>__aenter__\<close>.\<close>

definition lk_acquired :: "string \<Rightarrow> holder \<Rightarrow> int \<Rightarrow> ('z memory_scheme, exn, lock_handle) prog" where
  "lk_acquired key h ttl_ms =
     pbind monotonic (\<lambda>now.
     pthen (put_holder key (h\<lparr>ho_locked := True, ho_expires_at := now + of_int ttl_ms / 1000\<rparr>))
       (pret \<lparr>lh_key = key, lh_token = [], lh_acquired = True\<rparr>))"

definition lk_refused :: "string \<Rightarrow> lock_handle" where
  "lk_refused key = \<lparr>lh_key = key, lh_token = [], lh_acquired = False\<rparr>"

definition lk_enter :: "string \<Rightarrow> int \<Rightarrow> int \<Rightarrow> ('z memory_scheme, exn, lock_handle) prog" where
  "lk_enter key ttl_ms wait_timeout_ms = (\<lambda>s.
     let h = holder_of s key in
     pthen (put_holder key h)
     (pbind (lease_expired h) (\<lambda>expired.
       let h = (if expired then h\<lparr>ho_locked := False\<rparr> else h) in
       pthen (put_holder key h)
       (if wait_timeout_ms \<le> 0 then
          if ho_locked h then pret (lk_refused key) else lk_acquired key h ttl_ms
        else
          if ho_locked h
          then (\<lambda>s. (Inr (lk_refused key), elapse (of_int wait_timeout_ms / 1000) s))
          else lk_acquired key h ttl_ms))) s)"

definition lk_exit :: "lock_handle \<Rightarrow> ('z memory_scheme, exn, unit) prog" where
  "lk_exit h = (\<lambda>s.
     if \<not> lh_acquired h then (Inr (), s)
     else
       let ho = holder_of s (lh_key h) in
       if ho_locked ho then put_holder (lh_key h) (ho\<lparr>ho_locked := False\<rparr>) s else (Inr (), s))"

section \<open>Its contract\<close>

text \<open>\<open>lease s k\<close> is the end of the lease on \<open>k\<close>, if somebody holds it.\<close>

locale distributed_lock =
  fixes enter :: "string \<Rightarrow> int \<Rightarrow> int \<Rightarrow> ('s, exn, lock_handle) prog"
    and exit :: "lock_handle \<Rightarrow> ('s, exn, unit) prog"
    and lease :: "'s \<Rightarrow> string \<Rightarrow> seconds option"
    and now :: "'s \<Rightarrow> seconds"
  assumes enter_frame: "enter k ttl wait s = (re, t) \<Longrightarrow>
      now s \<le> now t \<and> (\<forall>k'. k' \<noteq> k \<longrightarrow> lease t k' = lease s k')"
    and exit_frame: "exit h s = (rx, t) \<Longrightarrow> now s \<le> now t
      \<and> (\<forall>k'. (lh_acquired h \<longrightarrow> k' \<noteq> lh_key h) \<longrightarrow> lease t k' = lease s k')"
    and enter_held: "enter k ttl wait s = (re, t) \<Longrightarrow> lease s k = Some x \<Longrightarrow> now t < x \<Longrightarrow>
      lease t k = Some x \<and> (\<forall>h. re = Inr h \<longrightarrow> \<not> lh_acquired h)"
    and enter_free: "enter k ttl wait s = (Inr h, t) \<Longrightarrow> lease s k = None \<Longrightarrow> lh_acquired h"
    and enter_expired: "enter k ttl wait s = (Inr h, t) \<Longrightarrow> lease s k = Some x \<Longrightarrow> x \<le> now s \<Longrightarrow>
      lh_acquired h"
    and enter_leases: "enter k ttl wait s = (Inr h, t) \<Longrightarrow> lh_acquired h \<Longrightarrow>
      lh_key h = k \<and> (\<exists>x \<ge> now s + of_int ttl / 1000. lease t k = Some x)"

datatype lock_call = Enter string int int | Exit lock_handle

fun run_lock_calls ::
  "(string \<Rightarrow> int \<Rightarrow> int \<Rightarrow> ('s, exn, lock_handle) prog) \<Rightarrow> (lock_handle \<Rightarrow> ('s, exn, unit) prog)
     \<Rightarrow> lock_call list \<Rightarrow> 's \<Rightarrow> 's" where
  "run_lock_calls en ex [] s = s"
| "run_lock_calls en ex (Enter k ttl wait # cs) s = run_lock_calls en ex cs (snd (en k ttl wait s))"
| "run_lock_calls en ex (Exit h # cs) s = run_lock_calls en ex cs (snd (ex h s))"

text \<open>The calls that give the key back: the exit of a handle that acquired it.\<close>

fun gives_back :: "string \<Rightarrow> lock_call \<Rightarrow> bool" where
  "gives_back k (Exit h) \<longleftrightarrow> lh_acquired h \<and> lh_key h = k"
| "gives_back k (Enter k' ttl wait) \<longleftrightarrow> False"

context distributed_lock begin

lemma lock_clock: "now s \<le> now (snd (enter k ttl wait s))" "now s \<le> now (snd (exit h s))"
  using enter_frame exit_frame by (metis prod.collapse)+

lemma run_lock_clock: "now s \<le> now (run_lock_calls enter exit cs s)"
proof (induction cs arbitrary: s)
  case (Cons c cs)
  then show ?case
    by (cases c) (auto intro: order_trans [OF lock_clock(1)] order_trans [OF lock_clock(2)])
qed simp

lemma lease_kept:
  assumes "lease s k = Some x" "now (run_lock_calls enter exit cs s) < x"
    and "\<forall>c \<in> set cs. \<not> gives_back k c"
  shows "lease (run_lock_calls enter exit cs s) k = Some x"
  using assms
proof (induction cs arbitrary: s)
  case (Cons c cs)
  show ?case
  proof (cases c)
    case (Enter k' ttl wait)
    obtain r t where run: "enter k' ttl wait s = (r, t)" by fastforce
    have "now t < x" using Cons.prems(2) run_lock_clock [of t cs] by (simp add: Enter run)
    with enter_frame [OF run] enter_held [OF run] Cons.prems(1) have "lease t k = Some x"
      by (cases "k' = k") auto
    with Cons Enter run show ?thesis by simp
  next
    case (Exit h)
    obtain r t where run: "exit h s = (r, t)" by fastforce
    have "\<not> gives_back k (Exit h)" using Cons.prems(3) Exit by simp
    with exit_frame [OF run] Cons.prems(1) have "lease t k = Some x" by auto
    with Cons Exit run show ?thesis by simp
  qed
qed simp

text \<open>Mutual exclusion: until its lease ends, an acquired key is not acquired again unless the
  holder gives it back.\<close>

lemma lock_exclusive:
  assumes "enter k ttl wait s = (Inr h, s1)" "lh_acquired h"
    and "\<forall>c \<in> set cs. \<not> gives_back k c"
    and "enter k ttl' wait' (run_lock_calls enter exit cs s1) = (Inr h', t)"
    and "now t < now s + of_int ttl / 1000"
  shows "\<not> lh_acquired h'"
proof -
  let ?u = "run_lock_calls enter exit cs s1"
  from enter_leases [OF assms(1,2)] obtain x where x: "lease s1 k = Some x"
      "now s + of_int ttl / 1000 \<le> x" by auto
  have "now ?u \<le> now t" using enter_frame [OF assms(4)] by simp
  with assms(5) x have "now ?u < x" "now t < x" by auto
  with lease_kept [OF x(1) _ assms(3)] enter_held [OF assms(4)] show ?thesis by auto
qed

end

section \<open>The adapter keeps the contract\<close>

definition lk_lease :: "'z memory_scheme \<Rightarrow> string \<Rightarrow> seconds option" where
  "lk_lease s k =
     (let h = holder_of s k in if ho_locked h then Some (ho_expires_at h) else None)"

lemma holder_of_put:
  "holder_of (s\<lparr>mm_holders := (mm_holders s)(k \<mapsto> h)\<rparr>) k' = (if k' = k then h else holder_of s k')"
  by (simp add: holder_of_def)

lemma holder_of_cong: "mm_holders t = mm_holders s \<Longrightarrow> holder_of t k = holder_of s k"
  by (simp add: holder_of_def)

lemma lk_acquired_run:
  obtains t x where "lk_acquired k h ttl s
      = (Inr \<lparr>lh_key = k, lh_token = [], lh_acquired = True\<rparr>, t)"
    "pr_now s \<le> pr_now t" "memory.more t = memory.more s" "x = pr_now s + of_int ttl / 1000"
    "\<And>k'. holder_of t k' = (if k' = k then \<lparr>ho_locked = True, ho_expires_at = x\<rparr> else holder_of s k')"
proof -
  obtain u where M: "monotonic s = (Inr (pr_now s), u)" "pr_now s \<le> pr_now u"
      "mm_holders u = mm_holders s" "memory.more u = memory.more s" by (rule monotonicE)
  from M show ?thesis
    by (intro that [of "snd (lk_acquired k h ttl s)" "pr_now s + of_int ttl / 1000"])
      (cases h, simp_all add: lk_acquired_def pbind_def pthen_def put_holder_def holder_of_def)
qed

definition lk_held :: "'z memory_scheme \<Rightarrow> string \<Rightarrow> bool" where
  "lk_held s k \<longleftrightarrow> ho_locked (holder_of s k) \<and> pr_now s < ho_expires_at (holder_of s k)"

lemma lease_expired_run:
  obtains t where "lease_expired h s = (Inr (ho_locked h \<and> ho_expires_at h \<le> pr_now s), t)"
    "pr_now s \<le> pr_now t" "memory.more t = memory.more s" "mm_holders t = mm_holders s"
proof (cases "ho_locked h")
  case True
  obtain u where M: "monotonic s = (Inr (pr_now s), u)" "pr_now s \<le> pr_now u"
      "mm_holders u = mm_holders s" "memory.more u = memory.more s" by (rule monotonicE)
  with True show ?thesis by (intro that [of u]) (simp_all add: lease_expired_def pbind_def)
next
  case False
  then show ?thesis by (intro that [of s]) (simp_all add: lease_expired_def)
qed

lemma lk_enter_run:
  assumes "lk_enter k ttl wait s = (re, t)"
  shows "pr_now s \<le> pr_now t \<and> memory.more t = memory.more s
    \<and> (\<forall>k'. k' \<noteq> k \<longrightarrow> holder_of t k' = holder_of s k')
    \<and> (if lk_held s k then re = Inr (lk_refused k) \<and> holder_of t k = holder_of s k
       else re = Inr \<lparr>lh_key = k, lh_token = [], lh_acquired = True\<rparr>
         \<and> (\<exists>x \<ge> pr_now s + of_int ttl / 1000.
              holder_of t k = \<lparr>ho_locked = True, ho_expires_at = x\<rparr>))"
proof -
  define h where "h = holder_of s k"
  define s1 where "s1 = s\<lparr>mm_holders := (mm_holders s)(k \<mapsto> h)\<rparr>"
  have s1: "pr_now s1 = pr_now s" "memory.more s1 = memory.more s"
      "\<And>k'. holder_of s1 k' = holder_of s k'"
    by (auto simp: s1_def holder_of_put h_def)
  obtain s2 where E: "lease_expired h s1 = (Inr (ho_locked h \<and> ho_expires_at h \<le> pr_now s), s2)"
    "pr_now s \<le> pr_now s2" "memory.more s2 = memory.more s" "mm_holders s2 = mm_holders s1"
    using lease_expired_run [of h s1] s1(1,2) by metis
  define h' where "h' = (if ho_locked h \<and> ho_expires_at h \<le> pr_now s then h\<lparr>ho_locked := False\<rparr> else h)"
  define s3 where "s3 = s2\<lparr>mm_holders := (mm_holders s2)(k \<mapsto> h')\<rparr>"
  have s3: "pr_now s3 = pr_now s2" "memory.more s3 = memory.more s"
      "\<And>k'. holder_of s3 k' = (if k' = k then h' else holder_of s k')"
    using E(3) s1(3) holder_of_cong [OF E(4)] by (auto simp: s3_def holder_of_put)
  have held: "ho_locked h' \<longleftrightarrow> lk_held s k" by (auto simp: h'_def lk_held_def h_def)
  have run: "(if lk_held s k
        then (if wait \<le> 0 then pret (lk_refused k)
              else (\<lambda>s. (Inr (lk_refused k), elapse (of_int wait / 1000) s)))
        else lk_acquired k h' ttl) s3 = (re, t)"
    using assms E(1)
    by (cases "wait \<le> 0"; cases "lk_held s k")
      (simp_all add: lk_enter_def h_def [symmetric] put_holder_def pbind_def pthen_def
        s1_def [symmetric] h'_def [symmetric] s3_def [symmetric] held)
  show ?thesis
  proof (cases "lk_held s k")
    case True
    then have "h' = holder_of s k" by (auto simp: h'_def lk_held_def h_def)
    with run True s3 E(2) show ?thesis
      by (auto simp: holder_of_cong [of "elapse d s3" s3 for d] split: if_splits)
  next
    case False
    obtain u x where "lk_acquired k h' ttl s3 = (Inr \<lparr>lh_key = k, lh_token = [], lh_acquired = True\<rparr>, u)"
      "pr_now s3 \<le> pr_now u" "memory.more u = memory.more s3" "x = pr_now s3 + of_int ttl / 1000"
      "\<And>k'. holder_of u k' = (if k' = k then \<lparr>ho_locked = True, ho_expires_at = x\<rparr> else holder_of s3 k')"
      by (rule lk_acquired_run) blast
    with run False s3 E(2) show ?thesis by auto
  qed
qed

lemma lk_exit_run:
  assumes "lk_exit h s = (rx, t)"
  shows "rx = Inr () \<and> pr_now t = pr_now s \<and> memory.more t = memory.more s
    \<and> (\<forall>k'. (lh_acquired h \<longrightarrow> k' \<noteq> lh_key h) \<longrightarrow> holder_of t k' = holder_of s k')
    \<and> (lh_acquired h \<longrightarrow> \<not> ho_locked (holder_of t (lh_key h)))"
  using assms by (auto simp: lk_exit_def put_holder_def holder_of_put Let_def split: if_splits)

interpretation lk: distributed_lock lk_enter lk_exit lk_lease pr_now
proof (unfold_locales, goal_cases)
  case 1
  then show ?case by (auto dest!: lk_enter_run simp: lk_lease_def)
next
  case 2
  then show ?case by (auto dest!: lk_exit_run simp: lk_lease_def)
next
  case (3 k ttl wait s re t x)
  with lk_enter_run [OF 3(1)] show ?case
    by (auto simp: lk_lease_def lk_held_def lk_refused_def Let_def split: if_splits)
next
  case (4 k ttl wait s h t)
  with lk_enter_run [OF 4(1)] show ?case
    by (auto simp: lk_lease_def lk_held_def Let_def split: if_splits)
next
  case (5 k ttl wait s h t x)
  with lk_enter_run [OF 5(1)] show ?case
    by (auto simp: lk_lease_def lk_held_def Let_def split: if_splits)
next
  case (6 k ttl wait s h t)
  with lk_enter_run [OF 6(1)] show ?case
    by (auto simp: lk_lease_def lk_refused_def Let_def split: if_splits)
qed

section \<open>Properties\<close>

text \<open>C15: of the in-memory lock: until its lease ends, an acquired key is not acquired a second
  time, unless a handle that acquired this key exits.\<close>

theorem lock_mutual_exclusion:
  assumes "lk_enter k ttl wait s = (Inr h, s1)" "lh_acquired h"
    and "\<forall>c \<in> set cs. \<not> gives_back k c"
    and "lk_enter k ttl' wait' (run_lock_calls lk_enter lk_exit cs s1) = (Inr h', t)"
    and "pr_now t < pr_now s + of_int ttl / 1000"
  shows "\<not> lh_acquired h'"
  using assms by (rule lk.lock_exclusive)

lemma lk_enter_fresh:
  "lk_enter k ttl 0 (memory_start 0 []) =
     (Inr \<lparr>lh_key = k, lh_token = [], lh_acquired = True\<rparr>,
      (memory_start 0 [])\<lparr>mm_holders := [k \<mapsto> \<lparr>ho_locked = True, ho_expires_at = of_int ttl / 1000\<rparr>]\<rparr>)"
  by (simp add: lk_enter_def lk_acquired_def lease_expired_def holder_of_def put_holder_def
      monotonic_def pbind_def pthen_def Let_def)

theorem lock_mutual_exclusion_witness:
  "\<not> lh_acquired (projr (fst (lk_enter ''w'' 5000 0
     (run_lock_calls lk_enter lk_exit [Enter ''w'' 5000 0, Enter ''v'' 5000 0]
       (snd (lk_enter ''w'' 5000 0 (memory_start 0 [])))))))"
proof -
  let ?s1 = "snd (lk_enter ''w'' 5000 0 (memory_start 0 []))"
  let ?u = "run_lock_calls lk_enter lk_exit [Enter ''w'' 5000 0, Enter ''v'' 5000 0] ?s1"
  obtain h t where r: "lk_enter ''w'' 5000 0 ?u = (Inr h, t)" "pr_now t = 0"
    by (simp add: lk_enter_fresh)
      (simp add: lk_enter_def lk_acquired_def lease_expired_def holder_of_def put_holder_def
        monotonic_def pbind_def pthen_def Let_def)
  from lock_mutual_exclusion [OF _ _ _ r(1), of 5000 0 "memory_start 0 []"] r
  show ?thesis by (simp add: lk_enter_fresh)
qed

text \<open>The exit of a handle whose lease ran out frees the lock even when another task has
  reclaimed it, so a third task acquires the key while the second still holds its lease. The
  comment in \<open>__aexit__\<close> says that this cannot happen; the exit does not compare holders.\<close>

theorem lock_exit_frees_reclaimed_lease:
  assumes "lk_enter k ttl wait s = (Inr a, s1)" "lh_acquired a"
    and "lk_enter k ttl wait (elapse d s1) = (Inr b, s2)" "lh_acquired b"
    and "lk_exit a s2 = (Inr (), s3)"
    and "lk_enter k ttl wait s3 = (Inr c, s4)"
  shows "lh_acquired c \<and> (\<exists>x. lk_lease s2 k = Some x \<and> pr_now (elapse d s1) + of_int ttl / 1000 \<le> x)"
proof -
  from assms(1,2) lk_enter_run [OF assms(1)] have a: "lh_key a = k"
    by (auto simp: lk_refused_def split: if_splits)
  with lk_exit_run [OF assms(5)] assms(2) have "lk_lease s3 k = None" by (simp add: lk_lease_def)
  from lk.enter_free [OF assms(6) this] lk.enter_leases [OF assms(3,4)] show ?thesis by auto
qed

theorem lock_exit_frees_reclaimed_lease_witness:
  "lh_acquired (projr (fst (lk_enter ''w'' 5000 0
     (snd (lk_exit \<lparr>lh_key = ''w'', lh_token = [], lh_acquired = True\<rparr>
       (snd (lk_enter ''w'' 5000 0 (elapse 6 (snd (lk_enter ''w'' 5000 0 (memory_start 0 [])))))))))))"
proof -
  let ?h = "\<lparr>lh_key = ''w'', lh_token = [], lh_acquired = True\<rparr>"
  let ?s1 = "snd (lk_enter ''w'' 5000 0 (memory_start 0 []))"
  let ?s2 = "snd (lk_enter ''w'' 5000 0 (elapse 6 ?s1))"
  let ?s3 = "snd (lk_exit ?h ?s2)"
  have 1: "lk_enter ''w'' 5000 0 (memory_start 0 []) = (Inr ?h, ?s1)" by (simp add: lk_enter_fresh)
  have 2: "lk_enter ''w'' 5000 0 (elapse 6 ?s1) = (Inr ?h, ?s2)"
    by (simp add: lk_enter_fresh)
      (simp add: lk_enter_def lk_acquired_def lease_expired_def holder_of_def put_holder_def
        monotonic_def pbind_def pthen_def Let_def elapse_def)
  have 3: "lk_exit ?h ?s2 = (Inr (), ?s3)"
    using lk_exit_run [of ?h ?s2] by (metis prod.collapse)
  obtain c s4 where 4: "lk_enter ''w'' 5000 0 ?s3 = (Inr c, s4)"
    using lk_enter_run [of "''w''" 5000 0 ?s3] by (metis prod.collapse)
  from lock_exit_frees_reclaimed_lease [OF 1 _ 2 _ 3 4] 4 show ?thesis by simp
qed

end
