(* ===== verification/Memory_Rate_Limit.thy ===== *)
theory Memory_Rate_Limit
  imports Memory_State
begin

text \<open>
  \<open>InMemoryRateLimiter\<close> of \<open>infrastructure/adapters/memory/locking.py\<close>: a fixed window per key.
  A window never admits more than its limit, and no interval of one window's length admits more
  than twice the limit, wherever it falls.
\<close>

section \<open>The adapter\<close>

text \<open>The decision at the reading \<open>now\<close>, and the window it stores.\<close>

definition rl_decide ::
  "rate_limit_policy \<Rightarrow> int \<Rightarrow> seconds \<Rightarrow> (seconds \<times> int) option
     \<Rightarrow> rate_limit_decision \<times> (seconds \<times> int)" where
  "rl_decide policy cost now window =
     (let (started_at, used) = (case window of None \<Rightarrow> (now, 0) | Some w \<Rightarrow> w);
          (started_at, used) =
            (if rl_window_seconds policy \<le> now - started_at then (now, 0) else (started_at, used))
      in if rl_limit policy < used + cost
         then (\<lparr>rd_allowed = False,
                rd_remaining = max 0 (rl_limit policy - used),
                rd_retry_after_seconds = max 0 (rl_window_seconds policy - (now - started_at))\<rparr>,
               (started_at, used))
         else let used = used + cost in
              (\<lparr>rd_allowed = True,
                rd_remaining = max 0 (rl_limit policy - used),
                rd_retry_after_seconds = 0\<rparr>,
               (started_at, used)))"

definition rl_composite :: "rate_limit_policy \<Rightarrow> string \<Rightarrow> string" where
  "rl_composite policy key = rl_name policy @ '':'' @ key"

definition rl_consume ::
  "string \<Rightarrow> rate_limit_policy \<Rightarrow> int \<Rightarrow> ('z memory_scheme, exn, rate_limit_decision) prog" where
  "rl_consume key policy cost =
     pbind monotonic (\<lambda>now s.
       let composite = rl_composite policy key;
           (decision, window) = rl_decide policy cost now (mm_windows s composite)
       in (Inr decision, s\<lparr>mm_windows := (mm_windows s)(composite \<mapsto> window)\<rparr>))"

section \<open>What a window admits\<close>

definition window_ok :: "rate_limit_policy \<Rightarrow> (seconds \<times> int) option \<Rightarrow> bool" where
  "window_ok policy w \<longleftrightarrow> (\<forall>st used. w = Some (st, used) \<longrightarrow> 0 \<le> used \<and> used \<le> rl_limit policy)"

lemma rl_decide_ok:
  "rl_decide policy cost now w = (d, w') \<Longrightarrow> window_ok policy w \<Longrightarrow> 0 \<le> cost \<Longrightarrow> 0 \<le> rl_limit policy
     \<Longrightarrow> window_ok policy (Some w')"
  by (auto simp: rl_decide_def window_ok_def Let_def split: option.splits if_splits prod.splits)

text \<open>A run of one policy on one key: the calls with their readings, and the cost each admits.\<close>

fun rl_run ::
  "rate_limit_policy \<Rightarrow> (seconds \<times> int) list \<Rightarrow> (seconds \<times> int) option \<Rightarrow> (seconds \<times> int) list" where
  "rl_run policy [] w = []"
| "rl_run policy ((now, cost) # cs) w =
     (let (d, w') = rl_decide policy cost now w
      in (now, if rd_allowed d then cost else 0) # rl_run policy cs (Some w'))"

text \<open>What is admitted from \<open>a\<close> on for the length \<open>len\<close>.\<close>

definition admitted :: "seconds \<Rightarrow> seconds \<Rightarrow> (seconds \<times> int) list \<Rightarrow> int" where
  "admitted a len grants =
     sum_list (map snd (filter (\<lambda>g. a \<le> fst g \<and> fst g < a + len) grants))"

lemma admitted_Nil [simp]: "admitted a len [] = 0"
  by (simp add: admitted_def)

lemma admitted_Cons [simp]:
  "admitted a len ((t, c) # gs) = (if a \<le> t \<and> t < a + len then c else 0) + admitted a len gs"
  by (simp add: admitted_def)

lemma rl_run_times: "map fst (rl_run policy cs w) = map fst cs"
  by (induction policy cs w rule: rl_run.induct) (auto split: prod.splits)

lemma admitted_late:
  assumes "\<forall>x \<in> set cs. a + len \<le> fst x"
  shows "admitted a len (rl_run policy cs w) = 0"
proof -
  have "\<forall>g \<in> set (rl_run policy cs w). a + len \<le> fst g"
    using assms rl_run_times [of policy cs w] by (metis (no_types) image_eqI image_iff list.set_map)
  then have "filter (\<lambda>g. a \<le> fst g \<and> fst g < a + len) (rl_run policy cs w) = []"
    by (auto simp: filter_empty_conv not_less)
  then show ?thesis by (simp add: admitted_def)
qed

text \<open>One decision: the window is kept or renewed, and what is admitted is counted in it.\<close>

lemma rl_decide_cases:
  assumes "rl_decide policy cost now w = (d, (st', used'))"
  obtains (Kept) st used where "w = Some (st, used)" "now - st < rl_window_seconds policy" "st' = st"
      "used' = used + (if rd_allowed d then cost else 0)"
    | (Renewed) "st' = now" "used' = (if rd_allowed d then cost else 0)"
      "\<forall>st used. w = Some (st, used) \<longrightarrow> rl_window_seconds policy \<le> now - st"
    | (Fresh) "w = None" "st' = now" "used' = (if rd_allowed d then cost else 0)"
  using assms by (cases w) (auto simp: rl_decide_def Let_def split: if_splits prod.splits)

definition room :: "rate_limit_policy \<Rightarrow> seconds \<Rightarrow> (seconds \<times> int) option \<Rightarrow> int" where
  "room policy a w =
     (case w of None \<Rightarrow> rl_limit policy
      | Some (st, used) \<Rightarrow> rl_limit policy - used + (if st < a then rl_limit policy else 0))"

text \<open>From a state on: what is left of its window, and one more window if it began before \<open>a\<close>.\<close>

lemma admitted_after:
  assumes "\<forall>x \<in> set cs. a \<le> fst x \<and> 0 \<le> snd x" "sorted (map fst cs)" "window_ok policy w"
    and "0 \<le> rl_limit policy"
  shows "admitted a (rl_window_seconds policy) (rl_run policy cs w) \<le> room policy a w"
  using assms
proof (induction cs arbitrary: w)
  case Nil
  then show ?case by (auto simp: window_ok_def room_def split: option.splits)
next
  case (Cons x cs)
  obtain now cost where x: "x = (now, cost)" by fastforce
  obtain d st' used' where d: "rl_decide policy cost now w = (d, (st', used'))"
    by (metis prod.collapse)
  have ok: "window_ok policy (Some (st', used'))"
    using rl_decide_ok [OF d] Cons.prems x by auto
  have IH: "admitted a (rl_window_seconds policy) (rl_run policy cs (Some (st', used')))
      \<le> room policy a (Some (st', used'))"
    using Cons.prems by (intro Cons.IH ok) auto
  have now: "a \<le> now" "0 \<le> cost" "\<forall>y \<in> set cs. now \<le> fst y"
    using Cons.prems(1,2) x by auto
  let ?c = "if rd_allowed d then cost else 0"
  have split: "admitted a (rl_window_seconds policy) (rl_run policy (x # cs) w)
      = (if now < a + rl_window_seconds policy then ?c else 0)
        + admitted a (rl_window_seconds policy) (rl_run policy cs (Some (st', used')))"
    using now(1) by (simp add: x d)
  from d show ?case
  proof (cases rule: rl_decide_cases)
    case (Kept st used)
    with IH split now show ?thesis by (auto simp: room_def)
  next
    case Fresh
    with IH split now show ?thesis by (auto simp: room_def)
  next
    case Renewed
    show ?thesis
    proof (cases "now < a + rl_window_seconds policy")
      case True
      then have "\<forall>st used. w = Some (st, used) \<longrightarrow> st < a" using Renewed(3) by fastforce
      with IH split now Renewed(1,2) Cons.prems(3) True show ?thesis
        by (auto simp: room_def window_ok_def split: option.splits)
    next
      case False
      then have "\<forall>y \<in> set cs. a + rl_window_seconds policy \<le> fst y" using now(3) by force
      from admitted_late [OF this] split False show ?thesis
        using Cons.prems(3,4) by (auto simp: room_def window_ok_def split: option.splits)
    qed
  qed
qed

text \<open>Wherever the interval falls.\<close>

lemma admitted_bound:
  assumes "\<forall>x \<in> set cs. 0 \<le> snd x" "sorted (map fst cs)" "window_ok policy w" "0 \<le> rl_limit policy"
  shows "admitted a (rl_window_seconds policy) (rl_run policy cs w) \<le> 2 * rl_limit policy"
  using assms
proof (induction cs arbitrary: w)
  case (Cons x cs)
  obtain now cost where x: "x = (now, cost)" by fastforce
  show ?case
  proof (cases "a \<le> now")
    case True
    then have "\<forall>y \<in> set (x # cs). a \<le> fst y \<and> 0 \<le> snd y" using Cons.prems x by force
    from admitted_after [OF this] Cons.prems
    have "admitted a (rl_window_seconds policy) (rl_run policy (x # cs) w) \<le> room policy a w" by simp
    also have "\<dots> \<le> 2 * rl_limit policy"
      using Cons.prems(3,4) by (auto simp: room_def window_ok_def split: option.splits)
    finally show ?thesis .
  next
    case False
    obtain d w' where d: "rl_decide policy cost now w = (d, w')" by (rule prod.exhaust)
    have "window_ok policy (Some w')" using rl_decide_ok [OF d] Cons.prems x by auto
    with Cons.IH [of "Some w'"] Cons.prems False show ?thesis by (simp add: x d)
  qed
qed simp

text \<open>The adapter's calls are such a run: each reads the clock, decides and stores.\<close>

lemma rl_consume_run:
  assumes "rl_consume key policy cost s = (r, t)"
  shows "\<exists>d w. rl_decide policy cost (pr_now s) (mm_windows s (rl_composite policy key)) = (d, w)
    \<and> r = Inr d \<and> mm_windows t = (mm_windows s)(rl_composite policy key \<mapsto> w)
    \<and> pr_now s \<le> pr_now t \<and> memory.more t = memory.more s"
proof -
  obtain u where M: "monotonic s = (Inr (pr_now s), u)" "pr_now s \<le> pr_now u"
      "mm_windows u = mm_windows s" "memory.more u = memory.more s" by (rule monotonicE)
  obtain d w where D: "rl_decide policy cost (pr_now s) (mm_windows s (rl_composite policy key)) = (d, w)"
    by (rule prod.exhaust)
  from assms M D show ?thesis by (auto simp: rl_consume_def pbind_def Let_def)
qed

text \<open>Calls of the adapter, each after a gap; what each admitted, with the reading it decided on.\<close>

fun rl_calls ::
  "string \<Rightarrow> rate_limit_policy \<Rightarrow> (seconds \<times> int) list \<Rightarrow> 'z memory_scheme \<Rightarrow> (seconds \<times> int) list" where
  "rl_calls key policy [] s = []"
| "rl_calls key policy ((gap, cost) # cs) s =
     (let s = elapse gap s in
      case rl_consume key policy cost s of
        (Inl _, t) \<Rightarrow> rl_calls key policy cs t
      | (Inr d, t) \<Rightarrow> (pr_now s, if rd_allowed d then cost else 0) # rl_calls key policy cs t)"

lemma rl_calls_run:
  "\<exists>ts. rl_calls key policy cs s = rl_run policy (zip ts (map snd cs)) (mm_windows s (rl_composite policy key))
     \<and> length ts = length cs \<and> sorted ts \<and> (\<forall>t \<in> set ts. pr_now s \<le> t)"
proof (induction cs arbitrary: s)
  case (Cons c cs)
  obtain gap cost where c: "c = (gap, cost)" by fastforce
  let ?s = "elapse gap s"
  obtain r t where R: "rl_consume key policy cost ?s = (r, t)" by (rule prod.exhaust)
  from rl_consume_run [OF R] obtain d w where
    D: "rl_decide policy cost (pr_now ?s) (mm_windows s (rl_composite policy key)) = (d, w)" "r = Inr d"
      "mm_windows t (rl_composite policy key) = Some w" "pr_now ?s \<le> pr_now t" by auto
  from Cons.IH [of t] obtain ts where
    T: "rl_calls key policy cs t = rl_run policy (zip ts (map snd cs)) (Some w)"
      "length ts = length cs" "sorted ts" "\<forall>x \<in> set ts. pr_now t \<le> x" using D(3) by auto
  have "\<forall>x \<in> set ts. pr_now ?s \<le> x" using T(4) D(4) by fastforce
  with R D T show ?case by (intro exI [of _ "pr_now ?s # ts"]) (auto simp: c)
qed simp

section \<open>Properties\<close>

text \<open>C16: however the calls on one key are spread in time, no interval of one window's length
  admits more than twice the policy's limit.\<close>

theorem rate_limit_bound:
  assumes "\<forall>c \<in> set calls. 0 \<le> snd c" "0 \<le> rl_limit policy"
    and "mm_windows s (rl_composite policy key) = None"
  shows "admitted a (rl_window_seconds policy) (rl_calls key policy calls s) \<le> 2 * rl_limit policy"
proof -
  from rl_calls_run [of key policy calls s] obtain ts where
    T: "rl_calls key policy calls s = rl_run policy (zip ts (map snd calls)) None"
      "length ts = length calls" "sorted ts" using assms(3) by auto
  have "\<forall>x \<in> set (zip ts (map snd calls)). 0 \<le> snd x"
    using assms(1) by (fastforce dest: set_zip_rightD)
  with T admitted_bound [of "zip ts (map snd calls)" policy None a] assms(2)
  show ?thesis by (simp add: window_ok_def)
qed

theorem rate_limit_bound_witness:
  "admitted 9 10 (rl_calls ''o'' \<lparr>rl_name = ''deposit'', rl_limit = 2, rl_window_seconds = 10\<rparr>
      [(9, 1), (0, 1), (1, 1), (0, 1), (0, 1)] (memory_start 0 [])) \<le> 4"
  using rate_limit_bound [of "[(9, 1), (0, 1), (1, 1), (0, 1), (0, 1)]"
      "\<lparr>rl_name = ''deposit'', rl_limit = 2, rl_window_seconds = 10\<rparr>" "memory_start 0 []" "''o''" 9]
  by (simp add: memory_start_def)

end
