(* ===== verification/Prometheus_Metrics.thy ===== *)
theory Prometheus_Metrics
  imports Ports
begin

text \<open>
  \<open>infrastructure/adapters/prometheus/metrics.py\<close>: which series each method of the metrics port
  moves. A counter is its value per label tuple; a histogram is its sum and, per bucket, the number
  of observations not above the bound, as the client library documents them.
\<close>

section \<open>Series\<close>

record histogram =
  hg_sum :: seconds
  hg_count :: nat
  hg_buckets :: "(seconds \<times> nat) list"

definition REQUEST_BUCKETS :: "seconds list" where
  "REQUEST_BUCKETS =
     [5 / 1000, 1 / 100, 25 / 1000, 5 / 100, 1 / 10, 25 / 100, 1 / 2, 8 / 10, 1, 3 / 2, 2, 3, 5, 10]"

definition OUTBOUND_BUCKETS :: "seconds list" where
  "OUTBOUND_BUCKETS = [1 / 100, 5 / 100, 1 / 10, 2 / 10, 4 / 10, 8 / 10, 3 / 2, 3, 10]"

definition new_histogram :: "seconds list \<Rightarrow> histogram" where
  "new_histogram bounds = \<lparr>hg_sum = 0, hg_count = 0, hg_buckets = map (\<lambda>b. (b, 0)) bounds\<rparr>"

definition hist_observe :: "seconds \<Rightarrow> histogram \<Rightarrow> histogram" where
  "hist_observe x h =
     \<lparr>hg_sum = hg_sum h + x, hg_count = hg_count h + 1,
      hg_buckets = map (\<lambda>(b, n). (b, if x \<le> b then n + 1 else n)) (hg_buckets h)\<rparr>"

record prometheus =
  pm_in_flight :: int
  pm_requests :: "string \<times> string \<times> string \<Rightarrow> nat"
  pm_request_duration :: "string \<times> string \<Rightarrow> histogram"
  pm_request_failures :: "string \<times> string \<times> string \<Rightarrow> nat"
  pm_interactors :: "string \<times> string \<Rightarrow> nat"
  pm_interactor_duration :: "string \<Rightarrow> histogram"
  pm_external_calls :: "string \<times> string \<times> string \<Rightarrow> nat"
  pm_external_duration :: "string \<times> string \<Rightarrow> histogram"
  pm_locks :: "string \<times> string \<Rightarrow> nat"
  pm_lock_wait :: "string \<Rightarrow> histogram"
  pm_rate_limits :: "string \<times> string \<Rightarrow> nat"

definition prometheus_new :: prometheus where
  "prometheus_new =
     \<lparr>pm_in_flight = 0, pm_requests = \<lambda>_. 0, pm_request_duration = \<lambda>_. new_histogram REQUEST_BUCKETS,
      pm_request_failures = \<lambda>_. 0, pm_interactors = \<lambda>_. 0,
      pm_interactor_duration = \<lambda>_. new_histogram REQUEST_BUCKETS,
      pm_external_calls = \<lambda>_. 0, pm_external_duration = \<lambda>_. new_histogram OUTBOUND_BUCKETS,
      pm_locks = \<lambda>_. 0, pm_lock_wait = \<lambda>_. new_histogram OUTBOUND_BUCKETS, pm_rate_limits = \<lambda>_. 0\<rparr>"

section \<open>Methods\<close>

definition inc :: "'a \<Rightarrow> ('a \<Rightarrow> nat) \<Rightarrow> 'a \<Rightarrow> nat" where
  "inc l c = c(l := c l + 1)"

definition timed :: "'a \<Rightarrow> seconds \<Rightarrow> ('a \<Rightarrow> histogram) \<Rightarrow> 'a \<Rightarrow> histogram" where
  "timed l x h = h(l := hist_observe x (h l))"

fun prometheus_observe :: "metric \<Rightarrow> prometheus \<Rightarrow> prometheus" where
  "prometheus_observe RequestStarted p = p\<lparr>pm_in_flight := pm_in_flight p + 1\<rparr>"
| "prometheus_observe (RequestFinished verb handler status_code duration) p =
     p\<lparr>pm_in_flight := pm_in_flight p - 1,
       pm_requests := inc (verb, handler, show_int status_code) (pm_requests p),
       pm_request_duration := timed (verb, handler) duration (pm_request_duration p)\<rparr>"
| "prometheus_observe (RequestFailed verb handler exception_type duration) p =
     p\<lparr>pm_in_flight := pm_in_flight p - 1,
       pm_request_failures := inc (verb, handler, exception_type) (pm_request_failures p),
       pm_request_duration := timed (verb, handler) duration (pm_request_duration p)\<rparr>"
| "prometheus_observe (ObserveInteractor name outcome duration) p =
     p\<lparr>pm_interactors := inc (name, outcome) (pm_interactors p),
       pm_interactor_duration := timed name duration (pm_interactor_duration p)\<rparr>"
| "prometheus_observe (ObserveExternalCall service operation outcome duration) p =
     p\<lparr>pm_external_calls := inc (service, operation, outcome) (pm_external_calls p),
       pm_external_duration := timed (service, operation) duration (pm_external_duration p)\<rparr>"
| "prometheus_observe (ObserveLock name outcome wait) p =
     p\<lparr>pm_locks := inc (name, outcome) (pm_locks p), pm_lock_wait := timed name wait (pm_lock_wait p)\<rparr>"
| "prometheus_observe (ObserveRateLimit policy decision) p =
     p\<lparr>pm_rate_limits := inc (policy, decision) (pm_rate_limits p)\<rparr>"

text \<open>What the gauge does, method by method.\<close>

definition gauge_step :: "metric \<Rightarrow> int" where
  "gauge_step m =
     (case m of RequestStarted \<Rightarrow> 1 | RequestFinished _ _ _ _ \<Rightarrow> - 1 | RequestFailed _ _ _ _ \<Rightarrow> - 1 | _ \<Rightarrow> 0)"

lemma prometheus_gauge: "pm_in_flight (prometheus_observe m p) = pm_in_flight p + gauge_step m"
  by (cases m) (simp_all add: gauge_step_def)

end
