(* ===== verification/Wiring.thy ===== *)
theory Wiring
  imports Use_Cases Repositories Memory_Locking Memory_Rate_Limit Prometheus_Metrics
begin

text \<open>
  The default wiring of \<open>setup/ioc/\<close>: the SQL repositories and transaction on one session, the
  in-process lock, idempotency store and rate limiter, the metrics the process was built with and
  the risk adapter that allows everything. \<open>world\<close> is the state of one process with one session
  open; the wall clock's readings and the UUIDs the generator draws are lists the state carries,
  and \<open>wd_metrics\<close> holds the series of the Prometheus adapter, \<open>None\<close> for the no-op one.

  \<open>sql_engine\<close> gives \<open>movement_backend\<close>: whatever the service proves of its ports holds of this
  wiring on any engine that keeps its documented behaviour.
\<close>

record 'd world = memory +
  wd_db :: 'd
  wd_clock :: "datetime list"
  wd_uuids :: "uuid list"
  wd_metrics :: "prometheus option"

definition world_start ::
  "'d \<Rightarrow> seconds \<Rightarrow> seconds list \<Rightarrow> datetime list \<Rightarrow> uuid list \<Rightarrow> 'd world" where
  "world_start db now delays clock uuids =
     memory.extend (memory_start now delays)
       \<lparr>wd_db = db, wd_clock = clock, wd_uuids = uuids, wd_metrics = None\<rparr>"

section \<open>The remaining adapters\<close>

definition on_db :: "('d, exn, 'a) prog \<Rightarrow> ('d world, exn, 'a) prog" where
  "on_db m = (\<lambda>s. case m (wd_db s) of (r, d) \<Rightarrow> (r, s\<lparr>wd_db := d\<rparr>))"

text \<open>\<open>SystemClock.now\<close>: the next reading of the host's clock.\<close>

definition system_clock_now :: "('d world, exn, datetime) prog" where
  "system_clock_now = (\<lambda>s.
     case wd_clock s of [] \<Rightarrow> (Inr 0, s) | t # ts \<Rightarrow> (Inr t, s\<lparr>wd_clock := ts\<rparr>))"

text \<open>\<open>Uuid7Generator.generate\<close>: \<open>UUID(str(uuid_utils.uuid7()))\<close> of the next value drawn.\<close>

definition uuid7_generate :: "('d world, exn, uuid) prog" where
  "uuid7_generate = (\<lambda>s.
     case wd_uuids s of
       [] \<Rightarrow> (uuid_parse (uuid_str 0), s)
     | u # us \<Rightarrow> (uuid_parse (uuid_str u), s\<lparr>wd_uuids := us\<rparr>))"

definition noop_observe :: "metric \<Rightarrow> ('s, exn, unit) prog" where
  "noop_observe m = pret ()"

text \<open>The one \<open>MetricsPort\<close> of the container: what \<open>create_container\<close> was given.\<close>

definition metrics_observe :: "metric \<Rightarrow> ('d world, exn, unit) prog" where
  "metrics_observe m = (\<lambda>s.
     case wd_metrics s of
       None \<Rightarrow> noop_observe m s
     | Some p \<Rightarrow> (Inr (), s\<lparr>wd_metrics := Some (prometheus_observe m p)\<rparr>))"

lemma metrics_observeE:
  assumes "metrics_observe m s = (r, t)"
  obtains p where "r = Inr ()" "t = s\<lparr>wd_metrics := p\<rparr>"
proof (cases "wd_metrics s")
  case None
  then show thesis using assms that [of "wd_metrics s"] by (simp add: metrics_observe_def noop_observe_def)
next
  case (Some p)
  then show thesis using assms that [of "Some (prometheus_observe m p)"] by (simp add: metrics_observe_def)
qed

lemma metrics_observe_returns: "\<exists>t. metrics_observe m s = (Inr (), t)"
  by (simp add: metrics_observe_def noop_observe_def split: option.split)

definition allow_all_assess :: "risk_check \<Rightarrow> ('s, exn, risk_decision) prog" where
  "allow_all_assess check =
     pret \<lparr>rk_outcome = ALLOWED, rk_reason = ''no provider configured'', rk_reference = []\<rparr>"

section \<open>The ports, bound\<close>

definition evenkeel_ports :: "'d engine \<Rightarrow> 'd world ports" where
  "evenkeel_ports E =
     \<lparr>wallets_read = (\<lambda>i ow fu. on_db (sqla_wallet_read E i ow fu)),
      wallets_list_by_owner = (\<lambda>ow limit cursor. on_db (sqla_wallet_list_by_owner E ow limit cursor)),
      wallets_add = (\<lambda>w. on_db (sqla_wallet_add E w)),
      wallets_update = (\<lambda>w v. on_db (sqla_wallet_update E w v)),
      ledger_add = (\<lambda>en. on_db (sqla_ledger_add E en)),
      ledger_read = (\<lambda>u ow. on_db (sqla_ledger_read E u ow)),
      ledger_list_by_wallet =
        (\<lambda>i ow limit cursor. on_db (sqla_ledger_list_by_wallet E i ow limit cursor)),
      tx_commit = on_db (en_commit E),
      tx_rollback = on_db (en_rollback E),
      lock_enter = lk_enter,
      lock_exit = lk_exit,
      idem_reserve = im_reserve,
      idem_confirm = im_confirm,
      idem_release = im_release,
      clock_now = system_clock_now,
      new_uuid = uuid7_generate,
      perf_counter = monotonic,
      rate_consume = rl_consume,
      risk_assess = allow_all_assess,
      observe = metrics_observe\<rparr>"

section \<open>The contract of the service holds\<close>

lemma on_dbE:
  assumes "on_db m s = (r, t)"
  obtains d where "m (wd_db s) = (r, d)" "t = s\<lparr>wd_db := d\<rparr>"
  using assms by (auto simp: on_db_def split: prod.splits)

lemma wd_db_more: "memory.more t = memory.more s \<Longrightarrow> wd_db t = wd_db s"
  by (cases s; cases t) simp

definition sess_book :: "('d \<Rightarrow> tables) \<Rightarrow> 'd world \<Rightarrow> book" where
  "sess_book tb s = book_of (tb (wd_db s))"

lemma quiet_more:
  assumes "\<And>s r t. m s = (r, t) \<Longrightarrow> memory.more t = memory.more s"
  shows "quiet (sess_book f) (sess_book g) m"
proof (rule quietI)
  fix s r t
  assume "m s = (r, t)"
  from wd_db_more [OF assms [OF this]]
  show "sess_book f t = sess_book f s \<and> sess_book g t = sess_book g s" by (simp add: sess_book_def)
qed

lemma still_on_db:
  assumes "\<And>d r d'. m d = (r, d') \<Longrightarrow> tb d' = tb d"
  shows "still (sess_book tb) (on_db m)"
  by (rule stillI) (auto elim!: on_dbE dest: assms simp: sess_book_def)

lemma more_memory_ops:
  "lk_enter k ttl wait s = (re, t) \<Longrightarrow> memory.more t = memory.more s"
  "lk_exit h s = (rx, t) \<Longrightarrow> memory.more t = memory.more s"
  "im_reserve k fp n s = (rr, t) \<Longrightarrow> memory.more t = memory.more s"
  "im_confirm k resp n s = (rc, t) \<Longrightarrow> memory.more t = memory.more s"
  "im_release k s = (rc, t) \<Longrightarrow> memory.more t = memory.more s"
  "monotonic s = (rm, t) \<Longrightarrow> memory.more t = memory.more s"
  using lk_enter_run lk_exit_run im_reserve_run im_confirm_run im_release_run
  by (metis, metis, metis, metis, metis, metis monotonicE prod.inject)

lemma quiet_metrics: "quiet (sess_book f) (sess_book g) (metrics_observe m)"
  by (rule quietI) (auto elim!: metrics_observeE simp: sess_book_def)

lemma quiet_clock: "quiet (sess_book f) (sess_book g) system_clock_now"
  by (rule quietI) (auto simp: system_clock_now_def sess_book_def split: list.splits)

lemma quiet_uuid: "quiet (sess_book f) (sess_book g) uuid7_generate"
  by (rule quietI) (auto simp: uuid7_generate_def sess_book_def split: list.splits)

sublocale sql_engine < wired: movement_backend
  "evenkeel_ports E" "sess_book sess_tb" "sess_book comm_tb"
proof (unfold_locales, unfold evenkeel_ports_def ports.simps, goal_cases)
  case 1
  show ?case by (rule still_on_db) (simp add: wallet_read_run)
next
  case (2 i ow fu s x t)
  then show ?case by (auto elim!: on_dbE dest!: wallet_read_run simp: sess_book_def)
next
  case (3 i ow fu s w t)
  then show ?case by (auto elim!: on_dbE dest!: wallet_read_run simp: sess_book_def)
next
  case (4 i ow fu s t)
  then show ?case by (auto elim!: on_dbE dest!: wallet_read_run simp: sess_book_def)
next
  case 5
  show ?case by (rule still_on_db) (simp add: wallet_update_run(1))
next
  case (6 w v s t)
  then show ?case by (auto elim!: on_dbE dest!: wallet_update_run(2) simp: sess_book_def)
next
  case (7 w v s t)
  then show ?case by (auto elim!: on_dbE dest!: wallet_update_run(3) simp: sess_book_def)
next
  case 8
  show ?case by (rule still_on_db) (simp add: ledger_add_run(1))
next
  case (9 en s t)
  then show ?case by (auto elim!: on_dbE dest!: ledger_add_run(2) simp: sess_book_def)
next
  case 10
  show ?case by (rule still_on_db) (simp add: ledger_read_run)
next
  case (11 u ow s y t)
  then show ?case by (auto elim!: on_dbE dest!: ledger_read_run simp: sess_book_def)
next
  case (12 u ow s en t)
  then show ?case by (auto elim!: on_dbE dest!: ledger_read_run simp: sess_book_def)
next
  case (13 s t)
  then show ?case by (auto elim!: on_dbE dest!: commit_done simp: sess_book_def)
next
  case (14 s e t)
  then show ?case by (auto elim!: on_dbE dest!: commit_raised simp: sess_book_def)
next
  case 15
  show ?case by (rule still_on_db) (simp add: rollback_uncommitted)
next
  case (16 s t)
  then show ?case by (auto elim!: on_dbE dest!: rollback_done simp: sess_book_def)
qed (auto intro!: quiet_more quiet_metrics quiet_clock quiet_uuid dest: more_memory_ops)

context sql_engine begin

lemma wired_backend: "movement_backend (evenkeel_ports E) (sess_book sess_tb) (sess_book comm_tb)"
  by (rule wired.movement_backend_axioms)

end

text \<open>Nothing in the process can fail between the commit and the answer; a server with atomic commits
  makes it a reliable backend.\<close>

sublocale sql_engine < wired: returning_backend
  "evenkeel_ports E" "sess_book sess_tb" "sess_book comm_tb"
proof (unfold_locales, unfold evenkeel_ports_def ports.simps, goal_cases)
  case (1 h s)
  then show ?case using lk_exit_run [of h s] by (metis prod.collapse)
next
  case (2 m s)
  show ?case by (rule metrics_observe_returns)
next
  case (3 s)
  then show ?case by (rule monotonicE [of s]) blast
next
  case (4 k r n s e t)
  then show ?case using im_confirm_run [of k r n s "Inl e" t] by simp
qed

context sql_engine begin

lemma wired_returning: "returning_backend (evenkeel_ports E) (sess_book sess_tb) (sess_book comm_tb)"
  by (rule wired.returning_backend_axioms)

end

sublocale atomic_sql_engine < wired: reliable_backend
  "evenkeel_ports E" "sess_book sess_tb" "sess_book comm_tb"
  by unfold_locales (auto simp: evenkeel_ports_def sess_book_def elim!: on_dbE dest!: commit_atomic)

context atomic_sql_engine begin

lemma wired_reliable: "reliable_backend (evenkeel_ports E) (sess_book sess_tb) (sess_book comm_tb)"
  by (rule wired.reliable_backend_axioms)

end

section \<open>The idempotency contract holds\<close>

lemma on_db_more: "on_db m s = (r, t) \<Longrightarrow> mm_entries t = mm_entries s \<and> pr_now t = pr_now s"
  by (auto elim: on_dbE)

lemma monotonic_entries: "monotonic s = (r, t) \<Longrightarrow> mm_entries t = mm_entries s \<and> pr_now s \<le> pr_now t
    \<and> memory.more t = memory.more s"
  by (rule monotonicE [of s]) auto

lemma lock_entries:
  "lk_enter k ttl wait s = (re, t) \<Longrightarrow> mm_entries t = mm_entries s"
  "lk_exit h s = (rx, t) \<Longrightarrow> mm_entries t = mm_entries s"
  by (auto simp: lk_enter_def lk_exit_def lk_acquired_def lease_expired_def put_holder_def Let_def
      elapse_def elim!: pbindE pthenE dest!: monotonic_entries split: if_splits)

lemma memory_steady:
  assumes "\<And>s r t. m s = (r, t) \<Longrightarrow> mm_entries t = mm_entries s \<and> pr_now s \<le> pr_now t"
  shows "steady mm_entries pr_now K m"
  by (rule steadyI) (auto dest: assms)

sublocale sql_engine < keyed: keyed_backend
  "evenkeel_ports E" "sess_book sess_tb" "sess_book comm_tb" mm_entries pr_now
proof (rule keyed_backend.intro [OF wired_backend _ keyed_backend_axioms.intro], goal_cases)
  case 1
  show ?case unfolding evenkeel_ports_def ports.simps by (rule im.claims.claim_store_axioms)
next
  case (14 u ow s t)
  then show ?case
    by (auto simp: evenkeel_ports_def elim!: on_dbE dest!: ledger_read_missing simp: sess_book_def)
qed (unfold evenkeel_ports_def ports.simps, auto intro!: memory_steady dest: on_db_more
    monotonic_entries lock_entries lk.enter_frame [THEN conjunct1] lk.exit_frame [THEN conjunct1]
    elim!: metrics_observeE simp: system_clock_now_def uuid7_generate_def split: list.splits)

context sql_engine begin

lemma wired_keyed:
  "keyed_backend (evenkeel_ports E) (sess_book sess_tb) (sess_book comm_tb) mm_entries pr_now"
  by (rule keyed.keyed_backend_axioms)

end

section \<open>The contracts of the use cases hold\<close>

sublocale sql_engine < wired: wallet_backend
  "evenkeel_ports E" "sess_book sess_tb" "sess_book comm_tb"
proof (unfold_locales, unfold evenkeel_ports_def ports.simps, goal_cases)
  case 1
  show ?case by (rule still_on_db) (simp add: wallet_add_run(1))
next
  case (2 w s t)
  then show ?case by (auto elim!: on_dbE dest!: wallet_add_run(2) simp: sess_book_def)
qed

text \<open>Any risk adapter that stays out of the database and of the store can take the place of the
  default one.\<close>

definition harmless_risk ::
  "('d \<Rightarrow> tables) \<Rightarrow> ('d \<Rightarrow> tables) \<Rightarrow> (risk_check \<Rightarrow> ('d world, exn, risk_decision) prog) \<Rightarrow> bool" where
  "harmless_risk sess_tb comm_tb R \<longleftrightarrow> (\<forall>check. quiet (sess_book sess_tb) (sess_book comm_tb) (R check)
     \<and> steady mm_entries pr_now {} (R check))"

lemma allow_all_harmless [simp]: "harmless_risk sess_tb comm_tb allow_all_assess"
  by (simp add: harmless_risk_def allow_all_assess_def)

abbreviation evenkeel_with_risk ::
  "'d engine \<Rightarrow> (risk_check \<Rightarrow> ('d world, exn, risk_decision) prog) \<Rightarrow> 'd world ports" where
  "evenkeel_with_risk E R \<equiv> evenkeel_ports E\<lparr>risk_assess := R\<rparr>"

lemma evenkeel_default_risk: "evenkeel_with_risk E allow_all_assess = evenkeel_ports E"
  by (simp add: evenkeel_ports_def)

lemma keyed_risk:
  "keyed_backend (P\<lparr>risk_assess := R\<rparr>) sess comm slots now = keyed_backend P sess comm slots now"
  by (simp add: keyed_backend_def keyed_backend_axioms_def movement_backend_def issued_def)

lemma wallet_risk: "wallet_backend (P\<lparr>risk_assess := R\<rparr>) sess comm = wallet_backend P sess comm"
  by (simp add: wallet_backend_def wallet_backend_axioms_def movement_backend_def)

lemma rate_consume_more: "rl_consume k policy cost s = (r, t) \<Longrightarrow> memory.more t = memory.more s
    \<and> mm_entries t = mm_entries s \<and> pr_now s \<le> pr_now t"
  by (auto simp: rl_consume_def Let_def elim!: pbindE dest!: monotonic_entries
      split: prod.splits)

context sql_engine begin

lemma wired_use_cases:
  assumes "harmless_risk sess_tb comm_tb R"
  shows "use_cases (evenkeel_with_risk E R) (sess_book sess_tb) (sess_book comm_tb) mm_entries pr_now"
proof (rule use_cases.intro)
  show "keyed_backend (evenkeel_with_risk E R) (sess_book sess_tb) (sess_book comm_tb) mm_entries pr_now"
    unfolding keyed_risk by (rule wired_keyed)
  then have mb: "movement_backend (evenkeel_with_risk E R) (sess_book sess_tb) (sess_book comm_tb)"
    by (rule keyed_backend.axioms(1))
  have "gated_backend (evenkeel_with_risk E R) (sess_book sess_tb) (sess_book comm_tb)"
    using assms by (intro gated_backend.intro [OF mb] gated_backend_axioms.intro)
      (auto simp: harmless_risk_def evenkeel_ports_def intro!: quiet_more dest: rate_consume_more)
  moreover have "wallet_backend (evenkeel_with_risk E R) (sess_book sess_tb) (sess_book comm_tb)"
    unfolding wallet_risk by (rule wired.wallet_backend_axioms)
  ultimately show "bookkeeping (evenkeel_with_risk E R) (sess_book sess_tb) (sess_book comm_tb)"
    by (rule bookkeeping.intro)
  show "use_cases_axioms (evenkeel_with_risk E R) mm_entries pr_now"
    using assms by (intro use_cases_axioms.intro)
      (auto simp: harmless_risk_def evenkeel_ports_def intro!: memory_steady
        dest: rate_consume_more on_db_more)
qed

end

sublocale sql_engine < wired: use_cases
  "evenkeel_ports E" "sess_book sess_tb" "sess_book comm_tb" mm_entries pr_now
  using wired_use_cases [OF allow_all_harmless] by (simp add: evenkeel_default_risk)

section \<open>Other adapters\<close>

text \<open>The adapters that the settings choose; the repositories, the clocks and the metrics are the ones above.\<close>

record 's adapters =
  ad_lock_enter :: "string \<Rightarrow> int \<Rightarrow> int \<Rightarrow> ('s, exn, lock_handle) prog"
  ad_lock_exit :: "lock_handle \<Rightarrow> ('s, exn, unit) prog"
  ad_reserve :: "string \<Rightarrow> string \<Rightarrow> int \<Rightarrow> ('s, exn, idempotency_reservation) prog"
  ad_confirm :: "string \<Rightarrow> response \<Rightarrow> int \<Rightarrow> ('s, exn, unit) prog"
  ad_release :: "string \<Rightarrow> ('s, exn, unit) prog"
  ad_consume :: "string \<Rightarrow> rate_limit_policy \<Rightarrow> int \<Rightarrow> ('s, exn, rate_limit_decision) prog"
  ad_assess :: "risk_check \<Rightarrow> ('s, exn, risk_decision) prog"

definition with_adapters :: "'d engine \<Rightarrow> 'd world adapters \<Rightarrow> 'd world ports" where
  "with_adapters E X =
     (evenkeel_ports E)
       \<lparr>lock_enter := ad_lock_enter X, lock_exit := ad_lock_exit X, idem_reserve := ad_reserve X,
        idem_confirm := ad_confirm X, idem_release := ad_release X, rate_consume := ad_consume X,
        risk_assess := ad_assess X\<rparr>"

definition in_process :: "(risk_check \<Rightarrow> ('d world, exn, risk_decision) prog) \<Rightarrow> 'd world adapters" where
  "in_process R =
     \<lparr>ad_lock_enter = lk_enter, ad_lock_exit = lk_exit, ad_reserve = im_reserve, ad_confirm = im_confirm,
      ad_release = im_release, ad_consume = rl_consume, ad_assess = R\<rparr>"

lemma with_in_process: "with_adapters E (in_process R) = evenkeel_with_risk E R"
  by (simp add: with_adapters_def in_process_def evenkeel_ports_def)

lemma default_adapters: "with_adapters E (in_process allow_all_assess) = evenkeel_ports E"
  by (simp add: with_in_process evenkeel_default_risk)

text \<open>They stay out of the database.\<close>

definition harmless_adapters :: "('d \<Rightarrow> tables) \<Rightarrow> ('d \<Rightarrow> tables) \<Rightarrow> 'd world adapters \<Rightarrow> bool" where
  "harmless_adapters sess_tb comm_tb X \<longleftrightarrow>
     (\<forall>k ttl wait h fp n resp policy check.
        quiet (sess_book sess_tb) (sess_book comm_tb) (ad_lock_enter X k ttl wait)
      \<and> quiet (sess_book sess_tb) (sess_book comm_tb) (ad_lock_exit X h)
      \<and> quiet (sess_book sess_tb) (sess_book comm_tb) (ad_reserve X k fp n)
      \<and> quiet (sess_book sess_tb) (sess_book comm_tb) (ad_confirm X k resp n)
      \<and> quiet (sess_book sess_tb) (sess_book comm_tb) (ad_release X k)
      \<and> quiet (sess_book sess_tb) (sess_book comm_tb) (ad_consume X k policy n)
      \<and> quiet (sess_book sess_tb) (sess_book comm_tb) (ad_assess X check))"

lemma harmless_in_process:
  "harmless_risk sess_tb comm_tb R \<Longrightarrow> harmless_adapters sess_tb comm_tb (in_process R)"
  by (auto simp: harmless_adapters_def in_process_def harmless_risk_def intro!: quiet_more
      dest: more_memory_ops rate_consume_more)

lemmas harmless_default = harmless_in_process [OF allow_all_harmless]

context sql_engine begin

lemma adapters_movement:
  assumes "harmless_adapters sess_tb comm_tb X"
  shows "movement_backend (with_adapters E X) (sess_book sess_tb) (sess_book comm_tb)"
  using wired_backend assms
  by (auto simp: movement_backend_def with_adapters_def evenkeel_ports_def harmless_adapters_def)

lemma adapters_gated:
  assumes "harmless_adapters sess_tb comm_tb X"
  shows "gated_backend (with_adapters E X) (sess_book sess_tb) (sess_book comm_tb)"
  using assms by (intro gated_backend.intro adapters_movement gated_backend_axioms.intro)
    (auto simp: with_adapters_def harmless_adapters_def)

lemma adapters_wallet:
  assumes "harmless_adapters sess_tb comm_tb X"
  shows "wallet_backend (with_adapters E X) (sess_book sess_tb) (sess_book comm_tb)"
  using wired.wallet_backend_axioms adapters_movement [OF assms]
  by (simp add: wallet_backend_def wallet_backend_axioms_def with_adapters_def)

lemmas adapters_bookkeeping = bookkeeping.intro [OF adapters_gated adapters_wallet]

end

text \<open>With atomic commits, adapters whose release cannot fail and whose confirm is not cancelled leave nothing
  that can fail between the commit and the answer. The ones in the process are such.\<close>

lemma in_process_returns:
  "\<exists>t. ad_lock_exit (in_process R) h s = (Inr (), t)"
  "ad_confirm (in_process R) k resp n s = (Inl e, t) \<Longrightarrow> is_exception e"
  using lk_exit_run [of h s] im_confirm_run [of k resp n s "Inl e" t]
  by (simp_all add: in_process_def) (metis prod.collapse)

context sql_engine begin

lemma adapters_returning:
  assumes "harmless_adapters sess_tb comm_tb X" "\<And>h s. \<exists>t. ad_lock_exit X h s = (Inr (), t)"
    and "\<And>k resp n s e t. ad_confirm X k resp n s = (Inl e, t) \<Longrightarrow> is_exception e"
  shows "returning_backend (with_adapters E X) (sess_book sess_tb) (sess_book comm_tb)"
  using adapters_movement [OF assms(1)] wired_returning assms(2,3)
  by (auto simp: returning_backend_def returning_backend_axioms_def with_adapters_def)

end

context atomic_sql_engine begin

lemma adapters_reliable:
  assumes "harmless_adapters sess_tb comm_tb X" "\<And>h s. \<exists>t. ad_lock_exit X h s = (Inr (), t)"
    and "\<And>k resp n s e t. ad_confirm X k resp n s = (Inl e, t) \<Longrightarrow> is_exception e"
  shows "reliable_backend (with_adapters E X) (sess_book sess_tb) (sess_book comm_tb)"
  using adapters_returning [OF assms] wired_reliable
  by (auto simp: reliable_backend_def reliable_backend_axioms_def with_adapters_def)

end

end
