(* ===== verification/Guarantees.thy ===== *)
theory Guarantees
  imports Wiring
begin

text \<open>
  What the composed program guarantees: the movement service on the SQL repositories and the
  in-process adapters (\<open>evenkeel_ports\<close>), on any engine that keeps its documented behaviour
  (\<open>sql_engine\<close>) or commits atomically (\<open>atomic_sql_engine\<close>). Each statement has a witness: a run
  of the whole stack on a concrete world with the reference engine, evaluated in the kernel.
\<close>

abbreviation committed :: "('d \<Rightarrow> tables) \<Rightarrow> 'd world \<Rightarrow> book" where
  "committed comm_tb s \<equiv> sess_book comm_tb s"

section \<open>A concrete world\<close>

definition demo_wallet :: wallet where
  "demo_wallet =
     \<lparr>w_id = WalletId 7, w_owner_id = OwnerId 1,
      w_balance = \<lparr>m_amount = Fin False 10000 (- 2), m_currency = CurrencyCode ''EUR''\<rparr>,
      w_status = OPEN, w_version = 0, w_created_at = 10, w_updated_at = 20\<rparr>"

definition demo_tables :: tables where
  "demo_tables = empty_tables\<lparr>tb_wallets :=
     DAList.update 7 (snd (wallet_to_row demo_wallet)) DAList.empty\<rparr>"

definition demo_world :: "fault list \<Rightarrow> ref_db world" where
  "demo_world faults = world_start (ref_start demo_tables faults) 0 [] [100, 200] [55, 66]"

definition demo_request :: movement_request where
  "demo_request =
     \<lparr>mr_wallet_id = WalletId 7, mr_owner_id = OwnerId 1,
      mr_amount = \<lparr>m_amount = Fin False 255 (- 1), m_currency = CurrencyCode ''EUR''\<rparr>,
      mr_direction = DEBIT, mr_description = '' rent '', mr_idempotency_key = None\<rparr>"

lemmas service_defs =
  mv_apply_def mv_claim_def mv_replay_def with_lock_def mv_locked_body_def mv_apply_locked_def
  mv_write_def mv_refuse_def mv_release_def mv_confirm_def pbind_def pthen_def pfinally_def
  pcatch_def movement_settings_default_def Let_def

lemmas sql_defs =
  sqla_wallet_read_def ref_engine_def ref_atomic_engine_def ref_atomic_commit_def ref_execute_def ref_commit_def ref_rollback_def
  next_fault_def ref_start_def select_wallet_by_id select_entry_by_id update_wallet_by_version
  one_or_none_def wallet_rows_def entry_rows_def wallet_to_row_def wallet_to_entity_def
  currency_new_def value_object_post_init_def currency_validate_def py_isalpha_def py_isupper_def
  is_upper_def is_lower_def is_alpha_def code_def wallet_status_of_def money_new_def
  money_validate_cases valid_amount_def amount_cents_Fin cents_limit_def wallet_new_def
  entity_init_def dec_lt_zero_def empty_tables_def sqla_wallet_update_def sqla_ledger_add_def
  sqla_ledger_read_def entry_to_entity_def direction_of_def entry_to_row_def check_wallet_row_def
  check_entry_row_def sql_numeric_def row_count_def set_wallet_row_def dec_le_zero_def

lemmas memory_defs =
  on_db_def evenkeel_ports_def monotonic_def lk_enter_def lk_exit_def lk_acquired_def
  lease_expired_def holder_of_def put_holder_def metrics_observe_def noop_observe_def system_clock_now_def
  uuid7_generate_def world_start_def memory_start_def memory.defs im_reserve_def im_confirm_def
  im_release_def im_live_def put_entry_def drop_entry_def taken_def ie_completed_def
  may_proceed_def reserved_def

lemmas entity_defs =
  wallet_move_def wallet_withdraw_def wallet_deposit_def wallet_require_open_def
  require_positive_def money_lt_def money_sub_def money_add_def assert_same_currency_def
  dec_lt_def scaled_def dec_sub_def dec_fix_def ndigits_def wallet_touch_def ledger_record_def
  dec_prec_def dec_etiny_def dec_emax_def dec_etop_def show_nat.simps py_strip_def is_space_def

lemmas demo_defs = demo_wallet_def demo_tables_def demo_world_def demo_request_def

lemmas run_demo = service_defs sql_defs memory_defs entity_defs demo_defs

lemma demo_valid: "valid_money (mr_amount demo_request)"
  by (simp add: demo_request_def valid_money_def valid_amount_def amount_cents_Fin cents_limit_def)

lemma demo_fresh: "sess_book rf_sess (demo_world fs) = committed rf_comm (demo_world fs)"
  by (simp add: sess_book_def demo_world_def world_start_def ref_start_def memory.defs)

lemma demo_run:
  "\<exists>t. mv_apply (evenkeel_ports ref_engine) movement_settings_default demo_request (demo_world [])
     = (Inr \<lparr>mo_wallet = demo_wallet\<lparr>w_balance := \<lparr>m_amount = Fin False 7450 (- 2),
                m_currency = CurrencyCode ''EUR''\<rparr>, w_version := 1, w_updated_at := 100\<rparr>,
             mo_entry = \<lparr>le_id = LedgerEntryId 55, le_wallet_id = WalletId 7, le_direction = DEBIT,
               le_amount = mr_amount demo_request,
               le_balance_after = \<lparr>m_amount = Fin False 7450 (- 2),
                 m_currency = CurrencyCode ''EUR''\<rparr>,
               le_description = ''rent'', le_occurred_at = 100\<rparr>,
             mo_replayed = False,
             mo_balance = \<lparr>m_amount = Fin False 7450 (- 2), m_currency = CurrencyCode ''EUR''\<rparr>\<rparr>, t)"
  by (simp add: run_demo del: eval_stmt.simps(1,3,4))

section \<open>Properties\<close>

text \<open>C1: a movement happens entirely or not at all, whatever lock, store, limiter and risk adapter the settings
  choose and whatever they answer. Whatever fails on the way, the committed books
  afterwards are the ones before, or the ones before with exactly the requested movement posted:
  one ledger entry and the account it moves. A fresh answer reports that posting, with the
  balance it left; a replayed answer reports a posting already in the books and changes nothing.\<close>

theorem movement_all_or_nothing:
  assumes "sql_engine E sess_tb comm_tb" and "harmless_adapters sess_tb comm_tb X"
    and "sess_book sess_tb s = committed comm_tb s" "valid_money (mr_amount req)"
    and "mv_apply (with_adapters E X) cfg req s = (r, t)"
  shows "case r of
      Inl e \<Rightarrow> committed comm_tb t = committed comm_tb s
        \<or> (\<exists>u now. post_request req u now (committed comm_tb s) = Some (committed comm_tb t))
    | Inr out \<Rightarrow>
        if mo_replayed out
        then committed comm_tb t = committed comm_tb s \<and> replays req (committed comm_tb s) out
        else reports req out (committed comm_tb s) (committed comm_tb t)"
  using movement_backend.apply_run [OF sql_engine.adapters_movement [OF assms(1,2)] assms(5,3,4)]
  by (auto simp: applied_def replays_def split: sum.splits)

theorem movement_all_or_nothing_witness:
  "\<exists>out t. mv_apply (evenkeel_ports ref_engine) movement_settings_default demo_request (demo_world [])
     = (Inr out, t)
   \<and> reports demo_request out (committed rf_comm (demo_world [])) (committed rf_comm t)
   \<and> cents (mo_balance out) = 7450"
proof -
  from demo_run obtain out t where run:
    "mv_apply (evenkeel_ports ref_engine) movement_settings_default demo_request (demo_world [])
       = (Inr out, t)" "\<not> mo_replayed out" "cents (mo_balance out) = 7450"
    by (auto simp: cents_def amount_cents_Fin)
  from movement_all_or_nothing [OF ref.sql_engine_axioms harmless_default demo_fresh demo_valid
      run(1) [folded default_adapters]] run
  show ?thesis by auto
qed

text \<open>C2: if the database's commit is atomic, and the lock's release cannot fail and the store's confirm is not
  cancelled, then an exception out of a movement means that nothing happened: the committed books are what they
  were. The adapters in the process are so (\<open>in_process_returns\<close>). The release on Redis is not: there an error
  can hide a commit (\<open>lost_release_hides_commit\<close>), so the claim is not made of that deployment.\<close>

theorem movement_error_means_nothing:
  assumes "atomic_sql_engine E sess_tb comm_tb" and "harmless_adapters sess_tb comm_tb X"
    and "\<And>h s. \<exists>t. ad_lock_exit X h s = (Inr (), t)"
    and "\<And>k resp n s e t. ad_confirm X k resp n s = (Inl e, t) \<Longrightarrow> is_exception e"
    and "mv_apply (with_adapters E X) cfg req s = (Inl e, t)"
  shows "committed comm_tb t = committed comm_tb s"
  using reliable_backend.apply_undone [OF atomic_sql_engine.adapters_reliable [OF assms(1-4)]] assms(5)
  by (rule undoneD)

theorem movement_error_means_nothing_witness:
  "\<exists>t. mv_apply (evenkeel_ports ref_atomic_engine) movement_settings_default demo_request
         (demo_world [Healthy, Healthy, Healthy, FailsAfter (PyExn ''OperationalError'')])
       = (Inl (PyExn ''OperationalError''), t)
     \<and> committed rf_comm t = book_of demo_tables"
proof -
  let ?s = "demo_world [Healthy, Healthy, Healthy, FailsAfter (PyExn ''OperationalError'')]"
  obtain t where run: "mv_apply (evenkeel_ports ref_atomic_engine) movement_settings_default
      demo_request ?s = (Inl (PyExn ''OperationalError''), t)"
    by (simp add: run_demo del: eval_stmt.simps(1,3,4))
  moreover have "committed rf_comm ?s = book_of demo_tables"
    by (simp add: sess_book_def demo_world_def world_start_def ref_start_def memory.defs)
  ultimately show ?thesis
    using movement_error_means_nothing [OF ref_atomic.atomic_sql_engine_axioms harmless_default
      in_process_returns(1) in_process_returns(2) run [folded default_adapters]] by auto
qed

text \<open>A movement touches no account but the requested one, and that one only for its owner, with
  every choice of lock, store, limiter and risk adapter.\<close>

lemma movement_isolation:
  assumes "sql_engine E sess_tb comm_tb" and "harmless_adapters sess_tb comm_tb X"
    and "sess_book sess_tb s = committed comm_tb s" "valid_money (mr_amount req)"
    and "mv_apply (with_adapters E X) cfg req s = (r, t)"
    and "j \<noteq> mr_wallet_id req
      \<or> owned (committed comm_tb s) (mr_wallet_id req) (mr_owner_id req) = None"
  shows "bk_accounts (committed comm_tb t) j = bk_accounts (committed comm_tb s) j
    \<and> wallet_postings (committed comm_tb t) j = wallet_postings (committed comm_tb s) j"
proof -
  have "committed comm_tb t = committed comm_tb s
      \<or> (\<exists>u now. post_request req u now (committed comm_tb s) = Some (committed comm_tb t))"
    using movement_backend.apply_run [OF sql_engine.adapters_movement [OF assms(1,2)] assms(5,3,4)]
    by (auto simp: applied_def reports_def split: sum.splits)
  then show ?thesis
  proof (elim disjE exE)
    fix u now
    assume p: "post_request req u now (committed comm_tb s) = Some (committed comm_tb t)"
    then have "owned (committed comm_tb s) (mr_wallet_id req) (mr_owner_id req) \<noteq> None"
      by (auto simp: post_request_def elim!: postE simp: owned_Some)
    with assms(6) have "j \<noteq> mr_wallet_id req" by blast
    from post_other_accounts [OF p [unfolded post_request_def] this] show ?thesis .
  qed simp
qed

lemma movement_isolation_witness:
  "bk_accounts (committed rf_comm (snd (mv_apply (evenkeel_ports ref_engine)
      movement_settings_default (demo_request\<lparr>mr_owner_id := OwnerId 2\<rparr>) (demo_world [])))) (WalletId 7)
    = Some (account_of demo_wallet)"
proof -
  let ?req = "demo_request\<lparr>mr_owner_id := OwnerId 2\<rparr>"
  obtain r t where run: "mv_apply (evenkeel_ports ref_engine) movement_settings_default ?req
      (demo_world []) = (r, t)" by fastforce
  have start: "committed rf_comm (demo_world []) = book_of demo_tables"
    by (simp add: sess_book_def demo_world_def world_start_def ref_start_def memory.defs)
  have acc: "bk_accounts (book_of demo_tables) (WalletId 7) = Some (account_of demo_wallet)"
    by (simp add: demo_tables_def demo_wallet_def wallet_to_row_def account_of_row_def account_of_def
        cents_def wallet_currency_def empty_tables_def)
  have "owned (book_of demo_tables) (WalletId 7) (OwnerId 2) = None"
    unfolding owned_def acc by (simp add: demo_wallet_def)
  then have none: "owned (committed rf_comm (demo_world [])) (mr_wallet_id ?req) (mr_owner_id ?req) = None"
    using start by (simp add: demo_request_def)
  from movement_isolation [OF ref.sql_engine_axioms harmless_default demo_fresh _ run [folded default_adapters], of "WalletId 7"] none demo_valid
  show ?thesis using run start acc by simp
qed

end
