(* ===== verification/Service_Guarantees.thy ===== *)
theory Service_Guarantees
  imports Guarantees
begin

text \<open>
  What the use cases guarantee over any history of calls, with any lock, store, limiter and risk adapter
  that stays out of the database; once per key with the store in the process. The witnesses run the whole stack on the concrete world
  of \<open>Guarantees\<close>.
\<close>

section \<open>Concrete runs\<close>

lemmas use_case_defs =
  movement_run_def observed_def movement_body_def movement_try_def rate_limit_gate_def risk_gate_def
  with_label_def move_money_settings_default_def rl_consume_def rl_composite_def rl_decide_def
  allow_all_assess_def risk_available_def

lemmas replay_defs =
  sess_book_def DAList.update.rep_eq DAList.empty.rep_eq receipt_def uuid_of_value_def
  recorded_entry_id_def

lemmas opening_defs =
  open_wallet_def open_wallet_try_def wallet_open_def sqla_wallet_add_def money_zero_def

definition keyed_request :: movement_request where
  "keyed_request = demo_request\<lparr>mr_idempotency_key := Some ''k''\<rparr>"

text \<open>The next session of the reference engine.\<close>

definition renewed :: "ref_db world \<Rightarrow> ref_db world" where
  "renewed s = s\<lparr>wd_db := (wd_db s)\<lparr>rf_sess := rf_comm (wd_db s)\<rparr>\<rparr>"

lemma renewed_session:
  "new_session (sess_book rf_sess) (sess_book rf_comm) mm_entries pr_now s (renewed s)"
  by (simp add: new_session_def renewed_def sess_book_def)

lemma demo_empty: "bk_postings (committed rf_comm (demo_world fs)) = []"
  by (simp add: sess_book_def demo_world_def world_start_def ref_start_def memory.defs
      demo_tables_def empty_tables_def DAList.empty.rep_eq)

lemma keyed_valid: "valid_money (mr_amount keyed_request)"
  using demo_valid by (simp add: keyed_request_def)

lemma keyed_runs:
  "\<exists>res t res' t'. movement_run (evenkeel_ports ref_engine) movement_settings_default
     move_money_settings_default keyed_request (demo_world []) = (Inr res, t)
     \<and> bk_postings (committed rf_comm t) \<noteq> [] \<and> pr_now t = 0
     \<and> movement_run (evenkeel_ports ref_engine) movement_settings_default
         move_money_settings_default keyed_request (renewed t) = (Inr res', t')
     \<and> pr_now t' = 0 \<and> mvr_entry_id res' = LedgerEntryId 55"
  by (simp add: run_demo use_case_defs replay_defs keyed_request_def renewed_def
      del: eval_stmt.simps(1,3,4))

section \<open>Properties\<close>

text \<open>C3: at most once per key. After a movement that changed the committed books, whatever it
  answered, no call with the same key and owner changes them again while the key lives, whatever
  calls were served in between; if such a call succeeds it reports the entry of the first. (The
  hypothesis \<open>hash\<close> excludes SHA-256 collisions between requests that differ.)\<close>

theorem at_most_once:
  assumes eng: "sql_engine E sess_tb comm_tb" and risk: "harmless_risk sess_tb comm_tb R"
    and first: "movement_run (evenkeel_with_risk E R) cfg mms req s = (r, s1)"
      "sess_book sess_tb s = committed comm_tb s" "valid_money (mr_amount req)"
      "mr_idempotency_key req = Some k" "unrecorded mm_entries req s"
      "committed comm_tb s1 \<noteq> committed comm_tb s"
    and between: "served (evenkeel_with_risk E R) cfg mms (sess_book sess_tb) (sess_book comm_tb)
        mm_entries pr_now s1 qs s2"
      "new_session (sess_book sess_tb) (sess_book comm_tb) mm_entries pr_now s2 s3"
    and again: "movement_run (evenkeel_with_risk E R) cfg mms q s3 = (r', t)"
      "valid_money (mr_amount q)" "mr_idempotency_key q = Some k" "mr_owner_id q = mr_owner_id req"
    and ttl: "0 < ms_idempotency_ttl_seconds cfg"
      "pr_now t < pr_now s + of_int (ms_idempotency_ttl_seconds cfg)"
    and hash: "\<And>m. m = q \<or> Move m \<in> set qs \<Longrightarrow> fingerprint m = fingerprint req \<Longrightarrow>
      mr_wallet_id m = mr_wallet_id req \<and> mr_owner_id m = mr_owner_id req"
  shows "committed comm_tb t = committed comm_tb s3
    \<and> (\<forall>res. r' = Inr res \<longrightarrow> fingerprint q = fingerprint req \<and> mvr_replayed res
         \<and> (\<exists>p \<in> set (bk_postings (committed comm_tb t)). po_id p = mvr_entry_id res
              \<and> po_wallet p = mr_wallet_id req))"
  by (rule use_cases.once_per_key [OF sql_engine.wired_use_cases [OF eng risk] first between again
        ttl hash])

theorem at_most_once_witness:
  "\<exists>res s1 res' t. movement_run (evenkeel_ports ref_engine) movement_settings_default
       move_money_settings_default keyed_request (demo_world []) = (Inr res, s1)
     \<and> movement_run (evenkeel_ports ref_engine) movement_settings_default
         move_money_settings_default keyed_request (renewed s1) = (Inr res', t)
     \<and> mvr_replayed res' \<and> committed rf_comm t = committed rf_comm (renewed s1)"
proof -
  let ?run = "movement_run (evenkeel_with_risk ref_engine allow_all_assess) movement_settings_default
    move_money_settings_default keyed_request"
  from keyed_runs obtain res s1 res' t where run: "?run (demo_world []) = (Inr res, s1)"
      "bk_postings (committed rf_comm s1) \<noteq> []" "?run (renewed s1) = (Inr res', t)" "pr_now t = 0"
    unfolding evenkeel_default_risk by blast
  from run(2) demo_empty have moved: "committed rf_comm s1 \<noteq> committed rf_comm (demo_world [])"
    by metis
  have free: "unrecorded mm_entries keyed_request (demo_world [])"
    by (simp add: unrecorded_def demo_world_def world_start_def memory_start_def memory.defs)
  have ttl: "0 < ms_idempotency_ttl_seconds movement_settings_default"
      "pr_now t < pr_now (demo_world []) + of_int (ms_idempotency_ttl_seconds movement_settings_default)"
    by (simp_all add: movement_settings_default_def run(4) demo_world_def world_start_def
        memory_start_def memory.defs)
  have key: "mr_idempotency_key keyed_request = Some ''k''" by (simp add: keyed_request_def)
  from at_most_once [OF ref.sql_engine_axioms allow_all_harmless run(1) demo_fresh keyed_valid key
      free moved served_none renewed_session run(3) keyed_valid key refl ttl]
  have "committed rf_comm t = committed rf_comm (renewed s1) \<and> mvr_replayed res'" by auto
  with run show ?thesis unfolding evenkeel_default_risk by blast
qed

text \<open>C5: the books always reconcile, whatever lock, store, limiter and risk adapter the settings choose: in
  every history of calls that starts on reconciled books, each account's balance, version and
  currency are what its ledger entries add up to, no balance is negative, and no entry lacks its
  wallet. (What the history says of idempotency keys and time, \<open>slots\<close> and \<open>now\<close>, does not matter.)\<close>

theorem books_always_reconcile:
  assumes "sql_engine E sess_tb comm_tb" and "harmless_adapters sess_tb comm_tb X"
    and "served (with_adapters E X) cfg mms (sess_book sess_tb) (sess_book comm_tb) slots now s qs t"
    and "reconciled (committed comm_tb s)"
  shows "reconciled (committed comm_tb t)"
  using bookkeeping.served_reconciled
    [OF sql_engine.adapters_bookkeeping [OF assms(1,2) assms(2)] assms(3,4)] .

definition empty_world :: "ref_db world" where
  "empty_world = world_start (ref_start empty_tables []) 0 [] [100, 200] [55, 66]"

definition demo_opening :: open_wallet_command where
  "demo_opening = \<lparr>owc_owner_id = OwnerId 1, owc_currency = CurrencyCode ''EUR''\<rparr>"

definition first_deposit :: movement_request where
  "first_deposit = demo_request\<lparr>mr_wallet_id := WalletId 55, mr_direction := CREDIT\<rparr>"

definition opened_world :: "ref_db world" where
  "opened_world = world_start (ref_start (empty_tables\<lparr>tb_wallets := DAList.update 55
     \<lparr>wr_owner_id = 1, wr_balance_amount = Fin False 0 (- 2), wr_currency = ''EUR'',
      wr_status = ''open'', wr_version = 0, wr_created_at = 100, wr_updated_at = 100\<rparr>
     DAList.empty\<rparr>) []) 0 [] [200] [66]"

lemma opens:
  "renewed (serve (evenkeel_ports ref_engine) movement_settings_default move_money_settings_default
     (Open demo_opening) empty_world) = opened_world"
  by (simp add: run_demo use_case_defs replay_defs opening_defs empty_world_def demo_opening_def
      opened_world_def renewed_def del: eval_stmt.simps(1,3,4))

lemma deposits:
  "map_option ac_cents (bk_accounts (committed rf_comm
     (serve (evenkeel_ports ref_engine) movement_settings_default move_money_settings_default
       (Move first_deposit) opened_world)) (WalletId 55)) = Some 2550"
  by (simp add: run_demo use_case_defs replay_defs first_deposit_def opened_world_def
      account_of_row_def dec_pad_def del: eval_stmt.simps(1,3,4))

theorem books_always_reconcile_witness:
  "\<exists>t :: ref_db world. reconciled (committed rf_comm t)
     \<and> map_option ac_cents (bk_accounts (committed rf_comm t) (WalletId 55)) = Some 2550"
proof -
  let ?P = "with_adapters ref_engine (in_process allow_all_assess)"
  let ?serve = "serve ?P movement_settings_default move_money_settings_default"
  let ?s1 = "?serve (Open demo_opening) empty_world" and ?B = "sess_book :: (ref_db \<Rightarrow> tables) \<Rightarrow> _"
  have start: "committed rf_comm empty_world = empty_book" "?B rf_sess empty_world = empty_book"
    by (simp_all add: sess_book_def empty_world_def world_start_def ref_start_def memory.defs
        book_of_def empty_book_def empty_tables_def DAList.empty.rep_eq lookup_empty)
  have "served ?P movement_settings_default move_money_settings_default (?B rf_sess) (?B rf_comm)
      mm_entries pr_now empty_world [] empty_world" by (rule served_none)
  from served_call [OF this, of empty_world "Open demo_opening"] start
  have "served ?P movement_settings_default move_money_settings_default (?B rf_sess) (?B rf_comm)
      mm_entries pr_now empty_world [Open demo_opening] ?s1" by (simp add: new_session_def)
  from served_call [OF this renewed_session, of "Move first_deposit"] demo_valid
  have h: "served ?P movement_settings_default move_money_settings_default (?B rf_sess) (?B rf_comm)
      mm_entries pr_now empty_world [Open demo_opening, Move first_deposit]
      (?serve (Move first_deposit) (renewed ?s1))" by (simp add: first_deposit_def)
  from books_always_reconcile [OF ref.sql_engine_axioms harmless_default h] start
    deposits show ?thesis unfolding default_adapters opens by (metis reconciled_empty)
qed

section \<open>What one request does to the books\<close>

context sql_engine begin

lemma movement_changes:
  assumes "harmless_adapters sess_tb comm_tb X"
    and "movement_run (with_adapters E X) cfg mms req s = (r, t)"
    and "sess_book sess_tb s = committed comm_tb s" "valid_money (mr_amount req)"
    and "committed comm_tb t \<noteq> committed comm_tb s"
  obtains s0 s1 s2 d u now where "limiter_passed (with_adapters E X) mms req s0 s1"
    "assessed_as (with_adapters E X) mms req d s1 s2"
    "post_request req u now (committed comm_tb s) = Some (committed comm_tb t)"
    "\<And>res. r = Inr res \<Longrightarrow> mvr_entry_id res = u \<and> \<not> mvr_replayed res"
proof -
  have gb: "gated_backend (with_adapters E X) (sess_book sess_tb) (sess_book comm_tb)"
    by (rule adapters_gated [OF assms(1)])
  from gated_backend.movement_run_books [OF gb assms(2-4)]
  obtain s0 s1 d s2 q u where g: "limiter_passed (with_adapters E X) mms req s0 s1"
      "assessed_as (with_adapters E X) mms req d s1 s2"
      "applied req (committed comm_tb s) q (committed comm_tb t)"
      "\<forall>res. r = Inr res \<longrightarrow> (\<exists>out. q = Inr out \<and> mvr_entry_id res = le_id (mo_entry out)
         \<and> mvr_wallet_id res = w_id (mo_wallet out) \<and> mvr_balance res = mo_balance out
         \<and> mvr_replayed res = mo_replayed out)"
    by (elim disjE exE conjE) (use assms(5) in simp, rule that)
  have "\<exists>u now. post_request req u now (committed comm_tb s) = Some (committed comm_tb t)
      \<and> (\<forall>out. q = Inr out \<longrightarrow> le_id (mo_entry out) = u \<and> \<not> mo_replayed out)"
    using g(3) assms(5) by (cases q) (auto simp: applied_def reports_def)
  then obtain u' now where p: "post_request req u' now (committed comm_tb s) = Some (committed comm_tb t)"
    "\<forall>out. q = Inr out \<longrightarrow> le_id (mo_entry out) = u' \<and> \<not> mo_replayed out" by blast
  from g(4) p(2) have "r = Inr res \<Longrightarrow> mvr_entry_id res = u' \<and> \<not> mvr_replayed res" for res by force
  with g(1,2) p(1) show ?thesis by (rule that)
qed

lemma opening_changes:
  assumes "harmless_adapters sess_tb comm_tb X"
    and "open_wallet (with_adapters E X) c s = (r, t)"
    and "sess_book sess_tb s = committed comm_tb s"
  shows "case r of
      Inl e \<Rightarrow> committed comm_tb t = committed comm_tb s
        \<or> (\<exists>i. opened c i (committed comm_tb s) (committed comm_tb t))
    | Inr res \<Rightarrow> opened c (owr_wallet_id res) (committed comm_tb s) (committed comm_tb t)
        \<and> owr_currency res = owc_currency c"
  by (rule wallet_backend.open_wallet_run [OF adapters_wallet [OF assms(1)]
        assms(2,3)])

end

text \<open>C6: money moves only past both gates. When a movement's use case changed the committed books,
  the rate limiter had granted the call (if it is enabled), and the risk adapter had answered
  \<open>ALLOWED\<close>, or \<open>UNAVAILABLE\<close> with the deployment set to fail open; what changed is the requested
  posting, and a successful answer names it.\<close>

theorem movement_gated:
  assumes "sql_engine E sess_tb comm_tb" and "harmless_adapters sess_tb comm_tb X"
    and "movement_run (with_adapters E X) cfg mms req s = (r, t)"
    and "sess_book sess_tb s = committed comm_tb s" "valid_money (mr_amount req)"
    and "committed comm_tb t \<noteq> committed comm_tb s"
  shows "\<exists>s0 s1 s2 d u now. limiter_passed (with_adapters E X) mms req s0 s1
    \<and> assessed_as (with_adapters E X) mms req d s1 s2
    \<and> post_request req u now (committed comm_tb s) = Some (committed comm_tb t)
    \<and> (\<forall>res. r = Inr res \<longrightarrow> mvr_entry_id res = u \<and> \<not> mvr_replayed res)"
  using sql_engine.movement_changes [OF assms] by metis

theorem movement_gated_witness:
  "\<exists>s0 s1 s2 d. limiter_passed (evenkeel_ports ref_engine) move_money_settings_default keyed_request s0 s1
     \<and> assessed_as (evenkeel_ports ref_engine) move_money_settings_default keyed_request d s1 s2"
proof -
  from keyed_runs obtain res s1 where run: "movement_run (evenkeel_with_risk ref_engine
      allow_all_assess) movement_settings_default move_money_settings_default keyed_request
      (demo_world []) = (Inr res, s1)" "bk_postings (committed rf_comm s1) \<noteq> []"
    unfolding evenkeel_default_risk by blast
  then have "committed rf_comm s1 \<noteq> committed rf_comm (demo_world [])" using demo_empty by metis
  from movement_gated [OF ref.sql_engine_axioms harmless_default run(1) [folded with_in_process] demo_fresh keyed_valid this]
  show ?thesis unfolding default_adapters by blast
qed

text \<open>Opening a wallet stores exactly one new account, the caller's, empty, open and of the
  requested currency, under an id that no wallet had; if it raises, that or nothing.\<close>

theorem open_wallet_books:
  assumes "sql_engine E sess_tb comm_tb"
    and "open_wallet (evenkeel_ports E) c s = (r, t)"
    and "sess_book sess_tb s = committed comm_tb s"
  shows "case r of
      Inl e \<Rightarrow> committed comm_tb t = committed comm_tb s
        \<or> (\<exists>i. opened c i (committed comm_tb s) (committed comm_tb t))
    | Inr res \<Rightarrow> opened c (owr_wallet_id res) (committed comm_tb s) (committed comm_tb t)
        \<and> owr_currency res = owc_currency c"
  using sql_engine.opening_changes [OF assms(1) harmless_default, unfolded default_adapters, OF assms(2,3)] .

theorem open_wallet_books_witness:
  "\<exists>res t. open_wallet (evenkeel_ports ref_engine) demo_opening empty_world = (Inr res, t)
     \<and> opened demo_opening (WalletId 55) (committed rf_comm empty_world) (committed rf_comm t)"
proof -
  obtain res t where run: "open_wallet (evenkeel_ports ref_engine) demo_opening empty_world
      = (Inr res, t)" "owr_wallet_id res = WalletId 55"
    by (simp add: run_demo use_case_defs replay_defs opening_defs empty_world_def demo_opening_def
        del: eval_stmt.simps(1,3,4))
  have "sess_book rf_sess empty_world = committed rf_comm empty_world"
    by (simp add: sess_book_def empty_world_def world_start_def ref_start_def memory.defs)
  from open_wallet_books [OF ref.sql_engine_axioms run(1) this] run show ?thesis by auto
qed

text \<open>The label a movement reports: \<open>error\<close> exactly for what is not an \<open>ApplicationError\<close>, the
  refusals of the domain included; a success is told apart as replayed or unassessed.\<close>

theorem movement_labels:
  assumes "movement_body P cfg mms req s = (r, t)"
  shows "case r of
      Inl (e, l) \<Rightarrow> l = ''error'' \<longleftrightarrow> \<not> is_app_exn e
    | Inr (res, l) \<Rightarrow> l \<in> {''success'', ''replayed'', ''success_unassessed''}
        \<and> (l = ''success'' \<longrightarrow> \<not> mvr_replayed res) \<and> (l = ''replayed'' \<longrightarrow> mvr_replayed res)"
  using assms by (rule movement_body_labels)

theorem movement_labels_witness:
  "\<exists>e t. movement_body (evenkeel_ports ref_engine) movement_settings_default
       move_money_settings_default
       (demo_request\<lparr>mr_amount := \<lparr>m_amount = Fin False 101 0, m_currency = CurrencyCode ''EUR''\<rparr>\<rparr>)
       (demo_world []) = (Inl (e, ''error''), t)
     \<and> exn_code e = Some (domain_code_value WALLET_INSUFFICIENT_FUNDS)"
proof -
  let ?req = "demo_request\<lparr>mr_amount := \<lparr>m_amount = Fin False 101 0, m_currency = CurrencyCode ''EUR''\<rparr>\<rparr>"
  obtain e l t where run: "movement_body (evenkeel_ports ref_engine) movement_settings_default
      move_money_settings_default ?req (demo_world []) = (Inl (e, l), t)"
      "exn_code e = Some (domain_code_value WALLET_INSUFFICIENT_FUNDS)" "\<not> is_app_exn e"
    by (simp add: run_demo use_case_defs domain_exn_def domain_error_new_def del: eval_stmt.simps(1,3,4))
  from movement_labels [OF run(1)] run show ?thesis by auto
qed

end
