(* ===== verification/Risk_Http.thy ===== *)
theory Risk_Http
  imports Transport_Guarantees Service_Guarantees
begin

text \<open>
  \<open>infrastructure/adapters/http/risk.py\<close>: one provider's JSON on the three outcomes of the port. A
  movement is allowed on an explicit \<open>allow\<close> only; the last property puts the adapter behind the
  movement use case, over the same world as the database and the store.
\<close>

section \<open>The adapter\<close>

definition ALLOW :: string where "ALLOW = ''allow''"
definition REFUSE :: string where "REFUSE = ''refuse''"

text \<open>\<open>text[:n]\<close> on UTF-8: continuation bytes belong to the character before them.\<close>

fun char_prefix :: "nat \<Rightarrow> string \<Rightarrow> string" where
  "char_prefix n [] = []"
| "char_prefix n (c # s) =
     (if cont_byte c then c # char_prefix n s
      else case n of 0 \<Rightarrow> [] | Suc m \<Rightarrow> c # char_prefix m s)"

definition risk_text :: "pyval option \<Rightarrow> string" where
  "risk_text v = (case v of Some (VStr s) \<Rightarrow> char_prefix 200 s | _ \<Rightarrow> [])"

definition risk_payload :: "risk_check \<Rightarrow> pyval" where
  "risk_payload check = VDict
     [(''wallet_id'', VStr (uuid_str (wid_value (rc_wallet_id check)))),
      (''owner_id'', VStr (uuid_str (oid_value (rc_owner_id check)))),
      (''amount'', VStr (dec_str (m_amount (rc_amount check)))),
      (''currency'', VStr (cc_value (m_currency (rc_amount check)))),
      (''direction'', VStr (ledger_direction_value (rc_direction check))),
      (''idempotency_key'', case rc_idempotency_key check of None \<Rightarrow> VNone | Some k \<Rightarrow> VStr k)]"

definition risk_unavailable :: "string \<Rightarrow> risk_decision" where
  "risk_unavailable reason = \<lparr>rk_outcome = UNAVAILABLE, rk_reason = reason, rk_reference = []\<rparr>"

definition risk_of_response :: "json_response \<Rightarrow> risk_decision" where
  "risk_of_response r =
     (case (if jr_ok r then jr_body r else None) of
        None \<Rightarrow> risk_unavailable (failure_value (jr_failure r))
      | Some body \<Rightarrow>
          let decision = map_of body ''decision'';
              told = (\<lambda>outcome. \<lparr>rk_outcome = outcome, rk_reason = risk_text (map_of body ''reason''),
                        rk_reference = risk_text (map_of body ''reference'')\<rparr>)
          in if decision = Some (VStr ALLOW) then told ALLOWED
             else if decision = Some (VStr REFUSE) then told REFUSED
             else risk_unavailable ''unrecognised'')"

definition http_risk_assess ::
  "'s outbound \<Rightarrow> transport \<Rightarrow> string \<Rightarrow> risk_check \<Rightarrow> ('s, exn, risk_decision) prog" where
  "http_risk_assess B T path check =
     pbind (post_json B T path (risk_payload check) ''assess'') (\<lambda>response.
       pret (risk_of_response response))"

definition risk_headers :: "string \<Rightarrow> (string \<times> string) list" where
  "risk_headers api_key =
     (if api_key \<noteq> [] then [(''Authorization'', ''Bearer '' @ api_key)] else [])"

text \<open>The session the adapter owns, and the transport over it.\<close>

definition open_http_risk_assessment ::
  "string \<Rightarrow> string \<Rightarrow> transport_policy \<Rightarrow> session_policy \<Rightarrow> session_args \<times> transport" where
  "open_http_risk_assessment base_url api_key policy session =
     (open_session session (risk_headers api_key), transport_init policy base_url None)"

section \<open>What a decision rests on\<close>

lemma risk_of_response_outcome:
  "rk_outcome (risk_of_response r) = ALLOWED \<longleftrightarrow>
     jr_failure r = NONE \<and> (\<exists>body. jr_body r = Some body \<and> map_of body ''decision'' = Some (VStr ALLOW))"
  "rk_outcome (risk_of_response r) = REFUSED \<longleftrightarrow>
     jr_failure r = NONE \<and> (\<exists>body. jr_body r = Some body \<and> map_of body ''decision'' = Some (VStr REFUSE))"
proof -
  have "ALLOW \<noteq> REFUSE" by (simp add: ALLOW_def REFUSE_def)
  then show
    "rk_outcome (risk_of_response r) = ALLOWED \<longleftrightarrow>
       jr_failure r = NONE \<and> (\<exists>body. jr_body r = Some body \<and> map_of body ''decision'' = Some (VStr ALLOW))"
    "rk_outcome (risk_of_response r) = REFUSED \<longleftrightarrow>
       jr_failure r = NONE \<and> (\<exists>body. jr_body r = Some body \<and> map_of body ''decision'' = Some (VStr REFUSE))"
    by (auto simp: risk_of_response_def Let_def risk_unavailable_def jr_ok_def split: option.splits)
qed

lemma http_risk_sound:
  assumes "byte_stream B rest" "http_risk_assess B T path check s = (Inr d, t)"
  shows "rk_outcome d = ALLOWED \<Longrightarrow> \<exists>status body. map_of body ''decision'' = Some (VStr ALLOW)
      \<and> answered_with B rest T (call_url T path) (risk_payload check) status body"
    and "rk_outcome d = REFUSED \<Longrightarrow> \<exists>status body. map_of body ''decision'' = Some (VStr REFUSE)
      \<and> answered_with B rest T (call_url T path) (risk_payload check) status body"
proof -
  from assms(2) obtain r where r: "post_json B T path (risk_payload check) ''assess'' s = (Inr r, t)"
      "d = risk_of_response r"
    by (auto simp: http_risk_assess_def elim!: pbindE)
  have answered: "\<exists>status. answered_with B rest T (call_url T path) (risk_payload check) status body"
    if "jr_failure r = NONE" "jr_body r = Some body" for body
    using byte_stream.post_json_sound [OF assms(1) r(1)] that by (auto simp: sound_response_def)
  { assume "rk_outcome d = ALLOWED"
    then obtain body where b: "jr_failure r = NONE" "jr_body r = Some body"
        "map_of body ''decision'' = Some (VStr ALLOW)"
      unfolding r(2) risk_of_response_outcome by (elim conjE exE)
    from answered [OF b(1,2)] obtain status where
      "answered_with B rest T (call_url T path) (risk_payload check) status body" ..
    with b(3) show "\<exists>status body. map_of body ''decision'' = Some (VStr ALLOW)
        \<and> answered_with B rest T (call_url T path) (risk_payload check) status body"
      by (intro exI conjI) }
  { assume "rk_outcome d = REFUSED"
    then obtain body where b: "jr_failure r = NONE" "jr_body r = Some body"
        "map_of body ''decision'' = Some (VStr REFUSE)"
      unfolding r(2) risk_of_response_outcome by (elim conjE exE)
    from answered [OF b(1,2)] obtain status where
      "answered_with B rest T (call_url T path) (risk_payload check) status body" ..
    with b(3) show "\<exists>status body. map_of body ''decision'' = Some (VStr REFUSE)
        \<and> answered_with B rest T (call_url T path) (risk_payload check) status body"
      by (intro exI conjI) }
qed

text \<open>A client that leaves the database and the store alone makes a risk adapter that does.\<close>

definition apart :: "('d \<Rightarrow> tables) \<Rightarrow> ('d \<Rightarrow> tables) \<Rightarrow> 'd world \<Rightarrow> 'd world \<Rightarrow> bool" where
  "apart sess_tb comm_tb s t \<longleftrightarrow> sess_book sess_tb t = sess_book sess_tb s
     \<and> sess_book comm_tb t = sess_book comm_tb s \<and> store_frame mm_entries pr_now {} s t"

lemma http_risk_harmless:
  assumes "outbound_keeps (apart sess_tb comm_tb) B"
  shows "harmless_risk sess_tb comm_tb (http_risk_assess B T path)"
proof -
  have order: "reflp (apart sess_tb comm_tb)" "transp (apart sess_tb comm_tb)"
    by (auto simp: apart_def intro!: reflpI transpI
        intro: reflpD [OF store_frame_order(1)] transpD [OF store_frame_order(2)])
  have "keeps (apart sess_tb comm_tb) (http_risk_assess B T path check)" for check
    unfolding http_risk_assess_def
    by (intro keeps_bind order post_json_keeps assms keeps_ret)
  then show ?thesis
    by (auto simp: harmless_risk_def quiet_def steady_def keeps_def apart_def)
qed

section \<open>A client beside the database\<close>

text \<open>For the witnesses: a provider that gives every request the same answer at once. Its stream
  keeps its position in the list of a bulkhead nobody else uses.\<close>

definition stream_pos :: "'z memory_scheme \<Rightarrow> nat" where
  "stream_pos s = (case mm_occupancy s ''stream'' of Some ((n, _) # _) \<Rightarrow> n | _ \<Rightarrow> 0)"

definition set_stream :: "nat \<Rightarrow> 'z memory_scheme \<Rightarrow> 'z memory_scheme" where
  "set_stream n s = s\<lparr>mm_occupancy := (mm_occupancy s)(''stream'' \<mapsto> [(n, 0)])\<rparr>"

definition stream_rest :: "string \<Rightarrow> http_response \<Rightarrow> 'z memory_scheme \<Rightarrow> string" where
  "stream_rest body h s = drop (stream_pos s) body"

definition same_answer :: "string \<Rightarrow> 'z memory_scheme outbound" where
  "same_answer body =
     \<lparr>ob_lease_enter = (\<lambda>p. pret (0, True)), ob_lease_exit = (\<lambda>p l. pret ()),
      ob_monotonic = pret 0, ob_perf_counter = pret 0, ob_sleep = (\<lambda>d. pret ()),
      ob_uniform = (\<lambda>a b. pret a), ob_correlation_id = pret None,
      ob_post = (\<lambda>q s. (Inr \<lparr>hr_id = 0, hr_status = 200, hr_retry_after = None\<rparr>,
         set_stream 0 s)),
      ob_read = (\<lambda>h n s. let c = take (nat n) (stream_rest body h s) in
         (Inr c, set_stream (stream_pos s + length c) s)),
      ob_close = (\<lambda>h. pret ()), ob_is_timeout = (\<lambda>e. False), ob_is_client_error = (\<lambda>e. False),
      ob_observe = (\<lambda>m. pret ()), ob_recursion_limit = 1000\<rparr>"

lemma stream_pos_set [simp]: "stream_pos (set_stream n s) = n"
  by (simp add: stream_pos_def set_stream_def)

lemma set_stream_twice [simp]: "set_stream m (set_stream n s) = set_stream m s"
  by (simp add: set_stream_def)

interpretation same: byte_stream "same_answer body" "stream_rest body" for body
proof
  fix h n c and s t :: "'a memory_scheme"
  assume run: "ob_read (same_answer body) h n s = (Inr c, t)" and n: "0 \<le> n"
  then have c: "c = take (nat n) (stream_rest body h s)"
    and t: "stream_pos t = stream_pos s + length c" by (auto simp: same_answer_def Let_def)
  have "stream_rest body h t = drop (length c) (stream_rest body h s)"
    by (simp add: stream_rest_def t add.commute)
  moreover have "stream_rest body h s = c @ drop (length c) (stream_rest body h s)"
    by (cases "length (stream_rest body h s) \<le> nat n") (simp_all add: c)
  moreover have "length c \<le> nat n" by (simp add: c)
  ultimately show "stream_rest body h s = c @ stream_rest body h t \<and> int (length c) \<le> n"
    using n by simp
next
  fix h n and s t :: "'a memory_scheme"
  assume "ob_read (same_answer body) h n s = (Inr [], t)" "0 \<le> n"
  then show "n = 0 \<or> stream_rest body h s = []" by (auto simp: same_answer_def Let_def)
qed

lemma same_answer_apart: "outbound_keeps (apart sess_tb comm_tb) (same_answer body)"
  by (auto simp: outbound_keeps_def same_answer_def keeps_def apart_def sess_book_def set_stream_def
      store_frame_def Let_def memory.defs)

definition demo_answer :: string where
  "demo_answer = ''{\"decision\": \"allow\"}''"

lemma demo_assessed:
  "http_risk_assess (same_answer demo_answer) demo_transport ''/decisions'' check s
   = (Inr \<lparr>rk_outcome = ALLOWED, rk_reason = [], rk_reference = []\<rparr>, set_stream (length demo_answer) s)"
  by (simp add: http_risk_assess_def risk_of_response_def risk_text_def ALLOW_def jr_ok_def
      same_answer_def stream_rest_def demo_answer_def demo_transport_def transport_defs two_attempts
      json_eval_defs Let_def)

definition requested_check :: "movement_request \<Rightarrow> risk_check" where
  "requested_check req =
     \<lparr>rc_wallet_id = mr_wallet_id req, rc_owner_id = mr_owner_id req,
      rc_amount = mr_amount req, rc_direction = mr_direction req,
      rc_idempotency_key = mr_idempotency_key req\<rparr>"

lemma assessed_run:
  "\<exists>res t. movement_run (evenkeel_with_risk ref_engine
       (http_risk_assess (same_answer demo_answer) demo_transport ''/decisions''))
     movement_settings_default move_money_settings_default keyed_request (demo_world []) = (Inr res, t)
     \<and> bk_postings (committed rf_comm t) \<noteq> []"
  by (simp add: run_demo use_case_defs keyed_request_def demo_assessed set_stream_def sess_book_def
      DAList.update.rep_eq DAList.empty.rep_eq del: eval_stmt.simps(1,3,4))

section \<open>Properties\<close>

text \<open>An unreadable provider is no permission: the adapter says \<open>ALLOWED\<close> (or \<open>REFUSED\<close>) only if
  the provider answered this very check with a complete JSON object, of status below 300 and within
  the cap, whose \<open>decision\<close> is the word \<open>allow\<close> (or \<open>refuse\<close>).\<close>

lemma risk_fail_closed:
  assumes "byte_stream B rest" and "http_risk_assess B T path check s = (Inr d, t)"
  shows "(rk_outcome d = ALLOWED \<longrightarrow> (\<exists>status body. map_of body ''decision'' = Some (VStr ALLOW)
      \<and> answered_with B rest T (call_url T path) (risk_payload check) status body))
    \<and> (rk_outcome d = REFUSED \<longrightarrow> (\<exists>status body. map_of body ''decision'' = Some (VStr REFUSE)
      \<and> answered_with B rest T (call_url T path) (risk_payload check) status body))"
  using http_risk_sound [OF assms] by (intro conjI impI)

lemma risk_fail_closed_witness:
  "\<exists>status body. map_of body ''decision'' = Some (VStr ALLOW)
     \<and> answered_with (same_answer demo_answer :: memory outbound) (stream_rest demo_answer) demo_transport
         (call_url demo_transport ''/decisions'') (risk_payload (requested_check keyed_request)) status body"
  by (rule mp [OF conjunct1 [OF risk_fail_closed [OF same.byte_stream_axioms
        demo_assessed [of "requested_check keyed_request" "memory_start 0 []"]]]]) simp

text \<open>C7: with an HTTP risk provider and a deployment that fails closed, whatever lock, store and limiter it has,
  the committed books change
  only after the provider answered the check of exactly this movement with \<open>allow\<close>.\<close>

theorem money_moves_only_on_allow:
  assumes "sql_engine E sess_tb comm_tb" and "byte_stream B rest"
    and "harmless_adapters sess_tb comm_tb X" and "ad_assess X = http_risk_assess B T path"
    and "movement_run (with_adapters E X) cfg mms req s = (r, t)"
    and "sess_book sess_tb s = committed comm_tb s" "valid_money (mr_amount req)"
    and "\<not> mms_risk_fail_open mms"
    and "committed comm_tb t \<noteq> committed comm_tb s"
  shows "\<exists>status body. map_of body ''decision'' = Some (VStr ALLOW)
    \<and> answered_with B rest T (call_url T path) (risk_payload (requested_check req)) status body"
proof -
  from movement_gated [OF assms(1,3,5-7,9)]
  obtain s1 s2 d where "assessed_as (with_adapters E X) mms req d s1 s2" by blast
  then have "http_risk_assess B T path (requested_check req) s1 = (Inr d, s2)" "rk_outcome d = ALLOWED"
    using assms(4,8) by (simp_all add: assessed_as_def requested_check_def with_adapters_def)
  from http_risk_sound(1) [OF assms(2) this] show ?thesis .
qed

theorem money_moves_only_on_allow_witness:
  "\<exists>status body. map_of body ''decision'' = Some (VStr ALLOW)
     \<and> answered_with (same_answer demo_answer :: ref_db world outbound) (stream_rest demo_answer)
         demo_transport (call_url demo_transport ''/decisions'')
         (risk_payload (requested_check keyed_request)) status body"
proof -
  from assessed_run obtain res t where run: "movement_run (evenkeel_with_risk ref_engine
       (http_risk_assess (same_answer demo_answer) demo_transport ''/decisions''))
     movement_settings_default move_money_settings_default keyed_request (demo_world []) = (Inr res, t)"
     "bk_postings (committed rf_comm t) \<noteq> []" by blast
  then have "committed rf_comm t \<noteq> committed rf_comm (demo_world [])" using demo_empty by metis
  from money_moves_only_on_allow [OF ref.sql_engine_axioms same.byte_stream_axioms
      harmless_in_process [OF http_risk_harmless [OF same_answer_apart]] _ run(1) [folded with_in_process]
      demo_fresh keyed_valid _ this] show ?thesis
    by (simp add: move_money_settings_default_def in_process_def)
qed

text \<open>The adapter does not always answer with a decision. A response of 4301 digits or more,
  valid JSON and within the cap, makes \<open>json.loads\<close> raise a \<open>ValueError\<close> that neither
  \<open>decode_object\<close> nor the transport catches, so it leaves \<open>assess\<close>.\<close>

theorem huge_integer_escapes:
  assumes "max_int_digits < n" and "n \<le> 65536"
  shows "fst (http_risk_assess wire_outbound demo_transport ''/decisions'' check
      (wire_start [Reply 200 None [replicate n (CHR ''1'')] 0])) = Inl value_error"
proof -
  have "replicate n (CHR ''1'') \<noteq> []" using assms by auto
  moreover have "take 65537 (replicate n (CHR ''1'')) = replicate n (CHR ''1'')" using assms by simp
  ultimately show ?thesis using assms huge_integer [OF assms(1), of 1000]
    by (simp add: http_risk_assess_def demo_transport_def transport_defs two_attempts wire_defs
        json_decode_error_def value_error_def unicode_decode_error_def)
qed

theorem huge_integer_escapes_witness:
  "fst (http_risk_assess wire_outbound demo_transport ''/decisions'' (requested_check keyed_request)
     (wire_start [Reply 200 None [replicate 5000 (CHR ''1'')] 0])) = Inl value_error"
  by (rule huge_integer_escapes) (simp_all add: max_int_digits_def)

end
