(* ===== verification/Memory_Bulkhead.thy ===== *)
theory Memory_Bulkhead
  imports Memory_State
begin

text \<open>
  \<open>infrastructure/adapters/memory/bulkhead.py\<close>: leases with an expiry, a limit on the live ones
  and a caller that polls for a slot until its deadline. \<open>__aenter__\<close> loops on the clock, so it
  is a partial function: \<open>None\<close> is a caller that never returns. It returns whenever the retry
  interval is positive, after a bounded number of attempts.
\<close>

section \<open>The adapter\<close>

definition bh_leases :: "'z memory_scheme \<Rightarrow> string \<Rightarrow> (nat \<times> seconds) list" where
  "bh_leases s name = (case mm_occupancy s name of None \<Rightarrow> [] | Some ls \<Rightarrow> ls)"

definition bh_put ::
  "string \<Rightarrow> (nat \<times> seconds) list \<Rightarrow> 'z memory_scheme \<Rightarrow> 'z memory_scheme" where
  "bh_put name ls s = s\<lparr>mm_occupancy := (mm_occupancy s)(name \<mapsto> ls)\<rparr>"

definition bh_try_add :: "nat \<Rightarrow> bulkhead_policy \<Rightarrow> ('z memory_scheme, exn, bool) prog" where
  "bh_try_add token policy =
     pbind monotonic (\<lambda>now s.
       let leases = filter (\<lambda>l. now < snd l) (bh_leases s (bp_name policy)) in
       if bp_limit policy \<le> int (length leases)
       then (Inr False, bh_put (bp_name policy) leases s)
       else (Inr True, bh_put (bp_name policy)
               (dict_set token (now + of_int (bp_lease_ttl_ms policy) / 1000) leases) s))"

definition bh_remove :: "nat \<Rightarrow> string \<Rightarrow> 'z memory_scheme \<Rightarrow> 'z memory_scheme" where
  "bh_remove token name s = bh_put name (filter (\<lambda>l. fst l \<noteq> token) (bh_leases s name)) s"

text \<open>The loop of \<open>__aenter__\<close>; the value says whether the lease was acquired.\<close>

partial_function (option) bh_wait ::
  "nat \<Rightarrow> bulkhead_policy \<Rightarrow> seconds \<Rightarrow> 'z memory_scheme \<Rightarrow> (bool \<times> 'z memory_scheme) option" where
  "bh_wait token policy deadline s =
     (let attempt = bh_try_add token policy s in
      if fst attempt = Inr True then Some (True, snd attempt)
      else
        let reading = monotonic (snd attempt) in
        if deadline \<le> projr (fst reading) then Some (False, snd reading)
        else bh_wait token policy deadline
               (elapse (of_int (bp_retry_interval_ms policy) / 1000) (snd reading)))"

text \<open>\<open>acquire(policy)\<close> creates the lease object with a token of its own; \<open>__aenter__\<close> follows.\<close>

definition bh_enter ::
  "bulkhead_policy \<Rightarrow> 'z memory_scheme \<Rightarrow> ((nat \<times> bool) \<times> 'z memory_scheme) option" where
  "bh_enter policy s =
     (let token = pr_tokens s;
          s = bh_put (bp_name policy) (bh_leases s (bp_name policy)) (s\<lparr>pr_tokens := token + 1\<rparr>)
      in case monotonic s of
           (Inr now, s) \<Rightarrow>
             (case bh_wait token policy (now + of_int (bp_wait_timeout_ms policy) / 1000) s of
                None \<Rightarrow> None
              | Some (acquired, s) \<Rightarrow> Some ((token, acquired), s))
         | (Inl _, s) \<Rightarrow> None)"

definition bh_exit :: "string \<Rightarrow> nat \<times> bool \<Rightarrow> 'z memory_scheme \<Rightarrow> 'z memory_scheme" where
  "bh_exit name l s = (if \<not> snd l then s else bh_remove (fst l) name s)"

section \<open>The limit\<close>

lemma bh_leases_put [simp]:
  "bh_leases (bh_put name ls s) name' = (if name' = name then ls else bh_leases s name')"
  by (simp add: bh_leases_def bh_put_def)

text \<open>One attempt: granted below the limit among the live leases, refused otherwise.\<close>

lemma bh_try_add_run:
  assumes "bh_try_add token policy s = (r, t)"
  defines "live \<equiv> filter (\<lambda>l. pr_now s < snd l) (bh_leases s (bp_name policy))"
  shows "r = Inr (int (length live) < bp_limit policy) \<and> pr_now s \<le> pr_now t
    \<and> memory.more t = memory.more s
    \<and> (\<forall>name. name \<noteq> bp_name policy \<longrightarrow> bh_leases t name = bh_leases s name)
    \<and> bh_leases t (bp_name policy) =
        (if int (length live) < bp_limit policy
         then dict_set token (pr_now s + of_int (bp_lease_ttl_ms policy) / 1000) live else live)"
proof -
  obtain u where M: "monotonic s = (Inr (pr_now s), u)" "pr_now s \<le> pr_now u"
      "mm_occupancy u = mm_occupancy s" "memory.more u = memory.more s" by (rule monotonicE)
  have "bh_leases u = bh_leases s" using M(3) by (simp add: bh_leases_def fun_eq_iff)
  with assms(1) M show ?thesis
    by (auto simp: bh_try_add_def pbind_def live_def Let_def bh_put_def bh_leases_def
        not_less split: if_splits)
qed

text \<open>With one policy for a name, its live leases never exceed the limit, whatever is tried.\<close>

definition within_limit :: "bulkhead_policy \<Rightarrow> 'z memory_scheme \<Rightarrow> bool" where
  "within_limit policy s \<longleftrightarrow> int (length (bh_leases s (bp_name policy))) \<le> max 0 (bp_limit policy)"

lemma within_limit_try_add:
  assumes "within_limit policy s" "bh_try_add token policy s = (r, t)"
  shows "within_limit policy t"
proof -
  let ?live = "filter (\<lambda>l. pr_now s < snd l) (bh_leases s (bp_name policy))"
  have "length ?live \<le> length (bh_leases s (bp_name policy))" by simp
  with assms(1) have "int (length ?live) \<le> max 0 (bp_limit policy)"
    unfolding within_limit_def by linarith
  with bh_try_add_run [OF assms(2)] length_dict_set
      [of token "pr_now s + of_int (bp_lease_ttl_ms policy) / 1000" ?live]
  show ?thesis by (auto simp: within_limit_def)
qed

lemma bh_leases_monotonic: "bh_leases (snd (monotonic s)) name = bh_leases s name"
  by (rule monotonicE [of s]) (simp add: bh_leases_def)

lemma bh_leases_elapse [simp]: "bh_leases (elapse d s) name = bh_leases s name"
  by (simp add: bh_leases_def)

lemma within_limit_wait:
  assumes "bh_wait token policy deadline s = Some (b, t)" "within_limit policy s"
  shows "within_limit policy t"
proof -
  have "within_limit policy s \<longrightarrow> within_limit policy (snd (b, t))"
  proof (rule bh_wait.raw_induct [OF _ assms(1), of "\<lambda>token policy deadline s y.
      within_limit policy s \<longrightarrow> within_limit policy (snd y)"], intro impI)
    fix rec token policy deadline and s :: "'z memory_scheme" and y
    assume IH: "\<And>token policy deadline s y. rec token policy deadline s = Some y \<Longrightarrow>
        within_limit policy s \<longrightarrow> within_limit policy (snd y)"
      and body: "(let attempt = bh_try_add token policy s in
          if fst attempt = Inr True then Some (True, snd attempt)
          else let reading = monotonic (snd attempt) in
            if deadline \<le> projr (fst reading) then Some (False, snd reading)
            else rec token policy deadline
              (elapse (of_int (bp_retry_interval_ms policy) / 1000) (snd reading))) = Some y"
      and ok: "within_limit policy s"
    have tr: "within_limit policy (snd (bh_try_add token policy s))"
      using within_limit_try_add [OF ok] by (metis prod.collapse)
    then have "within_limit policy (elapse d (snd (monotonic (snd (bh_try_add token policy s)))))" for d
      by (simp add: within_limit_def bh_leases_monotonic)
    with body tr IH show "within_limit policy (snd y)"
      by (auto simp: Let_def within_limit_def bh_leases_monotonic split: if_splits)
  qed
  with assms(2) show ?thesis by simp
qed

lemma bh_clock: "pr_now s \<le> pr_now (snd (bh_try_add token policy s))"
  "pr_now s \<le> pr_now (snd (monotonic s))" "fst (monotonic s) = Inr (pr_now s)"
  using bh_try_add_run [of token policy s] monotonicE [of s] by (metis prod.collapse fst_conv snd_conv)+

text \<open>A positive retry interval makes the wait end: the deadline comes nearer at each attempt.\<close>

lemma bh_wait_returns:
  assumes "0 < bp_retry_interval_ms policy"
    and "deadline \<le> pr_now s + of_nat n * (of_int (bp_retry_interval_ms policy) / 1000)"
  shows "\<exists>b t. bh_wait token policy deadline s = Some (b, t)"
  using assms(2)
proof (induction n arbitrary: s)
  case 0
  have "deadline \<le> projr (fst (monotonic (snd (bh_try_add token policy s))))"
    using 0 bh_clock(1) [of s token policy] by (simp add: bh_clock(3))
  then show ?case by (subst bh_wait.simps) (auto simp: Let_def)
next
  case (Suc n)
  let ?r = "of_int (bp_retry_interval_ms policy) / 1000 :: seconds"
  let ?u = "elapse ?r (snd (monotonic (snd (bh_try_add token policy s))))"
  have "pr_now s + ?r \<le> pr_now ?u"
    using bh_clock(1) [of s token policy] bh_clock(2) [of "snd (bh_try_add token policy s)"] assms(1)
    by simp
  moreover have "of_nat (Suc n) * ?r = ?r + of_nat n * ?r" by (simp add: distrib_right)
  ultimately have "deadline \<le> pr_now ?u + of_nat n * ?r" using Suc.prems by linarith
  from Suc.IH [OF this] show ?case by (subst bh_wait.simps) (auto simp: Let_def)
qed

lemma bh_enter_returns:
  assumes "0 < bp_retry_interval_ms policy"
  shows "\<exists>l t. bh_enter policy s = Some (l, t)"
proof -
  let ?r = "of_int (bp_retry_interval_ms policy) / 1000 :: seconds"
  have "\<exists>n :: nat. d \<le> x + of_nat n * ?r" for d x
  proof -
    have "0 < ?r" using assms by simp
    then obtain n :: nat where "(d - x) < of_nat n * ?r" using ex_less_of_nat_mult by blast
    then show ?thesis by (intro exI [of _ n]) simp
  qed
  then have "\<exists>b t. bh_wait token policy d u = Some (b, t)" for token d and u :: "'a memory_scheme"
    using bh_wait_returns [OF assms] by metis
  note w = this
  define s1 where "s1 = bh_put (bp_name policy) (bh_leases s (bp_name policy))
    (s\<lparr>pr_tokens := Suc (pr_tokens s)\<rparr>)"
  obtain u where M: "monotonic s1 = (Inr (pr_now s1), u)" by (rule monotonicE)
  obtain b t where "bh_wait (pr_tokens s) policy
      (pr_now s1 + of_int (bp_wait_timeout_ms policy) / 1000) u = Some (b, t)" using w by blast
  with M show ?thesis by (simp add: bh_enter_def Let_def s1_def [symmetric])
qed

lemma within_limit_enter:
  assumes "bh_enter policy s = Some (l, t)" "within_limit policy s"
  shows "within_limit policy t"
proof -
  define s1 where "s1 = bh_put (bp_name policy) (bh_leases s (bp_name policy))
    (s\<lparr>pr_tokens := Suc (pr_tokens s)\<rparr>)"
  obtain u where M: "monotonic s1 = (Inr (pr_now s1), u)" "mm_occupancy u = mm_occupancy s1"
    by (rule monotonicE)
  have ok: "within_limit policy u"
    using assms(2) M(2) by (simp add: within_limit_def bh_leases_def s1_def bh_put_def)
  from assms(1) M(1) obtain b where "bh_wait (pr_tokens s) policy
      (pr_now s1 + of_int (bp_wait_timeout_ms policy) / 1000) u = Some (b, t)"
    by (auto simp: bh_enter_def Let_def s1_def [symmetric] split: option.splits)
  from within_limit_wait [OF this ok] show ?thesis .
qed

lemma within_limit_exit: "within_limit policy s \<Longrightarrow> within_limit policy (bh_exit (bp_name policy) l s)"
proof -
  assume a: "within_limit policy s"
  have "length (filter (\<lambda>x. fst x \<noteq> fst l) (bh_leases s (bp_name policy)))
      \<le> length (bh_leases s (bp_name policy))" by simp
  then have "int (length (filter (\<lambda>x. fst x \<noteq> fst l) (bh_leases s (bp_name policy))))
      \<le> max 0 (bp_limit policy)"
    using a unfolding within_limit_def by linarith
  with a show ?thesis by (simp add: bh_exit_def bh_remove_def within_limit_def)
qed

section \<open>Properties\<close>

text \<open>Entering and leaving a bulkhead never lets more leases stand than the policy's limit.\<close>

theorem bulkhead_limit_kept:
  assumes "within_limit policy s"
  shows "case bh_enter policy s of
      None \<Rightarrow> True
    | Some (l, t) \<Rightarrow> within_limit policy t \<and> within_limit policy (bh_exit (bp_name policy) l' t)"
  by (auto intro: within_limit_exit within_limit_enter [OF _ assms] split: option.split)

theorem bulkhead_limit_kept_witness:
  "case bh_enter \<lparr>bp_name = ''risk'', bp_limit = 1, bp_lease_ttl_ms = 1000, bp_wait_timeout_ms = 0,
       bp_retry_interval_ms = 50\<rparr> (memory_start 0 []) of
      None \<Rightarrow> False
    | Some (l, t) \<Rightarrow> int (length (bh_leases t ''risk'')) \<le> 1"
  using bulkhead_limit_kept [of "\<lparr>bp_name = ''risk'', bp_limit = 1, bp_lease_ttl_ms = 1000,
      bp_wait_timeout_ms = 0, bp_retry_interval_ms = 50\<rparr>" "memory_start 0 []"]
    bh_enter_returns [of "\<lparr>bp_name = ''risk'', bp_limit = 1, bp_lease_ttl_ms = 1000,
      bp_wait_timeout_ms = 0, bp_retry_interval_ms = 50\<rparr>" "memory_start 0 []"]
  by (auto simp: within_limit_def bh_leases_def memory_start_def split: option.splits)

text \<open>C34: with a positive retry interval, waiting for a slot always ends, granted or not.\<close>

theorem bulkhead_enter_returns:
  assumes "0 < bp_retry_interval_ms policy"
  shows "\<exists>l t. bh_enter policy s = Some (l, t)"
  using assms by (rule bh_enter_returns)

theorem bulkhead_enter_returns_witness:
  "\<exists>l t. bh_enter \<lparr>bp_name = ''risk'', bp_limit = 0, bp_lease_ttl_ms = 1000,
       bp_wait_timeout_ms = 200, bp_retry_interval_ms = 50\<rparr> (memory_start 0 []) = Some (l, t)"
  by (rule bulkhead_enter_returns) simp

end
