(* ===== verification/Config.thy ===== *)
theory Config
  imports Interactors
begin

text \<open>
  \<open>setup/config.py\<close> and the entrypoints that gate on it (\<open>entrypoints/\<close>); what the composition root
  chooses from it is in \<open>Composition\<close>. A \<open>SecretStr\<close> is its
  value. How pydantic fills the models from the environment is not modelled: a statement about
  every \<open>settings\<close> is one about every environment that loads.
\<close>

section \<open>Settings\<close>

definition LOCAL :: string where "LOCAL = ''local''"
definition DEV_IDENTITY :: string where "DEV_IDENTITY = ''dev''"
definition JWT_IDENTITY :: string where "JWT_IDENTITY = ''jwt''"
definition IDENTITY_PROVIDERS :: "string list" where
  "IDENTITY_PROVIDERS = [DEV_IDENTITY, JWT_IDENTITY]"
definition ALLOW_ALL_RISK :: string where "ALLOW_ALL_RISK = ''allow-all''"
definition HTTP_RISK :: string where "HTTP_RISK = ''http''"
definition DEFAULT_SECRET :: string where "DEFAULT_SECRET = ''change-me''"

record logging_config =
  lg_level :: string
  lg_json_logs :: bool
  lg_console_pretty_in_debug :: bool
  lg_include_timestamp :: bool

definition logging_config_default :: logging_config where
  "logging_config_default =
     \<lparr>lg_level = ''INFO'', lg_json_logs = True, lg_console_pretty_in_debug = True,
      lg_include_timestamp = True\<rparr>"

record api_config =
  api_prefix :: string
  api_wallets :: string

definition api_config_default :: api_config where
  "api_config_default = \<lparr>api_prefix = ''/v1'', api_wallets = ''/wallets''\<rparr>"

record app_config =
  app_name :: string
  app_environment :: string
  app_identity_provider :: string
  app_host :: string
  app_port :: int
  app_workers :: int
  app_reload :: bool
  app_timeout_keep_alive :: int
  app_timeout_graceful_shutdown :: int
  app_secret_key :: string
  app_api :: api_config
  app_logging :: logging_config

definition app_config_default :: app_config where
  "app_config_default =
     \<lparr>app_name = ''evenkeel'', app_environment = ''production'',
      app_identity_provider = DEV_IDENTITY, app_host = ''0.0.0.0'', app_port = 8000,
      app_workers = 1, app_reload = False, app_timeout_keep_alive = 75,
      app_timeout_graceful_shutdown = 30, app_secret_key = DEFAULT_SECRET,
      app_api = api_config_default, app_logging = logging_config_default\<rparr>"

definition is_local :: "app_config \<Rightarrow> bool" where
  "is_local a \<longleftrightarrow> app_environment a = LOCAL"

record database_config =
  db_host :: string
  db_port :: int
  db_user :: string
  db_password :: string
  db_database :: string
  db_echo :: bool
  db_echo_pool :: bool
  db_pool_size :: int
  db_max_overflow :: int
  db_pool_recycle_seconds :: int

definition database_config_default :: database_config where
  "database_config_default =
     \<lparr>db_host = ''localhost'', db_port = 5432, db_user = ''evenkeel'', db_password = ''evenkeel'',
      db_database = ''evenkeel'', db_echo = False, db_echo_pool = False, db_pool_size = 10,
      db_max_overflow = 20, db_pool_recycle_seconds = 1800\<rparr>"

record redis_config =
  rds_url :: string

definition redis_enabled :: "redis_config \<Rightarrow> bool" where
  "redis_enabled c \<longleftrightarrow> rds_url c \<noteq> []"

record movement_policy_config =
  mpc_rate_limit_enabled :: bool
  mpc_rate_limit_limit :: int
  mpc_rate_limit_window_seconds :: seconds
  mpc_risk_fail_open :: bool

definition movement_policy_config_default :: movement_policy_config where
  "movement_policy_config_default =
     \<lparr>mpc_rate_limit_enabled = True, mpc_rate_limit_limit = 30,
      mpc_rate_limit_window_seconds = 60, mpc_risk_fail_open = False\<rparr>"

record outbound_http_config =
  oh_total_timeout_ms :: int
  oh_connect_timeout_ms :: int
  oh_read_timeout_ms :: int
  oh_budget_ms :: int
  oh_max_attempts :: int
  oh_backoff_base_ms :: int
  oh_backoff_max_ms :: int
  oh_max_response_bytes :: int
  oh_bulkhead_limit :: int
  oh_bulkhead_wait_ms :: int
  oh_connection_limit :: int
  oh_dns_cache_seconds :: int
  oh_trust_env :: bool

definition outbound_http_config_default :: outbound_http_config where
  "outbound_http_config_default =
     \<lparr>oh_total_timeout_ms = 800, oh_connect_timeout_ms = 200, oh_read_timeout_ms = 700,
      oh_budget_ms = 1500, oh_max_attempts = 2, oh_backoff_base_ms = 50, oh_backoff_max_ms = 400,
      oh_max_response_bytes = 64 * 1024, oh_bulkhead_limit = 32, oh_bulkhead_wait_ms = 0,
      oh_connection_limit = 64, oh_dns_cache_seconds = 30, oh_trust_env = False\<rparr>"

record risk_config =
  rkc_provider :: string
  rkc_base_url :: string
  rkc_path :: string
  rkc_api_key :: string
  rkc_fail_open :: bool
  rkc_http :: outbound_http_config

definition risk_config_default :: risk_config where
  "risk_config_default =
     \<lparr>rkc_provider = ALLOW_ALL_RISK, rkc_base_url = [], rkc_path = ''/decisions'', rkc_api_key = [],
      rkc_fail_open = False, rkc_http = outbound_http_config_default\<rparr>"

text \<open>The model validator: the models that exist are the ones it returns.\<close>

definition risk_config_validate :: "risk_config \<Rightarrow> exn + risk_config" where
  "risk_config_validate c =
     (if rkc_provider c = HTTP_RISK \<and> rkc_base_url c = [] then Inl value_error else Inr c)"

record identity_config =
  idc_issuer :: string
  idc_audience :: string
  idc_jwks_url :: string
  idc_algorithms :: "string list"
  idc_owner_claim :: string

definition identity_config_default :: identity_config where
  "identity_config_default =
     \<lparr>idc_issuer = [], idc_audience = [], idc_jwks_url = [], idc_algorithms = [''RS256''],
      idc_owner_claim = ''sub''\<rparr>"

record settings =
  set_app :: app_config
  set_database :: database_config
  set_redis :: redis_config
  set_risk :: risk_config
  set_movements :: movement_policy_config
  set_mcp_owner_id :: string
  set_identity :: identity_config
  set_metrics_enabled :: bool

definition settings_default :: settings where
  "settings_default =
     \<lparr>set_app = app_config_default, set_database = database_config_default,
      set_redis = \<lparr>rds_url = []\<rparr>, set_risk = risk_config_default,
      set_movements = movement_policy_config_default, set_mcp_owner_id = [],
      set_identity = identity_config_default, set_metrics_enabled = False\<rparr>"

section \<open>The boot gate\<close>

definition starts_with :: "string \<Rightarrow> string \<Rightarrow> bool" where
  "starts_with p s \<longleftrightarrow> take (length p) s = p"

text \<open>\<open>repr\<close> of an ASCII text: the quote is single unless the text holds single quotes only.\<close>

definition repr_char :: "char \<Rightarrow> char \<Rightarrow> string" where
  "repr_char q c =
     (if c = q \<or> c = CHR 0x5C then [CHR 0x5C, c]
      else if c = CHR 0x09 then [CHR 0x5C, CHR ''t'']
      else if c = CHR 0x0A then [CHR 0x5C, CHR ''n'']
      else if c = CHR 0x0D then [CHR 0x5C, CHR ''r'']
      else if code c < 32 \<or> code c = 127 then [CHR 0x5C, CHR ''x''] @ hex_digits 2 (code c)
      else [c])"

definition py_repr :: "string \<Rightarrow> string" where
  "py_repr s =
     (let q = (if CHR 0x27 \<in> set s \<and> CHR 0x22 \<notin> set s then CHR 0x22 else CHR 0x27) in
      [q] @ concat (map (repr_char q) s) @ [q])"

fun identity_field :: "string \<Rightarrow> identity_config \<Rightarrow> string" where
  "identity_field f c =
     (if f = ''issuer'' then idc_issuer c else if f = ''audience'' then idc_audience c
      else idc_jwks_url c)"

definition jwt_problems :: "identity_config \<Rightarrow> string list" where
  "jwt_problems c =
     map (\<lambda>f. ''identity_provider is 'jwt' but identity.'' @ f @ '' is empty'')
       (filter (\<lambda>f. identity_field f c = []) [''issuer'', ''audience'', ''jwks_url''])
     @ (if idc_algorithms c = [] then [''identity.algorithms is empty, so no token can verify'']
        else [])
     @ (let url = py_lower (idc_jwks_url c) in
        if url = ''https://'' \<or> url = ''http://'' then
          [''identity.jwks_url is a scheme with no host'']
        else if url \<noteq> [] \<and> \<not> starts_with ''https://'' url then
          [''identity.jwks_url is not https, so the signing keys are ''
             @ ''whatever the network says they are'']
        else [])"

definition production_config_problems :: "settings \<Rightarrow> string list" where
  "production_config_problems st =
     (let provider = app_identity_provider (set_app st) in
      (if provider \<notin> set IDENTITY_PROVIDERS then
         [''app.identity_provider is '' @ py_repr provider
            @ '', which is not one of ('dev', 'jwt')'']
       else [])
      @ (if provider = JWT_IDENTITY then jwt_problems (set_identity st) else [])
      @ (if provider = DEV_IDENTITY then
           [''app.identity_provider is still 'dev', which authenticates anyone ''
              @ ''who supplies an owner id'']
         else [])
      @ (let secret = app_secret_key (set_app st) in
         if secret = [] \<or> secret = DEFAULT_SECRET then
           [''app.secret_key is empty or still the public default'']
         else [])
      @ (if db_password (set_database st) \<in> {[], ''evenkeel'', ''postgres''} then
           [''database.password is empty or a well-known default'']
         else [])
      @ (if db_echo (set_database st) \<or> db_echo_pool (set_database st) then
           [''database.echo prints bound parameters, which no log redaction can filter'']
         else [])
      @ (if rkc_provider (set_risk st) = HTTP_RISK
             \<and> starts_with ''http://'' (py_lower (rkc_base_url (set_risk st))) then
           [''risk.base_url is plaintext http, and the request carries a token'']
         else []))"

section \<open>The entrypoints\<close>

text \<open>The arguments of \<open>uvicorn.run\<close>.\<close>

record uvicorn_args =
  uv_host :: string
  uv_port :: int
  uv_workers :: int
  uv_reload :: bool
  uv_timeout_keep_alive :: int
  uv_timeout_graceful_shutdown :: int
  uv_log_level :: string

datatype 'a boot = Refused_Boot "string list" | Serving 'a

definition fatal_lines :: "string list \<Rightarrow> string list" where
  "fatal_lines = map (\<lambda>p. ''FATAL: insecure configuration: '' @ p)"

definition web_main :: "settings \<Rightarrow> uvicorn_args boot" where
  "web_main st =
     (let problems = production_config_problems st in
      if problems \<noteq> [] \<and> \<not> is_local (set_app st) then Refused_Boot (fatal_lines problems)
      else
        let workers = max 1 (app_workers (set_app st)) in
        Serving \<lparr>uv_host = app_host (set_app st), uv_port = app_port (set_app st),
          uv_workers = workers, uv_reload = app_reload (set_app st) \<and> workers = 1,
          uv_timeout_keep_alive = app_timeout_keep_alive (set_app st),
          uv_timeout_graceful_shutdown = app_timeout_graceful_shutdown (set_app st),
          uv_log_level = py_lower (lg_level (app_logging (set_app st)))\<rparr>)"

text \<open>The owner a tool server acts for. (The dash of the second message is not ASCII in the source.)\<close>

definition mcp_main :: "settings \<Rightarrow> owner_id boot" where
  "mcp_main st =
     (let problems = production_config_problems st in
      if problems \<noteq> [] \<and> \<not> is_local (set_app st) then Refused_Boot (fatal_lines problems)
      else if set_mcp_owner_id st = [] then
        Refused_Boot [''FATAL: app.mcp.owner_id is required -- the MCP transport acts on ''
          @ ''behalf of exactly one owner, and it is not a tool argument'']
      else case uuid_parse (set_mcp_owner_id st) of
        Inl e \<Rightarrow> Refused_Boot [''FATAL: app.mcp.owner_id must be a UUID'']
      | Inr u \<Rightarrow> Serving (OwnerId u))"

section \<open>Properties\<close>

lemma starts_with_length: "starts_with p s \<Longrightarrow> length p \<le> length s"
  by (drule starts_with_def [THEN iffD1], drule arg_cong [of _ _ length]) simp

lemma starts_with_eq: "starts_with p s \<Longrightarrow> length s = length p \<Longrightarrow> s = p"
  by (simp add: starts_with_def)

lemma if_list_nil: "(if b then [x] else []) = [] \<longleftrightarrow> \<not> b"
  by simp

lemma if_jwt_nil: "(if b then jwt_problems c else []) = [] \<longleftrightarrow> \<not> b \<or> jwt_problems c = []"
  by simp

lemma scheme_only:
  assumes "length a = 8" "length b < 8" "\<not> starts_with a b" "b \<noteq> []"
  shows "(if l = a \<or> l = b then [x] else if l \<noteq> [] \<and> \<not> starts_with a l then [y] else []) = []
    \<longleftrightarrow> l = [] \<or> starts_with a l \<and> 8 < length l"
proof -
  have "starts_with a l \<Longrightarrow> l \<noteq> a \<Longrightarrow> 8 < length l"
    using starts_with_length [of a l] starts_with_eq [of a l] assms(1) by fastforce
  moreover have "8 < length l \<Longrightarrow> l \<noteq> a \<and> l \<noteq> b" using assms(1,2) by auto
  moreover have "starts_with a a" by (simp add: starts_with_def)
  moreover have "a \<noteq> []" using assms(1) by auto
  ultimately show ?thesis using assms(3,4) by auto
qed

lemma https_url:
  "(if l = ''https://'' \<or> l = ''http://'' then [x]
    else if l \<noteq> [] \<and> \<not> starts_with ''https://'' l then [y] else []) = []
   \<longleftrightarrow> l = [] \<or> starts_with ''https://'' l \<and> 8 < length l"
  by (rule scheme_only) (simp_all add: starts_with_def)

lemma jwt_problems_none:
  "jwt_problems c = [] \<longleftrightarrow> idc_issuer c \<noteq> [] \<and> idc_audience c \<noteq> [] \<and> idc_algorithms c \<noteq> []
     \<and> starts_with ''https://'' (py_lower (idc_jwks_url c)) \<and> 8 < length (idc_jwks_url c)"
proof -
  have fields: "filter (\<lambda>f. identity_field f c = []) [''issuer'', ''audience'', ''jwks_url''] = []
      \<longleftrightarrow> idc_issuer c \<noteq> [] \<and> idc_audience c \<noteq> [] \<and> idc_jwks_url c \<noteq> []" by simp
  have low: "py_lower u = [] \<longleftrightarrow> u = []" "length (py_lower u) = length u" for u
    by (simp_all add: py_lower_def)
  have logic: "(i \<and> a \<and> u \<noteq> []) \<and> g \<and> (u = [] \<or> h \<and> 8 < length u) \<longleftrightarrow> i \<and> a \<and> g \<and> h \<and> 8 < length u"
    for i a g h and u :: string by auto
  show ?thesis
    unfolding jwt_problems_def Let_def append_is_Nil_conv map_is_Nil_conv fields https_url
      if_list_nil not_not
    unfolding low by (rule logic)
qed

lemma gate_logic:
  "(known \<longleftrightarrow> jwt \<or> dev) \<Longrightarrow> \<not> (jwt \<and> dev) \<Longrightarrow>
     \<not> \<not> known \<and> (\<not> jwt \<or> ok) \<and> \<not> dev \<and> rest \<longleftrightarrow> jwt \<and> ok \<and> rest"
  by blast

lemma gate_exact:
  "production_config_problems st = [] \<longleftrightarrow>
     app_identity_provider (set_app st) = JWT_IDENTITY
     \<and> idc_issuer (set_identity st) \<noteq> [] \<and> idc_audience (set_identity st) \<noteq> []
     \<and> idc_algorithms (set_identity st) \<noteq> []
     \<and> starts_with ''https://'' (py_lower (idc_jwks_url (set_identity st)))
     \<and> 8 < length (idc_jwks_url (set_identity st))
     \<and> app_secret_key (set_app st) \<notin> {[], DEFAULT_SECRET}
     \<and> db_password (set_database st) \<notin> {[], ''evenkeel'', ''postgres''}
     \<and> \<not> db_echo (set_database st) \<and> \<not> db_echo_pool (set_database st)
     \<and> \<not> (rkc_provider (set_risk st) = HTTP_RISK
            \<and> starts_with ''http://'' (py_lower (rkc_base_url (set_risk st))))"
proof -
  have known: "p \<in> set IDENTITY_PROVIDERS \<longleftrightarrow> p = JWT_IDENTITY \<or> p = DEV_IDENTITY"
      "\<not> (p = JWT_IDENTITY \<and> p = DEV_IDENTITY)" for p
    by (auto simp: IDENTITY_PROVIDERS_def JWT_IDENTITY_def DEV_IDENTITY_def)
  show ?thesis
    unfolding production_config_problems_def Let_def append_is_Nil_conv if_list_nil if_jwt_nil
      jwt_problems_none gate_logic [OF known] insert_iff empty_iff de_Morgan_disj
    by (simp only: conj_assoc simp_thms)
qed

text \<open>C24: what the boot gate lets through: a configuration has no problems exactly when tokens are
  verified against a named issuer and audience with keys from an https URL that has a host, the
  secret and the database password are not defaults, nothing echoes bound parameters, and an
  HTTP risk provider is not called in plaintext.\<close>

theorem config_gate_exact:
  "production_config_problems st = [] \<longleftrightarrow>
     app_identity_provider (set_app st) = JWT_IDENTITY
     \<and> idc_issuer (set_identity st) \<noteq> [] \<and> idc_audience (set_identity st) \<noteq> []
     \<and> idc_algorithms (set_identity st) \<noteq> []
     \<and> starts_with ''https://'' (py_lower (idc_jwks_url (set_identity st)))
     \<and> 8 < length (idc_jwks_url (set_identity st))
     \<and> app_secret_key (set_app st) \<notin> {[], DEFAULT_SECRET}
     \<and> db_password (set_database st) \<notin> {[], ''evenkeel'', ''postgres''}
     \<and> \<not> db_echo (set_database st) \<and> \<not> db_echo_pool (set_database st)
     \<and> \<not> (rkc_provider (set_risk st) = HTTP_RISK
            \<and> starts_with ''http://'' (py_lower (rkc_base_url (set_risk st))))"
  by (rule gate_exact)

end
