(* ===== verification/Redis_Server.thy ===== *)
theory Redis_Server
  imports Json_Parse Ports
begin

text \<open>
  The Lua scripts and commands that \<open>infrastructure/adapters/redis/\<close> sends, over the documented
  effect of the Redis commands they call. A script runs atomically, so the requests of all
  replicas are steps of one state machine on the keyspace, and what holds in every state it
  reaches holds under every interleaving of the replicas. Times are the server's milliseconds; a
  key is gone when its expiry has come. A command that fails ends its script, with what the script
  did before left in place.
\<close>

section \<open>Keys and commands\<close>

datatype redis_value = Text string | Zset "(string \<times> int) list"

record redis_db =
  rb_now :: int
  rb_keys :: "string \<Rightarrow> (redis_value \<times> int option) option"

type_synonym 'a redis = "(redis_db, string, 'a) prog"

definition redis_empty :: "int \<Rightarrow> redis_db" where
  "redis_empty now = \<lparr>rb_now = now, rb_keys = \<lambda>_. None\<rparr>"

definition redis_live :: "redis_db \<Rightarrow> string \<Rightarrow> (redis_value \<times> int option) option" where
  "redis_live db k =
     (case rb_keys db k of
        Some (v, Some x) \<Rightarrow> if x \<le> rb_now db then None else Some (v, Some x)
      | other \<Rightarrow> other)"

definition redis_put :: "string \<Rightarrow> (redis_value \<times> int option) option \<Rightarrow> redis_db \<Rightarrow> redis_db" where
  "redis_put k v db = db\<lparr>rb_keys := (rb_keys db)(k := v)\<rparr>"

definition redis_get :: "string \<Rightarrow> string option redis" where
  "redis_get k = (\<lambda>db.
     case redis_live db k of
       None \<Rightarrow> (Inr None, db)
     | Some (Text t, _) \<Rightarrow> (Inr (Some t), db)
     | Some (Zset _, _) \<Rightarrow> (Inl ''WRONGTYPE'', db))"

text \<open>\<open>SET key value PX ttl\<close>, with \<open>NX\<close> when \<open>nx\<close>; the value says whether it was set.\<close>

definition redis_set :: "string \<Rightarrow> string \<Rightarrow> int \<Rightarrow> bool \<Rightarrow> bool redis" where
  "redis_set k v ttl_ms nx = (\<lambda>db.
     if ttl_ms \<le> 0 then (Inl ''ERR invalid expire time'', db)
     else if nx \<and> redis_live db k \<noteq> None then (Inr False, db)
     else (Inr True, redis_put k (Some (Text v, Some (rb_now db + ttl_ms))) db))"

definition redis_del :: "string \<Rightarrow> int redis" where
  "redis_del k = (\<lambda>db. (Inr (if redis_live db k = None then 0 else 1), redis_put k None db))"

text \<open>\<open>INCRBY\<close>: the text is a signed 64-bit number; a missing key counts from 0 and has no expiry.\<close>

definition redis_number :: "string \<Rightarrow> int option" where
  "redis_number s =
     (let neg = (s \<noteq> [] \<and> hd s = CHR ''-''); ds = (if neg then tl s else s) in
      if ds \<noteq> [] \<and> list_all is_digit ds then
        let n = (if neg then - 1 else 1) * int (read_digits ds) in
        if - (2 ^ 63) \<le> n \<and> n < 2 ^ 63 then Some n else None
      else None)"

definition redis_incrby :: "string \<Rightarrow> int \<Rightarrow> int redis" where
  "redis_incrby k d = (\<lambda>db.
     case redis_live db k of
       Some (Zset _, _) \<Rightarrow> (Inl ''WRONGTYPE'', db)
     | live \<Rightarrow>
         (case (case live of Some (Text t, _) \<Rightarrow> redis_number t | _ \<Rightarrow> Some 0) of
            None \<Rightarrow> (Inl ''ERR value is not an integer or out of range'', db)
          | Some n \<Rightarrow>
              if n + d < - (2 ^ 63) \<or> 2 ^ 63 \<le> n + d then (Inl ''ERR increment or decrement would overflow'', db)
              else (Inr (n + d), redis_put k (Some (Text (show_int (n + d)),
                     (case live of None \<Rightarrow> None | Some (_, x) \<Rightarrow> x))) db)))"

definition redis_pexpire :: "string \<Rightarrow> int \<Rightarrow> unit redis" where
  "redis_pexpire k ttl_ms = (\<lambda>db.
     case redis_live db k of
       None \<Rightarrow> (Inr (), db)
     | Some (v, _) \<Rightarrow>
         (Inr (), redis_put k (if ttl_ms \<le> 0 then None else Some (v, Some (rb_now db + ttl_ms))) db))"

definition redis_pttl :: "string \<Rightarrow> int redis" where
  "redis_pttl k = (\<lambda>db.
     (Inr (case redis_live db k of None \<Rightarrow> - 2 | Some (_, None) \<Rightarrow> - 1
           | Some (_, Some x) \<Rightarrow> x - rb_now db), db))"

text \<open>Sorted sets: the members with their scores. An empty one is no key.\<close>

definition redis_members :: "string \<Rightarrow> (string \<times> int) list redis" where
  "redis_members k = (\<lambda>db.
     case redis_live db k of
       None \<Rightarrow> (Inr [], db)
     | Some (Zset ms, _) \<Rightarrow> (Inr ms, db)
     | Some (Text _, _) \<Rightarrow> (Inl ''WRONGTYPE'', db))"

definition redis_put_members :: "string \<Rightarrow> (string \<times> int) list \<Rightarrow> unit redis" where
  "redis_put_members k ms = (\<lambda>db.
     (Inr (), redis_put k (if ms = [] then None
        else Some (Zset ms, case redis_live db k of None \<Rightarrow> None | Some (_, x) \<Rightarrow> x)) db))"

definition redis_zremrangebyscore :: "string \<Rightarrow> int \<Rightarrow> unit redis" where
  "redis_zremrangebyscore k up_to =
     pbind (redis_members k) (\<lambda>ms. redis_put_members k (filter (\<lambda>m. up_to < snd m) ms))"

definition redis_zcard :: "string \<Rightarrow> int redis" where
  "redis_zcard k = pbind (redis_members k) (\<lambda>ms. pret (int (length ms)))"

definition redis_zadd :: "string \<Rightarrow> int \<Rightarrow> string \<Rightarrow> unit redis" where
  "redis_zadd k score member =
     pbind (redis_members k) (\<lambda>ms. redis_put_members k (dict_set member score ms))"

definition redis_zrem :: "string \<Rightarrow> string \<Rightarrow> int redis" where
  "redis_zrem k member =
     pbind (redis_members k) (\<lambda>ms.
     pthen (redis_put_members k (filter (\<lambda>m. fst m \<noteq> member) ms))
       (pret (if member \<in> fst ` set ms then 1 else 0)))"

definition redis_now_ms :: "int redis" where
  "redis_now_ms = (\<lambda>db. (Inr (rb_now db), db))"

section \<open>Scripts\<close>

text \<open>\<open>redis/locking.py\<close>: \<open>_RELEASE_SCRIPT\<close> and \<open>_CONSUME_SCRIPT\<close>.\<close>

definition lock_release_script :: "string \<Rightarrow> string \<Rightarrow> pyval redis" where
  "lock_release_script k token =
     pbind (redis_get k) (\<lambda>v.
       if v = Some token then pbind (redis_del k) (\<lambda>n. pret (VInt n)) else pret (VInt 0))"

definition consume_script :: "string \<Rightarrow> int \<Rightarrow> int \<Rightarrow> pyval redis" where
  "consume_script k cost window_ms =
     pbind (redis_incrby k cost) (\<lambda>current.
     pthen (if current = cost then redis_pexpire k window_ms else pret ())
     (pbind (redis_pttl k) (\<lambda>ttl.
       pret (VList [VInt current, VInt ttl]))))"

text \<open>\<open>redis/idempotency.py\<close>: \<open>_RESERVE_SCRIPT\<close> and \<open>_RELEASE_SCRIPT\<close>.\<close>

definition reserve_script :: "string \<Rightarrow> string \<Rightarrow> int \<Rightarrow> pyval redis" where
  "reserve_script k claim ttl_seconds =
     pbind (redis_get k) (\<lambda>existing.
       case existing of
         None \<Rightarrow> pthen (redis_set k claim (1000 * ttl_seconds) False) (pret (VStr ''reserved''))
       | Some t \<Rightarrow> pret (VStr t))"

definition response_member :: string where
  "response_member = [CHR 0x22] @ ''response'' @ [CHR 0x22]"

definition key_release_script :: "string \<Rightarrow> pyval redis" where
  "key_release_script k =
     pbind (redis_get k) (\<lambda>existing.
       case existing of
         None \<Rightarrow> pret (VInt 0)
       | Some t \<Rightarrow>
           if \<not> occurs_in response_member t then pbind (redis_del k) (\<lambda>n. pret (VInt n))
           else pret (VInt 0))"

text \<open>\<open>redis/bulkhead.py\<close>: \<open>_ACQUIRE_SCRIPT\<close> and \<open>_RELEASE_SCRIPT\<close>.\<close>

definition slot_acquire_script :: "string \<Rightarrow> string \<Rightarrow> int \<Rightarrow> int \<Rightarrow> pyval redis" where
  "slot_acquire_script k token limit ttl_ms =
     pbind redis_now_ms (\<lambda>now_ms.
     pthen (redis_zremrangebyscore k now_ms)
     (pbind (redis_zcard k) (\<lambda>occupied.
       if limit \<le> occupied then pret (VInt 0)
       else
         pthen (redis_zadd k (now_ms + ttl_ms) token)
         (pthen (redis_pexpire k ttl_ms)
         (pret (VInt 1))))))"

definition slot_release_script :: "string \<Rightarrow> string \<Rightarrow> pyval redis" where
  "slot_release_script k token = pbind (redis_zrem k token) (\<lambda>n. pret (VInt n))"

section \<open>Requests\<close>

text \<open>Everything the adapters send, by the key they name.\<close>

datatype redis_request =
    Acquire_Lock string string int
  | Release_Lock string string
  | Consume string int int
  | Reserve_Key string string int
  | Read_Key string
  | Store_Key string string int
  | Release_Key string
  | Acquire_Slot string string int int
  | Release_Slot string string

fun redis_serve :: "redis_request \<Rightarrow> pyval redis" where
  "redis_serve (Acquire_Lock k token ttl_ms) =
     pbind (redis_set k token ttl_ms True) (\<lambda>set. pret (if set then VBool True else VNone))"
| "redis_serve (Release_Lock k token) = lock_release_script k token"
| "redis_serve (Consume k cost window_ms) = consume_script k cost window_ms"
| "redis_serve (Reserve_Key k claim ttl_seconds) = reserve_script k claim ttl_seconds"
| "redis_serve (Read_Key k) =
     pbind (redis_get k) (\<lambda>v. pret (case v of None \<Rightarrow> VNone | Some t \<Rightarrow> VStr t))"
| "redis_serve (Store_Key k text' ttl_seconds) =
     pbind (redis_set k text' (1000 * ttl_seconds) False) (\<lambda>_. pret (VBool True))"
| "redis_serve (Release_Key k) = key_release_script k"
| "redis_serve (Acquire_Slot k token limit ttl_ms) = slot_acquire_script k token limit ttl_ms"
| "redis_serve (Release_Slot k token) = slot_release_script k token"

fun request_key :: "redis_request \<Rightarrow> string" where
  "request_key (Acquire_Lock k _ _) = k"
| "request_key (Release_Lock k _) = k"
| "request_key (Consume k _ _) = k"
| "request_key (Reserve_Key k _ _) = k"
| "request_key (Read_Key k) = k"
| "request_key (Store_Key k _ _) = k"
| "request_key (Release_Key k) = k"
| "request_key (Acquire_Slot k _ _ _) = k"
| "request_key (Release_Slot k _) = k"

section \<open>The server as a state machine\<close>

datatype redis_event = Passes int | Serves redis_request "string + pyval"

inductive redis_step :: "redis_db \<Rightarrow> redis_event \<Rightarrow> redis_db \<Rightarrow> bool" where
  step_passes: "0 \<le> d \<Longrightarrow> redis_step db (Passes d) (db\<lparr>rb_now := rb_now db + d\<rparr>)"
| step_serves: "redis_serve q db = (r, db') \<Longrightarrow> redis_step db (Serves q r) db'"

inductive_cases step_passesE: "redis_step db (Passes d) db'"
inductive_cases step_servesE: "redis_step db (Serves q r) db'"

inductive redis_steps :: "redis_db \<Rightarrow> redis_event list \<Rightarrow> redis_db \<Rightarrow> bool" where
  steps_none: "redis_steps db [] db"
| steps_more: "redis_step db e db' \<Longrightarrow> redis_steps db' es db'' \<Longrightarrow> redis_steps db (e # es) db''"

inductive_cases steps_ConsE: "redis_steps db (e # es) db'"

lemma redis_steps_append:
  "redis_steps db es db' \<Longrightarrow> redis_steps db' fs db'' \<Longrightarrow> redis_steps db (es @ fs) db''"
  by (induction rule: redis_steps.induct) (auto intro: redis_steps.intros)

section \<open>What a request leaves alone\<close>

text \<open>The clock, and every key but its own.\<close>

definition only_key :: "string \<Rightarrow> redis_db \<Rightarrow> redis_db \<Rightarrow> bool" where
  "only_key k db db' \<longleftrightarrow> rb_now db' = rb_now db \<and> (\<forall>k'. k' \<noteq> k \<longrightarrow> rb_keys db' k' = rb_keys db k')"

lemma only_key_order [simp]: "reflp (only_key k)" "transp (only_key k)"
  by (auto simp: only_key_def intro!: reflpI transpI)

lemma put_only: "only_key k db (redis_put k v db)"
  by (simp add: only_key_def redis_put_def)

lemma self_only: "only_key k db db"
  by (simp add: only_key_def)

lemma commands_only:
  "keeps (only_key k) (redis_get k)" "keeps (only_key k) (redis_set k v ttl nx)"
  "keeps (only_key k) (redis_del k)" "keeps (only_key k) (redis_incrby k d)"
  "keeps (only_key k) (redis_pexpire k ttl)" "keeps (only_key k) (redis_pttl k)"
  "keeps (only_key k) (redis_members k)" "keeps (only_key k) (redis_put_members k ms)"
  "keeps (only_key k) redis_now_ms"
  by (auto simp: keeps_def redis_get_def redis_set_def redis_del_def redis_incrby_def
      redis_pexpire_def redis_pttl_def redis_members_def redis_put_members_def redis_now_ms_def
      put_only self_only split: option.splits redis_value.splits)

lemma serve_only: "keeps (only_key (request_key q)) (redis_serve q)"
  by (cases q)
    (auto simp: lock_release_script_def consume_script_def reserve_script_def key_release_script_def
      slot_acquire_script_def slot_release_script_def redis_zremrangebyscore_def redis_zcard_def
      redis_zadd_def redis_zrem_def intro!: keeps_bind keeps_then keeps_if commands_only
      split: option.split)

lemma step_clock: "redis_step db e db' \<Longrightarrow> rb_now db \<le> rb_now db'"
  by (cases rule: redis_step.cases) (auto dest: keepsD [OF serve_only] simp: only_key_def)

lemma steps_clock: "redis_steps db es db' \<Longrightarrow> rb_now db \<le> rb_now db'"
  by (induction rule: redis_steps.induct) (auto dest: step_clock)

text \<open>A step that is not a request on the key leaves its entry as it is.\<close>

definition touches :: "string \<Rightarrow> redis_event \<Rightarrow> bool" where
  "touches k e \<longleftrightarrow> (\<exists>q r. e = Serves q r \<and> request_key q = k)"

lemma step_untouched: "redis_step db e db' \<Longrightarrow> \<not> touches k e \<Longrightarrow> rb_keys db' k = rb_keys db k"
  by (cases rule: redis_step.cases)
    (auto simp: touches_def dest!: keepsD [OF serve_only] simp: only_key_def)

end
