(* ===== verification/Redis_Adapters.thy ===== *)
theory Redis_Adapters
  imports Redis_Server Memory_Idempotency
begin

text \<open>
  \<open>infrastructure/adapters/redis/\<close>: the lock, the rate limiter, the idempotency store and the
  bulkhead as clients of the server of \<open>Redis_Server\<close>. The connection (\<open>redis.asyncio\<close>, with
  \<open>decode_responses\<close> set) and \<open>uuid.uuid4\<close> are the record \<open>redis_client\<close>: a call sends one request
  and returns the reply, or raises, in which case the server may have served it or not.
\<close>

section \<open>The connection\<close>

record 's redis_client =
  rc_send :: "redis_request \<Rightarrow> ('s, exn, pyval) prog"
  rc_uuid4 :: "('s, exn, uuid) prog"
  rc_is_redis_error :: "exn \<Rightarrow> bool"
  rc_recursion_limit :: nat

definition translating_redis_errors ::
  "'s redis_client \<Rightarrow> string \<Rightarrow> ('s, exn, 'a) prog \<Rightarrow> ('s, exn, 'a) prog" where
  "translating_redis_errors C operation m =
     pcatch m (\<lambda>e.
       if rc_is_redis_error C e then
         praise (app_exn DependencyUnavailableError DEPENDENCY_UNAVAILABLE
           (Some [(''dependency'', VStr ''redis''), (''operation'', VStr operation)]))
       else praise e)"

fun py_true :: "pyval \<Rightarrow> bool" where
  "py_true VNone \<longleftrightarrow> False"
| "py_true (VBool b) \<longleftrightarrow> b"
| "py_true (VInt n) \<longleftrightarrow> n \<noteq> 0"
| "py_true (VNum x) \<longleftrightarrow> x \<noteq> 0"
| "py_true (VSpecial _) \<longleftrightarrow> True"
| "py_true (VStr s) \<longleftrightarrow> s \<noteq> []"
| "py_true (VList vs) \<longleftrightarrow> vs \<noteq> []"
| "py_true (VTuple vs) \<longleftrightarrow> vs \<noteq> []"
| "py_true (VDict kvs) \<longleftrightarrow> kvs \<noteq> []"

text \<open>The loop that the lock and the bulkhead share: ask until granted or until the deadline.\<close>

partial_function (option) redis_poll ::
  "('z memory_scheme, exn, pyval) prog \<Rightarrow> seconds \<Rightarrow> seconds \<Rightarrow> 'z memory_scheme
     \<Rightarrow> ((exn + bool) \<times> 'z memory_scheme) option" where
  "redis_poll attempt deadline retry s =
     (case attempt s of
        (Inl e, t) \<Rightarrow> Some (Inl e, t)
      | (Inr granted, t) \<Rightarrow>
          if py_true granted then Some (Inr True, t)
          else
            (case monotonic t of
               (Inl e, u) \<Rightarrow> Some (Inl e, u)
             | (Inr now, u) \<Rightarrow>
                 if deadline \<le> now then Some (Inr False, u)
                 else redis_poll attempt deadline retry (elapse retry u)))"

text \<open>\<open>__aenter__\<close> of both: the reading of the clock, then the loop.\<close>

definition redis_await ::
  "('z memory_scheme, exn, pyval) prog \<Rightarrow> int \<Rightarrow> int \<Rightarrow> 'z memory_scheme
     \<Rightarrow> ((exn + bool) \<times> 'z memory_scheme) option" where
  "redis_await attempt wait_timeout_ms retry_interval_ms s =
     (case monotonic s of
        (Inl e, t) \<Rightarrow> Some (Inl e, t)
      | (Inr now, t) \<Rightarrow>
          redis_poll attempt (now + of_int wait_timeout_ms / 1000) (of_int retry_interval_ms / 1000) t)"

section \<open>The lock\<close>

text \<open>\<open>_RedisLock\<close>. The default of \<open>lock()\<close> is a retry interval of 25 milliseconds, and the service
  does not give another.\<close>

record redis_lock =
  rk_key :: string
  rk_token :: string
  rk_acquired :: bool

definition redis_lock_key :: "string \<Rightarrow> string" where
  "redis_lock_key key = ''lock:'' @ key"

definition redis_lock_attempt ::
  "'s redis_client \<Rightarrow> string \<Rightarrow> string \<Rightarrow> int \<Rightarrow> ('s, exn, pyval) prog" where
  "redis_lock_attempt C key token ttl_ms =
     translating_redis_errors C ''lock.acquire'' (rc_send C (Acquire_Lock (redis_lock_key key) token ttl_ms))"

definition redis_lock_enter ::
  "'z memory_scheme redis_client \<Rightarrow> string \<Rightarrow> int \<Rightarrow> int \<Rightarrow> int \<Rightarrow> 'z memory_scheme
     \<Rightarrow> ((exn + redis_lock) \<times> 'z memory_scheme) option" where
  "redis_lock_enter C key ttl_ms wait_timeout_ms retry_interval_ms s =
     (case rc_uuid4 C s of
        (Inl e, t) \<Rightarrow> Some (Inl e, t)
      | (Inr u, t) \<Rightarrow>
          map_option (apfst (map_sum id (\<lambda>acquired.
              \<lparr>rk_key = redis_lock_key key, rk_token = uuid_hex u, rk_acquired = acquired\<rparr>)))
            (redis_await (redis_lock_attempt C key (uuid_hex u) ttl_ms) wait_timeout_ms
              retry_interval_ms t))"

definition redis_lock_exit :: "'s redis_client \<Rightarrow> redis_lock \<Rightarrow> ('s, exn, unit) prog" where
  "redis_lock_exit C l =
     (if \<not> rk_acquired l then pret ()
      else pthen (translating_redis_errors C ''lock.release''
             (rc_send C (Release_Lock (rk_key l) (rk_token l)))) (pret ()))"

section \<open>The rate limiter\<close>

text \<open>\<open>int()\<close> of a float.\<close>

definition py_int :: "rat \<Rightarrow> int" where
  "py_int x = (if x < 0 then - \<lfloor>- x\<rfloor> else \<lfloor>x\<rfloor>)"

text \<open>Unpacking a reply of another shape.\<close>

definition reply_error :: exn where
  "reply_error = PyExn ''ValueError''"

text \<open>The decision on a counter value and its remaining lifetime.\<close>

definition rate_decision :: "rate_limit_policy \<Rightarrow> int \<Rightarrow> int \<Rightarrow> rate_limit_decision" where
  "rate_decision policy current ttl_ms =
     (if rl_limit policy < current then
        \<lparr>rd_allowed = False, rd_remaining = 0,
         rd_retry_after_seconds = (if 0 < ttl_ms then max 0 (of_int ttl_ms / 1000) else 0)\<rparr>
      else \<lparr>rd_allowed = True, rd_remaining = max 0 (rl_limit policy - current),
            rd_retry_after_seconds = 0\<rparr>)"

definition redis_consume ::
  "'s redis_client \<Rightarrow> string \<Rightarrow> rate_limit_policy \<Rightarrow> int \<Rightarrow> ('s, exn, rate_limit_decision) prog" where
  "redis_consume C key policy cost =
     pbind (translating_redis_errors C ''rate_limit.consume''
       (rc_send C (Consume (''rl:'' @ rl_name policy @ '':'' @ key) cost
         (py_int (rl_window_seconds policy * 1000))))) (\<lambda>reply.
       case reply of
         VList [VInt current, VInt ttl_ms] \<Rightarrow> pret (rate_decision policy current ttl_ms)
       | _ \<Rightarrow> praise reply_error)"

section \<open>The idempotency store\<close>

definition redis_idem_key :: "string \<Rightarrow> string" where
  "redis_idem_key key = ''idem:'' @ key"

definition no_floats :: "rat \<Rightarrow> string" where
  "no_floats x = []"

definition attribute_error :: exn where
  "attribute_error = PyExn ''AttributeError''"

definition type_error :: exn where
  "type_error = PyExn ''TypeError''"

definition claim_text :: "string \<Rightarrow> string" where
  "claim_text fp = json_dumps no_floats (VDict [(''fingerprint'', VStr fp)])"

text \<open>What \<open>reserve\<close> makes of the text that holds the key. A response that is no dictionary, which
  the adapter never stores, is the error its reader gets.\<close>

definition reservation_of ::
  "nat \<Rightarrow> string \<Rightarrow> string \<Rightarrow> string \<Rightarrow> exn + idempotency_reservation" where
  "reservation_of depth key fp t =
     (case json_loads_text depth t of
        Inl e \<Rightarrow> Inl e
      | Inr (VDict payload) \<Rightarrow>
          if map_of payload ''fingerprint'' \<noteq> Some (VStr fp) then
            Inr \<lparr>res_outcome = CONFLICT, res_record = None\<rparr>
          else (case map_of payload ''response'' of
                  None \<Rightarrow> Inr \<lparr>res_outcome = IN_PROGRESS, res_record = None\<rparr>
                | Some (VDict response) \<Rightarrow>
                    Inr \<lparr>res_outcome = COMPLETED, res_record = Some
                      \<lparr>ir_key = key, ir_fingerprint = fp, ir_response = response\<rparr>\<rparr>
                | Some _ \<Rightarrow> Inl type_error)
      | Inr _ \<Rightarrow> Inl attribute_error)"

definition reserve_decision ::
  "nat \<Rightarrow> string \<Rightarrow> string \<Rightarrow> pyval \<Rightarrow> exn + idempotency_reservation" where
  "reserve_decision depth key fp result =
     (case result of
        VStr t \<Rightarrow> if t = ''reserved'' then Inr reserved else reservation_of depth key fp t
      | _ \<Rightarrow> Inl type_error)"

definition redis_reserve ::
  "'s redis_client \<Rightarrow> string \<Rightarrow> string \<Rightarrow> int \<Rightarrow> ('s, exn, idempotency_reservation) prog" where
  "redis_reserve C key fp ttl_seconds =
     (if ttl_seconds \<le> 0 then pret reserved
      else
        pbind (translating_redis_errors C ''idempotency.reserve''
          (rc_send C (Reserve_Key (redis_idem_key key) (claim_text fp) ttl_seconds))) (\<lambda>result.
        plift (reserve_decision (rc_recursion_limit C) key fp result)))"

text \<open>\<open>payload[\"response\"] = response\<close>, printed again.\<close>

definition confirmed_text :: "nat \<Rightarrow> string \<Rightarrow> response \<Rightarrow> exn + string" where
  "confirmed_text depth t response =
     (case json_loads_text depth t of
        Inl e \<Rightarrow> Inl e
      | Inr (VDict payload) \<Rightarrow>
          Inr (json_dumps no_floats (VDict (dict_set ''response'' (VDict response) payload)))
      | Inr _ \<Rightarrow> Inl type_error)"

definition redis_confirm ::
  "'s redis_client \<Rightarrow> string \<Rightarrow> response \<Rightarrow> int \<Rightarrow> ('s, exn, unit) prog" where
  "redis_confirm C key response ttl_seconds =
     (if ttl_seconds \<le> 0 then pret ()
      else translating_redis_errors C ''idempotency.confirm''
        (pbind (rc_send C (Read_Key (redis_idem_key key))) (\<lambda>raw.
         case raw of
           VNone \<Rightarrow> pret ()
         | VStr t \<Rightarrow>
             pbind (plift (confirmed_text (rc_recursion_limit C) t response)) (\<lambda>printed.
             pthen (rc_send C (Store_Key (redis_idem_key key) printed ttl_seconds)) (pret ()))
         | _ \<Rightarrow> praise type_error)))"

definition redis_release :: "'s redis_client \<Rightarrow> string \<Rightarrow> ('s, exn, unit) prog" where
  "redis_release C key =
     translating_redis_errors C ''idempotency.release''
       (pthen (rc_send C (Release_Key (redis_idem_key key))) (pret ()))"

section \<open>The bulkhead\<close>

record redis_lease =
  re_key :: string
  re_token :: string
  re_acquired :: bool

definition redis_bulkhead_key :: "string \<Rightarrow> string" where
  "redis_bulkhead_key name = ''bulkhead:'' @ name"

definition redis_slot_attempt ::
  "'s redis_client \<Rightarrow> bulkhead_policy \<Rightarrow> string \<Rightarrow> ('s, exn, pyval) prog" where
  "redis_slot_attempt C policy token =
     translating_redis_errors C ''bulkhead.acquire''
       (rc_send C (Acquire_Slot (redis_bulkhead_key (bp_name policy)) token (bp_limit policy)
         (bp_lease_ttl_ms policy)))"

definition redis_slot_enter ::
  "'z memory_scheme redis_client \<Rightarrow> bulkhead_policy \<Rightarrow> 'z memory_scheme
     \<Rightarrow> ((exn + redis_lease) \<times> 'z memory_scheme) option" where
  "redis_slot_enter C policy s =
     (case rc_uuid4 C s of
        (Inl e, t) \<Rightarrow> Some (Inl e, t)
      | (Inr u, t) \<Rightarrow>
          map_option (apfst (map_sum id (\<lambda>acquired.
              \<lparr>re_key = redis_bulkhead_key (bp_name policy), re_token = uuid_hex u,
               re_acquired = acquired\<rparr>)))
            (redis_await (redis_slot_attempt C policy (uuid_hex u)) (bp_wait_timeout_ms policy)
              (bp_retry_interval_ms policy) t))"

definition redis_slot_exit :: "'s redis_client \<Rightarrow> redis_lease \<Rightarrow> ('s, exn, unit) prog" where
  "redis_slot_exit C l =
     (if \<not> re_acquired l then pret ()
      else pthen (translating_redis_errors C ''bulkhead.release''
             (rc_send C (Release_Slot (re_key l) (re_token l)))) (pret ()))"

section \<open>Waiting ends\<close>

text \<open>A positive retry interval brings the deadline nearer at each turn, as in the in-process
  bulkhead, as long as no call turns the process clock back.\<close>

lemma redis_poll_returns:
  assumes "\<And>s r t. attempt s = (r, t) \<Longrightarrow> pr_now s \<le> pr_now t" "0 < retry"
    and "deadline \<le> pr_now s + of_nat n * retry"
  shows "redis_poll attempt deadline retry s \<noteq> None"
  using assms(3)
proof (induction n arbitrary: s)
  case 0
  obtain r t where A: "attempt s = (r, t)" by fastforce
  obtain u where M: "monotonic t = (Inr (pr_now t), u)" by (rule monotonicE)
  have "deadline \<le> pr_now t" using 0 assms(1) [OF A] by simp
  with A M show ?case by (subst redis_poll.simps) (auto split: sum.split)
next
  case (Suc n)
  obtain r t where A: "attempt s = (r, t)" by fastforce
  obtain u where M: "monotonic t = (Inr (pr_now t), u)" "pr_now t \<le> pr_now u" by (rule monotonicE)
  have "deadline \<le> pr_now (elapse retry u) + of_nat n * retry"
    using Suc.prems assms(1) [OF A] M(2) assms(2) by (simp add: algebra_simps)
  from Suc.IH [OF this] A M show ?case by (subst redis_poll.simps) (auto split: sum.split)
qed

lemma redis_await_returns:
  assumes "\<And>s r t. attempt s = (r, t) \<Longrightarrow> pr_now s \<le> pr_now t" "0 < retry_ms"
  shows "redis_await attempt wait_ms retry_ms s \<noteq> None"
proof -
  let ?retry = "of_int retry_ms / 1000 :: seconds"
  have "0 < ?retry" using assms(2) by simp
  obtain u where M: "monotonic s = (Inr (pr_now s), u)" by (rule monotonicE)
  obtain n :: nat where "pr_now s + of_int wait_ms / 1000 - pr_now u < of_nat n * ?retry"
    using \<open>0 < ?retry\<close> ex_less_of_nat_mult by blast
  then have "pr_now s + of_int wait_ms / 1000 \<le> pr_now u + of_nat n * ?retry" by simp
  from redis_poll_returns [OF assms(1) \<open>0 < ?retry\<close> this]
  have "redis_poll attempt (pr_now s + of_int wait_ms / 1000) ?retry u \<noteq> None" .
  then show ?thesis by (simp add: redis_await_def M)
qed

section \<open>What waiting keeps\<close>

text \<open>What every request, reading of the clock and sleep keeps, the whole wait keeps; and it raises what a
  request raises.\<close>

lemma redis_poll_keeps:
  fixes s :: "'z memory_scheme"
  assumes "redis_poll attempt deadline retry s = Some (r, t)" and "I s"
    and step: "\<And>s r t. I s \<Longrightarrow> attempt s = (r, t) \<Longrightarrow> I t \<and> (\<forall>e. r = Inl e \<longrightarrow> S e)"
    and clock: "\<And>s m t. I s \<Longrightarrow> monotonic s = (m, t) \<Longrightarrow> I t" and sleep: "\<And>s d. I s \<Longrightarrow> I (elapse d s)"
  shows "I t \<and> (\<forall>e. r = Inl e \<longrightarrow> S e)"
proof -
  let ?Q = "\<lambda>(a :: ('z memory_scheme, exn, pyval) prog) (deadline :: seconds) (retry :: seconds) (s :: 'z memory_scheme) y.
      a = attempt \<longrightarrow> I s \<longrightarrow> I (snd y) \<and> (\<forall>e. fst y = Inl e \<longrightarrow> S e)"
  have "?Q attempt deadline retry s (r, t)"
  proof (rule redis_poll.raw_induct [OF _ assms(1), of ?Q], intro impI)
    fix rec and a :: "('z memory_scheme, exn, pyval) prog" and deadline retry and s :: "'z memory_scheme" and y
    assume IH: "\<And>a deadline retry s y. rec a deadline retry s = Some y \<Longrightarrow> ?Q a deadline retry s y"
      and body: "(case a s of
        (Inl e, t) \<Rightarrow> Some (Inl e, t)
      | (Inr granted, t) \<Rightarrow>
          if py_true granted then Some (Inr True, t)
          else
            (case monotonic t of
               (Inl e, u) \<Rightarrow> Some (Inl e, u)
             | (Inr now, u) \<Rightarrow>
                 if deadline \<le> now then Some (Inr False, u)
                 else rec a deadline retry (elapse retry u))) = Some y"
      and a: "a = attempt" and s: "I s"
    obtain x t where A: "a s = (x, t)" by fastforce
    obtain u where M: "monotonic t = (Inr (pr_now t), u)" by (rule monotonicE)
    from step [OF s A [unfolded a]] have t: "I t" "\<And>e. x = Inl e \<Longrightarrow> S e" by blast+
    then have u: "I (elapse retry u)" "I u" using clock [OF _ M] sleep by blast+
    with body A M t IH [of a deadline retry "elapse retry u" y] a
    show "I (snd y) \<and> (\<forall>e. fst y = Inl e \<longrightarrow> S e)"
      by (auto split: sum.split_asm if_split_asm)
  qed
  with assms(2) show ?thesis by simp
qed

lemma redis_await_keeps:
  assumes "redis_await attempt wait_ms retry_ms s = Some (r, t)" and "I s"
    and "\<And>s r t. I s \<Longrightarrow> attempt s = (r, t) \<Longrightarrow> I t \<and> (\<forall>e. r = Inl e \<longrightarrow> S e)"
    and "\<And>s m t. I s \<Longrightarrow> monotonic s = (m, t) \<Longrightarrow> I t" and "\<And>s d. I s \<Longrightarrow> I (elapse d s)"
  shows "I t \<and> (\<forall>e. r = Inl e \<longrightarrow> S e)"
proof -
  obtain u where M: "monotonic s = (Inr (pr_now s), u)" by (rule monotonicE)
  with assms(1) have "redis_poll attempt (pr_now s + of_int wait_ms / 1000) (of_int retry_ms / 1000) u = Some (r, t)"
    by (simp add: redis_await_def)
  from redis_poll_keeps [OF this assms(4) [OF assms(2) M] assms(3,4,5)] show ?thesis .
qed

end
