(* ===== verification/Redis_Safety.thy ===== *)
theory Redis_Safety
  imports Redis_Adapters
begin

text \<open>
  What the scripts guarantee under every interleaving of the replicas' requests: \<open>redis_steps\<close>
  ranges over all sequences of served requests and passing time.
\<close>

lemmas redis_defs =
  redis_get_def redis_set_def redis_del_def redis_put_def redis_live_def

lemma steps_snoc:
  "redis_steps db es db' \<Longrightarrow> redis_step db' e db'' \<Longrightarrow> redis_steps db (es @ [e]) db''"
  by (rule redis_steps_append) (auto intro: redis_steps.intros)

text \<open>A fact about a key that every step keeps, until an instant, is kept by a run.\<close>

lemma steps_keep:
  assumes "redis_steps db es db'" "P db" "rb_now db' < x" "\<forall>e \<in> set es. allowed e"
    and "\<And>db e db'. redis_step db e db' \<Longrightarrow> P db \<Longrightarrow> rb_now db' < x \<Longrightarrow> allowed e \<Longrightarrow> P db'"
  shows "P db'"
  using assms(1-4)
proof (induction rule: redis_steps.induct)
  case (steps_more db e db' es db'')
  from steps_clock [OF steps_more.hyps(2)] steps_more.prems(2) have "rb_now db' < x" by simp
  with assms(5) [OF steps_more.hyps(1)] steps_more.prems have "P db'" by simp
  with steps_more show ?case by simp
qed simp

section \<open>Locks\<close>

fun lock_request :: "redis_request \<Rightarrow> bool" where
  "lock_request (Acquire_Lock _ _ _) \<longleftrightarrow> True"
| "lock_request (Release_Lock _ _) \<longleftrightarrow> True"
| "lock_request _ \<longleftrightarrow> False"

text \<open>On the key only lock requests are made, and nobody gives it back with this token.\<close>

fun others_lock :: "string \<Rightarrow> string \<Rightarrow> redis_event \<Rightarrow> bool" where
  "others_lock k token (Passes d) \<longleftrightarrow> True"
| "others_lock k token (Serves q r) \<longleftrightarrow>
     (request_key q = k \<longrightarrow> lock_request q \<and> q \<noteq> Release_Lock k token)"

lemma step_lock_kept:
  assumes "redis_step db e db'" "rb_keys db k = Some (Text token, Some x)" "rb_now db' < x"
    "others_lock k token e"
  shows "rb_keys db' k = Some (Text token, Some x)"
proof (cases e)
  case (Serves q r)
  show ?thesis
  proof (cases "request_key q = k")
    case True
    have "redis_serve q db = (r, db')" using assms(1) Serves by (auto elim: step_servesE)
    moreover have "rb_now db = rb_now db'"
      using keepsD [OF serve_only calculation] by (simp add: only_key_def)
    ultimately show ?thesis using assms True Serves
      by (cases q) (auto simp: pbind_def redis_set_def lock_release_script_def redis_get_def
          redis_live_def split: if_splits)
  next
    case False
    with Serves have "\<not> touches k e" by (simp add: touches_def)
    with step_untouched [OF assms(1)] assms(2) show ?thesis by simp
  qed
qed (use assms step_untouched [OF assms(1), of k] in \<open>simp add: touches_def\<close>)

lemma lock_granted:
  assumes "redis_step db (Serves (Acquire_Lock k token ttl) (Inr (VBool True))) db'"
  shows "0 < ttl \<and> redis_live db k = None \<and> rb_now db' = rb_now db
    \<and> rb_keys db' k = Some (Text token, Some (rb_now db + ttl))"
proof (cases "redis_live db k")
  case None
  with assms show ?thesis
    by (auto elim!: step_servesE simp: pbind_def redis_set_def redis_put_def split: if_splits)
next
  case (Some v)
  with assms show ?thesis
    by (auto elim!: step_servesE simp: pbind_def redis_set_def split: if_splits)
qed

text \<open>C17: the Redis lock excludes across replicas: once granted, a key is not granted again before
  its time to live has passed, whatever the replicas do in between, unless somebody gives it back
  with the token it was granted to; in particular not by the late exit of a holder whose own
  lease ran out.\<close>

theorem redis_lock_exclusive:
  assumes "redis_step db (Serves (Acquire_Lock k token ttl) (Inr (VBool True))) db1"
    and "redis_steps db1 es db2" and "\<forall>e \<in> set es. others_lock k token e"
    and "redis_step db2 (Serves (Acquire_Lock k token' ttl') (Inr (VBool True))) db3"
  shows "rb_now db + ttl \<le> rb_now db2"
proof (rule ccontr)
  assume "\<not> rb_now db + ttl \<le> rb_now db2"
  then have "rb_now db2 < rb_now db + ttl" by simp
  from steps_keep [OF assms(2) _ this assms(3), of "\<lambda>db'. rb_keys db' k
      = Some (Text token, Some (rb_now db + ttl))"] lock_granted [OF assms(1)] step_lock_kept
  have "rb_keys db2 k = Some (Text token, Some (rb_now db + ttl))" by blast
  with lock_granted [OF assms(4)] \<open>rb_now db2 < rb_now db + ttl\<close> show False
    by (simp add: redis_live_def)
qed

theorem redis_lock_exclusive_witness:
  "\<exists>db1 db2 db3. redis_step (redis_empty 0) (Serves (Acquire_Lock ''lock:w'' ''a'' 100) (Inr (VBool True))) db1
     \<and> redis_steps db1 [Passes 100, Serves (Release_Lock ''lock:w'' ''old'') (Inr (VInt 0))] db2
     \<and> redis_step db2 (Serves (Acquire_Lock ''lock:w'' ''b'' 100) (Inr (VBool True))) db3
     \<and> 100 \<le> rb_now db2"
proof -
  let ?k = "''lock:w''"
  let ?db1 = "redis_put ?k (Some (Text ''a'', Some 100)) (redis_empty 0)"
  let ?db2 = "?db1\<lparr>rb_now := 100\<rparr>"
  have s1: "redis_step (redis_empty 0) (Serves (Acquire_Lock ?k ''a'' 100) (Inr (VBool True))) ?db1"
    by (rule step_serves) (simp add: pbind_def redis_set_def redis_live_def redis_empty_def redis_put_def)
  have "redis_step ?db1 (Passes 100) ?db2"
    using step_passes [of 100 ?db1] by (simp add: redis_empty_def redis_put_def)
  moreover have "redis_step ?db2 (Serves (Release_Lock ?k ''old'') (Inr (VInt 0))) ?db2"
    by (rule step_serves) (simp add: pbind_def lock_release_script_def redis_get_def redis_live_def
        redis_empty_def redis_put_def)
  ultimately have s2: "redis_steps ?db1 [Passes 100, Serves (Release_Lock ?k ''old'') (Inr (VInt 0))] ?db2"
    by (auto intro: redis_steps.intros)
  have s3: "redis_step ?db2 (Serves (Acquire_Lock ?k ''b'' 100) (Inr (VBool True)))
      (redis_put ?k (Some (Text ''b'', Some 200)) ?db2)"
    by (rule step_serves) (simp add: pbind_def redis_set_def redis_live_def redis_empty_def redis_put_def)
  from redis_lock_exclusive [OF s1 s2 _ s3] have "100 \<le> rb_now ?db2" by (simp add: redis_empty_def)
  with s1 s2 s3 show ?thesis by blast
qed

end
