(* ===== verification/Redis_Idempotency.thy ===== *)
theory Redis_Idempotency
  imports Redis_Safety Movement
begin

text \<open>
  The Redis idempotency store: what its texts mean, by the entries of the in-memory store, and what
  becomes of a claim and of a recorded result under every interleaving of the replicas.
\<close>

section \<open>The texts are the entries of the in-memory store\<close>

lemma json_string_hex:
  assumes "list_all is_hex s"
  shows "json_string s = CHR 0x22 # s @ [CHR 0x22]"
proof -
  have "json_char c = [c]" if "is_hex c" for c
  proof -
    have c: "48 \<le> code c" "code c \<le> 102" "code c \<noteq> 92"
      using that by (auto simp: is_hex_def hex_val_def split: if_splits)
    then have "c \<notin> fst ` set json_short" by (auto simp: json_short_def code_def)
    then have "map_of json_short c = None" by (simp only: map_of_eq_None_iff not_False_eq_True)
    with c show ?thesis by (simp add: json_char_def)
  qed
  with assms show ?thesis by (induction s) (auto simp: json_string_def)
qed

lemma hex_ascii: "list_all is_hex s \<Longrightarrow> ascii s"
  by (auto simp: ascii_def list_all_iff is_hex_def hex_val_def is_digit_def code_def split: if_splits)

definition record_value :: "string \<Rightarrow> response option \<Rightarrow> pyval" where
  "record_value fp resp =
     VDict ((''fingerprint'', VStr fp) # (case resp of None \<Rightarrow> [] | Some r \<Rightarrow> [(''response'', VDict r)]))"

lemma key_order: "''fingerprint'' \<le> ''response''"
  by simp

text \<open>Responses that come back from Redis as they were given to it.\<close>

definition storable :: "nat \<Rightarrow> response \<Rightarrow> bool" where
  "storable depth r \<longleftrightarrow> json_ready (VDict r) \<and> Suc (json_depth (VDict r)) \<le> depth"

definition record_text :: "string \<Rightarrow> response option \<Rightarrow> string" where
  "record_text fp resp = json_dumps no_floats (record_value fp resp)"

lemma record_loads:
  assumes "list_all is_hex fp" "\<forall>r. resp = Some r \<longrightarrow> storable depth r" "1 \<le> depth"
  shows "json_loads_text depth (record_text fp resp) = Inr (record_value fp resp)"
  unfolding record_text_def
proof (rule json_loads_dumps)
  have "ascii ''fingerprint''" "ascii ''response''" by (simp_all add: ascii_def code_def)
  with assms hex_ascii key_order show "json_ready (record_value fp resp)"
    by (auto simp: record_value_def storable_def split: option.split)
  show "json_depth (record_value fp resp) \<le> depth"
    using assms by (cases resp) (simp_all add: record_value_def storable_def)
qed

lemma claim_is_record: "claim_text fp = record_text fp None"
  by (simp add: claim_text_def record_text_def record_value_def)

text \<open>A text is read as the in-memory store reads the entry.\<close>

definition as_entry :: "string \<Rightarrow> response option \<Rightarrow> idem_entry" where
  "as_entry fp resp = \<lparr>ie_fingerprint = fp, ie_expires_at = 0, ie_response = resp\<rparr>"

lemma record_reservation:
  assumes "list_all is_hex fp" "\<forall>r. resp = Some r \<longrightarrow> storable depth r" "1 \<le> depth"
  shows "reservation_of depth key fp' (record_text fp resp) = Inr (taken key fp' (as_entry fp resp))"
  using record_loads [OF assms]
  by (auto simp: reservation_of_def record_value_def taken_def as_entry_def ie_completed_def
      split: option.split)

lemma record_confirmed:
  assumes "list_all is_hex fp" "\<forall>r. resp = Some r \<longrightarrow> storable depth r" "1 \<le> depth"
  shows "confirmed_text depth (record_text fp resp) r' = Inr (record_text fp (Some r'))"
  using record_loads [OF assms]
  by (cases resp) (simp_all add: confirmed_text_def record_value_def record_text_def dict_set_def)

text \<open>What the script of \<open>release\<close> looks for is in the text exactly when it has a response.\<close>

lemma occurs_in_append: "occurs_in w (u @ w @ v)"
proof (induction u)
  case Nil
  have "take (length w) (w @ v) = w" by simp
  then show ?case by (cases "w @ v") (simp_all del: append_eq_conv_conj)
qed simp

lemma occurs_in_skip: "h \<noteq> c \<Longrightarrow> occurs_in (c # w) (h # s) = occurs_in (c # w) s"
  by simp

lemma occurs_in_differs: "h \<noteq> d \<Longrightarrow> occurs_in (c # d # w) (c # h # s) = occurs_in (c # d # w) (h # s)"
  by simp

lemma occurs_in_end: "e \<noteq> d \<Longrightarrow> e \<noteq> c \<Longrightarrow> \<not> occurs_in (c # d # w) [c, e]"
  by simp

lemma occurs_in_quoted:
  assumes "c \<notin> set s" "d \<notin> set s" "d \<noteq> c" "e \<noteq> d" "e \<noteq> c"
  shows "\<not> occurs_in (c # d # w) (c # s @ [c, e])"
proof -
  have tail: "\<not> occurs_in (c # d # w) (s @ [c, e])"
    using assms(1)
  proof (induction s)
    case Nil
    from occurs_in_end [OF assms(4,5)] show ?case by simp
  next
    case (Cons h s)
    then have "h \<noteq> c" by auto
    from occurs_in_skip [OF this] Cons show ?case by (simp del: occurs_in.simps)
  qed
  show ?thesis
  proof (cases s)
    case Nil
    from occurs_in_differs [of c d] occurs_in_end [OF assms(4,5)] Nil assms(3)
    show ?thesis by (simp del: occurs_in.simps)
  next
    case (Cons h t)
    with assms(2) have "h \<noteq> d" by auto
    from occurs_in_differs [OF this] tail Cons show ?thesis by (simp del: occurs_in.simps)
  qed
qed

lemma record_occurs:
  assumes "list_all is_hex fp"
  shows "occurs_in response_member (record_text fp resp) \<longleftrightarrow> resp \<noteq> None"
proof (cases resp)
  case (Some r)
  have "json_string ''response'' = response_member"
    by (simp add: json_string_def json_char_def json_short_def response_member_def code_def)
  then have "record_text fp (Some r) =
      ([CHR 0x7B] @ json_string ''fingerprint'' @ '': '' @ json_string fp @ '', '') @ response_member
        @ ('': '' @ json_dumps no_floats (VDict r) @ [CHR 0x7D])"
    using key_order by (simp add: record_text_def record_value_def del: json_dumps.simps(9))
       (simp add: json_dumps.simps(9) [of no_floats "[_, _]"])
  then show ?thesis using Some by (simp only: occurs_in_append simp_thms option.simps)
next
  case None
  define w where "w = ''esponse'' @ [CHR 0x22]"
  have m: "response_member = CHR 0x22 # CHR ''r'' # w" by (simp add: response_member_def w_def)
  have "record_text fp None = CHR 0x7B # CHR 0x22 # ''fingerprint'' @ CHR 0x22 # CHR '':'' # CHR '' '' #
      CHR 0x22 # fp @ [CHR 0x22, CHR 0x7D]"
    by (simp add: record_text_def record_value_def json_string_hex [OF assms])
       (simp add: json_string_def json_char_def json_short_def code_def)
  moreover have "\<not> occurs_in response_member (CHR 0x22 # fp @ [CHR 0x22, CHR 0x7D])"
    unfolding m using assms
    by (intro occurs_in_quoted) (auto simp: list_all_iff is_hex_def hex_val_def code_def)
  ultimately show ?thesis using None
    by (simp add: m occurs_in_skip occurs_in_differs del: occurs_in.simps)
qed

section \<open>Claims and records on the server\<close>

text \<open>Requests that do not take the key away: other claims and reads, and, for a key with a recorded
  result, releases too.\<close>

fun asks :: "string \<Rightarrow> redis_event \<Rightarrow> bool" where
  "asks k (Passes d) \<longleftrightarrow> True"
| "asks k (Serves q r) \<longleftrightarrow> (request_key q = k \<longrightarrow>
     (case q of Reserve_Key _ _ _ \<Rightarrow> True | Read_Key _ \<Rightarrow> True | _ \<Rightarrow> False))"

fun asks_or_releases :: "string \<Rightarrow> redis_event \<Rightarrow> bool" where
  "asks_or_releases k (Serves (Release_Key k') r) \<longleftrightarrow> True"
| "asks_or_releases k e \<longleftrightarrow> asks k e"

definition holds_text :: "redis_db \<Rightarrow> string \<Rightarrow> string \<Rightarrow> int \<Rightarrow> bool" where
  "holds_text db k t x \<longleftrightarrow> rb_keys db k = Some (Text t, Some x)"

lemma holds_text_live: "holds_text db k t x \<Longrightarrow> rb_now db < x \<Longrightarrow> redis_live db k = Some (Text t, Some x)"
  by (simp add: holds_text_def redis_live_def)

lemma step_text_kept:
  assumes "redis_step db e db'" "holds_text db k t x" "rb_now db' < x"
    and "asks k e \<or> asks_or_releases k e \<and> occurs_in response_member t"
  shows "holds_text db' k t x"
proof (cases e)
  case (Passes d)
  with assms(2) step_untouched [OF assms(1), of k] show ?thesis by (simp add: touches_def holds_text_def)
next
  case (Serves q r)
  show ?thesis
  proof (cases "request_key q = k")
    case True
    have run: "redis_serve q db = (r, db')" using assms(1) Serves by (auto elim: step_servesE)
    from keepsD [OF serve_only this] assms(3) have "rb_now db < x" by (simp add: only_key_def)
    note live = holds_text_live [OF assms(2) this]
    show ?thesis using assms(2,4) run live Serves True
      by (cases q) (auto simp: reserve_script_def key_release_script_def redis_get_def pbind_def)
  next
    case False
    with Serves have "\<not> touches k e" by (simp add: touches_def)
    with step_untouched [OF assms(1)] assms(2) show ?thesis by (simp add: holds_text_def)
  qed
qed

lemma reserve_refused:
  assumes "redis_step db (Serves (Reserve_Key k claim ttl) r) db'" "holds_text db k t x" "rb_now db < x"
  shows "r = Inr (VStr t)"
  using assms(1) holds_text_live [OF assms(2,3)]
  by (auto elim!: step_servesE simp: reserve_script_def redis_get_def pbind_def)

lemma reserve_granted:
  assumes "redis_step db (Serves (Reserve_Key k claim ttl) (Inr v)) db'" "redis_live db k = None"
  shows "v = VStr ''reserved'' \<and> 0 < ttl \<and> rb_now db' = rb_now db
    \<and> holds_text db' k claim (rb_now db + 1000 * ttl)"
  using assms by (auto elim!: step_servesE simp: reserve_script_def redis_get_def redis_set_def
      pbind_def pthen_def holds_text_def redis_put_def split: if_splits)

lemma stored:
  assumes "redis_step db (Serves (Store_Key k t ttl) (Inr v)) db'"
  shows "0 < ttl \<and> rb_now db' = rb_now db \<and> holds_text db' k t (rb_now db + 1000 * ttl)"
  using assms by (auto elim!: step_servesE simp: redis_set_def pbind_def holds_text_def redis_put_def
      split: if_splits)

lemma record_decision:
  assumes "list_all is_hex fp" "\<forall>r. resp = Some r \<longrightarrow> storable depth r" "1 \<le> depth"
  shows "reserve_decision depth key fp' (VStr (record_text fp resp))
    = Inr (taken key fp' (as_entry fp resp))"
proof -
  have "record_text fp resp \<noteq> ''reserved''" by (simp add: record_text_def record_value_def)
  with record_reservation [OF assms] show ?thesis by (simp add: reserve_decision_def)
qed

lemma text_kept:
  assumes "redis_steps db es db'" "holds_text db k t x" "rb_now db' < x"
    and "\<forall>e \<in> set es. asks k e \<or> asks_or_releases k e \<and> occurs_in response_member t"
  shows "holds_text db' k t x"
  by (rule steps_keep [where P = "\<lambda>db. holds_text db k t x", OF assms(1-3) assms(4)])
    (rule step_text_kept)

text \<open>C18: A free key that was claimed on Redis is nobody else's until the time to live of the claim
  has passed or it is given back, under every interleaving of the replicas: each further request
  for it is answered, by its own fingerprint, as the in-memory store answers while the first one
  runs - in progress for the same payload, conflict for another.\<close>

theorem redis_claim_exclusive:
  assumes "redis_live db k = None" "list_all is_hex fp" "1 \<le> depth"
    and "redis_step db (Serves (Reserve_Key k (claim_text fp) ttl) (Inr v)) db1"
    and "redis_steps db1 es db2" "\<forall>e \<in> set es. asks k e"
    and "redis_step db2 (Serves (Reserve_Key k (claim_text fp') ttl') r) db3"
    and "rb_now db2 < rb_now db + 1000 * ttl"
  shows "reserve_decision depth key fp v = Inr reserved
    \<and> (\<exists>v'. r = Inr v' \<and> reserve_decision depth key fp' v' = Inr (taken key fp' (as_entry fp None)))"
proof -
  note granted = reserve_granted [OF assms(4,1)]
  then have "holds_text db1 k (claim_text fp) (rb_now db + 1000 * ttl)" by simp
  from text_kept [OF assms(5) this assms(8)] assms(6)
  have "holds_text db2 k (claim_text fp) (rb_now db + 1000 * ttl)" by blast
  from reserve_refused [OF assms(7) this assms(8)] have "r = Inr (VStr (record_text fp None))"
    by (simp add: claim_is_record)
  with record_decision [of fp None depth key fp'] granted assms(2,3) show ?thesis
    by (simp add: reserve_decision_def)
qed

text \<open>C19: A result that was recorded on Redis for a claim is the answer to every further request for
  the key until the time to live of the record has passed, releases and claims of all replicas
  included: the recorded response for the same payload, a conflict for another.\<close>

theorem redis_confirmed_replays:
  assumes "list_all is_hex fp" "\<forall>p. prev = Some p \<longrightarrow> storable depth p" "storable depth resp" "1 \<le> depth"
    and "confirmed_text depth (record_text fp prev) resp = Inr t"
    and "redis_step db (Serves (Store_Key k t ttl) (Inr v)) db1"
    and "redis_steps db1 es db2" "\<forall>e \<in> set es. asks_or_releases k e"
    and "redis_step db2 (Serves (Reserve_Key k (claim_text fp') ttl') r) db3"
    and "rb_now db2 < rb_now db + 1000 * ttl"
  shows "\<exists>v'. r = Inr v' \<and> reserve_decision depth key fp' v' = Inr (taken key fp' (as_entry fp (Some resp)))"
proof -
  from record_confirmed [OF assms(1,2,4), of resp] assms(5) have t: "t = record_text fp (Some resp)" by simp
  from stored [OF assms(6)] have "holds_text db1 k t (rb_now db + 1000 * ttl)" by simp
  moreover have "occurs_in response_member t" using record_occurs [OF assms(1)] t by simp
  ultimately have "holds_text db2 k t (rb_now db + 1000 * ttl)"
    using text_kept [OF assms(7) _ assms(10)] assms(8) by blast
  from reserve_refused [OF assms(9) this assms(10)] record_decision [of fp "Some resp" depth key fp']
    assms(1,3,4) t show ?thesis by simp
qed

text \<open>One run for both: a claim, a second claim while it is live, the result and a late release.\<close>

definition claimed_db :: "string \<Rightarrow> redis_db" where
  "claimed_db k = redis_put k (Some (Text (claim_text ''ab''), Some 60000)) (redis_empty 0)"

definition recorded_db :: "string \<Rightarrow> redis_db" where
  "recorded_db k = redis_put k (Some (Text (record_text ''ab'' (Some [])), Some 60000)) (redis_empty 0)"

lemma ab_hex: "list_all is_hex ''ab''"
  by (simp add: is_hex_def hex_val_def code_def)

lemma first_claim:
  "redis_step (redis_empty 0) (Serves (Reserve_Key k (claim_text ''ab'') 60) (Inr (VStr ''reserved''))) (claimed_db k)"
  by (rule step_serves) (simp add: claimed_db_def reserve_script_def redis_get_def redis_set_def pbind_def
      pthen_def redis_live_def redis_empty_def)

lemma claim_on:
  assumes "rb_keys db k = Some (Text t, Some x)" "rb_now db < x"
  shows "redis_step db (Serves (Reserve_Key k c ttl) (Inr (VStr t))) db"
  using assms by (intro step_serves) (simp add: reserve_script_def redis_get_def pbind_def redis_live_def)

lemma empty_storable: "storable 2 []"
  by (simp add: storable_def)

theorem redis_claim_exclusive_witness:
  "reserve_decision 2 ''k'' ''cd'' (VStr (claim_text ''ab'')) = Inr \<lparr>res_outcome = CONFLICT, res_record = None\<rparr>"
proof -
  have again: "redis_step (claimed_db k) (Serves (Reserve_Key k (claim_text ''cd'') 60)
      (Inr (VStr (claim_text ''ab'')))) (claimed_db k)" for k
    by (rule claim_on [where x = 60000]) (simp_all add: claimed_db_def redis_put_def redis_empty_def)
  have "reserve_decision 2 ''k'' ''ab'' (VStr ''reserved'') = Inr reserved
    \<and> (\<exists>v'. (Inr (VStr (claim_text ''ab'')) :: string + pyval) = Inr v'
       \<and> reserve_decision 2 ''k'' ''cd'' v' = Inr (taken ''k'' ''cd'' (as_entry ''ab'' None)))"
    by (rule redis_claim_exclusive [OF _ ab_hex _ first_claim steps_none _ again])
       (simp_all add: redis_live_def redis_empty_def claimed_db_def redis_put_def)
  then show ?thesis by (simp add: taken_def as_entry_def)
qed

theorem redis_confirmed_replays_witness:
  "reserve_decision 2 ''k'' ''ab'' (VStr (record_text ''ab'' (Some []))) = Inr \<lparr>res_outcome = COMPLETED,
     res_record = Some \<lparr>ir_key = ''k'', ir_fingerprint = ''ab'', ir_response = []\<rparr>\<rparr>"
proof -
  let ?t = "record_text ''ab'' (Some [])"
  have store: "redis_step (claimed_db k) (Serves (Store_Key k ?t 60) (Inr (VBool True))) (recorded_db k)" for k
    by (rule step_serves) (simp add: redis_set_def pbind_def claimed_db_def recorded_db_def redis_put_def
        redis_empty_def)
  have rel: "redis_steps (recorded_db k) [Serves (Release_Key k) (Inr (VInt 0))] (recorded_db k)" for k
  proof (rule steps_more [OF step_serves steps_none])
    have "redis_live (recorded_db k) k = Some (Text ?t, Some 60000)"
      by (simp add: recorded_db_def redis_put_def redis_empty_def redis_live_def)
    then show "redis_serve (Release_Key k) (recorded_db k) = (Inr (VInt 0), recorded_db k)"
      using record_occurs [OF ab_hex, of "Some []"]
      by (simp add: key_release_script_def redis_get_def pbind_def)
  qed
  have again: "redis_step (recorded_db k) (Serves (Reserve_Key k (claim_text ''ab'') 60) (Inr (VStr ?t)))
      (recorded_db k)" for k
    by (rule claim_on [where x = 60000]) (simp_all add: recorded_db_def redis_put_def redis_empty_def)
  have "\<exists>v'. (Inr (VStr ?t) :: string + pyval) = Inr v'
      \<and> reserve_decision 2 ''k'' ''ab'' v' = Inr (taken ''k'' ''ab'' (as_entry ''ab'' (Some [])))"
    by (rule redis_confirmed_replays [OF ab_hex, of None, OF _ empty_storable _ record_confirmed [OF ab_hex]
          store rel _ again])
       (simp_all add: recorded_db_def claimed_db_def redis_put_def redis_empty_def)
  then show ?thesis by (simp add: taken_def as_entry_def ie_completed_def)
qed

end
