(* ===== verification/Redis_Limits.thy ===== *)
theory Redis_Limits
  imports Redis_Safety
begin

text \<open>
  The two Redis adapters that count: how many calls the fixed window admits in any stretch of time
  shorter than the window, and how many leases of a bulkhead are live at once, under every
  interleaving of the replicas.
\<close>

section \<open>Rate limits\<close>

text \<open>Every request on the key of a limit is the one its adapter sends: cost 1, one window.\<close>

fun counts_only :: "string \<Rightarrow> int \<Rightarrow> redis_event \<Rightarrow> bool" where
  "counts_only k window_ms (Passes d) \<longleftrightarrow> True"
| "counts_only k window_ms (Serves q r) \<longleftrightarrow> (request_key q = k \<longrightarrow> q = Consume k 1 window_ms)"

text \<open>The call was admitted: what the adapter decides on the reply.\<close>

fun admits :: "rate_limit_policy \<Rightarrow> string \<Rightarrow> redis_event \<Rightarrow> bool" where
  "admits policy k (Serves q (Inr (VList [VInt current, VInt ttl]))) \<longleftrightarrow>
     request_key q = k \<and> rd_allowed (rate_decision policy current ttl)"
| "admits policy k e \<longleftrightarrow> False"

text \<open>The counter of a key: absent, or a number with an expiry.\<close>

definition counter_at :: "redis_db \<Rightarrow> string \<Rightarrow> int \<Rightarrow> int \<Rightarrow> bool" where
  "counter_at db k n x \<longleftrightarrow>
     redis_live db k = Some (Text (show_int n), Some x) \<and> 0 < n \<and> n < 2 ^ 63 \<and> rb_now db < x"

definition counter_ok :: "redis_db \<Rightarrow> string \<Rightarrow> bool" where
  "counter_ok db k \<longleftrightarrow> redis_live db k = None \<or> (\<exists>n x. counter_at db k n x)"

lemma redis_put_simps [simp]:
  "rb_now (redis_put k v db) = rb_now db"
  "redis_put k v (redis_put k v' db) = redis_put k v db"
  "redis_live (redis_put k None db) k = None"
  "redis_live (redis_put k (Some (v'', None)) db) k = Some (v'', None)"
  "redis_live (redis_put k (Some (v'', Some x)) db) k =
     (if x \<le> rb_now db then None else Some (v'', Some x))"
  by (simp_all add: redis_put_def redis_live_def)

lemma redis_number_show:
  assumes "0 \<le> n" "n < 2 ^ 63"
  shows "redis_number (show_int n) = Some n"
proof -
  obtain c s where d: "show_nat (nat n) = c # s" "is_digit c"
    using show_nat_digits [of "nat n"] by (cases "show_nat (nat n)") auto
  then have "c \<noteq> CHR ''-''" using digit_code [of c] by auto
  moreover have "read_digits (c # s) = nat n" "list_all is_digit (c # s)"
    unfolding d(1) [symmetric] by (simp_all add: show_nat_digits)
  ultimately show ?thesis using assms by (simp add: redis_number_def show_int_def d Let_def)
qed

lemma consume_fresh:
  assumes "redis_live db k = None" "0 < window_ms"
  shows "consume_script k 1 window_ms db = (Inr (VList [VInt 1, VInt window_ms]),
    redis_put k (Some (Text (show_int 1), Some (rb_now db + window_ms))) db)"
  using assms by (simp add: consume_script_def pbind_def pthen_def redis_incrby_def
      redis_pexpire_def redis_pttl_def)

lemma consume_counting:
  assumes "counter_at db k n x"
  shows "consume_script k 1 window_ms db =
    (if n + 1 < 2 ^ 63 then (Inr (VList [VInt (n + 1), VInt (x - rb_now db)]),
        redis_put k (Some (Text (show_int (n + 1)), Some x)) db)
     else (Inl ''ERR increment or decrement would overflow'', db))"
  using assms by (auto simp: consume_script_def pbind_def pthen_def redis_incrby_def redis_pttl_def
      redis_number_show counter_at_def)

text \<open>What a key can still admit until an instant that comes before a window started now ends.\<close>

definition spare :: "rate_limit_policy \<Rightarrow> string \<Rightarrow> int \<Rightarrow> redis_db \<Rightarrow> int \<Rightarrow> bool" where
  "spare policy k until db c \<longleftrightarrow>
     redis_live db k = None \<and> c = max 0 (rl_limit policy)
     \<or> (\<exists>n x. counter_at db k n x
          \<and> c = max 0 (rl_limit policy - n) + (if x \<le> until then max 0 (rl_limit policy) else 0))"

lemma live_passes:
  "redis_live (db\<lparr>rb_now := rb_now db + d\<rparr>) k =
     (case redis_live db k of
        Some (v, Some x) \<Rightarrow> if x \<le> rb_now db + d then None else Some (v, Some x)
      | Some (v, None) \<Rightarrow> Some (v, None)
      | None \<Rightarrow> if 0 \<le> d then None else redis_live (db\<lparr>rb_now := rb_now db + d\<rparr>) k)"
  by (auto simp: redis_live_def split: option.splits)

lemma live_untouched:
  assumes "redis_step db (Serves q r) db'" "request_key q \<noteq> k"
  shows "redis_live db' k = redis_live db k" "rb_now db' = rb_now db"
proof -
  have "redis_serve q db = (r, db')" using assms(1) by (auto elim: step_servesE)
  from keepsD [OF serve_only this] assms(2) [symmetric]
  have h: "rb_keys db' k = rb_keys db k" "rb_now db' = rb_now db"
    by (simp_all add: only_key_def)
  show "redis_live db' k = redis_live db k" unfolding redis_live_def h ..
  show "rb_now db' = rb_now db" by (rule h)
qed

lemma spare_consume:
  assumes "spare policy k until db c" "consume_script k 1 window_ms db = (r, db')"
    and "until < rb_now db + window_ms" "0 < window_ms"
  shows "\<exists>c'. spare policy k until db' c'
    \<and> (if admits policy k (Serves (Consume k 1 window_ms) r) then 1 else 0) + c' \<le> c"
proof (cases "redis_live db k = None")
  case True
  have "r = Inr (VList [VInt 1, VInt window_ms])" "counter_at db' k 1 (rb_now db + window_ms)"
    using consume_fresh [OF True assms(4)] assms(2,4) by (auto simp: counter_at_def)
  then have "spare policy k until db' (max 0 (rl_limit policy - 1))"
    using assms(3) unfolding spare_def by (intro disjI2 exI conjI) auto
  moreover have "c = max 0 (rl_limit policy)"
    using assms(1) True by (auto simp: spare_def counter_at_def)
  ultimately show ?thesis
    using \<open>r = _\<close> by (intro exI conjI) (auto simp: rate_decision_def)
next
  case False
  with assms(1) obtain n x where n: "counter_at db k n x"
    "c = max 0 (rl_limit policy - n) + (if x \<le> until then max 0 (rl_limit policy) else 0)"
    by (auto simp: spare_def)
  show ?thesis
  proof (cases "n + 1 < 2 ^ 63")
    case True
    with consume_counting [OF n(1), of window_ms] assms(2)
    have "r = Inr (VList [VInt (n + 1), VInt (x - rb_now db)])" "counter_at db' k (n + 1) x"
      using n(1) by (auto simp: counter_at_def)
    then have "spare policy k until db' (max 0 (rl_limit policy - (n + 1))
        + (if x \<le> until then max 0 (rl_limit policy) else 0))"
      unfolding spare_def by (intro disjI2 exI conjI) auto
    then show ?thesis
      using n(2) \<open>r = _\<close> by (intro exI conjI) (auto simp: rate_decision_def)
  next
    case False
    with consume_counting [OF n(1), of window_ms] assms(2)
    have "db' = db" "\<not> admits policy k (Serves (Consume k 1 window_ms) r)" by auto
    with assms(1) show ?thesis by auto
  qed
qed

lemma spare_step:
  assumes "spare policy k until db c" "redis_step db e db'" "counts_only k window_ms e"
    and "rb_now db' \<le> until" "until < rb_now db + window_ms"
  shows "\<exists>c'. spare policy k until db' c' \<and> (if admits policy k e then 1 else 0) + c' \<le> c"
proof (cases e)
  case (Passes d)
  then have d: "0 \<le> d" "db' = db\<lparr>rb_now := rb_now db + d\<rparr>" using assms(2) by (auto elim: step_passesE)
  show ?thesis
  proof (cases "redis_live db' k = None")
    case True
    then have "spare policy k until db' (max 0 (rl_limit policy))" by (simp add: spare_def)
    moreover have "max 0 (rl_limit policy) \<le> c" using assms(1,4) True d
      by (auto simp: spare_def counter_at_def live_passes split: if_splits)
    ultimately show ?thesis using Passes by auto
  next
    case False
    with d have "redis_live db k \<noteq> None" by (cases "redis_live db k") (simp_all add: live_passes)
    with assms(1) obtain n x where n: "counter_at db k n x"
      "c = max 0 (rl_limit policy - n) + (if x \<le> until then max 0 (rl_limit policy) else 0)"
      by (auto simp: spare_def)
    moreover have "counter_at db' k n x"
      using n(1) False d by (auto simp: counter_at_def live_passes split: if_splits)
    ultimately have "spare policy k until db' c" unfolding spare_def by (intro disjI2 exI conjI)
    with Passes show ?thesis by auto
  qed
next
  case (Serves q r)
  show ?thesis
  proof (cases "request_key q = k")
    case True
    with assms(3) Serves have "q = Consume k 1 window_ms" by simp
    moreover have "0 < window_ms" using assms(4,5) step_clock [OF assms(2)] by simp
    moreover from assms(2) Serves have "redis_serve q db = (r, db')" by (auto elim: step_servesE)
    ultimately show ?thesis using spare_consume [OF assms(1) _ assms(5)] Serves by simp
  next
    case False
    note live_untouched [OF assms(2) [unfolded Serves] this]
    with assms(1) have "spare policy k until db' c" by (simp add: spare_def counter_at_def)
    moreover have "\<not> admits policy k e" using False Serves by (auto elim: admits.elims)
    ultimately show ?thesis by auto
  qed
qed

lemma spare_run:
  assumes "redis_steps db es db'" "spare policy k (rb_now db') db c"
    and "\<forall>e \<in> set es. counts_only k window_ms e" "rb_now db' < rb_now db + window_ms"
  shows "int (length (filter (admits policy k) es)) \<le> c"
  using assms
proof (induction arbitrary: c rule: redis_steps.induct)
  case (steps_none db)
  then show ?case by (auto simp: spare_def)
next
  case (steps_more db e db' es db'')
  have clock: "rb_now db \<le> rb_now db'" "rb_now db' \<le> rb_now db''"
    using step_clock steps_clock steps_more.hyps by auto
  with spare_step [OF steps_more.prems(1) steps_more.hyps(1)] steps_more.prems
  obtain c' where "spare policy k (rb_now db'') db' c'"
    "(if admits policy k e then 1 else 0) + c' \<le> c" by auto
  with steps_more.IH [of c'] steps_more.prems clock show ?case by auto
qed

text \<open>C20: The Redis rate limiter is a fixed window: in any run shorter than the window, whatever the
  interleaving of the replicas, at most its limit of calls is admitted when the run finds no
  window open, and at most twice its limit when it finds one.\<close>

theorem redis_rate_limit_bound:
  assumes "redis_steps db es db'" "counter_ok db k"
    and "\<forall>e \<in> set es. counts_only k (py_int (rl_window_seconds policy * 1000)) e"
    and "rb_now db' < rb_now db + py_int (rl_window_seconds policy * 1000)"
  shows "int (length (filter (admits policy k) es))
    \<le> (if redis_live db k = None then 1 else 2) * max 0 (rl_limit policy)"
proof (cases "redis_live db k = None")
  case True
  then have "spare policy k (rb_now db') db (max 0 (rl_limit policy))" by (simp add: spare_def)
  from spare_run [OF assms(1) this assms(3,4)] True show ?thesis by simp
next
  case False
  with assms(2) obtain n x where n: "counter_at db k n x" by (auto simp: counter_ok_def)
  let ?c = "max 0 (rl_limit policy - n) + (if x \<le> rb_now db' then max 0 (rl_limit policy) else 0)"
  from n have "spare policy k (rb_now db') db ?c" unfolding spare_def by (intro disjI2 exI conjI) auto
  from spare_run [OF assms(1) this assms(3,4)]
  have "int (length (filter (admits policy k) es)) \<le> ?c" .
  moreover have "0 < n" using n by (simp add: counter_at_def)
  ultimately show ?thesis using False by (simp split: if_splits)
qed

theorem redis_rate_limit_bound_witness:
  "\<exists>db'. redis_steps (redis_empty 0)
      [Serves (Consume ''rl:m:p'' 1 1000) (Inr (VList [VInt 1, VInt 1000])), Passes 400,
       Serves (Consume ''rl:m:p'' 1 1000) (Inr (VList [VInt 2, VInt 600]))] db'
   \<and> int (length (filter (admits \<lparr>rl_name = ''m'', rl_limit = 1, rl_window_seconds = 1\<rparr> ''rl:m:p'')
      [Serves (Consume ''rl:m:p'' 1 1000) (Inr (VList [VInt 1, VInt 1000])), Passes 400,
       Serves (Consume ''rl:m:p'' 1 1000) (Inr (VList [VInt 2, VInt 600]))])) \<le> 1"
proof -
  let ?p = "\<lparr>rl_name = ''m'', rl_limit = 1, rl_window_seconds = 1\<rparr>"
  define k where "k = ''rl:m:p''"
  let ?e1 = "Serves (Consume k 1 1000) (Inr (VList [VInt 1, VInt 1000]))"
  let ?e2 = "Serves (Consume k 1 1000) (Inr (VList [VInt 2, VInt 600]))"
  let ?db1 = "redis_put k (Some (Text (show_int 1), Some 1000)) (redis_empty 0)"
  let ?db2 = "?db1\<lparr>rb_now := 400\<rparr>"
  have live: "redis_live (redis_empty 0) k = None" by (simp add: redis_empty_def redis_live_def)
  have "redis_step (redis_empty 0) ?e1 ?db1"
    using consume_fresh [OF live, of 1000] by (intro step_serves) (simp add: redis_empty_def)
  moreover have "redis_step ?db1 (Passes 400) ?db2"
    using step_passes [of 400 ?db1] by (simp add: redis_empty_def)
  moreover have "counter_at ?db2 k 1 1000"
    by (simp add: counter_at_def redis_live_def redis_put_def)
  then have "redis_step ?db2 ?e2 (redis_put k (Some (Text (show_int 2), Some 1000)) ?db2)"
    using consume_counting [of ?db2 k 1 1000 1000] by (intro step_serves) simp
  ultimately have run: "redis_steps (redis_empty 0) [?e1, Passes 400, ?e2]
      (redis_put k (Some (Text (show_int 2), Some 1000)) ?db2)"
    by (rule steps_more [OF _ steps_more [OF _ steps_more [OF _ steps_none]]])
  have "int (length (filter (admits ?p k) [?e1, Passes 400, ?e2]))
      \<le> (if redis_live (redis_empty 0) k = None then 1 else 2) * max 0 (rl_limit ?p)"
    by (rule redis_rate_limit_bound [OF run])
      (use live in \<open>simp_all add: counter_ok_def py_int_def redis_empty_def\<close>)
  with run live show ?thesis unfolding k_def [symmetric] by auto
qed

section \<open>Bulkheads\<close>

text \<open>Every request on the key of a bulkhead is one of its adapter, with the one policy of its name.\<close>

fun slots_only :: "string \<Rightarrow> int \<Rightarrow> int \<Rightarrow> redis_event \<Rightarrow> bool" where
  "slots_only k limit ttl (Passes d) \<longleftrightarrow> True"
| "slots_only k limit ttl (Serves q r) \<longleftrightarrow> (request_key q = k \<longrightarrow>
     (case q of Acquire_Slot _ _ l t \<Rightarrow> l = limit \<and> t = ttl | Release_Slot _ _ \<Rightarrow> True | _ \<Rightarrow> False))"

text \<open>The leases by the callers' account: each one that was granted, until it is given back, with the
  instant its time to live ends.\<close>

fun holder_step :: "string \<Rightarrow> int \<Rightarrow> redis_event \<Rightarrow> (string \<times> int) list \<Rightarrow> (string \<times> int) list" where
  "holder_step k now (Serves (Acquire_Slot k' token limit ttl) (Inr (VInt n))) hs =
     (if k' = k \<and> py_true (VInt n) then dict_set token (now + ttl) hs else hs)"
| "holder_step k now (Serves (Release_Slot k' token) r) hs =
     (if k' = k then filter (\<lambda>h. fst h \<noteq> token) hs else hs)"
| "holder_step k now e hs = hs"

fun event_time :: "redis_event \<Rightarrow> int" where
  "event_time (Passes d) = d"
| "event_time (Serves q r) = 0"

fun holding :: "string \<Rightarrow> int \<Rightarrow> (string \<times> int) list \<Rightarrow> redis_event list \<Rightarrow> (string \<times> int) list" where
  "holding k now hs [] = filter (\<lambda>h. now < snd h) hs"
| "holding k now hs (e # es) = holding k (now + event_time e) (holder_step k now e hs) es"

text \<open>The sorted set of a key, and that the callers' live leases are in it.\<close>

definition zset_at :: "redis_db \<Rightarrow> string \<Rightarrow> (string \<times> int) list \<Rightarrow> int \<Rightarrow> bool" where
  "zset_at db k ms x \<longleftrightarrow> redis_live db k = Some (Zset ms, Some x) \<and> rb_now db < x"

definition slots_ok :: "string \<Rightarrow> int \<Rightarrow> int \<Rightarrow> redis_db \<Rightarrow> (string \<times> int) list \<Rightarrow> bool" where
  "slots_ok k limit ttl db hs \<longleftrightarrow>
     distinct (map fst hs) \<and> (\<forall>h \<in> set hs. snd h \<le> rb_now db + ttl)
     \<and> (redis_live db k = None \<and> (\<forall>h \<in> set hs. snd h \<le> rb_now db)
        \<or> (\<exists>ms x. zset_at db k ms x \<and> int (length ms) \<le> max 0 limit
             \<and> (\<forall>h \<in> set hs. rb_now db < snd h \<longrightarrow> h \<in> set ms \<and> snd h \<le> x)))"

lemma slots_ok_bound:
  assumes "slots_ok k limit ttl db hs"
  shows "int (length (filter (\<lambda>h. rb_now db < snd h) hs)) \<le> max 0 limit"
proof -
  let ?live = "filter (\<lambda>h. rb_now db < snd h) hs"
  have "distinct ?live" using assms by (auto simp: slots_ok_def distinct_map)
  then have card: "length ?live = card (set ?live)" by (rule distinct_card [symmetric])
  show ?thesis
  proof (cases "redis_live db k = None")
    case True
    with assms have "?live = []" by (auto simp: slots_ok_def zset_at_def filter_empty_conv not_less)
    then show ?thesis by simp
  next
    case False
    with assms obtain ms where ms: "int (length ms) \<le> max 0 limit" "set ?live \<subseteq> set ms"
      by (auto simp: slots_ok_def)
    from card_mono [OF _ ms(2)] card_length [of ms] card have "length ?live \<le> length ms" by simp
    with ms(1) show ?thesis by linarith
  qed
qed

lemma set_dict_set: "set (dict_set k v kvs) = insert (k, v) {p \<in> set kvs. fst p \<noteq> k}"
proof (cases "k \<in> fst ` set kvs")
  case True
  then obtain w where "(k, w) \<in> set kvs" by force
  then have "set (map (\<lambda>(k', v'). if k' = k then (k', v) else (k', v')) kvs)
      = insert (k, v) {p \<in> set kvs. fst p \<noteq> k}"
    by (auto simp: image_iff split: if_splits) (force+)
  with True show ?thesis by (simp add: dict_set_def)
qed (force simp: dict_set_def)

lemma distinct_dict_set:
  "distinct (map fst kvs) \<Longrightarrow> distinct (map fst (dict_set k v kvs))"
  by (auto simp: dict_set_def comp_def case_prod_beta if_distrib cong: if_cong)

text \<open>The scripts on the sorted set of a key: reap, refuse at the limit, otherwise add and renew.\<close>

definition reaped :: "redis_db \<Rightarrow> (string \<times> int) list \<Rightarrow> (string \<times> int) list" where
  "reaped db ms = filter (\<lambda>m. rb_now db < snd m) ms"

lemma reaped_Nil [simp]: "reaped db [] = []"
  by (simp add: reaped_def)

lemma acquire_slot:
  assumes "redis_live db k = None \<and> ms = [] \<or> zset_at db k ms x" "0 < ttl"
  shows "slot_acquire_script k token limit ttl db =
    (if limit \<le> int (length (reaped db ms))
     then (Inr (VInt 0), redis_put k (if reaped db ms = [] then None
            else Some (Zset (reaped db ms), Some x)) db)
     else (Inr (VInt 1), redis_put k (Some (Zset (dict_set token (rb_now db + ttl) (reaped db ms)),
            Some (rb_now db + ttl))) db))"
proof -
  have m: "redis_members k db = (Inr ms, db)"
    using assms(1) by (auto simp: redis_members_def zset_at_def)
  have "redis_zremrangebyscore k (rb_now db) db = (Inr (), redis_put k (if reaped db ms = [] then None
      else Some (Zset (reaped db ms), Some x)) db)"
    using assms(1) by (auto simp: redis_zremrangebyscore_def pbind_def m redis_put_members_def
        zset_at_def reaped_def)
  moreover have "dict_set token s (reaped db ms) \<noteq> []" for s by (auto simp: dict_set_def)
  ultimately show ?thesis
    using assms by (auto simp: slot_acquire_script_def redis_now_ms_def pbind_def pthen_def
        redis_zcard_def redis_zadd_def redis_members_def redis_put_members_def redis_pexpire_def
        zset_at_def)
qed

lemma release_slot:
  assumes "redis_live db k = None \<and> ms = [] \<or> zset_at db k ms x"
  shows "\<exists>n. slot_release_script k token db = (Inr (VInt n),
    redis_put k (if filter (\<lambda>m. fst m \<noteq> token) ms = [] then None
      else Some (Zset (filter (\<lambda>m. fst m \<noteq> token) ms), Some x)) db)"
proof -
  have "redis_members k db = (Inr ms, db)"
    using assms(1) by (auto simp: redis_members_def zset_at_def)
  with assms show ?thesis
    by (auto simp: slot_release_script_def redis_zrem_def pbind_def pthen_def redis_put_members_def
        zset_at_def)
qed

lemma slots_ok_cases:
  assumes "slots_ok k limit ttl db hs"
  obtains ms x where "redis_live db k = None \<and> ms = [] \<or> zset_at db k ms x"
    "int (length ms) \<le> max 0 limit"
    "\<forall>h \<in> set hs. rb_now db < snd h \<longrightarrow> h \<in> set ms \<and> snd h \<le> x"
    "\<forall>h \<in> set hs. snd h \<le> rb_now db + ttl" "distinct (map fst hs)"
proof (cases "redis_live db k = None")
  case True
  with assms that [of "[]"] show ?thesis by (force simp: slots_ok_def zset_at_def)
next
  case False
  with assms that show ?thesis by (auto simp: slots_ok_def)
qed

lemma slots_ok_put:
  assumes "\<forall>h \<in> set hs. rb_now db < snd h \<longrightarrow> h \<in> set ms \<and> snd h \<le> x" "int (length ms) \<le> max 0 limit"
    and "\<forall>h \<in> set hs. snd h \<le> rb_now db + ttl" "distinct (map fst hs)" "ms \<noteq> [] \<longrightarrow> rb_now db < x"
  shows "slots_ok k limit ttl (redis_put k (if ms = [] then None else Some (Zset ms, Some x)) db) hs"
  using assms by (auto simp: slots_ok_def zset_at_def not_less [symmetric])

lemma slots_ok_acquire:
  assumes "slots_ok k limit ttl db hs" "0 < ttl" "slot_acquire_script k token limit ttl db = (r, db')"
  shows "slots_ok k limit ttl db' (holder_step k (rb_now db) (Serves (Acquire_Slot k token limit ttl) r) hs)"
proof -
  from slots_ok_cases [OF assms(1)] obtain ms x where
    z: "redis_live db k = None \<and> ms = [] \<or> zset_at db k ms x" and
    ms: "int (length ms) \<le> max 0 limit" "\<forall>h \<in> set hs. rb_now db < snd h \<longrightarrow> h \<in> set ms \<and> snd h \<le> x"
      "\<forall>h \<in> set hs. snd h \<le> rb_now db + ttl" "distinct (map fst hs)" by blast
  let ?live = "reaped db ms" and ?new = "dict_set token (rb_now db + ttl) (reaped db ms)"
  have live: "length ?live \<le> length ms" "\<forall>h \<in> set hs. rb_now db < snd h \<longrightarrow> h \<in> set ?live \<and> snd h \<le> x"
    using ms(2) by (auto simp: reaped_def)
  note run = acquire_slot [OF z assms(2), of token limit, unfolded assms(3)]
  show ?thesis
  proof (cases "limit \<le> int (length ?live)")
    case True
    have "?live \<noteq> [] \<longrightarrow> rb_now db < x" using z by (auto simp: zset_at_def)
    from slots_ok_put [OF live(2) _ ms(3,4) this] live(1) ms(1) run True show ?thesis by simp
  next
    case False
    have "?new \<noteq> []" by (auto simp: dict_set_def)
    moreover have "int (length ?new) \<le> max 0 limit"
      using False length_dict_set [of token "rb_now db + ttl" ?live] by linarith
    moreover have "\<forall>h \<in> set (dict_set token (rb_now db + ttl) hs).
        rb_now db < snd h \<longrightarrow> h \<in> set ?new \<and> snd h \<le> rb_now db + ttl"
      using live(2) ms(3) by (auto simp: set_dict_set)
    moreover have "\<forall>h \<in> set (dict_set token (rb_now db + ttl) hs). snd h \<le> rb_now db + ttl"
      using ms(3) by (auto simp: set_dict_set)
    ultimately have "slots_ok k limit ttl db' (dict_set token (rb_now db + ttl) hs)"
      using slots_ok_put [of "dict_set token (rb_now db + ttl) hs" db ?new "rb_now db + ttl" limit ttl k]
        distinct_dict_set [OF ms(4)] run False assms(2) by simp
    with run False show ?thesis by simp
  qed
qed

lemma slots_ok_release:
  assumes "slots_ok k limit ttl db hs" "slot_release_script k token db = (r, db')"
  shows "slots_ok k limit ttl db' (holder_step k (rb_now db) (Serves (Release_Slot k token) r) hs)"
proof -
  from slots_ok_cases [OF assms(1)] obtain ms x where
    z: "redis_live db k = None \<and> ms = [] \<or> zset_at db k ms x" and
    ms: "int (length ms) \<le> max 0 limit" "\<forall>h \<in> set hs. rb_now db < snd h \<longrightarrow> h \<in> set ms \<and> snd h \<le> x"
      "\<forall>h \<in> set hs. snd h \<le> rb_now db + ttl" "distinct (map fst hs)" by blast
  let ?rest = "filter (\<lambda>m. fst m \<noteq> token)"
  have "length (?rest ms) \<le> length ms" by simp
  with ms(1) have "int (length (?rest ms)) \<le> max 0 limit" by linarith
  moreover have "distinct (map fst (?rest hs))" using ms(4) by (simp add: distinct_map_filter)
  moreover have "?rest ms \<noteq> [] \<longrightarrow> rb_now db < x" using z by (auto simp: zset_at_def)
  ultimately show ?thesis
    using slots_ok_put [of "?rest hs" db "?rest ms" x limit ttl k] ms(2,3) release_slot [OF z, of token]
      assms(2) by auto
qed

lemma slots_ok_step:
  assumes "slots_ok k limit ttl db hs" "0 < ttl" "redis_step db e db'" "slots_only k limit ttl e"
  shows "slots_ok k limit ttl db' (holder_step k (rb_now db) e hs) \<and> rb_now db' = rb_now db + event_time e"
proof (cases e)
  case (Passes d)
  then have d: "0 \<le> d" "db' = db\<lparr>rb_now := rb_now db + d\<rparr>" using assms(3) by (auto elim: step_passesE)
  have "slots_ok k limit ttl db' hs"
  proof (cases "redis_live db' k = None")
    case True
    with assms(1) d have "\<forall>h \<in> set hs. snd h \<le> rb_now db'"
      by (force simp: slots_ok_def zset_at_def live_passes split: if_splits)
    with True assms(1) d show ?thesis by (force simp: slots_ok_def)
  next
    case False
    with d have "redis_live db k \<noteq> None" by (cases "redis_live db k") (simp_all add: live_passes)
    with assms(1) obtain ms x where z: "zset_at db k ms x" "int (length ms) \<le> max 0 limit"
      "\<forall>h \<in> set hs. rb_now db < snd h \<longrightarrow> h \<in> set ms \<and> snd h \<le> x" by (auto simp: slots_ok_def)
    moreover have "zset_at db' k ms x"
      using z(1) False d by (auto simp: zset_at_def live_passes split: if_splits)
    moreover have "distinct (map fst hs)" "\<forall>h \<in> set hs. snd h \<le> rb_now db' + ttl"
      using assms(1) d by (force simp: slots_ok_def)+
    ultimately show ?thesis unfolding slots_ok_def using d by (intro conjI disjI2 exI) auto
  qed
  with Passes d show ?thesis by simp
next
  case (Serves q r)
  show ?thesis
  proof (cases "request_key q = k")
    case True
    from assms(3) Serves have "redis_serve q db = (r, db')" by (auto elim: step_servesE)
    moreover from keepsD [OF serve_only this] have "rb_now db' = rb_now db" by (simp add: only_key_def)
    ultimately show ?thesis using assms(1,2,4) Serves True
      by (cases q) (auto intro: slots_ok_acquire dest!: slots_ok_release [OF assms(1)])
  next
    case False
    note live_untouched [OF assms(3) [unfolded Serves] this]
    moreover have "holder_step k (rb_now db) e hs = hs" using False Serves
      by (cases "(k, rb_now db, e, hs)" rule: holder_step.cases) auto
    ultimately show ?thesis using assms(1) Serves by (simp add: slots_ok_def zset_at_def)
  qed
qed

lemma slots_ok_run:
  assumes "redis_steps db es db'" "slots_ok k limit ttl db hs" "0 < ttl"
    and "\<forall>e \<in> set es. slots_only k limit ttl e"
  shows "int (length (holding k (rb_now db) hs es)) \<le> max 0 limit"
  using assms(1,2,4)
proof (induction arbitrary: hs rule: redis_steps.induct)
  case (steps_none db)
  from slots_ok_bound [OF this(1)] show ?case by simp
next
  case (steps_more db e db' es db'')
  with slots_ok_step [OF steps_more.prems(1) assms(3) steps_more.hyps(1)] show ?case by fastforce
qed

text \<open>C21: The Redis bulkhead never has more live leases than its limit: at every point of every
  interleaving of the replicas, counting a lease from its grant until it is given back or its time
  to live ends, by the callers' own account, and no matter which holders crashed, came back late or
  gave back leases that were no longer theirs.\<close>

theorem redis_bulkhead_limit:
  assumes "redis_steps db es db'" "redis_live db k = None" "0 < ttl"
    and "\<forall>e \<in> set es. slots_only k limit ttl e"
  shows "int (length (holding k (rb_now db) [] es)) \<le> max 0 limit"
  using assms by (intro slots_ok_run) (auto simp: slots_ok_def)

theorem redis_bulkhead_limit_witness:
  "\<exists>db'. redis_steps (redis_empty 0)
      [Serves (Acquire_Slot ''b'' ''t1'' 1 50) (Inr (VInt 1)), Serves (Acquire_Slot ''b'' ''t2'' 1 50) (Inr (VInt 0))] db'
    \<and> int (length (holding ''b'' 0 [] [Serves (Acquire_Slot ''b'' ''t1'' 1 50) (Inr (VInt 1)),
        Serves (Acquire_Slot ''b'' ''t2'' 1 50) (Inr (VInt 0))])) \<le> 1"
proof -
  define k t1 t2 where "k = ''b''" and "t1 = ''t1''" and "t2 = ''t2''"
  let ?e1 = "Serves (Acquire_Slot k t1 1 50) (Inr (VInt 1))"
  let ?e2 = "Serves (Acquire_Slot k t2 1 50) (Inr (VInt 0))"
  let ?db1 = "redis_put k (Some (Zset [(t1, 50)], Some 50)) (redis_empty 0)"
  have live: "redis_live (redis_empty 0) k = None" by (simp add: redis_empty_def redis_live_def)
  have "redis_step (redis_empty 0) ?e1 ?db1"
    using acquire_slot [of "redis_empty 0" k "[]" 0 50 t1 1] live
    by (intro step_serves) (simp add: redis_empty_def dict_set_def)
  moreover have "zset_at ?db1 k [(t1, 50)] 50" by (simp add: zset_at_def redis_empty_def)
  then have "redis_step ?db1 ?e2 ?db1"
    using acquire_slot [of ?db1 k "[(t1, 50)]" 50 50 t2 1]
    by (intro step_serves) (simp add: reaped_def redis_empty_def)
  ultimately have run: "redis_steps (redis_empty 0) [?e1, ?e2] ?db1"
    by (rule steps_more [OF _ steps_more [OF _ steps_none]])
  have "int (length (holding k (rb_now (redis_empty 0)) [] [?e1, ?e2])) \<le> max 0 1"
    by (rule redis_bulkhead_limit [OF run live, of 50]) simp_all
  with run show ?thesis unfolding k_def [symmetric] t1_def [symmetric] t2_def [symmetric]
    by (auto simp: redis_empty_def)
qed

end
