(* ===== verification/Pagination.thy ===== *)
theory Pagination
  imports Guarantees
begin

text \<open>
  Reading in pages (\<open>list_by_owner\<close>, \<open>list_by_wallet\<close> and \<open>_paginate\<close>): what one page holds of the
  rows, and what a client gets that follows \<open>next_cursor\<close> to the end while others write.
\<close>

section \<open>One page\<close>

text \<open>Newest first: ids in falling order.\<close>

definition newest_first :: "(uuid \<times> 'r) list \<Rightarrow> bool" where
  "newest_first rows \<longleftrightarrow> sorted_wrt (\<lambda>a b. fst b < fst a) rows"

lemma newest_first_rev_sort:
  assumes "distinct (map fst xs)"
  shows "newest_first (rev (sort_key fst xs))"
proof -
  have "sorted_wrt (<) (map fst (sort_key fst xs))"
    using assms by (simp add: strict_sorted_iff distinct_map)
  then show ?thesis by (simp add: newest_first_def sorted_wrt_rev sorted_wrt_map)
qed

lemma newest_first_split:
  assumes "newest_first rows" "vis = take n rows" "x \<in> set rows" "vis \<noteq> []"
  shows "x \<in> set vis \<or> fst x < fst (last vis)"
proof -
  have rows: "rows = vis @ drop n rows" using assms(2) by simp
  with assms(3) have "x \<in> set vis \<or> x \<in> set (drop n rows)" by (metis Un_iff set_append)
  moreover have "x \<in> set (drop n rows) \<Longrightarrow> fst x < fst (last vis)"
    using assms(1,4) rows unfolding newest_first_def
    by (metis last_in_set sorted_wrt_append)
  ultimately show ?thesis by blast
qed

text \<open>The page of a statement with its limit one above the page size.\<close>

lemma page_rows:
  assumes "1 \<le> limit" "distinct (map fst xs)"
    and "rows = take (nat (limit + 1)) (rev (sort_key fst xs))" "vis = py_take limit rows"
  shows "newest_first vis" "set vis \<subseteq> set xs" "int (length vis) \<le> limit"
    "limit < int (length rows) \<Longrightarrow> vis \<noteq> []"
    "x \<in> set xs \<Longrightarrow> x \<in> set vis \<or> limit < int (length rows) \<and> fst x < fst (last vis)"
proof -
  let ?all = "rev (sort_key fst xs)"
  have all: "newest_first ?all" by (rule newest_first_rev_sort [OF assms(2)])
  have vis: "vis = take (nat limit) ?all"
    using assms(1) by (simp add: assms(3,4) py_take_def min_def)
  show "newest_first vis"
    using all unfolding newest_first_def vis by (rule sorted_wrt_take)
  show "set vis \<subseteq> set xs" using set_take_subset [of "nat limit" ?all] by (simp add: vis)
  show "int (length vis) \<le> limit" using vis assms(1) by simp
  have len: "length rows = min (nat (limit + 1)) (length xs)" by (simp add: assms(3))
  have "length vis = min (nat limit) (length xs)" by (simp add: vis)
  with len assms(1) show ne: "limit < int (length rows) \<Longrightarrow> vis \<noteq> []" by force
  assume x: "x \<in> set xs"
  show "x \<in> set vis \<or> limit < int (length rows) \<and> fst x < fst (last vis)"
  proof (cases "limit < int (length rows)")
    case True
    with newest_first_split [OF all vis, of x] ne x show ?thesis by auto
  next
    case False
    then have "length xs \<le> nat limit" using assms(1) len by linarith
    then have "vis = ?all" by (simp add: vis)
    with x show ?thesis by simp
  qed
qed

lemma map_result_Inr_set:
  "map_result f xs = Inr ys \<Longrightarrow> map f xs = map Inr ys"
  by (induction xs arbitrary: ys) (auto split: sum.splits)

text \<open>What a page shows, for rows that read back as entities under their own ids.\<close>

definition below_cursor :: "uuid option \<Rightarrow> uuid \<Rightarrow> bool" where
  "below_cursor after i \<longleftrightarrow> (case after of None \<Rightarrow> True | Some u \<Rightarrow> i < u)"

lemma paginate_page:
  assumes "1 \<le> limit" "distinct (map fst xs)"
    and "paginate f (take (nat (limit + 1)) (rev (sort_key fst xs))) limit = Inr pg"
    and ident: "\<forall>row y. f row = Inr y \<longrightarrow> ident y = fst row"
  shows "sorted_wrt (\<lambda>a b. ident b < ident a) (pg_items pg)"
    "int (length (pg_items pg)) \<le> limit"
    "y \<in> set (pg_items pg) \<Longrightarrow> \<exists>row \<in> set xs. f row = Inr y"
    "row \<in> set xs \<Longrightarrow> fst row \<in> ident ` set (pg_items pg)
       \<or> (\<exists>u. pg_next_cursor pg = Some (encode_cursor u) \<and> fst row < u)"
    "pg_next_cursor pg = None \<or> (\<exists>u. pg_next_cursor pg = Some (encode_cursor u)
       \<and> pg_items pg \<noteq> [] \<and> u = ident (last (pg_items pg)))"
proof -
  define rows where "rows = take (nat (limit + 1)) (rev (sort_key fst xs))"
  define vis where "vis = py_take limit rows"
  note page = page_rows [OF assms(1,2) rows_def vis_def]
  from assms(3) have items: "map_result f vis = Inr (pg_items pg)"
    and cur: "pg_next_cursor pg = (if limit < int (length rows) \<and> vis \<noteq> []
       then Some (encode_cursor (fst (last vis))) else None)"
    by (auto simp: paginate_def Let_def rows_def [symmetric] vis_def [symmetric] split: sum.splits)
  from map_result_Inr_set [OF items] have fs: "map f vis = map Inr (pg_items pg)" .
  then have len: "length vis = length (pg_items pg)" by (metis length_map)
  have nth: "i < length vis \<Longrightarrow> f (vis ! i) = Inr (pg_items pg ! i)" for i
    using fs len by (metis nth_map)
  then have ids: "map ident (pg_items pg) = map fst vis"
    using len ident nth by (intro nth_equalityI) (simp_all del: split_paired_All)
  have "sorted_wrt (\<lambda>a b. b < a) (map fst vis)"
    using page(1) by (simp add: newest_first_def sorted_wrt_map)
  then show "sorted_wrt (\<lambda>a b. ident b < ident a) (pg_items pg)"
    by (simp add: ids [symmetric] sorted_wrt_map)
  show "int (length (pg_items pg)) \<le> limit" using page(3) len by simp
  show "\<exists>row \<in> set xs. f row = Inr y" if "y \<in> set (pg_items pg)"
    using that nth len page(2) by (metis in_set_conv_nth subset_iff)
  have idset: "ident ` set (pg_items pg) = fst ` set vis" using ids by (metis list.set_map)
  have lst: "vis \<noteq> [] \<Longrightarrow> pg_items pg \<noteq> [] \<and> ident (last (pg_items pg)) = fst (last vis)"
    using ids len by (metis last_map length_0_conv)
  show "fst row \<in> ident ` set (pg_items pg)
       \<or> (\<exists>u. pg_next_cursor pg = Some (encode_cursor u) \<and> fst row < u)" if "row \<in> set xs"
    using page(4) page(5) [OF that] cur idset by auto
  show "pg_next_cursor pg = None \<or> (\<exists>u. pg_next_cursor pg = Some (encode_cursor u)
       \<and> pg_items pg \<noteq> [] \<and> u = ident (last (pg_items pg)))"
    using cur lst by auto
qed

section \<open>Following the cursors\<close>

text \<open>A client that asks for the first page and follows \<open>next_cursor\<close> until there is none: the states
  the requests found, with the pages they got. Between two requests the state is whatever others
  have made of it.\<close>

inductive paged_walk ::
  "(string option \<Rightarrow> 's \<Rightarrow> 'a page \<Rightarrow> bool) \<Rightarrow> string option \<Rightarrow> ('s \<times> 'a page) list \<Rightarrow> bool"
  for answered where
  walk_last: "answered c s pg \<Longrightarrow> pg_next_cursor pg = None \<Longrightarrow> paged_walk answered c [(s, pg)]"
| walk_more: "answered c s pg \<Longrightarrow> pg_next_cursor pg = Some n \<Longrightarrow> paged_walk answered (Some n) ps \<Longrightarrow>
    paged_walk answered c ((s, pg) # ps)"

definition walk_items :: "('s \<times> 'a page) list \<Rightarrow> 'a list" where
  "walk_items ps = concat (map (\<lambda>(s, pg). pg_items pg) ps)"

locale paged_listing =
  fixes answered :: "string option \<Rightarrow> 's \<Rightarrow> 'a page \<Rightarrow> bool"
    and ident :: "'a \<Rightarrow> uuid"
    and present :: "'s \<Rightarrow> uuid \<Rightarrow> bool"
  assumes page_sorted: "answered c s pg \<Longrightarrow> sorted_wrt (\<lambda>a b. ident b < ident a) (pg_items pg)"
    and page_below: "answered c s pg \<Longrightarrow> decode_cursor c = Inr after \<Longrightarrow> y \<in> set (pg_items pg) \<Longrightarrow>
      below_cursor after (ident y)"
    and page_all: "answered c s pg \<Longrightarrow> decode_cursor c = Inr after \<Longrightarrow> present s i \<Longrightarrow>
      below_cursor after i \<Longrightarrow> i \<in> ident ` set (pg_items pg)
        \<or> (\<exists>u. pg_next_cursor pg = Some (encode_cursor u) \<and> i < u)"
    and page_next: "answered c s pg \<Longrightarrow> pg_next_cursor pg = None
      \<or> pg_items pg \<noteq> [] \<and> pg_next_cursor pg = Some (encode_cursor (ident (last (pg_items pg))))"
begin

lemma page_last_least:
  assumes "answered c s pg" "y \<in> set (pg_items pg)"
  shows "ident (last (pg_items pg)) \<le> ident y"
proof -
  from assms(2) obtain xs l where "pg_items pg = xs @ [l]" by (cases "pg_items pg" rule: rev_cases) auto
  with page_sorted [OF assms(1)] assms(2) show ?thesis by (auto simp: sorted_wrt_append)
qed

lemma walk_complete:
  assumes "paged_walk answered c ps" "decode_cursor c = Inr after"
  shows "sorted_wrt (\<lambda>a b. ident b < ident a) (walk_items ps)
    \<and> (\<forall>y \<in> set (walk_items ps). below_cursor after (ident y))
    \<and> (\<forall>i. below_cursor after i \<longrightarrow> (\<forall>(s, pg) \<in> set ps. present s i) \<longrightarrow> i \<in> ident ` set (walk_items ps))"
  using assms
proof (induction arbitrary: after rule: paged_walk.induct)
  case (walk_last c s pg)
  then show ?case
    using page_sorted page_below page_all by (fastforce simp: walk_items_def)
next
  case (walk_more c s pg n ps)
  let ?l = "ident (last (pg_items pg))"
  from page_next [OF walk_more.hyps(1)] walk_more.hyps(2)
  have n: "n = encode_cursor ?l" and ne: "pg_items pg \<noteq> []" by auto
  with walk_more.IH have IH: "sorted_wrt (\<lambda>a b. ident b < ident a) (walk_items ps)"
      "\<forall>y \<in> set (walk_items ps). ident y < ?l"
      "\<forall>i. i < ?l \<longrightarrow> (\<forall>(s, pg) \<in> set ps. present s i) \<longrightarrow> i \<in> ident ` set (walk_items ps)"
    by (auto simp: below_cursor_def)
  have items: "walk_items ((s, pg) # ps) = pg_items pg @ walk_items ps" by (simp add: walk_items_def)
  have apart: "ident b < ident a" if "a \<in> set (pg_items pg)" "b \<in> set (walk_items ps)" for a b
    using IH(2) that page_last_least [OF walk_more.hyps(1)] by (meson order_less_le_trans)
  have "below_cursor after ?l" using page_below [OF walk_more.hyps(1) walk_more.prems] ne by simp
  then have low: "\<forall>y \<in> set (walk_items ps). below_cursor after (ident y)"
    using IH(2) by (auto simp: below_cursor_def split: option.splits)
  have "i \<in> ident ` set (walk_items ((s, pg) # ps))"
    if "below_cursor after i" "\<forall>(s, pg) \<in> set ((s, pg) # ps). present s i" for i
  proof -
    from that(2) have "present s i" by simp
    from page_all [OF walk_more.hyps(1) walk_more.prems this that(1)] walk_more.hyps(2) n
    have "i \<in> ident ` set (pg_items pg) \<or> i < ?l" by (auto simp: encode_cursor_inject)
    with IH(3) that(2) items show ?thesis by auto
  qed
  with IH(1) page_sorted [OF walk_more.hyps(1)] apart low page_below [OF walk_more.hyps(1) walk_more.prems]
  show ?case unfolding items by (auto simp: sorted_wrt_append)
qed

end

section \<open>The wallets of an owner\<close>

definition wallet_answer ::
  "'d engine \<Rightarrow> owner_id \<Rightarrow> int \<Rightarrow> string option \<Rightarrow> 'd \<Rightarrow> wallet page \<Rightarrow> bool" where
  "wallet_answer E ow limit c d pg \<longleftrightarrow>
     1 \<le> limit \<and> (\<exists>d'. sqla_wallet_list_by_owner E ow limit c d = (Inr pg, d'))"

definition entry_answer ::
  "'d engine \<Rightarrow> wallet_id \<Rightarrow> owner_id \<Rightarrow> int \<Rightarrow> string option \<Rightarrow> 'd \<Rightarrow> ledger_entry page \<Rightarrow> bool" where
  "entry_answer E w ow limit c d pg \<longleftrightarrow>
     1 \<le> limit \<and> (\<exists>d'. sqla_ledger_list_by_wallet E w ow limit c d = (Inr pg, d'))"

abbreviation owner_rows :: "tables \<Rightarrow> owner_id \<Rightarrow> uuid option \<Rightarrow> (uuid \<times> wallet_row) list" where
  "owner_rows tb ow after \<equiv> filter (\<lambda>(i, r). wr_owner_id r = oid_value ow \<and> below_cursor after i)
     (DAList.impl_of (tb_wallets tb))"

abbreviation ledger_rows :: "tables \<Rightarrow> wallet_id \<Rightarrow> owner_id \<Rightarrow> uuid option \<Rightarrow> (uuid \<times> entry_row) list" where
  "ledger_rows tb w ow after \<equiv> filter (\<lambda>(i, r). er_wallet_id r = wid_value w
       \<and> entry_matches tb (EntryOwnerIs (oid_value ow)) i r \<and> below_cursor after i)
     (DAList.impl_of (tb_entries tb))"

lemma select_owner:
  "eval_stmt (SelectWallets (OwnerIdIs (oid_value ow) # after_cond WalletIdBelow after) (Some n) fu) tb
     = Inr (WalletRows (take (nat n) (rev (sort_key fst (owner_rows tb ow after)))), tb)"
  by (cases after) (simp_all add: select_rows_def after_cond_def below_cursor_def)

lemma select_ledger:
  "eval_stmt (SelectEntries (EntryWalletIs (wid_value w) # EntryOwnerIs (oid_value ow)
       # after_cond EntryIdBelow after) (Some n)) tb
     = Inr (EntryRows (take (nat n) (rev (sort_key fst (ledger_rows tb w ow after)))), tb)"
  by (cases after) (simp_all add: select_rows_def after_cond_def below_cursor_def)

lemma distinct_ids_filter: "distinct (map fst (filter p (DAList.impl_of m)))"
  using DAList.impl_of [of m] by (simp add: distinct_map_filter)

lemma lookup_member: "(i, r) \<in> set (DAList.impl_of m) \<longleftrightarrow> DAList.lookup m i = Some r"
  using DAList.impl_of [of m] by (auto simp: DAList.lookup_def)

lemma owned_row:
  "owned (book_of tb) (WalletId i) ow = Some a \<longleftrightarrow>
     (\<exists>r. DAList.lookup (tb_wallets tb) i = Some r \<and> wr_owner_id r = oid_value ow \<and> a = account_of_row r)"
  by (cases ow) (auto simp: owned_def account_of_row_def split: option.splits)

context sql_engine begin

lemma wallet_list_run:
  assumes "sqla_wallet_list_by_owner E ow limit c d = (r, d')"
  shows "comm_tb d' = comm_tb d \<and> (\<forall>pg. r = Inr pg \<longrightarrow> sess_tb d' = sess_tb d
    \<and> (\<exists>after. decode_cursor c = Inr after \<and> paginate wallet_to_entity (take (nat (limit + 1))
          (rev (sort_key fst (owner_rows (sess_tb d) ow after)))) limit = Inr pg))"
proof (intro conjI)
  show "comm_tb d' = comm_tb d"
    using assms unfolding sqla_wallet_list_by_owner_def
    by (auto elim!: pbindE dest: execute_uncommitted)
qed (use assms in \<open>auto simp: sqla_wallet_list_by_owner_def select_owner wallet_rows_def
       simp del: eval_stmt.simps elim!: pbindE dest!: execute_done\<close>)

lemma ledger_list_run:
  assumes "sqla_ledger_list_by_wallet E w ow limit c d = (r, d')"
  shows "comm_tb d' = comm_tb d \<and> (\<forall>pg. r = Inr pg \<longrightarrow> sess_tb d' = sess_tb d
    \<and> (\<exists>after. decode_cursor c = Inr after \<and> paginate entry_to_entity (take (nat (limit + 1))
          (rev (sort_key fst (ledger_rows (sess_tb d) w ow after)))) limit = Inr pg))"
proof (intro conjI)
  show "comm_tb d' = comm_tb d"
    using assms unfolding sqla_ledger_list_by_wallet_def
    by (auto elim!: pbindE dest: execute_uncommitted)
qed (use assms in \<open>auto simp: sqla_ledger_list_by_wallet_def select_ledger entry_rows_def
       simp del: eval_stmt.simps elim!: pbindE dest!: execute_done\<close>)

end

definition wallet_listed :: "('d \<Rightarrow> tables) \<Rightarrow> owner_id \<Rightarrow> 'd \<Rightarrow> uuid \<Rightarrow> bool" where
  "wallet_listed tb ow d i \<longleftrightarrow> owned (book_of (tb d)) (WalletId i) ow \<noteq> None"

definition entry_listed :: "('d \<Rightarrow> tables) \<Rightarrow> wallet_id \<Rightarrow> owner_id \<Rightarrow> 'd \<Rightarrow> uuid \<Rightarrow> bool" where
  "entry_listed tb w ow d i \<longleftrightarrow> owned (book_of (tb d)) w ow \<noteq> None
     \<and> (\<exists>p \<in> set (bk_postings (book_of (tb d))). po_id p = LedgerEntryId i \<and> po_wallet p = w)"

lemma wallet_ident: "\<forall>row y. wallet_to_entity row = Inr y \<longrightarrow> wid_value (w_id y) = fst row"
  using wallet_to_entity_ok by fastforce

lemma entry_ident: "\<forall>row y. entry_to_entity row = Inr y \<longrightarrow> eid_value (le_id y) = fst row"
  using entry_to_entity_ok by fastforce

lemmas wallet_paginate = paginate_page [where f = wallet_to_entity and ident = "\<lambda>w. wid_value (w_id w)",
    OF _ distinct_ids_filter _ wallet_ident]
lemmas entry_paginate = paginate_page [where f = entry_to_entity and ident = "\<lambda>en. eid_value (le_id en)",
    OF _ distinct_ids_filter _ entry_ident]

context sql_engine begin

lemma wallet_answer_page:
  assumes "wallet_answer E ow limit c d pg"
  obtains after where "decode_cursor c = Inr after" "1 \<le> limit"
    "paginate wallet_to_entity (take (nat (limit + 1))
       (rev (sort_key fst (owner_rows (sess_tb d) ow after)))) limit = Inr pg"
proof -
  from assms obtain d' where l: "1 \<le> limit" and run: "sqla_wallet_list_by_owner E ow limit c d = (Inr pg, d')"
    unfolding wallet_answer_def by blast
  from wallet_list_run [OF run] l show ?thesis by (blast intro: that)
qed

lemma entry_answer_page:
  assumes "entry_answer E w ow limit c d pg"
  obtains after where "decode_cursor c = Inr after" "1 \<le> limit"
    "paginate entry_to_entity (take (nat (limit + 1))
       (rev (sort_key fst (ledger_rows (sess_tb d) w ow after)))) limit = Inr pg"
proof -
  from assms obtain d' where l: "1 \<le> limit" and run: "sqla_ledger_list_by_wallet E w ow limit c d = (Inr pg, d')"
    unfolding entry_answer_def by blast
  from ledger_list_run [OF run] l show ?thesis by (blast intro: that)
qed

lemma wallet_page_owned:
  assumes "wallet_answer E ow limit c d pg" "y \<in> set (pg_items pg)"
  shows "wf_wallet y \<and> owned (book_of (sess_tb d)) (w_id y) ow = Some (account_of y)"
  using assms(1)
proof (rule wallet_answer_page)
  fix after
  assume a: "1 \<le> limit" "paginate wallet_to_entity (take (nat (limit + 1))
      (rev (sort_key fst (owner_rows (sess_tb d) ow after)))) limit = Inr pg"
  have "\<exists>row \<in> set (owner_rows (sess_tb d) ow after). wallet_to_entity row = Inr y"
    by (rule wallet_paginate(3) [OF a assms(2)])
  then obtain i r where "(i, r) \<in> set (DAList.impl_of (tb_wallets (sess_tb d)))"
      "wr_owner_id r = oid_value ow" "wallet_to_entity (i, r) = Inr y" by auto
  with wallet_to_entity_ok [of i r y] show ?thesis
    by (auto simp: lookup_member owned_row)
qed

lemma wallet_page_small: "wallet_answer E ow limit c d pg \<Longrightarrow> int (length (pg_items pg)) \<le> limit"
  by (erule wallet_answer_page) (rule wallet_paginate(2))

lemma entry_page_small: "entry_answer E w ow limit c d pg \<Longrightarrow> int (length (pg_items pg)) \<le> limit"
  by (erule entry_answer_page) (rule entry_paginate(2))

lemma entry_page_posted:
  assumes "entry_answer E w ow limit c d pg" "y \<in> set (pg_items pg)"
  shows "le_wallet_id y = w \<and> owned (book_of (sess_tb d)) w ow \<noteq> None
    \<and> posting_of y \<in> set (bk_postings (book_of (sess_tb d)))"
  using assms(1)
proof (rule entry_answer_page)
  fix after
  assume a: "1 \<le> limit" "paginate entry_to_entity (take (nat (limit + 1))
      (rev (sort_key fst (ledger_rows (sess_tb d) w ow after)))) limit = Inr pg"
  have "\<exists>row \<in> set (ledger_rows (sess_tb d) w ow after). entry_to_entity row = Inr y"
    by (rule entry_paginate(3) [OF a assms(2)])
  then obtain i r wr where "(i, r) \<in> set (DAList.impl_of (tb_entries (sess_tb d)))"
      "er_wallet_id r = wid_value w" "DAList.lookup (tb_wallets (sess_tb d)) (wid_value w) = Some wr"
      "wr_owner_id wr = oid_value ow" "entry_to_entity (i, r) = Inr y"
    by (auto split: option.splits)
  with entry_to_entity_ok [of i r y] show ?thesis
    by (cases w) (auto simp: owned_row)
qed

end

lemma ledger_row_listed:
  assumes "entry_listed tb w ow d i" "below_cursor after i"
  shows "\<exists>r. (i, r) \<in> set (ledger_rows (tb d) w ow after)"
proof -
  from assms(1) obtain r wr where "(i, r) \<in> set (DAList.impl_of (tb_entries (tb d)))"
      "er_wallet_id r = wid_value w" "DAList.lookup (tb_wallets (tb d)) (wid_value w) = Some wr"
      "wr_owner_id wr = oid_value ow"
    by (cases w) (auto simp: entry_listed_def posting_of_row_def owned_row)
  with assms(2) show ?thesis by auto
qed

lemma wallet_row_listed:
  assumes "wallet_listed tb ow d i" "below_cursor after i"
  shows "\<exists>r. (i, r) \<in> set (owner_rows (tb d) ow after)"
  using assms by (auto simp: wallet_listed_def owned_row lookup_member)

sublocale sql_engine < wallet_pages: paged_listing
  "wallet_answer E ow limit" "\<lambda>w. wid_value (w_id w)" "wallet_listed sess_tb ow" for ow limit
proof (unfold_locales, goal_cases)
  case (1 c d pg)
  then show ?case
    by (rule wallet_answer_page) (rule wallet_paginate(1))
next
  case (2 c d pg after y)
  show ?case using 2(1)
  proof (rule wallet_answer_page)
    fix after'
    assume a: "decode_cursor c = Inr after'" "1 \<le> limit" "paginate wallet_to_entity (take (nat (limit + 1))
      (rev (sort_key fst (owner_rows (sess_tb d) ow after')))) limit = Inr pg"
    from wallet_paginate(3) [OF a(2,3) 2(3)] obtain i r where "wallet_to_entity (i, r) = Inr y"
      "below_cursor after' i" by auto
    moreover from this(1) wallet_ident have "wid_value (w_id y) = i" by (metis fst_conv)
    ultimately show ?thesis using a(1) 2(2) by simp
  qed
next
  case (3 c d pg after i)
  show ?case using 3(1)
  proof (rule wallet_answer_page)
    fix after'
    assume a: "decode_cursor c = Inr after'" "1 \<le> limit" "paginate wallet_to_entity (take (nat (limit + 1))
      (rev (sort_key fst (owner_rows (sess_tb d) ow after')))) limit = Inr pg"
    from wallet_row_listed [OF 3(3,4)] a(1) 3(2) obtain r where
      "(i, r) \<in> set (owner_rows (sess_tb d) ow after')" by auto
    from wallet_paginate(4) [OF a(2,3) this] show ?thesis by simp
  qed
next
  case (4 c d pg)
  then show ?case
    by (rule wallet_answer_page)
      (auto dest: wallet_paginate(5))
qed

sublocale sql_engine < entry_pages: paged_listing
  "entry_answer E w ow limit" "\<lambda>en. eid_value (le_id en)" "entry_listed sess_tb w ow" for w ow limit
proof (unfold_locales, goal_cases)
  case (1 c d pg)
  then show ?case
    by (rule entry_answer_page) (rule entry_paginate(1))
next
  case (2 c d pg after y)
  show ?case using 2(1)
  proof (rule entry_answer_page)
    fix after'
    assume a: "decode_cursor c = Inr after'" "1 \<le> limit" "paginate entry_to_entity (take (nat (limit + 1))
      (rev (sort_key fst (ledger_rows (sess_tb d) w ow after')))) limit = Inr pg"
    from entry_paginate(3) [OF a(2,3) 2(3)] obtain i r where "entry_to_entity (i, r) = Inr y"
      "below_cursor after' i" by auto
    moreover from this(1) entry_ident have "eid_value (le_id y) = i" by (metis fst_conv)
    ultimately show ?thesis using a(1) 2(2) by simp
  qed
next
  case (3 c d pg after i)
  show ?case using 3(1)
  proof (rule entry_answer_page)
    fix after'
    assume a: "decode_cursor c = Inr after'" "1 \<le> limit" "paginate entry_to_entity (take (nat (limit + 1))
      (rev (sort_key fst (ledger_rows (sess_tb d) w ow after')))) limit = Inr pg"
    from ledger_row_listed [OF 3(3,4)] a(1) 3(2) obtain r where
      "(i, r) \<in> set (ledger_rows (sess_tb d) w ow after')" by auto
    from entry_paginate(4) [OF a(2,3) this] show ?thesis by simp
  qed
next
  case (4 c d pg)
  then show ?case
    by (rule entry_answer_page)
      (auto dest: entry_paginate(5))
qed


lemma eid_value_eq: "eid_value u = eid_value v \<longleftrightarrow> u = v"
  by (cases u; cases v) simp

context sql_engine begin

lemma wallet_walk:
  assumes "paged_walk (wallet_answer E ow limit) None ps"
  shows "sorted_wrt (\<lambda>a b. wid_value (w_id b) < wid_value (w_id a)) (walk_items ps)"
    "\<forall>(d, pg) \<in> set ps. owned (book_of (sess_tb d)) i ow \<noteq> None \<Longrightarrow> i \<in> w_id ` set (walk_items ps)"
proof -
  note walk = wallet_pages.walk_complete [OF assms, of None]
  then show "sorted_wrt (\<lambda>a b. wid_value (w_id b) < wid_value (w_id a)) (walk_items ps)"
    by (simp add: decode_cursor_def)
  assume "\<forall>(d, pg) \<in> set ps. owned (book_of (sess_tb d)) i ow \<noteq> None"
  with walk have "wid_value i \<in> (\<lambda>w. wid_value (w_id w)) ` set (walk_items ps)"
    by (simp add: decode_cursor_def below_cursor_def wallet_listed_def)
  then show "i \<in> w_id ` set (walk_items ps)" by (auto simp: wid_value_eq)
qed

lemma entry_walk:
  assumes "paged_walk (entry_answer E w ow limit) None ps"
  shows "sorted_wrt (\<lambda>a b. eid_value (le_id b) < eid_value (le_id a)) (walk_items ps)"
    "\<forall>(d, pg) \<in> set ps. entry_listed sess_tb w ow d (eid_value u) \<Longrightarrow> u \<in> le_id ` set (walk_items ps)"
proof -
  note walk = entry_pages.walk_complete [OF assms, of None]
  then show "sorted_wrt (\<lambda>a b. eid_value (le_id b) < eid_value (le_id a)) (walk_items ps)"
    by (simp add: decode_cursor_def)
  assume "\<forall>(d, pg) \<in> set ps. entry_listed sess_tb w ow d (eid_value u)"
  with walk have "eid_value u \<in> (\<lambda>en. eid_value (le_id en)) ` set (walk_items ps)"
    by (simp add: decode_cursor_def below_cursor_def)
  then show "u \<in> le_id ` set (walk_items ps)" by (auto simp: eid_value_eq)
qed

end

lemma walk_answered: "paged_walk answered c ps \<Longrightarrow> (s, pg) \<in> set ps \<Longrightarrow> \<exists>c. answered c s pg"
  by (induction rule: paged_walk.induct) auto

section \<open>Properties\<close>

text \<open>C12: following \<open>next_cursor\<close> through the wallets of an owner neither repeats nor skips: the items
  come in falling order of their ids over all pages, no page is longer than the limit, each item is
  a wallet of that owner as the books had it, and every wallet the owner had all along is among
  them, whatever others insert or change between the requests.\<close>

theorem wallet_pages_complete:
  assumes "sql_engine E sess_tb comm_tb" and "paged_walk (wallet_answer E ow limit) None ps"
  shows "sorted_wrt (\<lambda>a b. wid_value (w_id b) < wid_value (w_id a)) (walk_items ps)
    \<and> (\<forall>i. (\<forall>(d, pg) \<in> set ps. owned (book_of (sess_tb d)) i ow \<noteq> None) \<longrightarrow> i \<in> w_id ` set (walk_items ps))
    \<and> (\<forall>(d, pg) \<in> set ps. int (length (pg_items pg)) \<le> limit
         \<and> (\<forall>w \<in> set (pg_items pg). owned (book_of (sess_tb d)) (w_id w) ow = Some (account_of w)))"
  using sql_engine.wallet_walk [OF assms] walk_answered [OF assms(2)]
    sql_engine.wallet_page_small [OF assms(1)] sql_engine.wallet_page_owned [OF assms(1)]
  by (fastforce simp del: book_of_simps)

text \<open>The same for the ledger of a wallet: newest first over all pages, nothing repeated, nothing
  but postings of that wallet and only for its owner, and every posting that was there all along.\<close>

theorem ledger_pages_complete:
  assumes "sql_engine E sess_tb comm_tb" and "paged_walk (entry_answer E w ow limit) None ps"
  shows "sorted_wrt (\<lambda>a b. eid_value (le_id b) < eid_value (le_id a)) (walk_items ps)
    \<and> (\<forall>u. (\<forall>(d, pg) \<in> set ps. owned (book_of (sess_tb d)) w ow \<noteq> None
           \<and> (\<exists>p \<in> set (bk_postings (book_of (sess_tb d))). po_id p = u \<and> po_wallet p = w))
         \<longrightarrow> u \<in> le_id ` set (walk_items ps))
    \<and> (\<forall>(d, pg) \<in> set ps. int (length (pg_items pg)) \<le> limit
         \<and> (\<forall>en \<in> set (pg_items pg). le_wallet_id en = w \<and> owned (book_of (sess_tb d)) w ow \<noteq> None
              \<and> posting_of en \<in> set (bk_postings (book_of (sess_tb d)))))"
  using sql_engine.entry_walk [OF assms] walk_answered [OF assms(2)]
    sql_engine.entry_page_small [OF assms(1)] sql_engine.entry_page_posted [OF assms(1)]
  by (fastforce simp: entry_listed_def simp del: book_of_simps)

section \<open>A walk\<close>

definition page_db :: "nat list \<Rightarrow> ref_db" where
  "page_db ids = ref_start (empty_tables\<lparr>tb_wallets := foldl (\<lambda>m i. DAList.update (of_nat i)
     (snd (wallet_to_row demo_wallet)) m) DAList.empty ids\<rparr>) []"

definition demo_wallet_of :: "nat \<Rightarrow> wallet" where
  "demo_wallet_of i = demo_wallet\<lparr>w_id := WalletId (of_nat i)\<rparr>"

lemmas page_run = sqla_wallet_list_by_owner_def page_db_def demo_wallet_of_def paginate_def
  py_take_def decode_cursor_def select_rows_def after_cond_def DAList.update.rep_eq
  DAList.empty.rep_eq run_demo

text \<open>Between the two requests another wallet is opened.\<close>

lemma page_one: "wallet_answer ref_engine (OwnerId 1) 1 None (page_db [7, 9])
    \<lparr>pg_items = [demo_wallet_of 9], pg_next_cursor = Some (encode_cursor 9)\<rparr>"
  by (simp add: wallet_answer_def page_run del: eval_stmt.simps(2-5))

lemma page_two: "wallet_answer ref_engine (OwnerId 1) 1 (Some (encode_cursor 9)) (page_db [7, 9, 11])
    \<lparr>pg_items = [demo_wallet_of 7], pg_next_cursor = None\<rparr>"
  by (simp add: wallet_answer_def page_run del: eval_stmt.simps(2-5) decode_cursor_def)

theorem wallet_pages_complete_witness:
  "\<exists>ps. paged_walk (wallet_answer ref_engine (OwnerId 1) 1) None ps
     \<and> map w_id (walk_items ps) = [WalletId 9, WalletId 7]
     \<and> sorted_wrt (\<lambda>a b. wid_value (w_id b) < wid_value (w_id a)) (walk_items ps)"
proof -
  let ?ps = "[(page_db [7, 9], \<lparr>pg_items = [demo_wallet_of 9], pg_next_cursor = Some (encode_cursor 9)\<rparr>),
    (page_db [7, 9, 11], \<lparr>pg_items = [demo_wallet_of 7], pg_next_cursor = None\<rparr>)]"
  have w: "paged_walk (wallet_answer ref_engine (OwnerId 1) 1) None ?ps"
    by (rule walk_more, rule page_one, simp, rule walk_last, rule page_two, simp)
  from wallet_pages_complete [OF ref.sql_engine_axioms w] w show ?thesis
    by (intro exI [of _ ?ps]) (simp add: walk_items_def demo_wallet_of_def)
qed

end
