(* ===== verification/Isoformat.thy ===== *)
theory Isoformat
  imports Entities
begin

text \<open>
  \<open>datetime.isoformat()\<close> of an aware UTC time, as the response schemas print it: the date of the
  proleptic Gregorian calendar, then the time of day, with the microseconds left out when they are
  zero. The day count is turned into a date by whole eras of 400 years that begin in March.
\<close>

definition padded :: "nat \<Rightarrow> int \<Rightarrow> string" where
  "padded k n = (let s = show_int n in replicate (k - length s) (CHR ''0'') @ s)"

text \<open>Year, month and day of a day counted from 1 January 1970.\<close>

definition civil_date :: "int \<Rightarrow> int \<times> int \<times> int" where
  "civil_date days =
     (let z = days + 719468;
          era = z div 146097;
          doe = z mod 146097;
          yoe = (doe - doe div 1460 + doe div 36524 - doe div 146096) div 365;
          doy = doe - (365 * yoe + yoe div 4 - yoe div 100);
          mp = (5 * doy + 2) div 153;
          d = doy - (153 * mp + 2) div 5 + 1;
          m = (if mp < 10 then mp + 3 else mp - 9)
      in (yoe + era * 400 + (if m \<le> 2 then 1 else 0), m, d))"

definition isoformat :: "datetime \<Rightarrow> string" where
  "isoformat t =
     (let us = t mod 1000000;
          secs = t div 1000000;
          tod = secs mod 86400
      in case civil_date (secs div 86400) of (y, m, d) \<Rightarrow>
           padded 4 y @ ''-'' @ padded 2 m @ ''-'' @ padded 2 d @ ''T''
           @ padded 2 (tod div 3600) @ '':'' @ padded 2 (tod mod 3600 div 60) @ '':'' @ padded 2 (tod mod 60)
           @ (if us = 0 then [] else ''.'' @ padded 6 us) @ ''+00:00'')"

lemma civil_date_examples:
  "civil_date 0 = (1970, 1, 1)" "civil_date 11016 = (2000, 2, 29)" "civil_date 20681 = (2026, 8, 16)"
  "civil_date (- 1) = (1969, 12, 31)" "civil_date 47540 = (2100, 2, 28)" "civil_date 47541 = (2100, 3, 1)"
  by code_simp+

lemma isoformat_epoch: "isoformat 0 = ''1970-01-01T00:00:00+00:00''"
  by code_simp

end
