(* ===== verification/Redaction.thy ===== *)
theory Redaction
  imports Errors
begin

text \<open>
  \<open>logging.py\<close>, the part that decides what may be published: \<open>redact_sensitive\<close> walks a value and
  replaces what stands under a sensitive key, \<open>allowlisted\<close> keeps only named keys. Keys are text.
  The pattern that searches rendered messages is in \<open>Redact_Message\<close>, the structlog set-up in \<open>Composition\<close>.
\<close>

section \<open>Sensitive keys\<close>

definition REDACTED :: string where "REDACTED = ''***REDACTED***''"

definition SENSITIVE_KEYS :: "string list" where
  "SENSITIVE_KEYS =
     [''password'', ''token'', ''access_token'', ''refresh_token'', ''authorization'', ''secret'',
      ''secret_key'', ''api_key'', ''private_key'', ''client_secret'', ''cookie'', ''set_cookie'']"

definition py_endswith :: "string \<Rightarrow> string \<Rightarrow> bool" where
  "py_endswith s ending \<longleftrightarrow>
     length ending \<le> length s \<and> drop (length s - length ending) s = ending"

definition normalized_key :: "string \<Rightarrow> string" where
  "normalized_key key = filter is_alnum (py_lower key)"

definition is_sensitive :: "string \<Rightarrow> bool" where
  "is_sensitive key \<longleftrightarrow>
     (let normalized = normalized_key key in
      normalized \<in> set (map (filter (\<lambda>c. c \<noteq> CHR ''_'')) SENSITIVE_KEYS)
      \<or> py_endswith normalized ''token'' \<or> py_endswith normalized ''secret''
      \<or> py_endswith normalized ''apikey'' \<or> py_endswith normalized ''password'')"

section \<open>The walk\<close>

fun redact_sensitive :: "pyval \<Rightarrow> pyval" where
  "redact_sensitive (VDict kvs) =
     VDict (map (\<lambda>(k, v). (k, if is_sensitive k then VStr REDACTED else redact_sensitive v)) kvs)"
| "redact_sensitive (VList vs) = VList (map redact_sensitive vs)"
| "redact_sensitive (VTuple vs) = VTuple (map redact_sensitive vs)"
| "redact_sensitive v = v"

text \<open>What a reader of a record can see under sensitive keys, at any depth.\<close>

fun exposed :: "pyval \<Rightarrow> pyval list" where
  "exposed (VDict kvs) = concat (map (\<lambda>(k, v). if is_sensitive k then [v] else exposed v) kvs)"
| "exposed (VList vs) = concat (map exposed vs)"
| "exposed (VTuple vs) = concat (map exposed vs)"
| "exposed v = []"

text \<open>Two values that differ only under sensitive keys.\<close>

fun same_public :: "pyval \<Rightarrow> pyval \<Rightarrow> bool" where
  "same_public (VDict kvs) (VDict kvs') \<longleftrightarrow>
     list_all2 (\<lambda>(k, v) (k', v'). k = k' \<and> (is_sensitive k \<or> same_public v v')) kvs kvs'"
| "same_public (VList vs) (VList vs') \<longleftrightarrow> list_all2 same_public vs vs'"
| "same_public (VTuple vs) (VTuple vs') \<longleftrightarrow> list_all2 same_public vs vs'"
| "same_public v v' \<longleftrightarrow> v = v'"

lemma list_all2_map_eq:
  assumes "list_all2 P xs ys" "\<And>x y. x \<in> set xs \<Longrightarrow> y \<in> set ys \<Longrightarrow> P x y \<Longrightarrow> f x = f y"
  shows "map f xs = map f ys"
  using assms by (induction xs ys rule: list_all2_induct) auto

lemma redact_public: "same_public v w \<Longrightarrow> redact_sensitive v = redact_sensitive w"
proof (induction v arbitrary: w rule: redact_sensitive.induct)
  case (1 kvs)
  then obtain kvs' where w: "w = VDict kvs'"
    "list_all2 (\<lambda>(k, v) (k', v'). k = k' \<and> (is_sensitive k \<or> same_public v v')) kvs kvs'"
    by (cases w) auto
  from w(2) have "map (\<lambda>(k, v). (k, if is_sensitive k then VStr REDACTED else redact_sensitive v)) kvs
      = map (\<lambda>(k, v). (k, if is_sensitive k then VStr REDACTED else redact_sensitive v)) kvs'"
  proof (rule list_all2_map_eq, goal_cases)
    case (1 x y)
    obtain k v k' v' where xy: "x = (k, v)" "y = (k', v')" by fastforce
    show ?case
    proof (cases "is_sensitive k")
      case False
      with xy 1(3) have "k = k'" "same_public v v'" by auto
      with "1.IH" [of x k v v'] 1(1) xy False show ?thesis by simp
    qed (use xy 1(3) in simp)
  qed
  with w(1) show ?case by simp
next
  case (2 vs)
  then obtain vs' where w: "w = VList vs'" "list_all2 same_public vs vs'" by (cases w) auto
  from w(2) have "map redact_sensitive vs = map redact_sensitive vs'"
    by (rule list_all2_map_eq) (rule "2.IH")
  with w(1) show ?case by simp
next
  case (3 vs)
  then obtain vs' where w: "w = VTuple vs'" "list_all2 same_public vs vs'" by (cases w) auto
  from w(2) have "map redact_sensitive vs = map redact_sensitive vs'"
    by (rule list_all2_map_eq) (rule "3.IH")
  with w(1) show ?case by simp
qed (cases w; simp)+

text \<open>Redaction is complete and a fixed point: whatever stands under a sensitive key, at any
  depth of dictionaries, lists and tuples, is the marker afterwards; two records that differ only
  there are redacted to the same record; and redacting twice changes nothing.\<close>

theorem redaction_complete:
  "set (exposed (redact_sensitive v)) \<subseteq> {VStr REDACTED}
   \<and> redact_sensitive (redact_sensitive v) = redact_sensitive v
   \<and> (same_public v w \<longrightarrow> redact_sensitive v = redact_sensitive w)"
proof (intro conjI impI)
  show "set (exposed (redact_sensitive v)) \<subseteq> {VStr REDACTED}"
    by (induction v rule: redact_sensitive.induct) (fastforce split: if_splits)+
  show "redact_sensitive (redact_sensitive v) = redact_sensitive v"
    by (induction v rule: redact_sensitive.induct) auto
qed (rule redact_public)

theorem redaction_complete_witness:
  "redact_sensitive (VDict [(''user'', VStr ''u''), (''Api-Key'', VStr ''a'')])
   = VDict [(''user'', VStr ''u''), (''Api-Key'', VStr REDACTED)]
   \<and> redact_sensitive (VDict [(''user'', VStr ''u''), (''Api-Key'', VStr ''a'')])
   = redact_sensitive (VDict [(''user'', VStr ''u''), (''Api-Key'', VInt 7)])"
proof -
  have s: "is_sensitive ''Api-Key''" "\<not> is_sensitive ''user''"
    by code_simp+
  from redaction_complete [of "VDict [(''user'', VStr ''u''), (''Api-Key'', VStr ''a'')]"
      "VDict [(''user'', VStr ''u''), (''Api-Key'', VInt 7)]"] s
  show ?thesis by simp
qed

section \<open>Allowlists\<close>

text \<open>The entries up to the limit; the ones beyond it are counted. \<open>result["..."] = ...\<close> sets the
  entry like any other.\<close>

definition allowlisted :: "string set \<Rightarrow> nat \<Rightarrow> (string \<times> pyval) list \<Rightarrow> (string \<times> pyval) list" where
  "allowlisted allow max_items payload =
     (let result = map (\<lambda>(k, v). (k, if k \<in> allow then v else VStr REDACTED)) (take max_items payload)
      in if max_items < length payload
         then dict_set ''...'' (VStr (show_nat (length payload - max_items) @ '' more keys'')) result
         else result)"

lemma allowlisted_values:
  assumes "(k, v) \<in> set (allowlisted allow n payload)" "k \<notin> allow"
  shows "v = VStr REDACTED \<or> v = VStr (show_nat (length payload - n) @ '' more keys'')"
proof -
  have set_in: "(k, v) \<in> set (dict_set a x kvs) \<Longrightarrow> (k, v) = (a, x) \<or> (k, v) \<in> set kvs" for a x kvs
    by (auto simp: dict_set_def split: if_splits)
  show ?thesis using assms by (auto simp: allowlisted_def Let_def split: if_splits dest!: set_in)
qed

end
