(* ===== verification/Http_Problem.thy ===== *)
theory Http_Problem
  imports Redaction
begin

text \<open>
  \<open>presentation/http/errors.py\<close> and \<open>schemas/problem.py\<close>: the problem document of RFC 9457, and
  which exception becomes which one. The handlers stand beside the ones FastAPI comes with: its own
  \<open>HTTPException\<close> (no such route, no such method, a body that cannot be read) is not among the classes
  registered here and is answered by the framework. Log lines are not modelled.
\<close>

section \<open>Requests and responses\<close>

text \<open>How the framework found the body, where a route takes one: read, no JSON, or not readable at all
  (bytes that are no text).\<close>

datatype body_reading = Body_Read | Body_Not_Json | Body_Unreadable

text \<open>What the handlers read of a request: its path, the value the middleware left on the scope and
  the \<open>correlation_id\<close> of the ambient context; and how its body was found.\<close>

record request_info =
  rq_path :: string
  rq_scope_id :: pyval
  rq_context_id :: pyval
  rq_body :: body_reading

record json_reply =
  jp_status :: int
  jp_content :: pyval
  jp_media_type :: string
  jp_headers :: "(string \<times> string) list"

definition PROBLEM_CONTENT_TYPE :: string where
  "PROBLEM_CONTENT_TYPE = ''application/problem+json''"

definition CORRELATION_HEADER_NAME :: string where
  "CORRELATION_HEADER_NAME = ''X-Correlation-ID''"

fun as_str :: "pyval \<Rightarrow> string option" where
  "as_str (VStr s) = Some s"
| "as_str v = None"

definition request_correlation_id :: "request_info \<Rightarrow> string option" where
  "request_correlation_id rq =
     (case as_str (rq_scope_id rq) of
        Some from_scope \<Rightarrow> Some from_scope
      | None \<Rightarrow> as_str (rq_context_id rq))"

text \<open>\<open>if correlation_id:\<close>, that is neither \<open>None\<close> nor empty.\<close>

definition nonempty_id :: "string option \<Rightarrow> string option" where
  "nonempty_id s = (if s = Some [] then None else s)"

definition problem ::
  "int \<Rightarrow> string \<Rightarrow> string \<Rightarrow> request_info \<Rightarrow> (string \<times> pyval) list option \<Rightarrow> json_reply" where
  "problem status err_code title rq details =
     (let cid = nonempty_id (request_correlation_id rq) in
      \<lparr>jp_status = status,
       jp_content = VDict ([(''type'', VStr (''about:blank#'' @ py_lower err_code)), (''title'', VStr title),
           (''status'', VInt status), (''code'', VStr err_code), (''instance'', VStr (rq_path rq))]
         @ (case cid of None \<Rightarrow> [] | Some i \<Rightarrow> [(''correlation_id'', VStr i)])
         @ (case details of None \<Rightarrow> [] | Some d \<Rightarrow> if d = [] then [] else [(''details'', VDict d)])),
       jp_media_type = PROBLEM_CONTENT_TYPE,
       jp_headers = (case cid of None \<Rightarrow> [] | Some i \<Rightarrow> [(CORRELATION_HEADER_NAME, i)])\<rparr>)"

section \<open>Handlers\<close>

definition VALIDATION_ERROR_FIELDS :: "string list" where
  "VALIDATION_ERROR_FIELDS = [''loc'', ''msg'', ''type'']"

definition DOMAIN_CONTEXT_FIELDS :: "string list" where
  "DOMAIN_CONTEXT_FIELDS =
     [''wallet_id'', ''balance'', ''requested'', ''left'', ''right'', ''max'', ''max_scale'']"

definition DOMAIN_STATUS_OVERRIDES :: "(domain_error_code \<times> int) list" where
  "DOMAIN_STATUS_OVERRIDES =
     [(WALLET_INSUFFICIENT_FUNDS, 409), (WALLET_CLOSED, 409), (WALLET_NOT_EMPTY, 409)]"

definition handle_application_error :: "request_info \<Rightarrow> app_error \<Rightarrow> json_reply" where
  "handle_application_error rq a =
     problem (ae_status_code a) (app_code_value (ae_code a)) (ae_message a) rq (Some (ae_details a))"

text \<open>\<open>exc.code.value.replace("_", " ").capitalize()\<close>.\<close>

definition py_capitalize :: "string \<Rightarrow> string" where
  "py_capitalize s = (case s of [] \<Rightarrow> [] | c # cs \<Rightarrow> to_upper c # py_lower cs)"

definition code_sentence :: "domain_error_code \<Rightarrow> string" where
  "code_sentence c =
     py_capitalize (map (\<lambda>x. if x = CHR ''_'' then CHR '' '' else x) (domain_code_value c))"

definition domain_status :: "domain_error_code \<Rightarrow> int" where
  "domain_status c = (case map_of DOMAIN_STATUS_OVERRIDES c of None \<Rightarrow> 422 | Some n \<Rightarrow> n)"

definition handle_domain_error :: "request_info \<Rightarrow> domain_error \<Rightarrow> json_reply" where
  "handle_domain_error rq d =
     problem (domain_status (de_code d)) (domain_code_value (de_code d)) (code_sentence (de_code d)) rq
       (Some (filter (\<lambda>(k, v). k \<in> set DOMAIN_CONTEXT_FIELDS) (de_context d)))"

definition handle_request_validation ::
  "request_info \<Rightarrow> (string \<times> pyval) list list \<Rightarrow> json_reply" where
  "handle_request_validation rq errors =
     problem 422 (app_code_value VALIDATION_FAILED) ''Request failed validation'' rq
       (Some [(''errors'', VList (map (\<lambda>e. VDict (allowlisted (set VALIDATION_ERROR_FIELDS) 20 e)) errors))])"

text \<open>Of an exception that nothing foresees: the name of its class, and the text of its message and trace.\<close>

definition handle_unexpected :: "request_info \<Rightarrow> string \<Rightarrow> string \<Rightarrow> json_reply" where
  "handle_unexpected rq error_type exc_info =
     problem 500 (app_code_value INTERNAL_ERROR) ''Internal server error'' rq None"

text \<open>What may reach the handlers: an exception of the application with its text, the framework's report on a request
  it refuses, and the framework's own exception with status, detail and headers. The last is answered by FastAPI's
  handler, as documented.\<close>

datatype http_exn =
    Raised exn string
  | RequestValidationError "(string \<times> pyval) list list"
  | HTTPException int string "(string \<times> string) list"

definition detail_reply :: "int \<Rightarrow> string \<Rightarrow> (string \<times> string) list \<Rightarrow> json_reply" where
  "detail_reply status detail headers =
     \<lparr>jp_status = status, jp_content = VDict [(''detail'', VStr detail)],
      jp_media_type = ''application/json'', jp_headers = headers\<rparr>"

text \<open>The handler Starlette picks by the class of the exception; a cancelled task has no response.\<close>

fun handled :: "request_info \<Rightarrow> http_exn \<Rightarrow> json_reply option" where
  "handled rq (Raised (AppExn a) exc_info) = Some (handle_application_error rq a)"
| "handled rq (Raised (DomainExn d) exc_info) = Some (handle_domain_error rq d)"
| "handled rq (Raised (PyExn name) exc_info) = Some (handle_unexpected rq name exc_info)"
| "handled rq (Raised CancelledExn exc_info) = None"
| "handled rq (RequestValidationError errors) = Some (handle_request_validation rq errors)"
| "handled rq (HTTPException status detail headers) = Some (detail_reply status detail headers)"

text \<open>The programs of the application do not carry the text of an exception; no answer depends on it. Nothing
  in the application raises an \<open>HTTPException\<close>.\<close>

definition error_response :: "request_info \<Rightarrow> exn \<Rightarrow> json_reply option" where
  "error_response rq e = handled rq (Raised e [])"

lemma error_response_simps [simp]:
  "error_response rq (AppExn a) = Some (handle_application_error rq a)"
  "error_response rq (DomainExn d) = Some (handle_domain_error rq d)"
  "error_response rq (PyExn name) = Some (handle_unexpected rq name [])"
  "error_response rq CancelledExn = None"
  by (simp_all add: error_response_def)

section \<open>The schema\<close>

text \<open>The model \<open>Problem\<close>: which members a document has, and their types.\<close>

fun is_str :: "pyval \<Rightarrow> bool" where
  "is_str (VStr _) \<longleftrightarrow> True" | "is_str _ \<longleftrightarrow> False"

fun is_int :: "pyval \<Rightarrow> bool" where
  "is_int (VInt _) \<longleftrightarrow> True" | "is_int _ \<longleftrightarrow> False"

fun is_dict :: "pyval \<Rightarrow> bool" where
  "is_dict (VDict _) \<longleftrightarrow> True" | "is_dict _ \<longleftrightarrow> False"

definition Problem_required :: "(string \<times> (pyval \<Rightarrow> bool)) list" where
  "Problem_required =
     [(''type'', is_str), (''title'', is_str), (''status'', is_int), (''code'', is_str), (''instance'', is_str)]"

definition Problem_optional :: "(string \<times> (pyval \<Rightarrow> bool)) list" where
  "Problem_optional = [(''correlation_id'', is_str), (''details'', is_dict)]"

definition is_Problem :: "pyval \<Rightarrow> bool" where
  "is_Problem v =
     (case v of
        VDict kvs \<Rightarrow> distinct (map fst kvs)
          \<and> list_all (\<lambda>(k, ty). case map_of kvs k of None \<Rightarrow> False | Some x \<Rightarrow> ty x) Problem_required
          \<and> list_all (\<lambda>(k, ty). case map_of kvs k of None \<Rightarrow> True | Some x \<Rightarrow> ty x) Problem_optional
          \<and> list_all (\<lambda>k. k \<in> set (map fst (Problem_required @ Problem_optional))) (map fst kvs)
      | _ \<Rightarrow> False)"

lemma problem_is_Problem: "is_Problem (jp_content (problem status err_code title rq details))"
proof -
  have "(case details of None \<Rightarrow> [] | Some d \<Rightarrow> if d = [] then [] else [(''details'', VDict d)])
      \<in> {[], [(''details'', VDict (the details))]}" by (auto split: option.split)
  moreover have "(case nonempty_id (request_correlation_id rq) of None \<Rightarrow> [] | Some i \<Rightarrow> [(''correlation_id'', VStr i)])
      \<in> {[], [(''correlation_id'', VStr (the (nonempty_id (request_correlation_id rq))))]}"
    by (auto split: option.split)
  ultimately show ?thesis
    unfolding problem_def Let_def request_info.simps json_reply.simps
    by (elim insertE emptyE)
      (simp_all add: is_Problem_def Problem_required_def Problem_optional_def)
qed

section \<open>Properties\<close>

text \<open>The document a response carries: its members by name.\<close>

definition response_member_of :: "json_reply \<Rightarrow> string \<Rightarrow> pyval option" where
  "response_member_of r k = (case jp_content r of VDict kvs \<Rightarrow> map_of kvs k | _ \<Rightarrow> None)"

lemma problem_members:
  "response_member_of (problem status err_code title rq details) ''status'' = Some (VInt status)"
  "response_member_of (problem status err_code title rq details) ''code'' = Some (VStr err_code)"
  "response_member_of (problem status err_code title rq details) ''correlation_id''
     = map_option VStr (nonempty_id (request_correlation_id rq))"
  "jp_status (problem status err_code title rq details) = status"
  "jp_media_type (problem status err_code title rq details) = PROBLEM_CONTENT_TYPE"
  "jp_headers (problem status err_code title rq details)
     = (case nonempty_id (request_correlation_id rq) of None \<Rightarrow> [] | Some i \<Rightarrow> [(CORRELATION_HEADER_NAME, i)])"
  by (auto simp: problem_def response_member_of_def Let_def split: option.split)

lemma error_response_problem:
  "error_response rq e = Some r \<Longrightarrow> \<exists>status err_code title details.
     r = problem status err_code title rq details"
  by (cases e) (auto simp: handle_application_error_def handle_domain_error_def handle_unexpected_def)

definition documented :: "json_reply \<Rightarrow> bool" where
  "documented r \<longleftrightarrow> is_Problem (jp_content r) \<and> jp_media_type r = PROBLEM_CONTENT_TYPE
     \<and> response_member_of r ''status'' = Some (VInt (jp_status r))
     \<and> response_member_of r ''correlation_id'' = map_option VStr (map_of (jp_headers r) CORRELATION_HEADER_NAME)"

lemma problem_documented: "documented (problem status err_code title rq details)"
  by (simp add: documented_def problem_is_Problem problem_members split: option.split)

lemma error_response_documented: "error_response rq e = Some r \<Longrightarrow> documented r"
  using error_response_problem problem_documented by blast

lemma detail_undocumented: "\<not> documented (detail_reply status detail headers)"
  by (simp add: documented_def detail_reply_def PROBLEM_CONTENT_TYPE_def)

text \<open>C27: what every exception is answered with. Whatever the application raises is answered unless it is a
  cancellation, and so is a request that fails validation, and every such answer is a well-typed problem document: it
  has exactly the members of the schema with the types the schema declares, is served as
  \<open>application/problem+json\<close>, repeats its status in the body, and carries the correlation id in the body
  exactly when it carries it in the header; its status and code are those of the error, 422 for a refused request and
  for a rule of the domain (409 where it is the wallet's state), 500 for anything unforeseen. The framework's own
  exceptions are answered with a \<open>detail\<close> in plain JSON instead, which is no problem document.\<close>

theorem error_documents_typed:
  "case x of
     Raised e exc_info \<Rightarrow>
       (handled rq x = None \<longleftrightarrow> e = CancelledExn)
       \<and> (\<forall>r. handled rq x = Some r \<longrightarrow> documented r
           \<and> (case e of
                AppExn a \<Rightarrow> jp_status r = ae_status_code a
                  \<and> response_member_of r ''code'' = Some (VStr (app_code_value (ae_code a)))
              | DomainExn d \<Rightarrow>
                  jp_status r = (if de_code d \<in> {WALLET_INSUFFICIENT_FUNDS, WALLET_CLOSED, WALLET_NOT_EMPTY} then 409 else 422)
                  \<and> response_member_of r ''code'' = Some (VStr (domain_code_value (de_code d)))
              | _ \<Rightarrow> jp_status r = 500 \<and> response_member_of r ''code'' = Some (VStr ''INTERNAL_ERROR'')))
   | RequestValidationError errors \<Rightarrow>
       (\<exists>r. handled rq x = Some r \<and> documented r \<and> jp_status r = 422
          \<and> response_member_of r ''code'' = Some (VStr ''VALIDATION_FAILED''))
   | HTTPException status detail headers \<Rightarrow>
       (\<exists>r. handled rq x = Some r \<and> \<not> documented r \<and> jp_status r = status
          \<and> jp_content r = VDict [(''detail'', VStr detail)] \<and> jp_media_type r = ''application/json'')"
proof (cases x)
  case (Raised e exc_info)
  then show ?thesis
    by (cases e) (auto simp: handle_application_error_def handle_domain_error_def handle_unexpected_def
        problem_documented problem_members domain_status_def DOMAIN_STATUS_OVERRIDES_def)
next
  case (RequestValidationError errors)
  then show ?thesis by (simp add: handle_request_validation_def problem_documented problem_members)
next
  case (HTTPException status detail headers)
  then show ?thesis by (simp add: detail_undocumented) (simp add: detail_reply_def)
qed





definition demo_rq :: request_info where
  "demo_rq = \<lparr>rq_path = ''/v1/wallets'', rq_scope_id = VStr ''c1'', rq_context_id = VNone, rq_body = Body_Read\<rparr>"


theorem error_documents_typed_witness:
  "\<exists>r. handled demo_rq (Raised (domain_exn WALLET_CLOSED []) ''Traceback'') = Some r \<and> documented r \<and> jp_status r = 409"
proof -
  obtain d where d: "domain_exn WALLET_CLOSED [] = DomainExn d" "de_code d = WALLET_CLOSED"
    by (simp add: domain_exn_def domain_error_new_def)
  then obtain r where r: "handled demo_rq (Raised (DomainExn d) ''Traceback'') = Some r" by simp
  from error_documents_typed [of demo_rq "Raised (DomainExn d) ''Traceback''"] r
  have "documented r \<and> jp_status r = 409" by (simp only: http_exn.case exn.case) (simp add: d(2))
  with r d(1) show ?thesis by simp
qed

end
