(* ===== verification/Jwks_Cache.thy ===== *)
theory Jwks_Cache
  imports Transport
begin

text \<open>
  \<open>infrastructure/adapters/jwt/keys.py\<close>: the cache of the issuer's signing keys. \<open>get\<close> is cut where
  it awaits, so that what other tasks do during a fetch is a step between \<open>begin_refresh\<close> and
  \<open>end_refresh\<close>; \<open>jwks_step\<close> is the cache under every interleaving of its callers. PyJWT's key set,
  aiohttp's \<open>get\<close> and the classes of their errors are parameters. Log lines are not modelled.
\<close>

section \<open>Policy and cache\<close>

record jwks_policy =
  jk_url :: string
  jk_ttl_seconds :: seconds
  jk_min_refresh_seconds :: seconds
  jk_max_stale_seconds :: seconds
  jk_timeout_ms :: int

definition jwks_policy_default :: "string \<Rightarrow> jwks_policy" where
  "jwks_policy_default url =
     \<lparr>jk_url = url, jk_ttl_seconds = 600, jk_min_refresh_seconds = 30, jk_max_stale_seconds = 3600,
      jk_timeout_ms = 5000\<rparr>"

text \<open>\<open>None\<close> is the initial \<open>-inf\<close> of the two instants.\<close>

record 'k jwks_cache =
  jc_keys :: "(string \<times> 'k) list"
  jc_fetched_at :: "seconds option"
  jc_last_attempt :: "seconds option"
  jc_last_attempt_failed :: bool
  jc_locked :: bool

definition jwks_cache_new :: "'k jwks_cache" where
  "jwks_cache_new = \<lparr>jc_keys = [], jc_fetched_at = None, jc_last_attempt = None,
     jc_last_attempt_failed = False, jc_locked = False\<rparr>"

definition jwks_unavailable :: exn where
  "jwks_unavailable =
     app_exn DependencyUnavailableError DEPENDENCY_UNAVAILABLE (Some [(''dependency'', VStr ''jwks'')])"

text \<open>\<open>_age() >= bound\<close>, with the infinite age of a cache that was never filled.\<close>

definition aged :: "'k jwks_cache \<Rightarrow> seconds \<Rightarrow> seconds \<Rightarrow> bool" where
  "aged c now bound = (case jc_fetched_at c of None \<Rightarrow> True | Some f \<Rightarrow> bound \<le> now - f)"

definition stale :: "jwks_policy \<Rightarrow> 'k jwks_cache \<Rightarrow> seconds \<Rightarrow> bool" where
  "stale P c now = aged c now (jk_ttl_seconds P)"

definition serve_within_grace ::
  "jwks_policy \<Rightarrow> 'k jwks_cache \<Rightarrow> seconds \<Rightarrow> 'k option \<Rightarrow> exn + 'k option" where
  "serve_within_grace P c now key =
     (case key of
        None \<Rightarrow> Inl jwks_unavailable
      | Some k \<Rightarrow> if aged c now (jk_max_stale_seconds P) then Inl jwks_unavailable else Inr (Some k))"

section \<open>get, between its awaits\<close>

text \<open>Before the lock: the answer, if there is one. The lock is held by a task that fetches.\<close>

definition fast_answer :: "jwks_policy \<Rightarrow> 'k jwks_cache \<Rightarrow> seconds \<Rightarrow> string \<Rightarrow> 'k option" where
  "fast_answer P c now kid =
     (case map_of (jc_keys c) kid of
        Some key \<Rightarrow> if \<not> stale P c now \<or> jc_locked c then Some key else None
      | None \<Rightarrow> None)"

text \<open>With the lock: an answer, or \<open>None\<close> when the keys have to be fetched.\<close>

definition locked_answer ::
  "jwks_policy \<Rightarrow> 'k jwks_cache \<Rightarrow> seconds \<Rightarrow> string \<Rightarrow> (exn + 'k option) option" where
  "locked_answer P c now kid =
     (let key = map_of (jc_keys c) kid in
      if key \<noteq> None \<and> \<not> stale P c now then Some (Inr key)
      else if (case jc_last_attempt c of None \<Rightarrow> False | Some a \<Rightarrow> now - a < jk_min_refresh_seconds P) then
        Some (if jc_last_attempt_failed c then serve_within_grace P c now key else Inr key)
      else None)"

definition begin_refresh :: "'k jwks_cache \<Rightarrow> seconds \<Rightarrow> 'k jwks_cache" where
  "begin_refresh c now = c\<lparr>jc_last_attempt := Some now, jc_locked := True\<rparr>"

text \<open>How \<open>_fetch\<close> can end: keys, one of the errors \<open>_refresh\<close> translates, or any other exception, a
  cancellation among them.\<close>

datatype 'k fetched = Fetched "(string \<times> 'k) list" | Fetch_Failed | Fetch_Broke exn

definition end_refresh ::
  "jwks_policy \<Rightarrow> 'k jwks_cache \<Rightarrow> seconds \<Rightarrow> string \<Rightarrow> 'k fetched \<Rightarrow> (exn + 'k option) \<times> 'k jwks_cache" where
  "end_refresh P c now kid outcome =
     (let key = map_of (jc_keys c) kid in
      case outcome of
        Fetched keys \<Rightarrow>
          (Inr (map_of keys kid), c\<lparr>jc_keys := keys, jc_fetched_at := Some now,
             jc_last_attempt_failed := False, jc_locked := False\<rparr>)
      | Fetch_Failed \<Rightarrow>
          ((case key of None \<Rightarrow> Inl jwks_unavailable | Some k \<Rightarrow> serve_within_grace P c now key),
           c\<lparr>jc_last_attempt_failed := True, jc_locked := False\<rparr>)
      | Fetch_Broke e \<Rightarrow> (Inl e, c\<lparr>jc_locked := False\<rparr>))"

section \<open>The fetch\<close>

definition JWKS_MAX_BYTES :: int where "JWKS_MAX_BYTES = 256 * 1024"

record http_get =
  hg_url :: string
  hg_total_timeout :: seconds
  hg_allow_redirects :: bool

record ('s, 'k) jwks_env =
  je_outbound :: "'s outbound"
  je_get :: "http_get \<Rightarrow> ('s, exn, http_response) prog"
  je_jwk_set :: "(string \<times> pyval) list list \<Rightarrow> exn + ('k \<times> string option) list"
  je_is_fetch_error :: "exn \<Rightarrow> bool"

text \<open>\<open>entry.get("use") in (None, "sig")\<close> of the dictionaries.\<close>

fun signing_entry :: "pyval \<Rightarrow> (string \<times> pyval) list option" where
  "signing_entry (VDict entry) =
     (if map_of entry ''use'' \<in> {None, Some VNone, Some (VStr ''sig'')} then Some entry else None)"
| "signing_entry v = None"

text \<open>The first key of an id wins.\<close>

definition first_wins :: "('k \<times> string option) list \<Rightarrow> (string \<times> 'k) list" where
  "first_wins ks =
     fold (\<lambda>(key, kid) keys.
       case kid of
         None \<Rightarrow> keys
       | Some i \<Rightarrow> if i \<noteq> [] \<and> i \<notin> fst ` set keys then keys @ [(i, key)] else keys) ks []"

definition jwks_document ::
  "('s, 'k) jwks_env \<Rightarrow> string \<Rightarrow> exn + (string \<times> 'k) list" where
  "jwks_document E raw =
     (if JWKS_MAX_BYTES < int (length raw) then Inl value_error
      else case decode_object (ob_recursion_limit (je_outbound E)) raw of
        Inl e \<Rightarrow> Inl e
      | Inr document \<Rightarrow>
          (case (case document of None \<Rightarrow> None | Some kvs \<Rightarrow> map_of kvs ''keys'') of
             Some (VList entries) \<Rightarrow>
               (let signing = List.map_filter signing_entry entries in
                if signing = [] then Inr []
                else map_sum id first_wins (je_jwk_set E signing))
           | _ \<Rightarrow> Inl value_error))"

definition jwks_fetch :: "('s, 'k) jwks_env \<Rightarrow> jwks_policy \<Rightarrow> ('s, exn, (string \<times> 'k) list) prog" where
  "jwks_fetch E P =
     pbind (je_get E \<lparr>hg_url = jk_url P, hg_total_timeout = of_int (jk_timeout_ms P) / 1000,
         hg_allow_redirects = False\<rparr>) (\<lambda>response.
     pbind (pfinally
         (if hr_status response \<noteq> 200 then praise value_error
          else read_capped (je_outbound E) response (JWKS_MAX_BYTES + 1))
         (\<lambda>_. ob_close (je_outbound E) response)) (\<lambda>raw.
       plift (jwks_document E raw)))"

definition fetch_outcome :: "('s, 'k) jwks_env \<Rightarrow> exn + (string \<times> 'k) list \<Rightarrow> 'k fetched" where
  "fetch_outcome E r =
     (case r of
        Inr keys \<Rightarrow> Fetched keys
      | Inl e \<Rightarrow> if je_is_fetch_error E e then Fetch_Failed else Fetch_Broke e)"

text \<open>\<open>get\<close> as one call: nobody holds the lock, or somebody does and the key is served; a call that
  has to wait is the call made when the holder has left.\<close>

definition jwks_get ::
  "('s, 'k) jwks_env \<Rightarrow> jwks_policy \<Rightarrow> string \<Rightarrow> 'k jwks_cache
     \<Rightarrow> ('s, exn, (exn + 'k option) \<times> 'k jwks_cache) prog" where
  "jwks_get E P kid c =
     pbind (ob_monotonic (je_outbound E)) (\<lambda>now.
       case fast_answer P c now kid of
         Some key \<Rightarrow> pret (Inr (Some key), c)
       | None \<Rightarrow>
           (case locked_answer P c now kid of
              Some r \<Rightarrow> pret (r, c)
            | None \<Rightarrow> (\<lambda>s.
                case jwks_fetch E P s of
                  (r, t) \<Rightarrow>
                    pbind (ob_monotonic (je_outbound E)) (\<lambda>later.
                      pret (end_refresh P (begin_refresh c now) later kid (fetch_outcome E r))) t)))"

section \<open>The cache under concurrent callers\<close>

datatype 'k jwks_event =
    Answered string seconds "exn + 'k option"
  | Began string seconds
  | Ended string seconds "'k fetched" "exn + 'k option"

fun event_instant :: "'k jwks_event \<Rightarrow> seconds" where
  "event_instant (Answered kid now r) = now"
| "event_instant (Began kid now) = now"
| "event_instant (Ended kid now f r) = now"

inductive jwks_step :: "jwks_policy \<Rightarrow> 'k jwks_cache \<Rightarrow> 'k jwks_event \<Rightarrow> 'k jwks_cache \<Rightarrow> bool" for P where
  step_fast: "fast_answer P c now kid = Some key \<Longrightarrow> jwks_step P c (Answered kid now (Inr (Some key))) c"
| step_locked: "\<not> jc_locked c \<Longrightarrow> locked_answer P c now kid = Some r \<Longrightarrow> jwks_step P c (Answered kid now r) c"
| step_begin: "\<not> jc_locked c \<Longrightarrow> locked_answer P c now kid = None \<Longrightarrow>
    jwks_step P c (Began kid now) (begin_refresh c now)"
| step_end: "jc_locked c \<Longrightarrow> end_refresh P c now kid f = (r, c') \<Longrightarrow> jwks_step P c (Ended kid now f r) c'"

text \<open>A run, with the clock not going back.\<close>

inductive jwks_run :: "jwks_policy \<Rightarrow> seconds \<Rightarrow> 'k jwks_cache \<Rightarrow> 'k jwks_event list \<Rightarrow> 'k jwks_cache \<Rightarrow> bool"
  for P where
  run_none: "jwks_run P now c [] c"
| run_more: "jwks_step P c e c' \<Longrightarrow> now \<le> event_instant e \<Longrightarrow> jwks_run P (event_instant e) c' es c'' \<Longrightarrow>
    jwks_run P now c (e # es) c''"

inductive_cases run_ConsE: "jwks_run P now c (e # es) c''"
inductive_cases step_beginE: "jwks_step P c (Began kid now) c'"
inductive_cases step_answeredE: "jwks_step P c (Answered kid now r) c'"
inductive_cases step_endedE: "jwks_step P c (Ended kid now f r) c'"

section \<open>What every run keeps\<close>

text \<open>The last fetch that brought keys, with its instant.\<close>

fun last_fetched :: "'k jwks_event list \<Rightarrow> (seconds \<times> (string \<times> 'k) list) option \<Rightarrow>
    (seconds \<times> (string \<times> 'k) list) option" where
  "last_fetched [] found = found"
| "last_fetched (Ended kid now (Fetched keys) r # es) found = last_fetched es (Some (now, keys))"
| "last_fetched (e # es) found = last_fetched es found"

definition cached :: "'k jwks_cache \<Rightarrow> (seconds \<times> (string \<times> 'k) list) option \<Rightarrow> bool" where
  "cached c found \<longleftrightarrow> jc_keys c = (case found of None \<Rightarrow> [] | Some (f, keys) \<Rightarrow> keys)
     \<and> jc_fetched_at c = map_option fst found"

lemma last_fetched_Cons: "last_fetched (e # es) found = last_fetched es (last_fetched [e] found)"
  by (cases "(e # es, found)" rule: last_fetched.cases) auto

lemma step_cached:
  assumes "jwks_step P c e c'" "cached c found"
  shows "cached c' (last_fetched [e] found)"
  using assms(1)
proof (cases rule: jwks_step.cases)
  case (step_end now kid f r)
  with assms(2) show ?thesis by (cases f) (auto simp: cached_def end_refresh_def Let_def)
qed (use assms(2) in \<open>auto simp: cached_def begin_refresh_def\<close>)

lemma run_cached:
  assumes "jwks_run P now c es c'" "cached c found"
  shows "cached c' (last_fetched es found)"
  using assms
proof (induction arbitrary: found rule: jwks_run.induct)
  case (run_more c e c' now es c'')
  from run_more.IH [OF step_cached [OF run_more.hyps(1) run_more.prems]]
  show ?case by (subst last_fetched_Cons)
qed simp

fun breaks :: "'k jwks_event \<Rightarrow> bool" where
  "breaks (Ended kid now (Fetch_Broke e) r) \<longleftrightarrow> True"
| "breaks e \<longleftrightarrow> False"

text \<open>Unless a fetch is under way or the last one failed, the last attempt brought the keys.\<close>

definition settled :: "'k jwks_cache \<Rightarrow> seconds \<Rightarrow> bool" where
  "settled c now \<longleftrightarrow>
     (\<forall>a. jc_last_attempt c = Some a \<longrightarrow> a \<le> now
        \<and> (jc_locked c \<or> jc_last_attempt_failed c \<or> (\<exists>f. jc_fetched_at c = Some f \<and> a \<le> f)))"

lemma settled_step:
  assumes "jwks_step P c e c'" "settled c now" "now \<le> event_instant e" "\<not> breaks e"
  shows "settled c' (event_instant e)"
  using assms(1)
proof (cases rule: jwks_step.cases)
  case (step_end now' kid f r)
  with assms(2-4) show ?thesis
    by (cases f) (auto simp: settled_def end_refresh_def Let_def intro: order_trans)
qed (use assms in \<open>auto simp: settled_def begin_refresh_def intro: order_trans\<close>)

lemma run_settled:
  assumes "jwks_run P now c es c'" "settled c now" "\<forall>e \<in> set es. \<not> breaks e"
  shows "\<exists>later. settled c' later"
  using assms
proof (induction rule: jwks_run.induct)
  case (run_more c e c' now es c'')
  from settled_step [OF run_more.hyps(1) run_more.prems(1) run_more.hyps(2)] run_more show ?case by simp
qed auto

lemma attempt_kept:
  assumes "jwks_run P now c es c'" "jc_last_attempt c = Some a" "start \<le> a" "start \<le> now"
  shows "\<exists>a'. jc_last_attempt c' = Some a' \<and> start \<le> a'"
  using assms
proof (induction arbitrary: a rule: jwks_run.induct)
  case (run_more c e c' now es c'')
  have "\<exists>a'. jc_last_attempt c' = Some a' \<and> start \<le> a'"
    using run_more.hyps(1,2) run_more.prems
    by (cases rule: jwks_step.cases)
      (auto simp: begin_refresh_def end_refresh_def Let_def split: fetched.splits)
  with run_more.IH run_more.hyps(2) run_more.prems show ?case by (meson order_trans)
qed auto

lemma run_append:
  "jwks_run P now c (es @ fs) c' \<Longrightarrow>
     \<exists>c'' later. jwks_run P now c es c'' \<and> jwks_run P later c'' fs c' \<and> now \<le> later"
proof (induction es arbitrary: now c)
  case Nil
  then show ?case by (auto intro: run_none)
next
  case (Cons e es)
  then obtain c1 where e: "jwks_step P c e c1" "now \<le> event_instant e"
    "jwks_run P (event_instant e) c1 (es @ fs) c'" by (auto elim: run_ConsE)
  from Cons.IH [OF e(3)] e show ?case by (meson order_trans run_more)
qed

section \<open>Properties\<close>

text \<open>C26: the refresh floor: whoever asks for whatever key ids, two fetches of the key set start at
  least \<open>min_refresh_seconds\<close> apart, so minting unknown key ids costs the issuer nothing.\<close>

theorem jwks_refresh_floor:
  assumes "jwks_run P now c (Began kid t # es @ [Began kid' t']) c'"
  shows "jk_min_refresh_seconds P \<le> t' - t"
proof -
  from assms obtain c1 where b: "jwks_step P c (Began kid t) c1" "jwks_run P t c1 (es @ [Began kid' t']) c'"
    by (auto elim: run_ConsE)
  then have "jc_last_attempt c1 = Some t" by (auto elim: step_beginE simp: begin_refresh_def)
  moreover from run_append [OF b(2)] obtain c2 later where r: "jwks_run P t c1 es c2"
    "jwks_run P later c2 [Began kid' t'] c'" by blast
  ultimately obtain a where a: "jc_last_attempt c2 = Some a" "t \<le> a"
    using attempt_kept [OF r(1)] by blast
  from r(2) have "locked_answer P c2 t' kid' = None" by (auto elim!: run_ConsE step_beginE)
  with a show ?thesis by (auto simp: locked_answer_def Let_def split: if_splits)
qed

text \<open>A key is served only if the issuer's last answer contained it: whatever the interleaving,
  the key that answers a request is the one the last successful fetch had for that id; and if no
  fetch is under way and none was cut off, that fetch is younger than the larger of the time to
  live, the grace ceiling and the refresh floor.\<close>

theorem jwks_served_keys:
  assumes "jwks_run P now jwks_cache_new es c" "jwks_step P c (Answered kid t (Inr (Some key))) c'"
  shows "\<exists>f keys. last_fetched es None = Some (f, keys) \<and> map_of keys kid = Some key
    \<and> (\<not> jc_locked c \<and> (\<forall>e \<in> set es. \<not> breaks e)
       \<longrightarrow> t - f < max (jk_ttl_seconds P) (max (jk_max_stale_seconds P) (jk_min_refresh_seconds P)))"
proof -
  have c: "cached c (last_fetched es None)"
    by (rule run_cached [OF assms(1)]) (simp add: cached_def jwks_cache_new_def)
  have k: "map_of (jc_keys c) kid = Some key" using assms(2)
    by (auto elim!: step_answeredE simp: fast_answer_def locked_answer_def serve_within_grace_def Let_def
        split: option.splits if_splits)
  with c obtain f keys where f: "last_fetched es None = Some (f, keys)" "map_of keys kid = Some key"
    "jc_fetched_at c = Some f" by (auto simp: cached_def split: option.splits)
  have "t - f < max (jk_ttl_seconds P) (max (jk_max_stale_seconds P) (jk_min_refresh_seconds P))"
    if u: "\<not> jc_locked c" "\<forall>e \<in> set es. \<not> breaks e"
  proof -
    obtain later where "settled c later"
      using run_settled [OF assms(1) _ u(2)] by (auto simp: settled_def jwks_cache_new_def)
    with assms(2) u(1) f(3) k show ?thesis
      by (auto elim!: step_answeredE simp: fast_answer_def locked_answer_def serve_within_grace_def
          Let_def settled_def stale_def aged_def split: option.splits if_splits)
  qed
  with f show ?thesis by blast
qed

lemmas jwks_eval = jwks_policy_default_def jwks_cache_new_def begin_refresh_def end_refresh_def
  locked_answer_def fast_answer_def stale_def aged_def serve_within_grace_def

lemmas jwks_runI = run_more [OF step_begin] run_more [OF step_end] run_none

theorem jwks_refresh_floor_witness:
  "\<exists>c'. jwks_run (jwks_policy_default ''u'') 0 (jwks_cache_new :: nat jwks_cache)
      (Began ''x'' 0 # [Ended ''x'' 1 Fetch_Failed (Inl jwks_unavailable)] @ [Began ''y'' 40]) c'
    \<and> jk_min_refresh_seconds (jwks_policy_default ''u'') \<le> 40 - (0 :: seconds)"
proof -
  obtain c' :: "nat jwks_cache" where run: "jwks_run (jwks_policy_default ''u'') 0 jwks_cache_new
      (Began ''x'' 0 # [Ended ''x'' 1 Fetch_Failed (Inl jwks_unavailable)] @ [Began ''y'' 40]) c'"
    by (rule that, simp, (rule jwks_runI, simp add: jwks_eval, simp add: jwks_eval, (simp add: jwks_eval)?)+)
       (rule run_none)
  from jwks_refresh_floor [OF run] run show ?thesis by blast
qed

theorem jwks_served_keys_witness:
  "\<exists>c. jwks_run (jwks_policy_default ''u'') 0 (jwks_cache_new :: nat jwks_cache)
      [Began ''a'' 0, Ended ''a'' 1 (Fetched [(''a'', 7)]) (Inr (Some 7))] c
    \<and> jwks_step (jwks_policy_default ''u'') c (Answered ''a'' 500 (Inr (Some 7))) c
    \<and> 500 - (1 :: seconds) < 3600"
proof -
  let ?c = "\<lparr>jc_keys = [(''a'', 7 :: nat)], jc_fetched_at = Some 1, jc_last_attempt = Some 0,
    jc_last_attempt_failed = False, jc_locked = False\<rparr>"
  have run: "jwks_run (jwks_policy_default ''u'') 0 jwks_cache_new
      [Began ''a'' 0, Ended ''a'' 1 (Fetched [(''a'', 7)]) (Inr (Some 7))] ?c"
    by (rule run_more [OF step_begin], simp_all add: jwks_eval)
       (rule run_more [OF step_end], simp_all add: jwks_eval, rule run_none)
  have ans: "jwks_step (jwks_policy_default ''u'') ?c (Answered ''a'' 500 (Inr (Some 7))) ?c"
    by (rule step_fast) (simp add: jwks_eval)
  from jwks_served_keys [OF run ans] run ans show ?thesis by (auto simp: jwks_policy_default_def)
qed

section \<open>A fetch that is cut off\<close>

text \<open>What it leaves: an attempt that nobody remembers as failed, and the keys of before.\<close>

definition cut_off :: "'k jwks_cache \<Rightarrow> seconds \<Rightarrow> (string \<times> 'k) list \<Rightarrow> bool" where
  "cut_off c started keys \<longleftrightarrow> jc_last_attempt c = Some started \<and> \<not> jc_last_attempt_failed c
     \<and> \<not> jc_locked c \<and> jc_keys c = keys"

lemma cut_off_locked:
  "cut_off c started keys \<Longrightarrow> now - started < jk_min_refresh_seconds P \<Longrightarrow>
     locked_answer P c now kid = Some (Inr (map_of keys kid))"
  by (auto simp: cut_off_def locked_answer_def Let_def)

lemma cut_off_unknown:
  "cut_off c started keys \<Longrightarrow> map_of keys kid = None \<Longrightarrow> fast_answer P c now kid = None"
  by (simp add: cut_off_def fast_answer_def)

lemma cut_off_step:
  assumes "jwks_step P c e c'" "cut_off c started keys" "event_instant e < started + jk_min_refresh_seconds P"
  shows "c' = c \<and> (\<exists>kid n x. e = Answered kid n x \<and> (map_of keys kid = None \<longrightarrow> x = Inr None))"
  using assms(1)
proof (cases rule: jwks_step.cases)
  case (step_fast now kid key)
  with cut_off_unknown [OF assms(2), of kid P now] show ?thesis by auto
next
  case (step_locked now kid r)
  with cut_off_locked [OF assms(2), of now P kid] assms(3) show ?thesis by auto
next
  case (step_begin now kid)
  with cut_off_locked [OF assms(2), of now P kid] assms(3) show ?thesis by auto
next
  case (step_end now kid f r)
  with assms(2) show ?thesis by (simp add: cut_off_def)
qed

lemma cut_off_run:
  assumes "jwks_run P now c es c'" "cut_off c started keys"
    and "\<forall>e \<in> set es. event_instant e < started + jk_min_refresh_seconds P"
  shows "c' = c \<and> (\<forall>e \<in> set es. \<exists>kid n x. e = Answered kid n x \<and> (map_of keys kid = None \<longrightarrow> x = Inr None))"
  using assms
proof (induction rule: jwks_run.induct)
  case (run_more c e c' now es c'')
  from cut_off_step [OF run_more.hyps(1) run_more.prems(1)] run_more show ?case by auto
qed simp

lemma answers_keep:
  assumes "jwks_run P now c es c'" "\<forall>e \<in> set es. \<exists>kid n x. e = Answered kid n x"
  shows "c' = c"
  using assms
proof (induction rule: jwks_run.induct)
  case (run_more c e c' now es c'')
  then show ?case by (auto elim: step_answeredE)
qed simp

text \<open>A fetch, answers from the cache while it is under way, and its end by an exception.\<close>

lemma broken_fetch_cuts_off:
  assumes "jwks_run P now c (Began kid started # es @ Ended kid ended (Fetch_Broke e) r # later) c'"
    and "\<forall>ev \<in> set es. \<exists>kid n x. ev = Answered kid n x" and "\<not> jc_last_attempt_failed c"
  shows "\<exists>c1 n. jwks_run P n c1 later c' \<and> cut_off c1 started (jc_keys c)"
proof -
  from assms(1) obtain c0 where b: "jwks_step P c (Began kid started) c0"
      "jwks_run P started c0 (es @ Ended kid ended (Fetch_Broke e) r # later) c'"
    by (auto elim: run_ConsE)
  from run_append [OF b(2)] obtain c2 n where r: "jwks_run P started c0 es c2"
      "jwks_run P n c2 (Ended kid ended (Fetch_Broke e) r # later) c'" by blast
  from r(2) obtain c1 where e: "jwks_step P c2 (Ended kid ended (Fetch_Broke e) r) c1"
      "jwks_run P ended c1 later c'" by (auto elim: run_ConsE)
  have "c2 = begin_refresh c started" using answers_keep [OF r(1) assms(2)] b(1) by (auto elim: step_beginE)
  with e(1) assms(3) have "cut_off c1 started (jc_keys c)"
    by (auto elim!: step_endedE simp: end_refresh_def begin_refresh_def cut_off_def Let_def)
  with e(2) show ?thesis by blast
qed

text \<open>Asked for a key that it does not have, such a cache says that there is none, and stays as it is.\<close>

lemma cut_off_get:
  assumes "cut_off c started keys" "map_of keys kid = None"
    and "ob_monotonic (je_outbound V) s = (Inr n, t)" "n < started + jk_min_refresh_seconds P"
  shows "jwks_get V P kid c s = (Inr (Inr None, c), t)"
  using cut_off_locked [OF assms(1), of n P kid] cut_off_unknown [OF assms(1,2), of P n] assms(2-4)
  by (simp add: jwks_get_def pbind_def)

end
