(* ===== verification/Identity.thy ===== *)
theory Identity
  imports Jwks_Cache
begin

text \<open>
  Who the caller is: \<open>application/ports/identity.py\<close>, \<open>infrastructure/adapters/dev_identity.py\<close> and
  \<open>infrastructure/adapters/jwt/identity.py\<close>. PyJWT (\<open>get_unverified_header\<close>, \<open>decode\<close>) and the
  classes of its errors are parameters. Log lines are not modelled.
\<close>

section \<open>The port\<close>

record principal =
  pr_owner_id :: owner_id

definition unauthenticated :: "(string \<times> pyval) list option \<Rightarrow> exn" where
  "unauthenticated details = app_exn UnauthenticatedError UNAUTHENTICATED details"

section \<open>The development adapter\<close>

definition dev_authenticate :: "string option \<Rightarrow> exn + principal" where
  "dev_authenticate credential =
     (if credential = None \<or> credential = Some [] then
        Inl (unauthenticated (Some [(''authorization'', VStr ''missing credential'')]))
      else case uuid_parse (the credential) of
        Inl e \<Rightarrow> Inl (unauthenticated
          (Some [(''authorization'', VStr ''credential must be a UUID owner id'')]))
      | Inr u \<Rightarrow> Inr \<lparr>pr_owner_id = OwnerId u\<rparr>)"

section \<open>The token adapter\<close>

record jwt_policy =
  jp_issuer :: string
  jp_audience :: string
  jp_algorithms :: "string list"
  jp_owner_claim :: string
  jp_leeway_seconds :: seconds

definition jwt_policy_default :: "string \<Rightarrow> string \<Rightarrow> string list \<Rightarrow> jwt_policy" where
  "jwt_policy_default issuer audience algorithms =
     \<lparr>jp_issuer = issuer, jp_audience = audience, jp_algorithms = algorithms,
      jp_owner_claim = ''sub'', jp_leeway_seconds = 30\<rparr>"

text \<open>The keyword arguments of \<open>jwt.decode\<close>.\<close>

record 'k jwt_decode_call =
  jd_key :: 'k
  jd_algorithms :: "string list"
  jd_issuer :: string
  jd_audience :: string
  jd_leeway :: seconds
  jd_verify_signature :: bool
  jd_require :: "string list"

record ('s, 'k) jwt_env =
  jv_header :: "string \<Rightarrow> exn + (string \<times> pyval) list"
  jv_keys_get :: "string \<Rightarrow> ('s, exn, 'k option) prog"
  jv_decode :: "string \<Rightarrow> 'k jwt_decode_call \<Rightarrow> ('s, exn, (string \<times> pyval) list) prog"
  jv_is_pyjwt_error :: "exn \<Rightarrow> bool"
  jv_is_refusal :: "exn \<Rightarrow> bool"

definition jwt_decode_args :: "jwt_policy \<Rightarrow> 'k \<Rightarrow> 'k jwt_decode_call" where
  "jwt_decode_args P key =
     \<lparr>jd_key = key, jd_algorithms = jp_algorithms P, jd_issuer = jp_issuer P,
      jd_audience = jp_audience P, jd_leeway = jp_leeway_seconds P, jd_verify_signature = True,
      jd_require = [''exp'', ''iss'', ''aud'', jp_owner_claim P]\<rparr>"

definition refused :: exn where
  "refused = unauthenticated None"

text \<open>\<open>_owner_id\<close>. The text of a value that is no string is never the canonical text of a UUID.\<close>

definition owner_of_subject :: "pyval option \<Rightarrow> exn + owner_id" where
  "owner_of_subject subject =
     (case subject of
        Some (VStr t) \<Rightarrow>
          (case uuid_parse t of
             Inl e \<Rightarrow> Inl refused
           | Inr u \<Rightarrow> if uuid_str u \<noteq> t then Inl refused else Inr (OwnerId u))
      | _ \<Rightarrow> Inl refused)"

definition key_id :: "(string \<times> pyval) list \<Rightarrow> string option" where
  "key_id header =
     (case map_of header ''kid'' of
        Some (VStr kid) \<Rightarrow> if kid \<noteq> [] then Some kid else None
      | _ \<Rightarrow> None)"

definition jwt_authenticate ::
  "('s, 'k) jwt_env \<Rightarrow> jwt_policy \<Rightarrow> string option \<Rightarrow> ('s, exn, principal) prog" where
  "jwt_authenticate E P credential =
     (if credential = None \<or> credential = Some [] then praise refused
      else
        (let token = the credential in
         case jv_header E token of
           Inl e \<Rightarrow> if jv_is_pyjwt_error E e then praise refused else praise e
         | Inr header \<Rightarrow>
             pbind (case key_id header of None \<Rightarrow> pret None | Some kid \<Rightarrow> jv_keys_get E kid) (\<lambda>key.
             case key of
               None \<Rightarrow> praise refused
             | Some k \<Rightarrow>
                 pbind (pcatch (jv_decode E token (jwt_decode_args P k))
                     (\<lambda>e. if jv_is_refusal E e then praise refused else praise e)) (\<lambda>claims.
                 pbind (plift (owner_of_subject (map_of claims (jp_owner_claim P)))) (\<lambda>owner.
                   pret \<lparr>pr_owner_id = owner\<rparr>)))))"

section \<open>Properties\<close>

lemma owner_of_subject_Inr:
  "owner_of_subject subject = Inr ow \<longleftrightarrow> (\<exists>u. ow = OwnerId u \<and> subject = Some (VStr (uuid_str u)))"
proof
  assume r: "owner_of_subject subject = Inr ow"
  then obtain t where t: "subject = Some (VStr t)"
    by (auto simp: owner_of_subject_def split: option.splits pyval.splits)
  with r obtain u where "uuid_parse t = Inr u" "uuid_str u = t" "ow = OwnerId u"
    by (auto simp: owner_of_subject_def split: sum.splits if_splits)
  with t show "\<exists>u. ow = OwnerId u \<and> subject = Some (VStr (uuid_str u))" by metis
qed (auto simp: owner_of_subject_def)

lemma owner_of_subject_Inl: "owner_of_subject subject = Inl e \<Longrightarrow> e = refused"
  by (simp add: owner_of_subject_def split: option.splits pyval.splits sum.splits if_splits)

lemma jwt_accepted:
  assumes "jwt_authenticate E P (Some token) s = (Inr p, t)"
  shows "\<exists>header kid k s1 claims u. jv_header E token = Inr header \<and> map_of header ''kid'' = Some (VStr kid)
    \<and> jv_keys_get E kid s = (Inr (Some k), s1)
    \<and> jv_decode E token \<lparr>jd_key = k, jd_algorithms = jp_algorithms P, jd_issuer = jp_issuer P,
        jd_audience = jp_audience P, jd_leeway = jp_leeway_seconds P, jd_verify_signature = True,
        jd_require = [''exp'', ''iss'', ''aud'', jp_owner_claim P]\<rparr> s1 = (Inr claims, t)
    \<and> pr_owner_id p = OwnerId u \<and> map_of claims (jp_owner_claim P) = Some (VStr (uuid_str u))"
proof -
  from assms obtain header where h: "token \<noteq> []" "jv_header E token = Inr header"
    by (auto simp: jwt_authenticate_def Let_def split: if_splits sum.splits)
  with assms have "pbind (case key_id header of None \<Rightarrow> pret None | Some kid \<Rightarrow> jv_keys_get E kid) (\<lambda>key.
      case key of
        None \<Rightarrow> praise refused
      | Some k \<Rightarrow>
          pbind (pcatch (jv_decode E token (jwt_decode_args P k))
              (\<lambda>e. if jv_is_refusal E e then praise refused else praise e)) (\<lambda>claims.
          pbind (plift (owner_of_subject (map_of claims (jp_owner_claim P)))) (\<lambda>owner.
            pret \<lparr>pr_owner_id = owner\<rparr>))) s = (Inr p, t)"
    by (simp add: jwt_authenticate_def Let_def)
  then obtain k s1 where k: "(case key_id header of None \<Rightarrow> pret None | Some kid \<Rightarrow> jv_keys_get E kid) s
      = (Inr (Some k), s1)" and rest: "pbind (pcatch (jv_decode E token (jwt_decode_args P k))
              (\<lambda>e. if jv_is_refusal E e then praise refused else praise e)) (\<lambda>claims.
          pbind (plift (owner_of_subject (map_of claims (jp_owner_claim P)))) (\<lambda>owner.
            pret \<lparr>pr_owner_id = owner\<rparr>)) s1 = (Inr p, t)"
    by (elim pbindE) (auto split: option.splits)
  from k obtain kid where kid: "map_of header ''kid'' = Some (VStr kid)" "jv_keys_get E kid s = (Inr (Some k), s1)"
    by (auto simp: key_id_def split: option.splits pyval.splits if_splits)
  from rest obtain claims ow where "jv_decode E token (jwt_decode_args P k) s1 = (Inr claims, t)"
      "owner_of_subject (map_of claims (jp_owner_claim P)) = Inr ow" "p = \<lparr>pr_owner_id = ow\<rparr>"
    by (elim pbindE pcatchE) (auto split: if_splits sum.splits simp: pbind_def)
  with h kid show ?thesis by (auto simp: owner_of_subject_Inr jwt_decode_args_def)
qed

text \<open>C25: a token admits exactly the owner it was issued for: an accepted credential was a token whose
  header names a key id, whose signature and claims PyJWT accepted under the key the cache has for
  that id, with the policy's algorithms, issuer, audience and leeway and with an expiry required,
  and whose owner claim is the canonical text of the principal's id; so two tokens with different
  owner claims never share an owner.\<close>

theorem jwt_principal_sound:
  assumes "jwt_authenticate E P (Some token) s = (Inr p, t)"
  shows "\<exists>header kid k s1 claims u. jv_header E token = Inr header \<and> map_of header ''kid'' = Some (VStr kid)
    \<and> jv_keys_get E kid s = (Inr (Some k), s1)
    \<and> jv_decode E token \<lparr>jd_key = k, jd_algorithms = jp_algorithms P, jd_issuer = jp_issuer P,
        jd_audience = jp_audience P, jd_leeway = jp_leeway_seconds P, jd_verify_signature = True,
        jd_require = [''exp'', ''iss'', ''aud'', jp_owner_claim P]\<rparr> s1 = (Inr claims, t)
    \<and> pr_owner_id p = OwnerId u \<and> map_of claims (jp_owner_claim P) = Some (VStr (uuid_str u))"
  using assms by (rule jwt_accepted)

text \<open>A refusal says nothing: when the libraries raise what they document, every credential that is
  not accepted gets the same answer, 401 without details, or, when the keys cannot be had, 503.\<close>

theorem jwt_refusals_uniform:
  assumes "jwt_authenticate E P credential s = (Inl e, t)"
    and "\<And>token e. jv_header E token = Inl e \<Longrightarrow> jv_is_pyjwt_error E e"
    and "\<And>kid s e t. jv_keys_get E kid s = (Inl e, t) \<Longrightarrow> e = jwks_unavailable"
    and "\<And>token args s e t. jv_decode E token args s = (Inl e, t) \<Longrightarrow> jv_is_refusal E e"
  shows "e = refused \<or> e = jwks_unavailable"
proof (cases "credential = None \<or> credential = Some []")
  case True
  with assms(1) show ?thesis by (auto simp: jwt_authenticate_def)
next
  case False
  then obtain token where c: "credential = Some token" by auto
  show ?thesis
  proof (cases "jv_header E token")
    case (Inl e')
    with assms(1,2) False c show ?thesis by (auto simp: jwt_authenticate_def Let_def)
  next
    case (Inr header)
    with assms(1) False c have run: "pbind (case key_id header of None \<Rightarrow> pret None | Some kid \<Rightarrow> jv_keys_get E kid)
        (\<lambda>key. case key of
           None \<Rightarrow> praise refused
         | Some k \<Rightarrow>
             pbind (pcatch (jv_decode E token (jwt_decode_args P k))
                 (\<lambda>e. if jv_is_refusal E e then praise refused else praise e)) (\<lambda>claims.
             pbind (plift (owner_of_subject (map_of claims (jp_owner_claim P)))) (\<lambda>owner.
               pret \<lparr>pr_owner_id = owner\<rparr>))) s = (Inl e, t)"
      by (simp add: jwt_authenticate_def Let_def)
    then show ?thesis
    proof (cases rule: pbindE)
      case (Raised e')
      with assms(3) show ?thesis by (auto split: option.splits)
    next
      case (Continued key u)
      then show ?thesis
      proof (cases key)
        case (Some k)
        with Continued(2) have "pbind (pcatch (jv_decode E token (jwt_decode_args P k))
                 (\<lambda>e. if jv_is_refusal E e then praise refused else praise e)) (\<lambda>claims.
             pbind (plift (owner_of_subject (map_of claims (jp_owner_claim P)))) (\<lambda>owner.
               pret \<lparr>pr_owner_id = owner\<rparr>)) u = (Inl e, t)" by simp
        then show ?thesis
          by (elim pbindE pcatchE)
            (use assms(4) owner_of_subject_Inl in \<open>fastforce split: if_splits option.splits\<close>)+
      qed auto
    qed
  qed
qed

section \<open>A concrete issuer\<close>

text \<open>One key, one token; the state is the number of key lookups.\<close>

definition demo_jwt :: "(nat, nat) jwt_env" where
  "demo_jwt =
     \<lparr>jv_header = \<lambda>token. if token = ''tok'' then Inr [(''kid'', VStr ''a'')] else Inl (PyExn ''DecodeError''),
      jv_keys_get = \<lambda>kid n. (Inr (if kid = ''a'' then Some 7 else None), n + 1),
      jv_decode = \<lambda>token args n. (if jd_key args = 7 \<and> ''exp'' \<in> set (jd_require args)
        then Inr [(''sub'', VStr (uuid_str 5))] else Inl (PyExn ''InvalidSignatureError''), n),
      jv_is_pyjwt_error = \<lambda>e. True, jv_is_refusal = \<lambda>e. True\<rparr>"

definition demo_jwt_policy :: jwt_policy where
  "demo_jwt_policy = jwt_policy_default ''iss'' ''aud'' [''RS256'']"

lemma demo_jwt_accepts:
  "jwt_authenticate demo_jwt demo_jwt_policy (Some ''tok'') 0 = (Inr \<lparr>pr_owner_id = OwnerId 5\<rparr>, 1)"
  by (simp add: jwt_authenticate_def demo_jwt_def key_id_def demo_jwt_policy_def jwt_policy_default_def
      jwt_decode_args_def owner_of_subject_def pbind_def pcatch_def)

theorem jwt_principal_sound_witness:
  "jwt_authenticate demo_jwt demo_jwt_policy (Some ''tok'') 0 = (Inr \<lparr>pr_owner_id = OwnerId 5\<rparr>, 1)
   \<and> (\<exists>kid. jv_keys_get demo_jwt kid 0 = (Inr (Some 7), 1))"
proof -
  from jwt_principal_sound [OF demo_jwt_accepts] obtain kid k s1 where
    "jv_keys_get demo_jwt kid 0 = (Inr (Some k), s1)" by blast
  then have "jv_keys_get demo_jwt kid 0 = (Inr (Some 7), 1)" by (auto simp: demo_jwt_def split: if_splits)
  with demo_jwt_accepts show ?thesis by blast
qed

theorem jwt_refusals_uniform_witness:
  "jwt_authenticate demo_jwt demo_jwt_policy (Some ''bad'') 0 = (Inl refused, 0)"
proof -
  obtain e where run: "jwt_authenticate demo_jwt demo_jwt_policy (Some ''bad'') 0 = (Inl e, 0)"
    by (simp add: jwt_authenticate_def demo_jwt_def)
  have "e = refused \<or> e = jwks_unavailable"
    by (rule jwt_refusals_uniform [OF run]) (simp_all add: demo_jwt_def)
  moreover have "e = refused" using run by (simp add: jwt_authenticate_def demo_jwt_def)
  ultimately show ?thesis using run by simp
qed

section \<open>A key fetch that is cut off\<close>

text \<open>\<open>JwksCache.get\<close> on the cache that the state carries.\<close>

definition cached_keys :: "('s, 'k) jwks_env \<Rightarrow> jwks_policy \<Rightarrow> ('s \<Rightarrow> 'k jwks_cache)
    \<Rightarrow> ('k jwks_cache \<Rightarrow> 's \<Rightarrow> 's) \<Rightarrow> string \<Rightarrow> ('s, exn, 'k option) prog" where
  "cached_keys V K cache_of put_cache kid = (\<lambda>s.
     case jwks_get V K kid (cache_of s) s of
       (Inl e, t) \<Rightarrow> (Inl e, t)
     | (Inr (r, c), t) \<Rightarrow> (r, put_cache c t))"

text \<open>C36: what a cut-off fetch does to everybody else. When a fetch of the keys ends by a cancellation, or by any
  exception that the cache does not translate, and the attempt before it had not failed, the cache has
  the keys of before and no memory of a failure. Until the refresh floor has passed since the fetch began, nobody asks
  the issuer again, every request for a key id that the cache does not have is told that there is none, and
  every token with such a key id is refused with 401, although the issuer was never heard.\<close>

theorem cut_off_fetch_refuses_tokens:
  assumes "jwks_run K now c (Began kid started # es @ Ended kid ended (Fetch_Broke e) r # later) c'"
    and "\<forall>ev \<in> set es. \<exists>i n x. ev = Answered i n x" and "\<not> jc_last_attempt_failed c"
    and "\<forall>ev \<in> set later. event_instant ev < started + jk_min_refresh_seconds K"
    and "token \<noteq> []" "jv_header J token = Inr header" "key_id header = Some unknown"
      "map_of (jc_keys c) unknown = None"
    and "jv_keys_get J = cached_keys V K cache_of put_cache" "cache_of s = c'"
      "ob_monotonic (je_outbound V) s = (Inr n, t)" "n < started + jk_min_refresh_seconds K"
  shows "jc_keys c' = jc_keys c
    \<and> (\<forall>ev \<in> set later. \<exists>i m x. ev = Answered i m x \<and> (map_of (jc_keys c) i = None \<longrightarrow> x = Inr None))
    \<and> (\<exists>a. jwt_authenticate J P (Some token) s = (Inl (AppExn a), put_cache c' t) \<and> ae_status_code a = 401)"
proof -
  from broken_fetch_cuts_off [OF assms(1-3)] obtain c1 m where
    c1: "jwks_run K m c1 later c'" "cut_off c1 started (jc_keys c)" by blast
  from cut_off_run [OF c1 assms(4)] have later: "c' = c1"
      "\<forall>ev \<in> set later. \<exists>i m x. ev = Answered i m x \<and> (map_of (jc_keys c) i = None \<longrightarrow> x = Inr None)"
    by blast+
  from cut_off_get [OF c1(2) assms(8,11,12)] assms(10) later(1)
  have "jv_keys_get J unknown s = (Inr None, put_cache c' t)" by (simp add: assms(9) cached_keys_def)
  then have "jwt_authenticate J P (Some token) s = (Inl refused, put_cache c' t)"
    using assms(5-7) by (simp add: jwt_authenticate_def pbind_def)
  with later c1(2) show ?thesis
    by (auto simp: cut_off_def refused_def unauthenticated_def app_exn_def app_error_new_def)
qed

text \<open>A fresh cache, a caller that disconnects at second one, a token of the key \<open>b\<close> at second twenty-nine. The
  state is the cache; no request gets through.\<close>

definition idle_outbound :: "'s outbound" where
  "idle_outbound =
     \<lparr>ob_lease_enter = \<lambda>p. pret (0, True), ob_lease_exit = \<lambda>p l. pret (), ob_monotonic = pret 29,
      ob_perf_counter = pret 0, ob_sleep = \<lambda>d. pret (), ob_uniform = \<lambda>a b. pret a,
      ob_correlation_id = pret None, ob_post = \<lambda>c. praise CancelledExn, ob_read = \<lambda>b n. pret [],
      ob_close = \<lambda>r. pret (), ob_is_timeout = \<lambda>e. False, ob_is_client_error = \<lambda>e. False,
      ob_observe = \<lambda>m. pret (), ob_recursion_limit = 1000\<rparr>"

definition idle_jwks :: "(nat jwks_cache, nat) jwks_env" where
  "idle_jwks = \<lparr>je_outbound = idle_outbound, je_get = \<lambda>g. praise CancelledExn,
     je_jwk_set = \<lambda>es. Inr [], je_is_fetch_error = \<lambda>e. False\<rparr>"

definition idle_jwt :: "(nat jwks_cache, nat) jwt_env" where
  "idle_jwt =
     \<lparr>jv_header = \<lambda>token. Inr [(''kid'', VStr ''b'')],
      jv_keys_get = cached_keys idle_jwks (jwks_policy_default ''u'') id (\<lambda>c _. c),
      jv_decode = \<lambda>token args. pret [], jv_is_pyjwt_error = \<lambda>e. True, jv_is_refusal = \<lambda>e. True\<rparr>"

theorem cut_off_fetch_refuses_tokens_witness:
  "\<exists>c e. jwks_run (jwks_policy_default ''u'') 0 (jwks_cache_new :: nat jwks_cache)
       [Began ''a'' 0, Ended ''a'' 1 (Fetch_Broke CancelledExn) (Inl CancelledExn)] c
     \<and> jwt_authenticate idle_jwt demo_jwt_policy (Some ''tok'') c = (Inl (AppExn e), c)
     \<and> ae_status_code e = 401"
proof -
  let ?c = "(jwks_cache_new :: nat jwks_cache)\<lparr>jc_last_attempt := Some 0\<rparr>"
  let ?P = "jwks_policy_default ''u''"
  have run: "jwks_run ?P 0 jwks_cache_new (Began ''a'' 0 # [] @
      Ended ''a'' 1 (Fetch_Broke CancelledExn) (Inl CancelledExn) # []) ?c"
    by (simp, rule run_more [OF step_begin], simp_all add: jwks_eval)
       (rule run_more [OF step_end], simp_all add: jwks_eval, rule run_none)
  have keys: "jv_keys_get idle_jwt = cached_keys idle_jwks ?P id (\<lambda>c _. c)" by (simp add: idle_jwt_def)
  have head: "jv_header idle_jwt ''tok'' = Inr [(''kid'', VStr ''b'')]" "key_id [(''kid'', VStr ''b'')] = Some ''b''"
    by (simp_all add: idle_jwt_def key_id_def)
  have clock: "ob_monotonic (je_outbound idle_jwks) ?c = (Inr 29, ?c)" "29 < 0 + jk_min_refresh_seconds ?P"
    by (simp_all add: idle_jwks_def idle_outbound_def jwks_policy_default_def)
  from cut_off_fetch_refuses_tokens [OF run _ _ _ _ head _ keys id_apply clock, of demo_jwt_policy] run
  show ?thesis by (auto simp: jwks_cache_new_def)
qed

end
