(* ===== verification/Wallet_Api.thy ===== *)
theory Wallet_Api
  imports Service_Guarantees Pagination Isoformat Http_Problem Identity
begin

text \<open>
  The HTTP surface of the wallets: \<open>presentation/http/routers/v1/wallets.py\<close>,
  \<open>schemas/v1/wallets.py\<close>, \<open>dependencies.py\<close> and \<open>responses.py\<close>. A call holds its fields as the
  framework reads them from path, query, header and body; the constraints the schemas put on them
  are modelled, the reading itself, the check of the digits of a decimal and the wording of the
  report are parameters (pydantic). A decimal and a UUID leave as their text.
\<close>

section \<open>Fields\<close>

text \<open>A field was not sent, is not of its type, or was read.\<close>

datatype 'a field = Missing | Malformed | Given 'a

text \<open>\<open>Inl\<close> holds the names of the refused fields.\<close>

type_synonym 'a validated = "string list + 'a"

definition required :: "string \<Rightarrow> ('a \<Rightarrow> bool) \<Rightarrow> 'a field \<Rightarrow> 'a validated" where
  "required name ok f = (case f of Given x \<Rightarrow> if ok x then Inr x else Inl [name] | _ \<Rightarrow> Inl [name])"

definition defaulted :: "string \<Rightarrow> 'a \<Rightarrow> ('a \<Rightarrow> bool) \<Rightarrow> 'a field \<Rightarrow> 'a validated" where
  "defaulted name d ok f = (case f of Missing \<Rightarrow> Inr d | _ \<Rightarrow> required name ok f)"

text \<open>Every refused field is reported.\<close>

fun both :: "'a validated \<Rightarrow> 'b validated \<Rightarrow> ('a \<times> 'b) validated" where
  "both (Inr x) (Inr y) = Inr (x, y)"
| "both (Inl e) (Inl f) = Inl (e @ f)"
| "both (Inl e) (Inr y) = Inl e"
| "both (Inr x) (Inl f) = Inl f"

lemma validated_Inr:
  "required name ok f = Inr x \<longleftrightarrow> f = Given x \<and> ok x"
  "defaulted name d ok f = Inr x \<longleftrightarrow> f = Missing \<and> x = d \<or> f = Given x \<and> ok x"
  "both a b = Inr p \<longleftrightarrow> (\<exists>x y. a = Inr x \<and> b = Inr y \<and> p = (x, y))"
  by (cases f; auto simp: required_def defaulted_def; cases a; cases b; auto)+

section \<open>Request schemas\<close>

definition OpenWalletRequest :: "string field \<Rightarrow> string validated" where
  "OpenWalletRequest currency = required ''currency'' (\<lambda>c. 3 \<le> length c \<and> length c \<le> 3) currency"

record money_fields =
  mf_amount :: "decimal field"
  mf_currency :: "string field"
  mf_description :: "string field"

record money_body =
  mb_amount :: decimal
  mb_currency :: string
  mb_description :: string

text \<open>\<open>digits\<close> is pydantic's check of \<open>max_digits\<close> and \<open>decimal_places\<close>, on finite numbers.\<close>

definition MoneyRequest :: "(int \<Rightarrow> int \<Rightarrow> decimal \<Rightarrow> bool) \<Rightarrow> money_fields \<Rightarrow> money_body validated" where
  "MoneyRequest digits f =
     map_sum id (\<lambda>(a, c, d). \<lparr>mb_amount = a, mb_currency = c, mb_description = d\<rparr>)
       (both (required ''amount'' (\<lambda>a. dec_is_finite a \<and> \<not> dec_le_zero a \<and> digits 20 2 a) (mf_amount f))
         (both (required ''currency'' (\<lambda>c. 3 \<le> length c \<and> length c \<le> 3) (mf_currency f))
           (defaulted ''description'' [] (\<lambda>d. length d \<le> 200) (mf_description f))))"

definition page_limit :: "int field \<Rightarrow> int validated" where
  "page_limit limit = defaulted ''limit'' 20 (\<lambda>n. 1 \<le> n \<and> n \<le> 100) limit"

definition wallet_id_param :: "uuid field \<Rightarrow> uuid validated" where
  "wallet_id_param i = required ''wallet_id'' (\<lambda>_. True) i"

section \<open>Response schemas\<close>

definition WalletResponse :: "uuid \<Rightarrow> uuid \<Rightarrow> decimal \<Rightarrow> string \<Rightarrow> string \<Rightarrow> int \<Rightarrow> pyval" where
  "WalletResponse i owner balance currency status version =
     VDict [(''id'', VStr (uuid_str i)), (''owner_id'', VStr (uuid_str owner)),
       (''balance'', VStr (dec_str balance)), (''currency'', VStr currency),
       (''status'', VStr status), (''version'', VInt version)]"

definition WalletResponse_of :: "wallet \<Rightarrow> pyval" where
  "WalletResponse_of w =
     WalletResponse (wid_value (w_id w)) (oid_value (w_owner_id w)) (m_amount (w_balance w))
       (cc_value (m_currency (w_balance w))) (wallet_status_value (w_status w)) (w_version w)"

definition LedgerEntryResponse_of :: "ledger_entry \<Rightarrow> pyval" where
  "LedgerEntryResponse_of en =
     VDict [(''id'', VStr (uuid_str (eid_value (le_id en)))),
       (''direction'', VStr (ledger_direction_value (le_direction en))),
       (''amount'', VStr (dec_str (m_amount (le_amount en)))),
       (''currency'', VStr (cc_value (m_currency (le_amount en)))),
       (''balance_after'', VStr (dec_str (m_amount (le_balance_after en)))),
       (''description'', VStr (le_description en)),
       (''occurred_at'', VStr (isoformat (le_occurred_at en)))]"

definition MovementResponse :: "movement_result \<Rightarrow> pyval" where
  "MovementResponse res =
     VDict [(''entry_id'', VStr (uuid_str (eid_value (mvr_entry_id res)))),
       (''wallet_id'', VStr (uuid_str (wid_value (mvr_wallet_id res)))),
       (''balance'', VStr (dec_str (m_amount (mvr_balance res)))),
       (''currency'', VStr (cc_value (m_currency (mvr_balance res)))),
       (''replayed'', VBool (mvr_replayed res))]"

definition PageResponse :: "('a \<Rightarrow> pyval) \<Rightarrow> 'a page \<Rightarrow> pyval" where
  "PageResponse of_item pg =
     VDict [(''items'', VList (map of_item (pg_items pg))),
       (''next_cursor'', case pg_next_cursor pg of None \<Rightarrow> VNone | Some c \<Rightarrow> VStr c)]"

definition json_ok :: "int \<Rightarrow> pyval \<Rightarrow> json_reply" where
  "json_ok status content = \<lparr>jp_status = status, jp_content = content,
     jp_media_type = ''application/json'', jp_headers = []\<rparr>"

section \<open>Declared responses\<close>

definition UNAUTHENTICATED_responses :: "int list" where "UNAUTHENTICATED_responses = [401]"
definition INVALID_REQUEST_responses :: "int list" where "INVALID_REQUEST_responses = [422]"
definition WALLET_ABSENT_responses :: "int list" where "WALLET_ABSENT_responses = [404]"
definition MOVEMENT_FORBIDDEN_responses :: "int list" where "MOVEMENT_FORBIDDEN_responses = [403]"
definition MOVEMENT_REFUSED_responses :: "int list" where "MOVEMENT_REFUSED_responses = [409]"
definition RATE_LIMITED_responses :: "int list" where "RATE_LIMITED_responses = [429]"
definition DEPENDENCY_UNAVAILABLE_responses :: "int list" where "DEPENDENCY_UNAVAILABLE_responses = [503]"

definition read_responses :: "int list" where
  "read_responses = UNAUTHENTICATED_responses @ WALLET_ABSENT_responses @ INVALID_REQUEST_responses"

definition collection_responses :: "int list" where
  "collection_responses = UNAUTHENTICATED_responses @ INVALID_REQUEST_responses"

definition movement_responses :: "int list" where
  "movement_responses = UNAUTHENTICATED_responses @ WALLET_ABSENT_responses
     @ MOVEMENT_FORBIDDEN_responses @ MOVEMENT_REFUSED_responses @ INVALID_REQUEST_responses
     @ RATE_LIMITED_responses @ DEPENDENCY_UNAVAILABLE_responses"

section \<open>Endpoints\<close>

record 's api =
  ap_ports :: "'s ports"
  ap_movement :: movement_settings
  ap_move_money :: move_money_settings
  ap_authenticate :: "string option \<Rightarrow> ('s, exn, principal) prog"
  ap_digits :: "int \<Rightarrow> int \<Rightarrow> decimal \<Rightarrow> bool"
  ap_report :: "string list \<Rightarrow> (string \<times> pyval) list list"

text \<open>\<open>Money(amount=payload.amount, currency=CurrencyCode(payload.currency.upper()))\<close>.\<close>

definition payload_money :: "money_body \<Rightarrow> exn + money" where
  "payload_money b =
     (case currency_new (py_upper (mb_currency b)) of
        Inl e \<Rightarrow> Inl e
      | Inr cur \<Rightarrow> money_new (mb_amount b) cur)"

definition post_wallet :: "'s api \<Rightarrow> principal \<Rightarrow> string \<Rightarrow> ('s, exn, json_reply) prog" where
  "post_wallet A p currency =
     pbind (plift (currency_new (py_upper currency))) (\<lambda>cur.
     pbind (open_wallet (ap_ports A) \<lparr>owc_owner_id = pr_owner_id p, owc_currency = cur\<rparr>) (\<lambda>res.
       pret (json_ok 201 (WalletResponse (wid_value (owr_wallet_id res)) (oid_value (pr_owner_id p))
         (Fin False 0 (- 2)) (cc_value (owr_currency res)) ''open'' 0))))"

definition get_wallets ::
  "'s api \<Rightarrow> principal \<Rightarrow> int \<Rightarrow> string option \<Rightarrow> ('s, exn, json_reply) prog" where
  "get_wallets A p limit cursor =
     pbind (plift (list_wallets_query_new (pr_owner_id p) limit cursor)) (\<lambda>q.
     pbind (list_wallets (ap_ports A) q) (\<lambda>pg.
       pret (json_ok 200 (PageResponse WalletResponse_of pg))))"

definition get_one_wallet :: "'s api \<Rightarrow> principal \<Rightarrow> uuid \<Rightarrow> ('s, exn, json_reply) prog" where
  "get_one_wallet A p i =
     pbind (get_wallet (ap_ports A) \<lparr>gwq_wallet_id = WalletId i, gwq_owner_id = pr_owner_id p\<rparr>) (\<lambda>w.
       pret (json_ok 200 (WalletResponse_of w)))"

definition post_deposit ::
  "'s api \<Rightarrow> principal \<Rightarrow> uuid \<Rightarrow> money_body \<Rightarrow> string option \<Rightarrow> ('s, exn, json_reply) prog" where
  "post_deposit A p i b key =
     pbind (plift (payload_money b)) (\<lambda>amount.
     pbind (deposit_to_wallet (ap_ports A) (ap_movement A) (ap_move_money A)
         \<lparr>dep_wallet_id = WalletId i, dep_owner_id = pr_owner_id p, dep_amount = amount,
          dep_description = mb_description b, dep_idempotency_key = key\<rparr>) (\<lambda>res.
       pret (json_ok 200 (MovementResponse res))))"

definition post_withdrawal ::
  "'s api \<Rightarrow> principal \<Rightarrow> uuid \<Rightarrow> money_body \<Rightarrow> string option \<Rightarrow> ('s, exn, json_reply) prog" where
  "post_withdrawal A p i b key =
     pbind (plift (payload_money b)) (\<lambda>amount.
     pbind (withdraw_from_wallet (ap_ports A) (ap_movement A) (ap_move_money A)
         \<lparr>wdr_wallet_id = WalletId i, wdr_owner_id = pr_owner_id p, wdr_amount = amount,
          wdr_description = mb_description b, wdr_idempotency_key = key\<rparr>) (\<lambda>res.
       pret (json_ok 200 (MovementResponse res))))"

definition get_entries ::
  "'s api \<Rightarrow> principal \<Rightarrow> uuid \<Rightarrow> int \<Rightarrow> string option \<Rightarrow> ('s, exn, json_reply) prog" where
  "get_entries A p i limit cursor =
     pbind (plift (list_ledger_query_new (WalletId i) (pr_owner_id p) limit cursor)) (\<lambda>q.
     pbind (list_ledger_entries (ap_ports A) q) (\<lambda>pg.
       pret (json_ok 200 (PageResponse LedgerEntryResponse_of pg))))"

section \<open>A call\<close>

datatype api_call =
    Post_Wallets "string field"
  | Get_Wallets "int field" "string option"
  | Get_Wallet "uuid field"
  | Post_Deposits "uuid field" money_fields "string option"
  | Post_Withdrawals "uuid field" money_fields "string option"
  | Get_Entries "uuid field" "int field" "string option"

text \<open>The endpoint with its validated arguments.\<close>

fun endpoint :: "'s api \<Rightarrow> api_call \<Rightarrow> (principal \<Rightarrow> ('s, exn, json_reply) prog) validated" where
  "endpoint A (Post_Wallets currency) =
     map_sum id (\<lambda>c p. post_wallet A p c) (OpenWalletRequest currency)"
| "endpoint A (Get_Wallets limit cursor) =
     map_sum id (\<lambda>n p. get_wallets A p n cursor) (page_limit limit)"
| "endpoint A (Get_Wallet i) =
     map_sum id (\<lambda>u p. get_one_wallet A p u) (wallet_id_param i)"
| "endpoint A (Post_Deposits i f key) =
     map_sum id (\<lambda>(u, b) p. post_deposit A p u b key)
       (both (wallet_id_param i) (MoneyRequest (ap_digits A) f))"
| "endpoint A (Post_Withdrawals i f key) =
     map_sum id (\<lambda>(u, b) p. post_withdrawal A p u b key)
       (both (wallet_id_param i) (MoneyRequest (ap_digits A) f))"
| "endpoint A (Get_Entries i limit cursor) =
     map_sum id (\<lambda>(u, n) p. get_entries A p u n cursor)
       (both (wallet_id_param i) (page_limit limit))"

text \<open>The routes that take a body. The framework reads it before anything else; no JSON is a refused request, and
  anything worse its own 400.\<close>

fun takes_body :: "api_call \<Rightarrow> bool" where
  "takes_body (Post_Wallets c) \<longleftrightarrow> True"
| "takes_body (Post_Deposits i f k) \<longleftrightarrow> True"
| "takes_body (Post_Withdrawals i f k) \<longleftrightarrow> True"
| "takes_body _ \<longleftrightarrow> False"

definition body_error :: "'s api \<Rightarrow> request_info \<Rightarrow> api_call \<Rightarrow> http_exn option" where
  "body_error A rq call =
     (if \<not> takes_body call then None
      else case rq_body rq of
        Body_Read \<Rightarrow> None
      | Body_Not_Json \<Rightarrow> Some (RequestValidationError (ap_report A [''body'']))
      | Body_Unreadable \<Rightarrow> Some (HTTPException 400 ''There was an error parsing the body'' []))"

text \<open>Then the router's dependency authenticates; then the fields are validated; what raises is rendered by the
  handlers.\<close>

definition current_principal :: "'s api \<Rightarrow> string option \<Rightarrow> ('s, exn, principal) prog" where
  "current_principal A credentials = ap_authenticate A credentials"

definition api_run ::
  "'s api \<Rightarrow> request_info \<Rightarrow> string option \<Rightarrow> api_call \<Rightarrow> 's \<Rightarrow> json_reply option \<times> 's" where
  "api_run A rq credentials call s =
     (case body_error A rq call of
        Some x \<Rightarrow> (handled rq x, s)
      | None \<Rightarrow>
          (case current_principal A credentials s of
             (Inl e, t) \<Rightarrow> (error_response rq e, t)
           | (Inr p, t) \<Rightarrow>
               (case endpoint A call of
                  Inl refused_fields \<Rightarrow>
                    (handled rq (RequestValidationError (ap_report A refused_fields)), t)
                | Inr handler \<Rightarrow>
                    (case handler p t of
                       (Inl e, u) \<Rightarrow> (error_response rq e, u)
                     | (Inr reply, u) \<Rightarrow> (Some reply, u)))))"

lemma body_read [simp]: "rq_body rq = Body_Read \<Longrightarrow> body_error A rq call = None"
  "\<not> takes_body call \<Longrightarrow> body_error A rq call = None"
  by (simp_all add: body_error_def)

section \<open>Reads leave the books alone\<close>

lemma keeps_observed:
  assumes "reflp R" "transp R" "keeps R (perf_counter P)" "\<And>m. keeps R (observe P m)" "keeps R body"
  shows "keeps R (observed P name body)"
proof (rule keepsI)
  fix s r t
  assume "observed P name body s = (r, t)"
  then show "R s t"
  proof (cases rule: observedE)
    case (Untimed e)
    with assms(3) show ?thesis by (blast dest: keepsD)
  next
    case (Ran st s0 b u f)
    from assms(1-4) have "keeps R (pbind (perf_counter P) (\<lambda>now. observe P (ObserveInteractor name
        (reported_label b) (now - st))))" by (intro keeps_bind) auto
    from keepsD [OF this Ran(3)] keepsD [OF assms(3) Ran(1)] keepsD [OF assms(5) Ran(2)]
    show ?thesis using assms(2) by (blast dest: transpD)
  qed
qed

lemma keeps_with_label: "keeps R m \<Longrightarrow> keeps R (with_label l m)"
  by (rule keepsI) (auto elim!: with_labelE dest: keepsD)

lemma same_comm: "reflp (\<lambda>s t. comm t = comm s)" "transp (\<lambda>s t. comm t = comm s)"
  by (auto intro: reflpI transpI)

context sql_engine begin

lemma reads_still:
  "still (sess_book comm_tb) (get_wallet (with_adapters E X) gq)"
  "still (sess_book comm_tb) (list_wallets (with_adapters E X) lq)"
  "still (sess_book comm_tb) (list_ledger_entries (with_adapters E X) eq)"
proof -
  let ?P = "with_adapters E X" and ?R = "\<lambda>s t. sess_book comm_tb t = sess_book comm_tb s"
  have ports: "keeps ?R (perf_counter ?P)" "\<And>m. keeps ?R (observe ?P m)"
      "\<And>i ow fu. keeps ?R (wallets_read ?P i ow fu)"
      "\<And>ow n c. keeps ?R (wallets_list_by_owner ?P ow n c)"
      "\<And>w ow n c. keeps ?R (ledger_list_by_wallet ?P w ow n c)"
    unfolding still_def [symmetric] with_adapters_def evenkeel_ports_def ports.simps
    by (auto intro!: stillI elim!: on_dbE metrics_observeE simp: sess_book_def
        dest: wallet_read_run wallet_list_run ledger_list_run dest!: more_memory_ops(6) wd_db_more)
  note rules = keeps_observed [OF same_comm ports(1,2)] keeps_bind [OF same_comm(2)]
    keeps_with_label ports(3-5)
  show "still (sess_book comm_tb) (get_wallet ?P gq)"
    unfolding still_def get_wallet_def by (intro rules) (auto simp: same_comm split: option.splits)
  show "still (sess_book comm_tb) (list_wallets ?P lq)"
    unfolding still_def list_wallets_def by (intro rules) (auto simp: same_comm)
  show "still (sess_book comm_tb) (list_ledger_entries ?P eq)"
    unfolding still_def list_ledger_entries_def
    by (intro rules) (use ports(5) in \<open>auto simp: same_comm intro!: rules split: option.splits\<close>)
qed

end

text \<open>The answer to the result of a handler; an answer that is good, or an error document.\<close>

definition answer_of :: "request_info \<Rightarrow> exn + json_reply \<Rightarrow> json_reply option" where
  "answer_of rq x = (case x of Inl e \<Rightarrow> error_response rq e | Inr rep \<Rightarrow> Some rep)"

definition told :: "request_info \<Rightarrow> json_reply option \<Rightarrow> (json_reply \<Rightarrow> bool) \<Rightarrow> bool" where
  "told rq reply good \<longleftrightarrow> (\<exists>rep. reply = Some rep \<and> good rep) \<or> (\<exists>e. reply = error_response rq e)"

lemma told_result:
  "(\<And>rep. x = Inr rep \<Longrightarrow> good rep) \<Longrightarrow> told rq (answer_of rq x) good"
  by (cases x) (auto simp: told_def answer_of_def)

lemma map_sum_Inr: "map_sum id g v = Inr h \<longleftrightarrow> (\<exists>x. v = Inr x \<and> h = g x)"
  by (cases v) auto

text \<open>What a call can ask to be moved.\<close>

definition asks_movement ::
  "api_call \<Rightarrow> uuid \<Rightarrow> ledger_direction \<Rightarrow> money \<Rightarrow> bool" where
  "asks_movement call i dir m \<longleftrightarrow>
     (\<exists>f key c. (call = Post_Deposits (Given i) f key \<and> dir = CREDIT
          \<or> call = Post_Withdrawals (Given i) f key \<and> dir = DEBIT)
       \<and> mf_amount f = Given (m_amount m) \<and> mf_currency f = Given c
       \<and> m_currency m = CurrencyCode (py_upper c))"

definition movement_reply :: "json_reply \<Rightarrow> ledger_entry_id \<Rightarrow> bool" where
  "movement_reply rep u \<longleftrightarrow> (\<exists>res. rep = json_ok 200 (MovementResponse res)
     \<and> mvr_entry_id res = u \<and> \<not> mvr_replayed res)"

lemma payload_money_Inr:
  assumes "payload_money b = Inr m"
  shows "m_amount m = mb_amount b \<and> m_currency m = CurrencyCode (py_upper (mb_currency b)) \<and> valid_money m"
  using assms by (auto simp: payload_money_def currency_new_def money_new_Inr_iff valid_money_def
      split: sum.splits)

lemma MoneyRequest_Inr:
  "MoneyRequest digits f = Inr b \<Longrightarrow> mf_amount f = Given (mb_amount b) \<and> mf_currency f = Given (mb_currency b)"
  by (cases "both (required ''amount'' (\<lambda>a. dec_is_finite a \<and> \<not> dec_le_zero a \<and> digits 20 2 a) (mf_amount f))
         (both (required ''currency'' (\<lambda>c. 3 \<le> length c \<and> length c \<le> 3) (mf_currency f))
           (defaulted ''description'' [] (\<lambda>d. length d \<le> 200) (mf_description f)))")
    (auto simp: MoneyRequest_def validated_Inr)

context sql_engine begin

lemma asked_movement:
  assumes harmless: "harmless_adapters sess_tb comm_tb X"
    and run: "pbind (plift money) (\<lambda>amount.
        pbind (movement_run (with_adapters E X) cfg mms (req amount)) (\<lambda>res. pret (f res))) s = (x, t)"
    and valid: "\<And>m. money = Inr m \<Longrightarrow> valid_money m"
    and fresh: "sess_book sess_tb s = committed comm_tb s"
    and changed: "committed comm_tb t \<noteq> committed comm_tb s"
    and req: "\<And>m. mr_wallet_id (req m) = i \<and> mr_owner_id (req m) = ow \<and> mr_amount (req m) = m
      \<and> mr_direction (req m) = dir"
  shows "\<exists>m u now d. money = Inr m
    \<and> post i ow dir (cents m) (m_currency m) d u now (committed comm_tb s) = Some (committed comm_tb t)
    \<and> (\<forall>y. x = Inr y \<longrightarrow> (\<exists>res. y = f res \<and> mvr_entry_id res = u \<and> \<not> mvr_replayed res))"
proof (cases money)
  case (Inl e)
  with run changed show ?thesis by (simp add: pbind_def)
next
  case (Inr m)
  obtain r t' where mv: "movement_run (with_adapters E X) cfg mms (req m) s = (r, t')" by fastforce
  with run Inr have x: "t = t'" "x = (case r of Inl e \<Rightarrow> Inl e | Inr res \<Rightarrow> Inr (f res))"
    by (auto simp: pbind_def split: sum.splits)
  have "valid_money (mr_amount (req m))" using valid [OF Inr] req by simp
  with movement_changes [OF harmless mv fresh] changed x(1)
  obtain u now where "post_request (req m) u now (committed comm_tb s) = Some (committed comm_tb t)"
      "\<And>res. r = Inr res \<Longrightarrow> mvr_entry_id res = u \<and> \<not> mvr_replayed res" by blast
  with Inr x(2) show ?thesis by (intro exI conjI) (auto simp: post_request_def req split: sum.splits)
qed

lemma asked_opening:
  assumes harmless: "harmless_adapters sess_tb comm_tb X"
    and run: "pbind (plift currency) (\<lambda>cur. pbind (open_wallet (with_adapters E X)
        \<lparr>owc_owner_id = ow, owc_currency = cur\<rparr>) (\<lambda>res. pret (f res))) s = (x, t)"
    and fresh: "sess_book sess_tb s = committed comm_tb s"
    and changed: "committed comm_tb t \<noteq> committed comm_tb s"
  shows "\<exists>cur i. currency = Inr cur
    \<and> opened \<lparr>owc_owner_id = ow, owc_currency = cur\<rparr> i (committed comm_tb s) (committed comm_tb t)
    \<and> (\<forall>y. x = Inr y \<longrightarrow> y = f \<lparr>owr_wallet_id = i, owr_currency = cur\<rparr>)"
proof (cases currency)
  case (Inl e)
  with run changed show ?thesis by (simp add: pbind_def)
next
  case (Inr cur)
  let ?c = "\<lparr>owc_owner_id = ow, owc_currency = cur\<rparr>"
  obtain r t' where op: "open_wallet (with_adapters E X) ?c s = (r, t')" by fastforce
  with run Inr have x: "t = t'" "x = (case r of Inl e \<Rightarrow> Inl e | Inr res \<Rightarrow> Inr (f res))"
    by (auto simp: pbind_def split: sum.splits)
  from opening_changes [OF harmless op fresh] x changed Inr show ?thesis
    by (cases r) (auto intro!: arg_cong [of _ _ f])
qed

lemma movement_endpoint:
  assumes ports: "ap_ports A = with_adapters E X" "harmless_adapters sess_tb comm_tb X"
    and run: "pbind (plift (payload_money b)) (\<lambda>amount.
        pbind (movement_run (ap_ports A) (ap_movement A) (ap_move_money A) (req amount)) (\<lambda>res.
          pret (json_ok 200 (MovementResponse res)))) s = (x, t)"
    and fresh: "sess_book sess_tb s = committed comm_tb s"
    and changed: "committed comm_tb t \<noteq> committed comm_tb s"
    and req: "\<And>m. mr_wallet_id (req m) = WalletId i \<and> mr_owner_id (req m) = ow \<and> mr_amount (req m) = m
      \<and> mr_direction (req m) = dir"
  shows "\<exists>m u now d. payload_money b = Inr m
    \<and> post (WalletId i) ow dir (cents m) (m_currency m) d u now (committed comm_tb s) = Some (committed comm_tb t)
    \<and> told rq (answer_of rq x) (\<lambda>rep. movement_reply rep u)"
proof -
  have v: "payload_money b = Inr m \<Longrightarrow> valid_money m" for m using payload_money_Inr by blast
  from asked_movement [OF ports(2) run [unfolded ports(1)] v fresh changed req] obtain m u now d
    where "payload_money b = Inr m" "post (WalletId i) ow dir (cents m) (m_currency m) d u now
        (committed comm_tb s) = Some (committed comm_tb t)"
      "\<forall>y. x = Inr y \<longrightarrow> (\<exists>res. y = json_ok 200 (MovementResponse res) \<and> mvr_entry_id res = u
         \<and> \<not> mvr_replayed res)" by blast
  then show ?thesis by (intro exI conjI told_result) (auto simp: movement_reply_def)
qed

lemma opening_endpoint:
  assumes ports: "ap_ports A = with_adapters E X" "harmless_adapters sess_tb comm_tb X"
    and run: "post_wallet A p c s = (x, t)"
    and fresh: "sess_book sess_tb s = committed comm_tb s"
    and changed: "committed comm_tb t \<noteq> committed comm_tb s"
  shows "\<exists>i. opened \<lparr>owc_owner_id = pr_owner_id p, owc_currency = CurrencyCode (py_upper c)\<rparr> i
      (committed comm_tb s) (committed comm_tb t)
    \<and> told rq (answer_of rq x) (\<lambda>rep. rep = json_ok 201 (WalletResponse (wid_value i)
        (oid_value (pr_owner_id p)) (Fin False 0 (- 2)) (py_upper c) ''open'' 0))"
proof -
  from asked_opening [OF ports(2) run [unfolded post_wallet_def ports(1)] fresh changed]
  obtain cur i where o: "currency_new (py_upper c) = Inr cur"
      "opened \<lparr>owc_owner_id = pr_owner_id p, owc_currency = cur\<rparr> i (committed comm_tb s) (committed comm_tb t)"
      "\<forall>y. x = Inr y \<longrightarrow> y = json_ok 201 (WalletResponse (wid_value i) (oid_value (pr_owner_id p))
         (Fin False 0 (- 2)) (cc_value cur) ''open'' 0)" by auto
  from o(1) have "cur = CurrencyCode (py_upper c)" by (auto simp: currency_new_def split: sum.splits)
  with o(2,3) show ?thesis by (intro exI conjI told_result) auto
qed

end

context sql_engine begin

lemma read_endpoints:
  assumes "ap_ports A = with_adapters E X"
  shows "still (sess_book comm_tb) (get_one_wallet A p i)"
    "still (sess_book comm_tb) (get_wallets A p n c)"
    "still (sess_book comm_tb) (get_entries A p i n c)"
proof -
  note rules = keeps_bind same_comm keeps_lift keeps_ret reads_still [unfolded still_def]
  show "still (sess_book comm_tb) (get_one_wallet A p i)"
    unfolding get_one_wallet_def assms still_def by (intro rules)
  show "still (sess_book comm_tb) (get_wallets A p n c)"
    unfolding get_wallets_def assms still_def by (intro rules)
  show "still (sess_book comm_tb) (get_entries A p i n c)"
    unfolding get_entries_def assms still_def by (intro rules)
qed

lemma endpoint_changes:
  assumes ports: "ap_ports A = with_adapters E X" "harmless_adapters sess_tb comm_tb X"
    and call: "endpoint A call = Inr handler" "handler p s = (x, t)"
    and fresh: "sess_book sess_tb s = committed comm_tb s"
    and changed: "committed comm_tb t \<noteq> committed comm_tb s"
  shows "(\<exists>i c. call = Post_Wallets (Given c)
        \<and> opened \<lparr>owc_owner_id = pr_owner_id p, owc_currency = CurrencyCode (py_upper c)\<rparr> i
            (committed comm_tb s) (committed comm_tb t)
        \<and> told rq (answer_of rq x) (\<lambda>rep. rep = json_ok 201 (WalletResponse (wid_value i)
              (oid_value (pr_owner_id p)) (Fin False 0 (- 2)) (py_upper c) ''open'' 0)))
    \<or> (\<exists>i dir m d u now. asks_movement call i dir m
        \<and> post (WalletId i) (pr_owner_id p) dir (cents m) (m_currency m) d u now
            (committed comm_tb s) = Some (committed comm_tb t)
        \<and> told rq (answer_of rq x) (\<lambda>rep. movement_reply rep u))"
proof (cases call)
  case (Post_Wallets f)
  from call(1) obtain c where c: "OpenWalletRequest f = Inr c" "handler = (\<lambda>p. post_wallet A p c)"
    unfolding Post_Wallets endpoint.simps map_sum_Inr by blast
  then have "call = Post_Wallets (Given c)"
    using Post_Wallets by (simp add: OpenWalletRequest_def validated_Inr)
  with opening_endpoint [OF ports call(2) [unfolded c(2)] fresh changed, of rq]
  show ?thesis by (intro disjI1) simp
next
  case (Post_Deposits i f key)
  from call(1) obtain ub where "both (wallet_id_param i) (MoneyRequest (ap_digits A) f) = Inr ub"
      and h: "handler = (case ub of (u, b) \<Rightarrow> \<lambda>p. post_deposit A p u b key)"
    unfolding Post_Deposits endpoint.simps map_sum_Inr by blast
  then obtain u b where "i = Given u" "MoneyRequest (ap_digits A) f = Inr b" "ub = (u, b)"
    by (auto simp: wallet_id_param_def validated_Inr)
  with h have b: "i = Given u" "MoneyRequest (ap_digits A) f = Inr b"
      "handler = (\<lambda>p. post_deposit A p u b key)" by simp_all
  from call(2) have "pbind (plift (payload_money b)) (\<lambda>amount.
      pbind (movement_run (ap_ports A) (ap_movement A) (ap_move_money A) (deposit_request
         \<lparr>dep_wallet_id = WalletId u, dep_owner_id = pr_owner_id p, dep_amount = amount,
          dep_description = mb_description b, dep_idempotency_key = key\<rparr>)) (\<lambda>res.
       pret (json_ok 200 (MovementResponse res)))) s = (x, t)"
    by (simp add: b(3) post_deposit_def deposit_to_wallet_def)
  from movement_endpoint [OF ports this fresh changed, of u "pr_owner_id p" CREDIT rq]
  obtain m v now d where "payload_money b = Inr m"
      "post (WalletId u) (pr_owner_id p) CREDIT (cents m) (m_currency m) d v now
         (committed comm_tb s) = Some (committed comm_tb t)" "told rq (answer_of rq x) (\<lambda>rep. movement_reply rep v)"
    by (auto simp: deposit_request_def)
  moreover from this(1) have "asks_movement call u CREDIT m"
    using payload_money_Inr MoneyRequest_Inr [OF b(2)] by (auto simp: asks_movement_def Post_Deposits b(1))
  ultimately show ?thesis by blast
next
  case (Post_Withdrawals i f key)
  from call(1) obtain ub where "both (wallet_id_param i) (MoneyRequest (ap_digits A) f) = Inr ub"
      and h: "handler = (case ub of (u, b) \<Rightarrow> \<lambda>p. post_withdrawal A p u b key)"
    unfolding Post_Withdrawals endpoint.simps map_sum_Inr by blast
  then obtain u b where "i = Given u" "MoneyRequest (ap_digits A) f = Inr b" "ub = (u, b)"
    by (auto simp: wallet_id_param_def validated_Inr)
  with h have b: "i = Given u" "MoneyRequest (ap_digits A) f = Inr b"
      "handler = (\<lambda>p. post_withdrawal A p u b key)" by simp_all
  from call(2) have "pbind (plift (payload_money b)) (\<lambda>amount.
      pbind (movement_run (ap_ports A) (ap_movement A) (ap_move_money A) (withdraw_request
         \<lparr>wdr_wallet_id = WalletId u, wdr_owner_id = pr_owner_id p, wdr_amount = amount,
          wdr_description = mb_description b, wdr_idempotency_key = key\<rparr>)) (\<lambda>res.
       pret (json_ok 200 (MovementResponse res)))) s = (x, t)"
    by (simp add: b(3) post_withdrawal_def withdraw_from_wallet_def)
  from movement_endpoint [OF ports this fresh changed, of u "pr_owner_id p" DEBIT rq]
  obtain m v now d where "payload_money b = Inr m"
      "post (WalletId u) (pr_owner_id p) DEBIT (cents m) (m_currency m) d v now
         (committed comm_tb s) = Some (committed comm_tb t)" "told rq (answer_of rq x) (\<lambda>rep. movement_reply rep v)"
    by (auto simp: withdraw_request_def)
  moreover from this(1) have "asks_movement call u DEBIT m"
    using payload_money_Inr MoneyRequest_Inr [OF b(2)] by (auto simp: asks_movement_def Post_Withdrawals b(1))
  ultimately show ?thesis by blast
next
  case (Get_Wallet i)
  from call(1) obtain u where "handler = (\<lambda>p. get_one_wallet A p u)"
    unfolding Get_Wallet endpoint.simps map_sum_Inr by blast
  with call(2) have "get_one_wallet A p u s = (x, t)" by simp
  from stillD [OF read_endpoints(1) [OF ports(1)] this] changed show ?thesis by simp
next
  case (Get_Wallets n c)
  from call(1) obtain k where "handler = (\<lambda>p. get_wallets A p k c)"
    unfolding Get_Wallets endpoint.simps map_sum_Inr by blast
  with call(2) have "get_wallets A p k c s = (x, t)" by simp
  from stillD [OF read_endpoints(2) [OF ports(1)] this] changed show ?thesis by simp
next
  case (Get_Entries i n c)
  from call(1) obtain un where "handler = (case un of (u, n) \<Rightarrow> \<lambda>p. get_entries A p u n c)"
    unfolding Get_Entries endpoint.simps map_sum_Inr by blast
  with call(2) obtain u k where "get_entries A p u k c s = (x, t)" by (cases un) simp
  from stillD [OF read_endpoints(3) [OF ports(1)] this] changed show ?thesis by simp
qed

end

section \<open>What a read shows\<close>

context sql_engine begin

lemma observed_returned:
  assumes "observed (with_adapters E X) name body s = (Inr x, t)"
  obtains s0 l u where "sess_book sess_tb s0 = sess_book sess_tb s" "body s0 = (Inr (x, l), u)"
proof -
  have q: "quiet (sess_book sess_tb) (sess_book comm_tb) (observe (with_adapters E X) m)"
      "quiet (sess_book sess_tb) (sess_book comm_tb) (perf_counter (with_adapters E X))" for m
    by (simp_all add: with_adapters_def evenkeel_ports_def quiet_metrics quiet_more more_memory_ops(6))
  from observed_comm [OF assms q] obtain s0 b u where b: "sess_book sess_tb s0 = sess_book sess_tb s"
      "body s0 = (b, u)" "Inr x = drop_label b" by auto
  then obtain l where "b = Inr (x, l)" by (cases b rule: drop_label.cases) auto
  with b show ?thesis by (blast intro: that)
qed

lemma get_wallet_returned:
  assumes "get_wallet (with_adapters E X) \<lparr>gwq_wallet_id = i, gwq_owner_id = ow\<rparr> s = (Inr w, t)"
  shows "wf_wallet w \<and> w_id w = i \<and> owned (sess_book sess_tb s) i ow = Some (account_of w)"
proof -
  from assms [unfolded get_wallet_def] obtain s0 l u where b: "sess_book sess_tb s0 = sess_book sess_tb s"
      "pbind (with_label ''error'' (on_db (sqla_wallet_read E i ow False))) (\<lambda>found. case found of
          None \<Rightarrow> praise (wallet_not_found i, ''not_found'') | Some w \<Rightarrow> pret (w, ''success'')) s0 = (Inr (w, l), u)"
    by (rule observed_returned) (simp add: with_adapters_def evenkeel_ports_def)
  then have "\<exists>d. sqla_wallet_read E i ow False (wd_db s0) = (Inr (Some w), d)"
    by (auto elim!: pbindE with_labelE on_dbE split: option.splits)
  with b(1) wallet_read_run show ?thesis by (fastforce simp: sess_book_def)
qed

lemma list_wallets_returned:
  assumes "list_wallets (with_adapters E X) q s = (Inr pg, t)"
    and "list_wallets_query_new ow limit c = Inr q"
  obtains d where "wallet_answer E ow limit c d pg" "book_of (sess_tb d) = sess_book sess_tb s"
proof -
  from assms(2) have q: "q = \<lparr>lwq_owner_id = ow, lwq_limit = limit, lwq_cursor = c\<rparr>" "1 \<le> limit"
    by (auto simp: list_wallets_query_new_def split: if_splits)
  from assms(1) [unfolded list_wallets_def] obtain s0 l u where b: "sess_book sess_tb s0 = sess_book sess_tb s"
      "pbind (with_label ''success'' (on_db (sqla_wallet_list_by_owner E ow limit c)))
         (\<lambda>pg. pret (pg, ''success'')) s0 = (Inr (pg, l), u)"
    by (rule observed_returned) (simp add: with_adapters_def evenkeel_ports_def q)
  then have "\<exists>d. sqla_wallet_list_by_owner E ow limit c (wd_db s0) = (Inr pg, d)"
    by (auto elim!: pbindE with_labelE on_dbE)
  with b(1) q show ?thesis by (intro that [of "wd_db s0"]) (auto simp: wallet_answer_def sess_book_def)
qed

lemma list_entries_returned:
  assumes "list_ledger_entries (with_adapters E X) q s = (Inr pg, t)"
    and "list_ledger_query_new i ow limit c = Inr q"
  obtains d where "entry_answer E i ow limit c d pg" "book_of (sess_tb d) = sess_book sess_tb s"
proof -
  from assms(2) have q: "q = \<lparr>llq_wallet_id = i, llq_owner_id = ow, llq_limit = limit, llq_cursor = c\<rparr>"
      "1 \<le> limit"
    by (auto simp: list_ledger_query_new_def split: if_splits)
  from assms(1) [unfolded list_ledger_entries_def] obtain s0 l u where b: "sess_book sess_tb s0 = sess_book sess_tb s"
      "pbind (with_label ''error'' (on_db (sqla_wallet_read E i ow False))) (\<lambda>found. case found of
          None \<Rightarrow> praise (wallet_not_found i, ''not_found'')
        | Some w \<Rightarrow> pbind (with_label ''error'' (on_db (sqla_ledger_list_by_wallet E i ow limit c)))
            (\<lambda>pg. pret (pg, ''success''))) s0 = (Inr (pg, l), u)"
    by (rule observed_returned) (simp add: with_adapters_def evenkeel_ports_def q)
  then obtain d1 s1 w where r: "sqla_wallet_read E i ow False (wd_db s0) = (Inr (Some w), d1)"
      "\<exists>d. sqla_ledger_list_by_wallet E i ow limit c d1 = (Inr pg, d)"
    by (auto elim!: pbindE with_labelE on_dbE split: option.splits)
  from wallet_read_run [OF r(1)] have "sess_tb d1 = sess_tb (wd_db s0)" by simp
  with r(2) b(1) q show ?thesis by (intro that [of d1]) (auto simp: entry_answer_def sess_book_def)
qed

lemma api_changes:
  assumes "harmless_adapters sess_tb comm_tb X"
    and "ap_ports A = with_adapters E X"
    and auth: "\<And>c. quiet (sess_book sess_tb) (sess_book comm_tb) (ap_authenticate A c)"
    and run: "api_run A rq credential call s = (reply, t)"
    and fresh: "sess_book sess_tb s = committed comm_tb s"
    and changed: "committed comm_tb t \<noteq> committed comm_tb s"
  shows "\<exists>p s1. ap_authenticate A credential s = (Inr p, s1)
    \<and> ((\<exists>i c. call = Post_Wallets (Given c)
          \<and> opened \<lparr>owc_owner_id = pr_owner_id p, owc_currency = CurrencyCode (py_upper c)\<rparr> i
              (committed comm_tb s) (committed comm_tb t)
          \<and> told rq reply (\<lambda>rep. rep = json_ok 201 (WalletResponse (wid_value i)
              (oid_value (pr_owner_id p)) (Fin False 0 (- 2)) (py_upper c) ''open'' 0)))
      \<or> (\<exists>i dir m d u now. asks_movement call i dir m
          \<and> post (WalletId i) (pr_owner_id p) dir (cents m) (m_currency m) d u now
              (committed comm_tb s) = Some (committed comm_tb t)
          \<and> told rq reply (\<lambda>rep. movement_reply rep u)))"
proof -
  obtain q s1 where a: "ap_authenticate A credential s = (q, s1)" by fastforce
  note same = quietD [OF auth a]
  from run changed have read: "body_error A rq call = None" by (cases "body_error A rq call") (auto simp: api_run_def)
  note run = run [unfolded api_run_def read option.case]
  show ?thesis
  proof (cases q)
    case (Inl e)
    with run a same changed show ?thesis by (simp add: current_principal_def)
  next
    case (Inr p)
    show ?thesis
    proof (cases "endpoint A call")
      case (Inl e)
      with run a Inr same changed show ?thesis by (simp add: current_principal_def)
    next
      case found: (Inr handler)
      obtain x u where h: "handler p s1 = (x, u)" by fastforce
      with run a Inr found have t: "u = t" "reply = answer_of rq x"
        by (auto simp: current_principal_def answer_of_def split: sum.splits)
      have moved: "sess_book sess_tb s1 = committed comm_tb s1" "committed comm_tb t \<noteq> committed comm_tb s1"
        using same fresh changed by simp_all
      from endpoint_changes [OF assms(2,1) found h [unfolded t(1)] moved, of rq] a Inr same
      show ?thesis unfolding t(2) by simp
    qed
  qed
qed

end

section \<open>Properties\<close>

text \<open>C9: over HTTP the books change only as the authenticated caller asked. When a call, whatever it
  holds, changed the committed books, its credential authenticated somebody, and what changed is
  either one new empty wallet of that owner in the currency the body names, or one posting of the
  amount and currency in the body to the wallet in the path, credited or debited as the path says,
  and that wallet is the caller's own. The answer names what was done, or it is an error document.\<close>

theorem http_changes_are_asked_for:
  assumes "sql_engine E sess_tb comm_tb" and "harmless_adapters sess_tb comm_tb X"
    and "ap_ports A = with_adapters E X"
    and auth: "\<And>c. quiet (sess_book sess_tb) (sess_book comm_tb) (ap_authenticate A c)"
    and run: "api_run A rq credential call s = (reply, t)"
    and fresh: "sess_book sess_tb s = committed comm_tb s"
    and changed: "committed comm_tb t \<noteq> committed comm_tb s"
  shows "\<exists>p s1. ap_authenticate A credential s = (Inr p, s1)
    \<and> ((\<exists>i c. call = Post_Wallets (Given c)
          \<and> opened \<lparr>owc_owner_id = pr_owner_id p, owc_currency = CurrencyCode (py_upper c)\<rparr> i
              (committed comm_tb s) (committed comm_tb t)
          \<and> told rq reply (\<lambda>rep. rep = json_ok 201 (WalletResponse (wid_value i)
              (oid_value (pr_owner_id p)) (Fin False 0 (- 2)) (py_upper c) ''open'' 0)))
      \<or> (\<exists>i dir m d u now. asks_movement call i dir m
          \<and> post (WalletId i) (pr_owner_id p) dir (cents m) (m_currency m) d u now
              (committed comm_tb s) = Some (committed comm_tb t)
          \<and> told rq reply (\<lambda>rep. movement_reply rep u)))"
  by (rule sql_engine.api_changes [OF assms])

text \<open>C10: a caller sees nothing but its own. A read that is answered with data shows, of the books as
  its session finds them: one wallet of the authenticated owner, with the id that was asked for; a
  page of wallets of that owner; or a page of entries of a wallet of that owner. (No read takes a body; a call
  that does may be answered with the framework's 400 before anybody is authenticated.)\<close>

theorem http_reads_are_own:
  assumes "sql_engine E sess_tb comm_tb" and "ap_ports A = with_adapters E X"
    and auth: "\<And>c. quiet (sess_book sess_tb) (sess_book comm_tb) (ap_authenticate A c)"
    and run: "api_run A rq credential call s = (Some rep, t)"
    and data: "jp_media_type rep = ''application/json''"
  shows "takes_body call \<and> rq_body rq = Body_Unreadable \<and> jp_status rep = 400
    \<or> (\<exists>p s1. ap_authenticate A credential s = (Inr p, s1)
    \<and> (case call of
         Get_Wallet f \<Rightarrow> (\<exists>i w. f = Given i \<and> rep = json_ok 200 (WalletResponse_of w) \<and> w_id w = WalletId i
           \<and> owned (sess_book sess_tb s) (WalletId i) (pr_owner_id p) = Some (account_of w))
       | Get_Wallets n c \<Rightarrow> (\<exists>pg. rep = json_ok 200 (PageResponse WalletResponse_of pg)
           \<and> (\<forall>w \<in> set (pg_items pg).
                owned (sess_book sess_tb s) (w_id w) (pr_owner_id p) = Some (account_of w)))
       | Get_Entries f n c \<Rightarrow> (\<exists>i pg. f = Given i \<and> rep = json_ok 200 (PageResponse LedgerEntryResponse_of pg)
           \<and> (\<forall>en \<in> set (pg_items pg). le_wallet_id en = WalletId i
                \<and> owned (sess_book sess_tb s) (WalletId i) (pr_owner_id p) \<noteq> None
                \<and> posting_of en \<in> set (bk_postings (sess_book sess_tb s))))
       | _ \<Rightarrow> True))"
proof (cases "body_error A rq call")
  case (Some x)
  with run have "handled rq x = Some rep" by (simp add: api_run_def)
  with Some data show ?thesis
    by (auto simp: body_error_def handle_request_validation_def problem_def PROBLEM_CONTENT_TYPE_def Let_def
        detail_reply_def split: if_split_asm body_reading.split_asm)
next
  case read: None
  have bad: "error_response rq e = Some rep \<Longrightarrow> False" for e
    using data by (cases e) (auto simp: handle_application_error_def handle_domain_error_def
        handle_unexpected_def problem_def PROBLEM_CONTENT_TYPE_def Let_def)
  have bad': "rep = handle_request_validation rq errs \<Longrightarrow> False" for errs
    using data by (auto simp: handle_request_validation_def problem_def PROBLEM_CONTENT_TYPE_def Let_def)
  obtain p s1 handler u where a: "ap_authenticate A credential s = (Inr p, s1)"
      "endpoint A call = Inr handler" "handler p s1 = (Inr rep, u)"
    using run [unfolded api_run_def read option.case]
    by (auto simp: current_principal_def dest: bad bad' split: prod.splits sum.splits)
  note same = quietD [OF auth a(1)]
  note eng = assms(1)
  show ?thesis
  proof (intro disjI2 exI [of _ p] exI [of _ s1] conjI a(1), goal_cases)
  case 1
  show ?case
  proof (cases call)
    case (Get_Wallet f)
    from a(2) obtain i where i: "f = Given i" "handler = (\<lambda>p. get_one_wallet A p i)"
      unfolding Get_Wallet endpoint.simps map_sum_Inr by (auto simp: wallet_id_param_def validated_Inr)
    from a(3) obtain w t' where w: "get_wallet (with_adapters E X)
        \<lparr>gwq_wallet_id = WalletId i, gwq_owner_id = pr_owner_id p\<rparr> s1 = (Inr w, t')"
        "rep = json_ok 200 (WalletResponse_of w)"
      unfolding i(2) get_one_wallet_def assms(2) by (auto elim!: pbindE)
    from sql_engine.get_wallet_returned [OF eng w(1)] w(2) i(1) same Get_Wallet show ?thesis by auto
  next
    case (Get_Wallets n c)
    from a(2) obtain k where "handler = (\<lambda>p. get_wallets A p k c)"
      unfolding Get_Wallets endpoint.simps map_sum_Inr by blast
    with a(3) obtain q pg t' where w: "list_wallets_query_new (pr_owner_id p) k c = Inr q"
        "list_wallets (with_adapters E X) q s1 = (Inr pg, t')"
        "rep = json_ok 200 (PageResponse WalletResponse_of pg)"
      unfolding get_wallets_def assms(2) by (auto elim!: pbindE)
    from sql_engine.list_wallets_returned [OF eng w(2,1)] obtain d where
      "wallet_answer E (pr_owner_id p) k c d pg" "book_of (sess_tb d) = sess_book sess_tb s1" by blast
    with sql_engine.wallet_page_owned [OF eng this(1)] w(3) same Get_Wallets show ?thesis by auto
  next
    case (Get_Entries f n c)
    from a(2) obtain i k where i: "f = Given i" "handler = (\<lambda>p. get_entries A p i k c)"
      unfolding Get_Entries endpoint.simps map_sum_Inr by (auto simp: wallet_id_param_def validated_Inr)
    with a(3) obtain q pg t' where w: "list_ledger_query_new (WalletId i) (pr_owner_id p) k c = Inr q"
        "list_ledger_entries (with_adapters E X) q s1 = (Inr pg, t')"
        "rep = json_ok 200 (PageResponse LedgerEntryResponse_of pg)"
      unfolding get_entries_def assms(2) by (auto elim!: pbindE)
    from sql_engine.list_entries_returned [OF eng w(2,1)] obtain d where
      "entry_answer E (WalletId i) (pr_owner_id p) k c d pg" "book_of (sess_tb d) = sess_book sess_tb s1" by blast
    with sql_engine.entry_page_posted [OF eng this(1)] w(3) i(1) same Get_Entries show ?thesis by auto
  qed simp_all
  qed
qed

section \<open>A concrete service\<close>

definition demo_api :: "ref_db world api" where
  "demo_api =
     \<lparr>ap_ports = evenkeel_ports ref_engine, ap_movement = movement_settings_default,
      ap_move_money = move_money_settings_default, ap_authenticate = (\<lambda>c. plift (dev_authenticate c)),
      ap_digits = (\<lambda>m d a. True), ap_report = map (\<lambda>n. [(''loc'', VStr n)])\<rparr>"

definition demo_fields :: money_fields where
  "demo_fields = \<lparr>mf_amount = Given (Fin False 255 (- 1)), mf_currency = Given ''eur'', mf_description = Given '' rent ''\<rparr>"

lemma demo_api_ports: "ap_ports demo_api = with_adapters ref_engine (in_process allow_all_assess)"
  by (simp add: demo_api_def default_adapters)

lemma demo_api_auth: "quiet f g (ap_authenticate demo_api c)"
  by (simp add: demo_api_def)

lemma demo_api_owner: "ap_authenticate demo_api (Some (uuid_str 1)) s = (Inr \<lparr>pr_owner_id = OwnerId 1\<rparr>, s)"
proof -
  have "uuid_str 1 \<noteq> []" using length_uuid_str [of 1] by (metis list.size(3) zero_neq_numeral)
  then show ?thesis by (simp add: demo_api_def dev_authenticate_def)
qed

lemma demo_read [simp]: "rq_body demo_rq = Body_Read"
  by (simp add: demo_rq_def)

lemma demo_api_simps:
  "ap_ports demo_api = evenkeel_ports ref_engine" "ap_movement demo_api = movement_settings_default"
  "ap_move_money demo_api = move_money_settings_default" "ap_digits demo_api = (\<lambda>m d a. True)"
  by (simp_all add: demo_api_def)

definition demo_body :: money_body where
  "demo_body = \<lparr>mb_amount = Fin False 255 (- 1), mb_currency = ''eur'', mb_description = '' rent ''\<rparr>"

lemma upper_eur: "py_upper ''eur'' = ''EUR''"
  by code_simp

lemma demo_payload: "payload_money demo_body
  = Inr \<lparr>m_amount = Fin False 255 (- 1), m_currency = CurrencyCode ''EUR''\<rparr>"
  by (simp add: payload_money_def demo_body_def upper_eur sql_defs)

lemma demo_endpoint: "endpoint demo_api (Post_Withdrawals (Given 7) demo_fields None)
  = Inr (\<lambda>p. post_withdrawal demo_api p 7 demo_body None)"
  by (simp add: wallet_id_param_def required_def MoneyRequest_def demo_fields_def defaulted_def
      demo_api_simps dec_le_zero_def demo_body_def)

lemma demo_movement:
  "\<exists>res t. movement_run (evenkeel_ports ref_engine) movement_settings_default move_money_settings_default
      demo_request (demo_world []) = (Inr res, t)
    \<and> mvr_entry_id res = LedgerEntryId 55 \<and> \<not> mvr_replayed res \<and> bk_postings (committed rf_comm t) \<noteq> []"
  by (simp add: run_demo use_case_defs replay_defs del: eval_stmt.simps(1,3,4))

lemma demo_asked: "withdraw_request \<lparr>wdr_wallet_id = WalletId 7, wdr_owner_id = OwnerId 1,
    wdr_amount = \<lparr>m_amount = Fin False 255 (- 1), m_currency = CurrencyCode ''EUR''\<rparr>,
    wdr_description = '' rent '', wdr_idempotency_key = None\<rparr> = demo_request"
  by (simp add: withdraw_request_def demo_request_def)

lemma demo_withdrawal_call:
  "\<exists>t rep. api_run demo_api demo_rq (Some (uuid_str 1)) (Post_Withdrawals (Given 7) demo_fields None) (demo_world [])
     = (Some rep, t) \<and> movement_reply rep (LedgerEntryId 55) \<and> bk_postings (committed rf_comm t) \<noteq> []"
proof -
  from demo_movement obtain res t where mv: "movement_run (evenkeel_ports ref_engine) movement_settings_default
      move_money_settings_default demo_request (demo_world []) = (Inr res, t)"
      "mvr_entry_id res = LedgerEntryId 55" "\<not> mvr_replayed res" "bk_postings (committed rf_comm t) \<noteq> []" by blast
  have "post_withdrawal demo_api \<lparr>pr_owner_id = OwnerId 1\<rparr> 7 demo_body None (demo_world [])
      = (Inr (json_ok 200 (MovementResponse res)), t)"
    by (simp add: post_withdrawal_def demo_payload withdraw_from_wallet_def demo_api_simps demo_body_def
        demo_payload [unfolded demo_body_def] demo_asked mv(1) pbind_def)
  then show ?thesis
    using mv by (auto simp: api_run_def current_principal_def demo_api_owner demo_endpoint movement_reply_def
      simp del: endpoint.simps)
qed

theorem http_changes_are_asked_for_witness:
  "\<exists>t rep u now d. api_run demo_api demo_rq (Some (uuid_str 1))
       (Post_Withdrawals (Given 7) demo_fields None) (demo_world []) = (Some rep, t)
     \<and> post (WalletId 7) (OwnerId 1) DEBIT 2550 (CurrencyCode ''EUR'') d u now
         (committed rf_comm (demo_world [])) = Some (committed rf_comm t)"
proof -
  from demo_withdrawal_call obtain t rep where run: "api_run demo_api demo_rq (Some (uuid_str 1))
      (Post_Withdrawals (Given 7) demo_fields None) (demo_world []) = (Some rep, t)"
      "bk_postings (committed rf_comm t) \<noteq> []" by blast
  have "committed rf_comm t \<noteq> committed rf_comm (demo_world [])" using run(2) demo_empty by metis
  from http_changes_are_asked_for [OF ref.sql_engine_axioms harmless_default demo_api_ports demo_api_auth
      run(1) demo_fresh this]
  obtain i dir m d u now where "asks_movement (Post_Withdrawals (Given 7) demo_fields None) i dir m"
      "post (WalletId i) (OwnerId 1) dir (cents m) (m_currency m) d u now
        (committed rf_comm (demo_world [])) = Some (committed rf_comm t)"
    by (auto simp: demo_api_owner)
  moreover from this(1) have "i = 7" "dir = DEBIT" "m_amount m = Fin False 255 (- 1)"
      "m_currency m = CurrencyCode ''EUR''"
    by (auto simp: asks_movement_def demo_fields_def upper_eur)
  moreover from this(3) have "cents m = 2550" by (simp add: cents_def amount_cents_Fin)
  ultimately show ?thesis using run(1) by (simp, blast)
qed

lemma demo_read_call:
  "\<exists>t. api_run demo_api demo_rq (Some (uuid_str 1)) (Get_Wallet (Given 7)) (demo_world [])
     = (Some (json_ok 200 (WalletResponse_of demo_wallet)), t)"
proof -
  have "\<exists>t. get_wallet (evenkeel_ports ref_engine) \<lparr>gwq_wallet_id = WalletId 7, gwq_owner_id = OwnerId 1\<rparr>
      (demo_world []) = (Inr demo_wallet, t)"
    by (simp add: get_wallet_def run_demo use_case_defs del: eval_stmt.simps(1,3,4))
  then show ?thesis
    by (auto simp: api_run_def current_principal_def demo_api_owner wallet_id_param_def required_def
        get_one_wallet_def demo_api_simps pbind_def)
qed

theorem http_reads_are_own_witness:
  "owned (sess_book rf_sess (demo_world [])) (WalletId 7) (OwnerId 1) = Some (account_of demo_wallet)"
proof -
  from demo_read_call obtain t where run: "api_run demo_api demo_rq (Some (uuid_str 1)) (Get_Wallet (Given 7))
      (demo_world []) = (Some (json_ok 200 (WalletResponse_of demo_wallet)), t)" by blast
  from http_reads_are_own [OF ref.sql_engine_axioms demo_api_ports demo_api_auth run]
  obtain w where w: "json_ok 200 (WalletResponse_of demo_wallet) = json_ok 200 (WalletResponse_of w)"
      "owned (sess_book rf_sess (demo_world [])) (WalletId 7) (OwnerId 1) = Some (account_of w)"
    by (auto simp: demo_api_owner json_ok_def)
  then show ?thesis
    by (simp add: sess_book_def demo_world_def world_start_def ref_start_def memory.defs owned_def
        demo_tables_def empty_tables_def wallet_to_row_def demo_wallet_def account_of_row_def account_of_def
        wallet_currency_def cents_def)
qed

end
