(* ===== verification/Decimal_Text.thy ===== *)
theory Decimal_Text
  imports Decimals Ids
begin

text \<open>
  \<open>Decimal(text)\<close>, the constructor of the standard library on ASCII text: white space around the
  number and underscores in it are ignored, a sign, digits with at most one point and an exponent
  are read exactly, and \<open>inf\<close>, \<open>nan\<close> and their spellings are special values; anything else, and a
  number beyond the limits of the type, raises \<open>InvalidOperation\<close>. The payload of a NaN is
  dropped. \<open>dec_of_text_str\<close>: what \<open>str\<close> prints is read back as the same number.
\<close>

definition invalid_operation :: exn where
  "invalid_operation = PyExn ''InvalidOperation''"

definition max_emax :: int where "max_emax = 999999999999999999"
definition min_etiny :: int where "min_etiny = - 1999999999999999997"

definition dec_exact :: "bool \<Rightarrow> nat \<Rightarrow> int \<Rightarrow> exn + decimal" where
  "dec_exact s c e =
     (if c = 0 then Inr (Fin s 0 (min (max e min_etiny) max_emax))
      else if max_emax < e + ndigits c - 1 \<or> max_emax < ndigits c \<or> e < min_etiny then Inl invalid_operation
      else Inr (Fin s c e))"

text \<open>A sign, and what follows it.\<close>

definition split_sign :: "string \<Rightarrow> bool \<times> string" where
  "split_sign s =
     (case s of [] \<Rightarrow> (False, [])
      | c # cs \<Rightarrow> if c = CHR ''-'' then (True, cs) else if c = CHR ''+'' then (False, cs) else (False, s))"

text \<open>The exponent part of a number, \<open>0\<close> when there is none; \<open>None\<close> when it is not one.\<close>

definition read_exponent :: "string \<Rightarrow> int option" where
  "read_exponent s =
     (case s of [] \<Rightarrow> Some 0
      | c # cs \<Rightarrow>
          if c = CHR ''e'' \<or> c = CHR ''E'' then
            (case split_sign cs of (neg, ds) \<Rightarrow>
               if ds \<noteq> [] \<and> list_all is_digit ds
               then Some (if neg then - int (read_digits ds) else int (read_digits ds)) else None)
          else None)"

definition split_point :: "string \<Rightarrow> string \<times> string \<times> string" where
  "split_point s =
     (let r = dropWhile is_digit s in
      case r of
        c # cs \<Rightarrow> if c = CHR ''.'' then (takeWhile is_digit s, takeWhile is_digit cs, dropWhile is_digit cs)
                  else (takeWhile is_digit s, [], r)
      | [] \<Rightarrow> (takeWhile is_digit s, [], []))"

definition dec_of_text :: "string \<Rightarrow> exn + decimal" where
  "dec_of_text text =
     (case split_sign (filter (\<lambda>c. c \<noteq> CHR ''_'') (py_strip text)) of (s, body) \<Rightarrow>
       let low = py_lower body in
       if low = ''inf'' \<or> low = ''infinity'' then Inr (Infinite s)
       else if take 3 low = ''nan'' \<and> list_all is_digit (drop 3 low) then Inr (NotANumber s False)
       else if take 4 low = ''snan'' \<and> list_all is_digit (drop 4 low) then Inr (NotANumber s True)
       else case split_point body of (ip, fp, ex) \<Rightarrow>
         if ip @ fp = [] then Inl invalid_operation
         else case read_exponent ex of
             None \<Rightarrow> Inl invalid_operation
           | Some x \<Rightarrow> dec_exact s (read_digits (ip @ fp)) (x - int (length fp)))"

lemma dec_of_text_examples:
  "dec_of_text ''10'' = Inr (Fin False 10 0)" "dec_of_text '' -1_0.50 '' = Inr (Fin True 1050 (- 2))"
  "dec_of_text ''1.5E3'' = Inr (Fin False 15 2)" "dec_of_text ''ten'' = Inl invalid_operation"
  "dec_of_text ''.'' = Inl invalid_operation" "dec_of_text ''Infinity'' = Inr (Infinite False)"
  by code_simp+

section \<open>What is printed is read back\<close>

lemma digit_not_special:
  "is_digit c \<Longrightarrow> c \<noteq> CHR ''-'' \<and> c \<noteq> CHR ''+'' \<and> c \<noteq> CHR ''.'' \<and> c \<noteq> CHR ''_'' \<and> c \<noteq> CHR ''E'' \<and> \<not> is_space c
     \<and> \<not> is_upper c"
  by (auto simp: is_digit_def is_space_def is_upper_def code_def)

lemma takeWhile_digits: "list_all is_digit ds \<Longrightarrow> takeWhile is_digit (ds @ CHR ''.'' # r) = ds"
    "list_all is_digit ds \<Longrightarrow> takeWhile is_digit (ds @ CHR ''E'' # r) = ds"
    "list_all is_digit ds \<Longrightarrow> takeWhile is_digit ds = ds"
  by (induction ds) (auto simp: is_digit_def code_def)

lemma dropWhile_digits: "list_all is_digit ds \<Longrightarrow> dropWhile is_digit (ds @ CHR ''.'' # r) = CHR ''.'' # r"
    "list_all is_digit ds \<Longrightarrow> dropWhile is_digit (ds @ CHR ''E'' # r) = CHR ''E'' # r"
    "list_all is_digit ds \<Longrightarrow> dropWhile is_digit ds = []"
  by (induction ds) (auto simp: is_digit_def code_def)

lemma read_digits_zeros: "read_digits (replicate k (CHR ''0'') @ ds) = read_digits ds"
  by (induction k) (auto simp: read_digits_def digit_val_def code_def)

text \<open>The three shapes \<open>str\<close> prints, with the exponent part it adds.\<close>

definition expo_text :: "int \<Rightarrow> string" where
  "expo_text x = (if x = 0 then [] else CHR ''E'' # signed_decimal_str x)"

lemma read_expo_text: "read_exponent (expo_text x) = Some x"
proof (cases "x = 0")
  case False
  have d: "show_nat n \<noteq> [] \<and> list_all is_digit (show_nat n)" for n by (simp add: show_nat_digits)
  show ?thesis
  proof (cases "x < 0")
    case True
    with d [of "nat (- x)"] show ?thesis
      by (simp add: expo_text_def signed_decimal_str_def show_int_def read_exponent_def split_sign_def)
  next
    case nonneg: False
    with False d [of "nat x"] show ?thesis
      by (simp add: expo_text_def signed_decimal_str_def show_int_def read_exponent_def split_sign_def)
  qed
qed (simp add: expo_text_def read_exponent_def)

lemma split_point_plain: "list_all is_digit ds \<Longrightarrow> split_point (ds @ expo_text x) = (ds, [], expo_text x)"
  by (simp add: split_point_def expo_text_def takeWhile_digits dropWhile_digits)

lemma split_point_point:
  "list_all is_digit ds \<Longrightarrow> list_all is_digit fs \<Longrightarrow>
   split_point (ds @ CHR ''.'' # fs @ expo_text x) = (ds, fs, expo_text x)"
  by (simp add: split_point_def expo_text_def takeWhile_digits dropWhile_digits)

definition plain_chars :: "string \<Rightarrow> bool" where
  "plain_chars t \<longleftrightarrow> (\<forall>x \<in> set t. \<not> is_space x \<and> x \<noteq> CHR ''_'')"

lemma plain_chars_simps [simp]:
  "plain_chars []" "plain_chars (x # t) \<longleftrightarrow> \<not> is_space x \<and> x \<noteq> CHR ''_'' \<and> plain_chars t"
  "plain_chars (t @ u) \<longleftrightarrow> plain_chars t \<and> plain_chars u"
  by (auto simp: plain_chars_def)

lemma plain_charsD:
  "plain_chars t \<Longrightarrow> \<forall>x \<in> set t. \<not> is_space x" "plain_chars t \<Longrightarrow> \<forall>x \<in> set t. x \<noteq> CHR ''_''"
  by (auto simp: plain_chars_def)

lemma plain_digits: "list_all is_digit ds \<Longrightarrow> plain_chars ds"
  by (induction ds) (auto dest: digit_not_special)

lemma not_space [simp]: "\<not> is_space (CHR ''-'')" "\<not> is_space (CHR ''+'')" "\<not> is_space (CHR ''.'')"
    "\<not> is_space (CHR ''E'')"
  by (simp_all add: is_space_def code_def)

lemma plain_expo: "plain_chars (expo_text x)"
  by (auto simp: expo_text_def signed_decimal_str_def show_int_def intro: plain_digits show_nat_digits)

lemma dec_of_text_number:
  assumes "is_digit c" "plain_chars (c # cs)" "split_point (c # cs) = (ip, fp, expo_text x)" "ip @ fp \<noteq> []"
  shows "dec_of_text ((if s then ''-'' else []) @ c # cs) = dec_exact s (read_digits (ip @ fp)) (x - int (length fp))"
proof -
  let ?t = "(if s then ''-'' else []) @ c # cs"
  have plain: "plain_chars ?t" using assms(2) by simp
  note ns = plain_charsD(1) [OF plain] and nu = plain_charsD(2) [OF plain]
  have "split_sign ?t = (s, c # cs)"
    using digit_not_special [OF assms(1)] by (simp add: split_sign_def)
  then have body: "split_sign (filter (\<lambda>c. c \<noteq> CHR ''_'') (py_strip ?t)) = (s, c # cs)"
    by (simp only: py_strip_none [OF ns] filter_all [OF nu])
  have low: "py_lower (c # cs) = c # py_lower cs"
    using digit_not_special [OF assms(1)] by (simp add: py_lower_def to_lower_def)
  have "c \<noteq> CHR ''i'' \<and> c \<noteq> CHR ''n'' \<and> c \<noteq> CHR ''s''"
    using assms(1) by (auto simp: is_digit_def code_def)
  then show ?thesis
    using assms(3,4) body low by (auto simp: dec_of_text_def Let_def read_expo_text)
qed

text \<open>The body \<open>str\<close> prints for a coefficient, with the point after \<open>place\<close> of its digits.\<close>

definition str_body :: "nat \<Rightarrow> int \<Rightarrow> string" where
  "str_body c place =
     (let ds = show_nat c; len = int (length ds) in
      if place \<le> 0 then ''0.'' @ replicate (nat (- place)) (CHR ''0'') @ ds
      else if len \<le> place then ds @ replicate (nat (place - len)) (CHR ''0'')
      else take (nat place) ds @ ''.'' @ drop (nat place) ds)"

lemma list_all_take_drop: "list_all P xs \<Longrightarrow> list_all P (take n xs) \<and> list_all P (drop n xs)"
  by (metis append_take_drop_id list_all_append)

lemma str_body_read:
  assumes "place \<le> int (length (show_nat c))"
  obtains d r ip fp where "str_body c place = d # r" "is_digit d" "plain_chars (d # r)"
    "split_point ((d # r) @ expo_text x) = (ip, fp, expo_text x)" "ip @ fp \<noteq> []"
    "read_digits (ip @ fp) = c" "int (length fp) = int (length (show_nat c)) - place"
proof -
  let ?ds = "show_nat c"
  have all: "list_all is_digit ?ds" by (rule show_nat_digits)
  obtain d0 ds0 where ds: "?ds = d0 # ds0" by (cases ?ds) auto
  have zeros: "list_all is_digit (replicate k (CHR ''0''))" for k
    by (simp add: list_all_iff is_digit_def code_def)
  consider "place \<le> 0" | "0 < place" "place = int (length ?ds)" | "0 < place" "place < int (length ?ds)"
    using assms by linarith
  then show ?thesis
  proof cases
    case 1
    let ?fp = "replicate (nat (- place)) (CHR ''0'') @ ?ds"
    have fp: "list_all is_digit ?fp" using all zeros by simp
    have "is_digit (CHR ''0'')" by (simp add: is_digit_def code_def)
    with fp split_point_point [of "''0''" ?fp x] show ?thesis
      using 1 read_digits_zeros [of "Suc (nat (- place))" ?ds] plain_digits [OF fp] digit_not_special [of "CHR ''0''"]
      by (intro that [of "CHR ''0''" "CHR ''.'' # ?fp" "''0''" ?fp]) (simp_all add: str_body_def)
  next
    case 2
    with split_point_plain [OF all, of x] all plain_digits [OF all] read_show_nat [of c] show ?thesis
      by (intro that [of d0 ds0 ?ds "[]"]) (simp_all add: str_body_def ds del: read_show_nat)
  next
    case 3
    let ?k = "nat place"
    have sp: "list_all is_digit (take ?k ?ds)" "list_all is_digit (drop ?k ?ds)"
      using list_all_take_drop [OF all, of ?k] by auto
    from 3 obtain r where tk: "take ?k ?ds = d0 # r" by (cases ?k) (auto simp: ds)
    have jn: "take ?k ?ds @ drop ?k ?ds = ?ds" by (rule append_take_drop_id)
    show ?thesis
    proof (rule that [of d0 "r @ CHR ''.'' # drop ?k ?ds" "take ?k ?ds" "drop ?k ?ds"])
      show "str_body c place = d0 # r @ CHR ''.'' # drop ?k ?ds"
        using 3 tk by (simp add: str_body_def Let_def)
      show "is_digit d0" using all by (simp add: ds)
      show "plain_chars (d0 # r @ CHR ''.'' # drop ?k ?ds)"
        using plain_digits [OF sp(1)] plain_digits [OF sp(2)] by (simp add: tk)
      show "split_point ((d0 # r @ CHR ''.'' # drop ?k ?ds) @ expo_text x)
          = (take ?k ?ds, drop ?k ?ds, expo_text x)"
        using split_point_point [OF sp, of x] by (simp add: tk)
      show "take ?k ?ds @ drop ?k ?ds \<noteq> []" "read_digits (take ?k ?ds @ drop ?k ?ds) = c"
        unfolding jn by simp_all
      show "int (length (drop ?k ?ds)) = int (length ?ds) - place" using 3 by simp
    qed
  qed
qed

theorem dec_of_text_str:
  assumes "c = 0 \<or> e + ndigits c - 1 \<le> max_emax \<and> ndigits c \<le> max_emax" "min_etiny \<le> e" "e \<le> max_emax"
  shows "dec_of_text (dec_str (Fin s c e)) = Inr (Fin s c e)"
proof -
  let ?len = "int (length (show_nat c))"
  define place where "place = (if e \<le> 0 \<and> - 6 < e + ?len then e + ?len else 1)"
  have pos: "1 \<le> ?len" using length_show_nat_pos [of c] by linarith
  have le: "place \<le> ?len" using pos by (auto simp: place_def)
  have str: "dec_str (Fin s c e) = (if s then ''-'' else []) @ str_body c place @ expo_text (e + ?len - place)"
    by (simp add: str_body_def expo_text_def place_def Let_def)
  from str_body_read [OF le, of "e + ?len - place"] obtain d r ip fp where b:
    "str_body c place = d # r" "is_digit d" "plain_chars (d # r)"
    "split_point ((d # r) @ expo_text (e + ?len - place)) = (ip, fp, expo_text (e + ?len - place))"
    "ip @ fp \<noteq> []" "read_digits (ip @ fp) = c" "int (length fp) = ?len - place" by blast
  have "dec_of_text ((if s then ''-'' else []) @ d # (r @ expo_text (e + ?len - place)))
      = dec_exact s (read_digits (ip @ fp)) (e + ?len - place - int (length fp))"
    by (rule dec_of_text_number) (use b plain_expo in simp_all)
  then have "dec_of_text (dec_str (Fin s c e)) = dec_exact s c e"
    by (simp add: str b(1,6,7) del: dec_str.simps)
  moreover have "dec_exact s c e = Inr (Fin s c e)" using assms by (auto simp: dec_exact_def)
  ultimately show ?thesis by (simp only:)
qed

end
