(* ===== verification/Mcp_Server.thy ===== *)
theory Mcp_Server
  imports Wallet_Api Decimal_Text Config
begin

text \<open>
  \<open>presentation/mcp/server.py\<close>: the use cases as tools for one configured owner. A tool returns a
  dictionary, or fails with the text of a \<open>ToolError\<close>; an exception the wrapper does not translate
  escapes to the server library. Each call runs on a session of its own. The registration of the
  tools and their annotations are the library's.
\<close>

section \<open>Arguments\<close>

definition invalid :: "string \<Rightarrow> exn" where
  "invalid message = AppExn ((app_error_new ApplicationError VALIDATION_FAILED None None)
     \<lparr>ae_message := message\<rparr>)"

definition mcp_currency :: "string \<Rightarrow> exn + currency_code" where
  "mcp_currency text =
     (case currency_new (py_upper text) of
        Inl (DomainExn d) \<Rightarrow> Inl (invalid (''currency must be an ISO 4217 code, got '' @ py_repr text))
      | r \<Rightarrow> r)"

definition mcp_money :: "string \<Rightarrow> string \<Rightarrow> exn + money" where
  "mcp_money amount currency =
     (case dec_of_text amount of
        Inl e \<Rightarrow> Inl (invalid (''amount must be a decimal string, got '' @ py_repr amount))
      | Inr parsed \<Rightarrow>
          if \<not> dec_is_finite parsed then Inl (invalid ''amount must be a finite number'')
          else case mcp_currency currency of Inl e \<Rightarrow> Inl e | Inr cur \<Rightarrow> money_new parsed cur)"

definition mcp_wallet_id :: "string \<Rightarrow> exn + wallet_id" where
  "mcp_wallet_id text =
     (case uuid_parse text of
        Inl e \<Rightarrow> Inl (invalid (''wallet_id must be a UUID, got '' @ py_repr text))
      | Inr u \<Rightarrow> Inr (WalletId u))"

section \<open>Failures\<close>

datatype tool_failure = ToolError string | Escaped exn

definition translated :: "('s, exn, 'a) prog \<Rightarrow> ('s, tool_failure, 'a) prog" where
  "translated tool = (\<lambda>s.
     case tool s of
       (Inr x, t) \<Rightarrow> (Inr x, t)
     | (Inl e, t) \<Rightarrow>
         (Inl (case e of
            AppExn a \<Rightarrow> ToolError (app_code_value (ae_code a) @ '': '' @ ae_message a)
          | DomainExn d \<Rightarrow> ToolError (domain_code_value (de_code d) @ '': '' @ code_sentence (de_code d))
          | _ \<Rightarrow> Escaped e), t))"

section \<open>Tools\<close>

definition mcp_movement :: "movement_result \<Rightarrow> (string \<times> pyval) list" where
  "mcp_movement res =
     [(''entry_id'', VStr (uuid_str (eid_value (mvr_entry_id res)))),
      (''wallet_id'', VStr (uuid_str (wid_value (mvr_wallet_id res)))),
      (''balance'', VStr (dec_str (m_amount (mvr_balance res)))),
      (''currency'', VStr (cc_value (m_currency (mvr_balance res)))),
      (''replayed'', VBool (mvr_replayed res))]"

record 's mcp =
  mc_ports :: "'s ports"
  mc_movement :: movement_settings
  mc_move_money :: move_money_settings
  mc_owner :: owner_id

definition tool_open_wallet :: "'s mcp \<Rightarrow> string \<Rightarrow> ('s, exn, (string \<times> pyval) list) prog" where
  "tool_open_wallet M currency =
     pbind (plift (mcp_currency currency)) (\<lambda>cur.
     pbind (open_wallet (mc_ports M) \<lparr>owc_owner_id = mc_owner M, owc_currency = cur\<rparr>) (\<lambda>res.
       pret [(''wallet_id'', VStr (uuid_str (wid_value (owr_wallet_id res)))),
             (''currency'', VStr (cc_value (owr_currency res)))]))"

definition tool_deposit ::
  "'s mcp \<Rightarrow> string \<Rightarrow> string \<Rightarrow> string \<Rightarrow> string \<Rightarrow> string option \<Rightarrow> ('s, exn, (string \<times> pyval) list) prog" where
  "tool_deposit M wallet_id amount currency description key =
     pbind (plift (mcp_wallet_id wallet_id)) (\<lambda>i.
     pbind (plift (mcp_money amount currency)) (\<lambda>m.
     pbind (deposit_to_wallet (mc_ports M) (mc_movement M) (mc_move_money M)
         \<lparr>dep_wallet_id = i, dep_owner_id = mc_owner M, dep_amount = m,
          dep_description = (if description = [] then ''deposit'' else description),
          dep_idempotency_key = key\<rparr>) (\<lambda>res.
       pret (mcp_movement res))))"

definition tool_withdraw ::
  "'s mcp \<Rightarrow> string \<Rightarrow> string \<Rightarrow> string \<Rightarrow> string \<Rightarrow> string option \<Rightarrow> ('s, exn, (string \<times> pyval) list) prog" where
  "tool_withdraw M wallet_id amount currency description key =
     pbind (plift (mcp_wallet_id wallet_id)) (\<lambda>i.
     pbind (plift (mcp_money amount currency)) (\<lambda>m.
     pbind (withdraw_from_wallet (mc_ports M) (mc_movement M) (mc_move_money M)
         \<lparr>wdr_wallet_id = i, wdr_owner_id = mc_owner M, wdr_amount = m,
          wdr_description = (if description = [] then ''withdrawal'' else description),
          wdr_idempotency_key = key\<rparr>) (\<lambda>res.
       pret (mcp_movement res))))"

definition tool_get_wallet :: "'s mcp \<Rightarrow> string \<Rightarrow> ('s, exn, (string \<times> pyval) list) prog" where
  "tool_get_wallet M wallet_id =
     pbind (plift (mcp_wallet_id wallet_id)) (\<lambda>i.
     pbind (get_wallet (mc_ports M) \<lparr>gwq_wallet_id = i, gwq_owner_id = mc_owner M\<rparr>) (\<lambda>w.
       pret [(''wallet_id'', VStr (uuid_str (wid_value (w_id w)))),
             (''balance'', VStr (dec_str (m_amount (w_balance w)))),
             (''currency'', VStr (cc_value (m_currency (w_balance w)))),
             (''status'', VStr (wallet_status_value (w_status w)))]))"

definition cursor_value :: "string option \<Rightarrow> pyval" where
  "cursor_value c = (case c of None \<Rightarrow> VNone | Some t \<Rightarrow> VStr t)"

definition tool_list_wallets ::
  "'s mcp \<Rightarrow> int \<Rightarrow> string option \<Rightarrow> ('s, exn, (string \<times> pyval) list) prog" where
  "tool_list_wallets M limit cursor =
     pbind (plift (list_wallets_query_new (mc_owner M) limit cursor)) (\<lambda>q.
     pbind (list_wallets (mc_ports M) q) (\<lambda>pg.
       pret [(''wallets'', VList (map (\<lambda>w. VDict
               [(''wallet_id'', VStr (uuid_str (wid_value (w_id w)))),
                (''balance'', VStr (dec_str (m_amount (w_balance w)))),
                (''currency'', VStr (cc_value (m_currency (w_balance w))))]) (pg_items pg))),
             (''next_cursor'', cursor_value (pg_next_cursor pg))]))"

definition tool_list_entries ::
  "'s mcp \<Rightarrow> string \<Rightarrow> int \<Rightarrow> string option \<Rightarrow> ('s, exn, (string \<times> pyval) list) prog" where
  "tool_list_entries M wallet_id limit cursor =
     pbind (plift (mcp_wallet_id wallet_id)) (\<lambda>i.
     pbind (plift (list_ledger_query_new i (mc_owner M) limit cursor)) (\<lambda>q.
     pbind (list_ledger_entries (mc_ports M) q) (\<lambda>pg.
       pret [(''entries'', VList (map (\<lambda>en. VDict
               [(''entry_id'', VStr (uuid_str (eid_value (le_id en)))),
                (''direction'', VStr (ledger_direction_value (le_direction en))),
                (''amount'', VStr (dec_str (m_amount (le_amount en)))),
                (''balance_after'', VStr (dec_str (m_amount (le_balance_after en)))),
                (''description'', VStr (le_description en)),
                (''occurred_at'', VStr (isoformat (le_occurred_at en)))]) (pg_items pg))),
             (''next_cursor'', cursor_value (pg_next_cursor pg))])))"

datatype tool_call =
    Tool_Open_Wallet string
  | Tool_Deposit string string string string "string option"
  | Tool_Withdraw string string string string "string option"
  | Tool_Get_Wallet string
  | Tool_List_Wallets int "string option"
  | Tool_List_Entries string int "string option"

fun tool_body :: "'s mcp \<Rightarrow> tool_call \<Rightarrow> ('s, exn, (string \<times> pyval) list) prog" where
  "tool_body M (Tool_Open_Wallet c) = tool_open_wallet M c"
| "tool_body M (Tool_Deposit w a c d k) = tool_deposit M w a c d k"
| "tool_body M (Tool_Withdraw w a c d k) = tool_withdraw M w a c d k"
| "tool_body M (Tool_Get_Wallet w) = tool_get_wallet M w"
| "tool_body M (Tool_List_Wallets n c) = tool_list_wallets M n c"
| "tool_body M (Tool_List_Entries w n c) = tool_list_entries M w n c"

definition tool_run :: "'s mcp \<Rightarrow> tool_call \<Rightarrow> ('s, tool_failure, (string \<times> pyval) list) prog" where
  "tool_run M call = translated (tool_body M call)"

text \<open>The documents of the reads.\<close>

abbreviation shown_wallet :: "wallet \<Rightarrow> (string \<times> pyval) list" where
  "shown_wallet w \<equiv>
     [(''wallet_id'', VStr (uuid_str (wid_value (w_id w)))),
      (''balance'', VStr (dec_str (m_amount (w_balance w)))),
      (''currency'', VStr (cc_value (m_currency (w_balance w)))),
      (''status'', VStr (wallet_status_value (w_status w)))]"

abbreviation shown_wallets :: "wallet page \<Rightarrow> (string \<times> pyval) list" where
  "shown_wallets pg \<equiv>
     [(''wallets'', VList (map (\<lambda>w. VDict
         [(''wallet_id'', VStr (uuid_str (wid_value (w_id w)))),
          (''balance'', VStr (dec_str (m_amount (w_balance w)))),
          (''currency'', VStr (cc_value (m_currency (w_balance w))))]) (pg_items pg))),
      (''next_cursor'', cursor_value (pg_next_cursor pg))]"

abbreviation shown_entries :: "ledger_entry page \<Rightarrow> (string \<times> pyval) list" where
  "shown_entries pg \<equiv>
     [(''entries'', VList (map (\<lambda>en. VDict
         [(''entry_id'', VStr (uuid_str (eid_value (le_id en)))),
          (''direction'', VStr (ledger_direction_value (le_direction en))),
          (''amount'', VStr (dec_str (m_amount (le_amount en)))),
          (''balance_after'', VStr (dec_str (m_amount (le_balance_after en)))),
          (''description'', VStr (le_description en)),
          (''occurred_at'', VStr (isoformat (le_occurred_at en)))]) (pg_items pg))),
      (''next_cursor'', cursor_value (pg_next_cursor pg))]"

section \<open>What a tool does to the books\<close>

lemma mcp_currency_Inr: "mcp_currency c = Inr cur \<Longrightarrow> cur = CurrencyCode (py_upper c)"
  by (auto simp: mcp_currency_def currency_new_def split: sum.splits exn.splits)

lemma mcp_money_Inr:
  assumes "mcp_money a c = Inr m"
  shows "dec_of_text a = Inr (m_amount m) \<and> m_currency m = CurrencyCode (py_upper c) \<and> valid_money m"
  using assms mcp_currency_Inr
  by (auto simp: mcp_money_def money_new_Inr_iff valid_money_def split: sum.splits if_splits)

lemma mcp_wallet_id_Inr: "mcp_wallet_id w = Inr i \<Longrightarrow> uuid_parse w = Inr (wid_value i)"
  by (auto simp: mcp_wallet_id_def split: sum.splits)

text \<open>Which movement a tool call asks for.\<close>

definition tool_asks :: "tool_call \<Rightarrow> wallet_id \<Rightarrow> ledger_direction \<Rightarrow> money \<Rightarrow> bool" where
  "tool_asks call i dir m \<longleftrightarrow>
     (\<exists>w a c d k. (call = Tool_Deposit w a c d k \<and> dir = CREDIT \<or> call = Tool_Withdraw w a c d k \<and> dir = DEBIT)
       \<and> uuid_parse w = Inr (wid_value i) \<and> dec_of_text a = Inr (m_amount m)
       \<and> m_currency m = CurrencyCode (py_upper c))"

context sql_engine begin

lemma tool_reads_still:
  assumes "mc_ports M = with_adapters E X"
  shows "still (sess_book comm_tb) (tool_get_wallet M w)"
    "still (sess_book comm_tb) (tool_list_wallets M n c)"
    "still (sess_book comm_tb) (tool_list_entries M w n c)"
proof -
  note rules = keeps_bind same_comm keeps_lift keeps_ret reads_still [unfolded still_def]
  show "still (sess_book comm_tb) (tool_get_wallet M w)"
    unfolding tool_get_wallet_def assms still_def by (intro rules)
  show "still (sess_book comm_tb) (tool_list_wallets M n c)"
    unfolding tool_list_wallets_def assms still_def by (intro rules)
  show "still (sess_book comm_tb) (tool_list_entries M w n c)"
    unfolding tool_list_entries_def assms still_def by (intro rules)
qed

lemma tool_movement:
  assumes ports: "mc_ports M = with_adapters E X" "harmless_adapters sess_tb comm_tb X"
    and run: "pbind (plift (mcp_wallet_id w)) (\<lambda>i. pbind (plift (mcp_money a c)) (\<lambda>m.
       pbind (movement_run (mc_ports M) (mc_movement M) (mc_move_money M) (req i m)) (\<lambda>res.
         pret (mcp_movement res)))) s = (x, t)"
    and fresh: "sess_book sess_tb s = committed comm_tb s"
    and changed: "committed comm_tb t \<noteq> committed comm_tb s"
    and req: "\<And>i m. mr_wallet_id (req i m) = i \<and> mr_owner_id (req i m) = mc_owner M
      \<and> mr_amount (req i m) = m \<and> mr_direction (req i m) = dir"
  shows "\<exists>i m u now d. uuid_parse w = Inr (wid_value i) \<and> dec_of_text a = Inr (m_amount m)
    \<and> m_currency m = CurrencyCode (py_upper c)
    \<and> post i (mc_owner M) dir (cents m) (m_currency m) d u now (committed comm_tb s) = Some (committed comm_tb t)
    \<and> (\<forall>y. x = Inr y \<longrightarrow> (\<exists>res. y = mcp_movement res \<and> mvr_entry_id res = u \<and> \<not> mvr_replayed res))"
proof (cases "mcp_wallet_id w")
  case (Inl e)
  with run changed show ?thesis by (simp add: pbind_def)
next
  case (Inr i)
  with run have run': "pbind (plift (mcp_money a c)) (\<lambda>m.
       pbind (movement_run (with_adapters E X) (mc_movement M) (mc_move_money M) (req i m)) (\<lambda>res.
         pret (mcp_movement res))) s = (x, t)"
    by (simp add: ports(1) pbind_def [of "plift _"])
  have v: "mcp_money a c = Inr m \<Longrightarrow> valid_money m" for m using mcp_money_Inr by blast
  from asked_movement [OF ports(2) run' v fresh changed req] mcp_money_Inr mcp_wallet_id_Inr [OF Inr]
  show ?thesis by meson
qed

lemma tool_changes:
  assumes ports: "mc_ports M = with_adapters E X" "harmless_adapters sess_tb comm_tb X"
    and run: "tool_body M call s = (x, t)"
    and fresh: "sess_book sess_tb s = committed comm_tb s"
    and changed: "committed comm_tb t \<noteq> committed comm_tb s"
  shows "(\<exists>i c. call = Tool_Open_Wallet c
        \<and> opened \<lparr>owc_owner_id = mc_owner M, owc_currency = CurrencyCode (py_upper c)\<rparr> i
            (committed comm_tb s) (committed comm_tb t)
        \<and> (\<forall>y. x = Inr y \<longrightarrow> y = [(''wallet_id'', VStr (uuid_str (wid_value i))), (''currency'', VStr (py_upper c))]))
    \<or> (\<exists>i dir m d u now. tool_asks call i dir m
        \<and> post i (mc_owner M) dir (cents m) (m_currency m) d u now (committed comm_tb s) = Some (committed comm_tb t)
        \<and> (\<forall>y. x = Inr y \<longrightarrow> (\<exists>res. y = mcp_movement res \<and> mvr_entry_id res = u \<and> \<not> mvr_replayed res)))"
proof (cases call)
  case (Tool_Open_Wallet c)
  from run have "pbind (plift (mcp_currency c)) (\<lambda>cur. pbind (open_wallet (with_adapters E X)
      \<lparr>owc_owner_id = mc_owner M, owc_currency = cur\<rparr>) (\<lambda>res.
       pret [(''wallet_id'', VStr (uuid_str (wid_value (owr_wallet_id res)))),
             (''currency'', VStr (cc_value (owr_currency res)))])) s = (x, t)"
    by (simp only: Tool_Open_Wallet tool_body.simps tool_open_wallet_def ports(1))
  from asked_opening [OF ports(2) this fresh changed] Tool_Open_Wallet show ?thesis
    by (auto dest!: mcp_currency_Inr)
next
  case (Tool_Deposit w a c d k)
  from tool_movement [OF ports run [unfolded Tool_Deposit tool_body.simps tool_deposit_def
      deposit_to_wallet_def] fresh changed, of CREDIT]
  obtain i m u now d' where "uuid_parse w = Inr (wid_value i)" "dec_of_text a = Inr (m_amount m)"
      "m_currency m = CurrencyCode (py_upper c)"
      "post i (mc_owner M) CREDIT (cents m) (m_currency m) d' u now (committed comm_tb s) = Some (committed comm_tb t)"
      "\<forall>y. x = Inr y \<longrightarrow> (\<exists>res. y = mcp_movement res \<and> mvr_entry_id res = u \<and> \<not> mvr_replayed res)"
    by (auto simp: deposit_request_def)
  moreover from this(1-3) have "tool_asks call i CREDIT m" unfolding tool_asks_def Tool_Deposit by blast
  ultimately show ?thesis by blast
next
  case (Tool_Withdraw w a c d k)
  from tool_movement [OF ports run [unfolded Tool_Withdraw tool_body.simps tool_withdraw_def
      withdraw_from_wallet_def] fresh changed, of DEBIT]
  obtain i m u now d' where "uuid_parse w = Inr (wid_value i)" "dec_of_text a = Inr (m_amount m)"
      "m_currency m = CurrencyCode (py_upper c)"
      "post i (mc_owner M) DEBIT (cents m) (m_currency m) d' u now (committed comm_tb s) = Some (committed comm_tb t)"
      "\<forall>y. x = Inr y \<longrightarrow> (\<exists>res. y = mcp_movement res \<and> mvr_entry_id res = u \<and> \<not> mvr_replayed res)"
    by (auto simp: withdraw_request_def)
  moreover from this(1-3) have "tool_asks call i DEBIT m" unfolding tool_asks_def Tool_Withdraw by blast
  ultimately show ?thesis by blast
next
  case (Tool_Get_Wallet w)
  with run changed stillD [OF tool_reads_still(1) [OF ports(1)]] show ?thesis by simp
next
  case (Tool_List_Wallets n c)
  with run changed stillD [OF tool_reads_still(2) [OF ports(1)]] show ?thesis by simp
next
  case (Tool_List_Entries w n c)
  with run changed stillD [OF tool_reads_still(3) [OF ports(1)]] show ?thesis by simp
qed

lemma tool_run_changes:
  assumes "harmless_adapters sess_tb comm_tb X"
    and "mc_ports M = with_adapters E X"
    and "tool_run M call s = (r, t)"
    and "sess_book sess_tb s = committed comm_tb s"
    and "committed comm_tb t \<noteq> committed comm_tb s"
  shows "(\<exists>i c. call = Tool_Open_Wallet c
        \<and> opened \<lparr>owc_owner_id = mc_owner M, owc_currency = CurrencyCode (py_upper c)\<rparr> i
            (committed comm_tb s) (committed comm_tb t)
        \<and> (\<forall>y. r = Inr y \<longrightarrow> y = [(''wallet_id'', VStr (uuid_str (wid_value i))), (''currency'', VStr (py_upper c))]))
    \<or> (\<exists>i dir m d u now. tool_asks call i dir m
        \<and> post i (mc_owner M) dir (cents m) (m_currency m) d u now (committed comm_tb s) = Some (committed comm_tb t)
        \<and> (\<forall>y. r = Inr y \<longrightarrow> (\<exists>res. y = mcp_movement res \<and> mvr_entry_id res = u \<and> \<not> mvr_replayed res)))"
proof -
  obtain x t' where b: "tool_body M call s = (x, t')" by fastforce
  with assms(3) have r: "t' = t" "\<And>y. r = Inr y \<longleftrightarrow> x = Inr y"
    by (auto simp: tool_run_def translated_def split: sum.splits)
  from tool_changes [OF assms(2,1) b [unfolded r(1)] assms(4,5)]
  show ?thesis unfolding r(2) .
qed

text \<open>A read that succeeds shows what the owner has, as the session finds it.\<close>

lemma tool_reads_own:
  assumes ports: "mc_ports M = with_adapters E X" and run: "tool_body M call s = (Inr y, t)"
  shows "case call of
      Tool_Get_Wallet tx \<Rightarrow> (\<exists>w. y = shown_wallet w \<and> uuid_parse tx = Inr (wid_value (w_id w))
        \<and> owned (sess_book sess_tb s) (w_id w) (mc_owner M) = Some (account_of w))
    | Tool_List_Wallets n c \<Rightarrow> (\<exists>pg. y = shown_wallets pg \<and> (\<forall>w \<in> set (pg_items pg).
        owned (sess_book sess_tb s) (w_id w) (mc_owner M) = Some (account_of w)))
    | Tool_List_Entries tx n c \<Rightarrow> (\<exists>i pg. y = shown_entries pg \<and> uuid_parse tx = Inr (wid_value i)
        \<and> (\<forall>en \<in> set (pg_items pg). le_wallet_id en = i \<and> owned (sess_book sess_tb s) i (mc_owner M) \<noteq> None
             \<and> posting_of en \<in> set (bk_postings (sess_book sess_tb s))))
    | _ \<Rightarrow> True"
proof (cases call)
  case (Tool_Get_Wallet tx)
  from run obtain i w t' where i: "mcp_wallet_id tx = Inr i"
      and w: "get_wallet (with_adapters E X) \<lparr>gwq_wallet_id = i, gwq_owner_id = mc_owner M\<rparr> s = (Inr w, t')"
      and y: "y = shown_wallet w"
    unfolding Tool_Get_Wallet tool_body.simps tool_get_wallet_def ports
    by (auto elim!: pbindE split: sum.splits)
  from get_wallet_returned [OF w] mcp_wallet_id_Inr [OF i] y Tool_Get_Wallet show ?thesis by auto
next
  case (Tool_List_Wallets n c)
  from run obtain q pg t' where w: "list_wallets_query_new (mc_owner M) n c = Inr q"
      "list_wallets (with_adapters E X) q s = (Inr pg, t')" and y: "y = shown_wallets pg"
    unfolding Tool_List_Wallets tool_body.simps tool_list_wallets_def ports
    by (auto elim!: pbindE split: sum.splits)
  from list_wallets_returned [OF w(2,1)] obtain d where
    "wallet_answer E (mc_owner M) n c d pg" "book_of (sess_tb d) = sess_book sess_tb s" by blast
  with wallet_page_owned [OF this(1)] y Tool_List_Wallets show ?thesis by auto
next
  case (Tool_List_Entries tx n c)
  from run obtain i q pg t' where i: "mcp_wallet_id tx = Inr i"
      and w: "list_ledger_query_new i (mc_owner M) n c = Inr q"
      "list_ledger_entries (with_adapters E X) q s = (Inr pg, t')" and y: "y = shown_entries pg"
    unfolding Tool_List_Entries tool_body.simps tool_list_entries_def ports
    by (auto elim!: pbindE split: sum.splits)
  from list_entries_returned [OF w(2,1)] obtain d where
    "entry_answer E i (mc_owner M) n c d pg" "book_of (sess_tb d) = sess_book sess_tb s" by blast
  with entry_page_posted [OF this(1)] mcp_wallet_id_Inr [OF i] y Tool_List_Entries show ?thesis
    by (auto intro!: exI [of _ i])
qed simp_all

end

section \<open>Properties\<close>

text \<open>C11: the tools act for the configured owner alone. Whatever arguments a tool is called with, if
  the committed books changed, then either one empty wallet was opened for that owner, or one posting was made
  to the owner's own wallet that the arguments name, of the amount their text says; and a result
  names the wallet or the entry. What a read shows is, of the books as its session finds them, the owner's own
  wallet that was asked for, wallets of that owner, or postings of that owner's wallet that was asked for.\<close>

theorem mcp_acts_for_owner:
  assumes "sql_engine E sess_tb comm_tb" and "harmless_adapters sess_tb comm_tb X"
    and "mc_ports M = with_adapters E X"
    and "tool_run M call s = (r, t)"
    and "sess_book sess_tb s = committed comm_tb s"
  shows "(committed comm_tb t \<noteq> committed comm_tb s \<longrightarrow>
      (\<exists>i c. call = Tool_Open_Wallet c
        \<and> opened \<lparr>owc_owner_id = mc_owner M, owc_currency = CurrencyCode (py_upper c)\<rparr> i
            (committed comm_tb s) (committed comm_tb t)
        \<and> (\<forall>y. r = Inr y \<longrightarrow> y = [(''wallet_id'', VStr (uuid_str (wid_value i))), (''currency'', VStr (py_upper c))]))
    \<or> (\<exists>i dir m d u now. tool_asks call i dir m
        \<and> post i (mc_owner M) dir (cents m) (m_currency m) d u now (committed comm_tb s) = Some (committed comm_tb t)
        \<and> (\<forall>y. r = Inr y \<longrightarrow> (\<exists>res. y = mcp_movement res \<and> mvr_entry_id res = u \<and> \<not> mvr_replayed res))))
    \<and> (\<forall>y. r = Inr y \<longrightarrow> (case call of
        Tool_Get_Wallet tx \<Rightarrow> (\<exists>w. y = shown_wallet w \<and> uuid_parse tx = Inr (wid_value (w_id w))
          \<and> owned (sess_book sess_tb s) (w_id w) (mc_owner M) = Some (account_of w))
      | Tool_List_Wallets n c \<Rightarrow> (\<exists>pg. y = shown_wallets pg \<and> (\<forall>w \<in> set (pg_items pg).
          owned (sess_book sess_tb s) (w_id w) (mc_owner M) = Some (account_of w)))
      | Tool_List_Entries tx n c \<Rightarrow> (\<exists>i pg. y = shown_entries pg \<and> uuid_parse tx = Inr (wid_value i)
          \<and> (\<forall>en \<in> set (pg_items pg). le_wallet_id en = i \<and> owned (sess_book sess_tb s) i (mc_owner M) \<noteq> None
               \<and> posting_of en \<in> set (bk_postings (sess_book sess_tb s))))
      | _ \<Rightarrow> True))"
proof (intro conjI impI allI)
  fix y
  assume "r = Inr y"
  with assms(4) have "tool_body M call s = (Inr y, t)"
    by (auto simp: tool_run_def translated_def split: prod.splits sum.splits)
  from sql_engine.tool_reads_own [OF assms(1,3) this] show "case call of
        Tool_Get_Wallet tx \<Rightarrow> (\<exists>w. y = shown_wallet w \<and> uuid_parse tx = Inr (wid_value (w_id w))
          \<and> owned (sess_book sess_tb s) (w_id w) (mc_owner M) = Some (account_of w))
      | Tool_List_Wallets n c \<Rightarrow> (\<exists>pg. y = shown_wallets pg \<and> (\<forall>w \<in> set (pg_items pg).
          owned (sess_book sess_tb s) (w_id w) (mc_owner M) = Some (account_of w)))
      | Tool_List_Entries tx n c \<Rightarrow> (\<exists>i pg. y = shown_entries pg \<and> uuid_parse tx = Inr (wid_value i)
          \<and> (\<forall>en \<in> set (pg_items pg). le_wallet_id en = i \<and> owned (sess_book sess_tb s) i (mc_owner M) \<noteq> None
               \<and> posting_of en \<in> set (bk_postings (sess_book sess_tb s))))
      | _ \<Rightarrow> True" .
qed (rule sql_engine.tool_run_changes [OF assms])

section \<open>A concrete server\<close>

definition demo_mcp :: "ref_db world mcp" where
  "demo_mcp = \<lparr>mc_ports = evenkeel_ports ref_engine, mc_movement = movement_settings_default,
     mc_move_money = move_money_settings_default, mc_owner = OwnerId 1\<rparr>"

definition demo_tool_call :: tool_call where
  "demo_tool_call = Tool_Withdraw (uuid_str 7) ''25.5'' ''eur'' '' rent '' None"

lemma demo_tool_arguments:
  "mcp_wallet_id (uuid_str 7) = Inr (WalletId 7)"
  "mcp_money ''25.5'' ''eur'' = Inr \<lparr>m_amount = Fin False 255 (- 1), m_currency = CurrencyCode ''EUR''\<rparr>"
proof -
  have "dec_of_text ''25.5'' = Inr (Fin False 255 (- 1))" by code_simp
  moreover have "currency_new ''EUR'' = Inr (CurrencyCode ''EUR'')" by (simp add: sql_defs)
  ultimately show "mcp_money ''25.5'' ''eur'' = Inr \<lparr>m_amount = Fin False 255 (- 1), m_currency = CurrencyCode ''EUR''\<rparr>"
    by (simp add: mcp_money_def mcp_currency_def upper_eur money_new_def value_object_post_init_def
        money_validate_cases valid_amount_def amount_cents_Fin cents_limit_def)
qed (simp add: mcp_wallet_id_def)

lemma demo_tool_run:
  "\<exists>res t. tool_run demo_mcp demo_tool_call (demo_world []) = (Inr (mcp_movement res), t)
     \<and> bk_postings (committed rf_comm t) \<noteq> []"
proof -
  from demo_movement obtain res t where mv: "movement_run (evenkeel_ports ref_engine) movement_settings_default
      move_money_settings_default demo_request (demo_world []) = (Inr res, t)"
      "bk_postings (committed rf_comm t) \<noteq> []" by blast
  have "tool_body demo_mcp demo_tool_call (demo_world []) = (Inr (mcp_movement res), t)"
    by (simp add: demo_tool_call_def tool_withdraw_def demo_tool_arguments withdraw_from_wallet_def demo_mcp_def
        demo_asked mv(1) pbind_def)
  with mv(2) show ?thesis by (auto simp: tool_run_def translated_def)
qed

lemma demo_tool_read:
  "\<exists>t. tool_run demo_mcp (Tool_Get_Wallet (uuid_str 7)) (demo_world []) = (Inr (shown_wallet demo_wallet), t)"
proof -
  have "\<exists>t. get_wallet (evenkeel_ports ref_engine) \<lparr>gwq_wallet_id = WalletId 7, gwq_owner_id = OwnerId 1\<rparr>
      (demo_world []) = (Inr demo_wallet, t)"
    by (simp add: get_wallet_def run_demo use_case_defs del: eval_stmt.simps(1,3,4))
  then show ?thesis
    by (auto simp: tool_run_def translated_def tool_get_wallet_def demo_tool_arguments demo_mcp_def pbind_def)
qed

theorem mcp_acts_for_owner_witness:
  "(\<exists>y t u now d. tool_run demo_mcp demo_tool_call (demo_world []) = (Inr y, t)
     \<and> post (WalletId 7) (OwnerId 1) DEBIT 2550 (CurrencyCode ''EUR'') d u now
         (committed rf_comm (demo_world [])) = Some (committed rf_comm t))
   \<and> (\<exists>w. shown_wallet w = shown_wallet demo_wallet
        \<and> owned (sess_book rf_sess (demo_world [])) (w_id w) (OwnerId 1) = Some (account_of w))"
proof
  have ports: "mc_ports demo_mcp = with_adapters ref_engine (in_process allow_all_assess)"
    by (simp add: demo_mcp_def default_adapters)
  note own = mcp_acts_for_owner [OF ref.sql_engine_axioms harmless_default ports _ demo_fresh]
  from demo_tool_run obtain y t where run: "tool_run demo_mcp demo_tool_call (demo_world []) = (Inr y, t)"
      "bk_postings (committed rf_comm t) \<noteq> []" by blast
  have "committed rf_comm t \<noteq> committed rf_comm (demo_world [])" using run(2) demo_empty by metis
  with own [OF run(1), THEN conjunct1] obtain i dir m d u now where p: "tool_asks demo_tool_call i dir m"
      "post i (OwnerId 1) dir (cents m) (m_currency m) d u now
        (committed rf_comm (demo_world [])) = Some (committed rf_comm t)"
    by (auto simp: demo_tool_call_def demo_mcp_def)
  have "dec_of_text ''25.5'' = Inr (Fin False 255 (- 1))" by code_simp
  with p(1) have "i = WalletId 7" "dir = DEBIT" "m_amount m = Fin False 255 (- 1)"
      "m_currency m = CurrencyCode ''EUR''"
    by (auto simp: tool_asks_def demo_tool_call_def upper_eur) (cases i, simp)
  moreover from this(3) have "cents m = 2550" by (simp add: cents_def amount_cents_Fin)
  ultimately show "\<exists>y t u now d. tool_run demo_mcp demo_tool_call (demo_world []) = (Inr y, t)
     \<and> post (WalletId 7) (OwnerId 1) DEBIT 2550 (CurrencyCode ''EUR'') d u now
         (committed rf_comm (demo_world [])) = Some (committed rf_comm t)" using p(2) run(1) by (simp, blast)
  from demo_tool_read obtain t where
    "tool_run demo_mcp (Tool_Get_Wallet (uuid_str 7)) (demo_world []) = (Inr (shown_wallet demo_wallet), t)" by blast
  from own [OF this, THEN conjunct2, rule_format, OF refl] obtain w where
    "shown_wallet demo_wallet = shown_wallet w"
    "owned (sess_book rf_sess (demo_world [])) (w_id w) (OwnerId 1) = Some (account_of w)"
    by (simp only: tool_call.case) (auto simp: demo_mcp_def)
  then show "\<exists>w. shown_wallet w = shown_wallet demo_wallet
        \<and> owned (sess_book rf_sess (demo_world [])) (w_id w) (OwnerId 1) = Some (account_of w)" by metis
qed

end
