(* ===== verification/Middleware.thy ===== *)
theory Middleware
  imports Prometheus_Metrics Http_Problem
begin

text \<open>
  \<open>presentation/http/middleware.py\<close>: the correlation id, the request metrics and the header around
  the application. The application below, the server's \<open>send\<close>, \<open>uuid.uuid4\<close>, the clock, the metrics
  port and Starlette's \<open>compile_path\<close> are parameters. The local variable \<open>status_code\<close> that
  \<open>send_wrapper\<close> captures, and the structlog context, are fields of the state. Log lines are not
  modelled.
\<close>

section \<open>Messages, scopes, routes\<close>

record asgi_scope =
  sc_type :: string
  sc_method :: string
  sc_path :: string
  sc_headers :: "(string \<times> string) list"
  sc_correlation :: "string option"

datatype asgi_message = Response_Start int "(string \<times> string) list" | Other_Message string string

record edge =
  eg_status :: int
  eg_context :: "(string \<times> pyval) list"

record 's edge_env =
  ee_observe :: "metric \<Rightarrow> ('s, exn, unit) prog"
  ee_perf_counter :: "('s, exn, seconds) prog"
  ee_uuid4 :: "('s, exn, uuid) prog"
  ee_send :: "asgi_message \<Rightarrow> ('s, exn, unit) prog"
  ee_matches :: "string \<Rightarrow> string \<Rightarrow> bool"

type_synonym 's asgi_app =
  "asgi_scope \<Rightarrow> (asgi_message \<Rightarrow> ('s, exn, unit) prog) \<Rightarrow> ('s, exn, unit) prog"

text \<open>A router included in another with a prefix, a mounted one, and an endpoint.\<close>

datatype route = Included string "route list" | Mounted string "route list" | Leaf string

fun route_patterns :: "string \<Rightarrow> route list \<Rightarrow> string list" where
  "route_patterns base [] = []"
| "route_patterns base (Included p rs # routes) =
     route_patterns (base @ p) rs @ route_patterns base routes"
| "route_patterns base (Mounted p (r # rs) # routes) =
     route_patterns (base @ p) (r # rs) @ route_patterns base routes"
| "route_patterns base (Mounted p [] # routes) =
     (if base @ p = [] then ''/'' else base @ p) # route_patterns base routes"
| "route_patterns base (Leaf p # routes) =
     (if base @ p = [] then ''/'' else base @ p) # route_patterns base routes"

definition handler_label :: "'s edge_env \<Rightarrow> route list \<Rightarrow> asgi_scope \<Rightarrow> string" where
  "handler_label E routes scope =
     (case filter (\<lambda>template. ee_matches E template (sc_path scope)) (route_patterns [] routes) of
        [] \<Rightarrow> ''unmatched''
      | template # _ \<Rightarrow> template)"

section \<open>The correlation id\<close>

definition shape_char :: "char \<Rightarrow> bool" where
  "shape_char c \<longleftrightarrow> is_alnum c \<or> c \<in> set ''._:+/=-''"

definition correlation_shape :: "string \<Rightarrow> bool" where
  "correlation_shape s \<longleftrightarrow> 1 \<le> length s \<and> length s \<le> 128 \<and> list_all shape_char s"

definition is_correlation :: "string \<times> string \<Rightarrow> bool" where
  "is_correlation h \<longleftrightarrow> fst h = py_lower CORRELATION_HEADER_NAME"

definition inbound_correlation_id :: "asgi_scope \<Rightarrow> string option" where
  "inbound_correlation_id scope =
     fold (\<lambda>(name, v) found.
       if is_correlation (py_lower name, v) \<and> correlation_shape v then Some v else found)
       (sc_headers scope) None"

definition request_cid :: "'s edge_env \<Rightarrow> asgi_scope \<Rightarrow> ('s, exn, string) prog" where
  "request_cid E scope =
     (case inbound_correlation_id scope of
        Some c \<Rightarrow> if c = [] then pbind (ee_uuid4 E) (\<lambda>u. pret (uuid_str u)) else pret c
      | None \<Rightarrow> pbind (ee_uuid4 E) (\<lambda>u. pret (uuid_str u)))"

definition tagged_headers :: "string \<Rightarrow> (string \<times> string) list \<Rightarrow> (string \<times> string) list" where
  "tagged_headers cid headers =
     (if \<not> list_ex is_correlation headers
      then headers @ [(py_lower CORRELATION_HEADER_NAME, cid)] else headers)"

fun send_wrapper ::
  "'z edge_scheme edge_env \<Rightarrow> string \<Rightarrow> asgi_message \<Rightarrow> ('z edge_scheme, exn, unit) prog" where
  "send_wrapper E cid (Response_Start status headers) =
     (\<lambda>s. ee_send E (Response_Start status (tagged_headers cid headers)) (s\<lparr>eg_status := status\<rparr>))"
| "send_wrapper E cid (Other_Message type body) = ee_send E (Other_Message type body)"

section \<open>The pass\<close>

fun exn_name :: "exn \<Rightarrow> string" where
  "exn_name (DomainExn _) = ''DomainError''"
| "exn_name (AppExn a) =
     (case ae_class a of
        ApplicationError \<Rightarrow> ''ApplicationError'' | UnauthenticatedError \<Rightarrow> ''UnauthenticatedError''
      | ValidationError \<Rightarrow> ''ValidationError'' | NotFoundError \<Rightarrow> ''NotFoundError''
      | ForbiddenError \<Rightarrow> ''ForbiddenError'' | ConflictError \<Rightarrow> ''ConflictError''
      | RateLimitedError \<Rightarrow> ''RateLimitedError''
      | DependencyUnavailableError \<Rightarrow> ''DependencyUnavailableError''
      | InternalError \<Rightarrow> ''InternalError'')"
| "exn_name (PyExn name) = name"
| "exn_name CancelledExn = ''CancelledError''"

definition request_context :: "string \<Rightarrow> asgi_scope \<Rightarrow> (string \<times> pyval) list" where
  "request_context cid scope =
     [(''correlation_id'', VStr cid), (''http_method'', VStr (sc_method scope)),
      (''http_path'', VStr (sc_path scope))]"

definition set_context :: "(string \<times> pyval) list \<Rightarrow> ('z edge_scheme, exn, unit) prog" where
  "set_context ctx = (\<lambda>s. (Inr (), s\<lparr>eg_context := ctx\<rparr>))"

definition set_status :: "int \<Rightarrow> ('z edge_scheme, exn, unit) prog" where
  "set_status n = (\<lambda>s. (Inr (), s\<lparr>eg_status := n\<rparr>))"

text \<open>The \<open>try\<close> block: a cancellation, which is no \<open>Exception\<close>, and any \<open>Exception\<close> of the application are reported,
  each by its own clause, and raised again. (What is neither, an interpreter on its way out, is not modelled: no
  clause reports it.)\<close>

definition report_failure ::
  "'z edge_scheme edge_env \<Rightarrow> route list \<Rightarrow> asgi_scope \<Rightarrow> seconds \<Rightarrow> string
     \<Rightarrow> ('z edge_scheme, exn, unit) prog" where
  "report_failure E routes scope started_at exception_type =
     pbind (ee_perf_counter E) (\<lambda>now.
       ee_observe E (RequestFailed (sc_method scope) (handler_label E routes scope) exception_type
         (now - started_at)))"

definition observed_app ::
  "'z edge_scheme edge_env \<Rightarrow> route list \<Rightarrow> 'z edge_scheme asgi_app \<Rightarrow> asgi_scope \<Rightarrow> string \<Rightarrow> seconds
     \<Rightarrow> ('z edge_scheme, exn, unit) prog" where
  "observed_app E routes app scope cid started_at = (\<lambda>s.
     case app scope (send_wrapper E cid) s of
       (Inl CancelledExn, t) \<Rightarrow>
         pthen (report_failure E routes scope started_at ''CancelledError'') (praise CancelledExn) t
     | (Inl exc, t) \<Rightarrow>
         pthen (report_failure E routes scope started_at (exn_name exc)) (praise exc) t
     | (Inr _, t) \<Rightarrow>
         pbind (ee_perf_counter E) (\<lambda>now.
           ee_observe E (RequestFinished (sc_method scope) (handler_label E routes scope) (eg_status t)
             (now - started_at))) t)"

definition observability ::
  "'z edge_scheme edge_env \<Rightarrow> route list \<Rightarrow> 'z edge_scheme asgi_app \<Rightarrow> asgi_scope
     \<Rightarrow> ('z edge_scheme, exn, unit) prog" where
  "observability E routes app scope =
     (if sc_type scope \<noteq> ''http'' then app scope (ee_send E)
      else
        pbind (request_cid E scope) (\<lambda>cid.
        let scope = scope\<lparr>sc_correlation := Some cid\<rparr> in
        pthen (set_context (request_context cid scope))
        (pthen (ee_observe E RequestStarted)
        (pbind (ee_perf_counter E) (\<lambda>started_at.
         pthen (set_status 500)
           (pfinally (observed_app E routes app scope cid started_at) (\<lambda>_. set_context [])))))))"

section \<open>The id is safe to carry\<close>

lemma inbound_shape:
  assumes "inbound_correlation_id scope = Some c"
  shows "correlation_shape c \<and> (\<exists>name. (name, c) \<in> set (sc_headers scope) \<and> is_correlation (py_lower name, c))"
proof -
  define f where "f = (\<lambda>(name, v) found.
       if is_correlation (py_lower name, v) \<and> correlation_shape v then Some v else found)"
  have "fold f hs found = Some c \<Longrightarrow> found = Some c \<or> (correlation_shape c
      \<and> (\<exists>name. (name, c) \<in> set hs \<and> is_correlation (py_lower name, c)))" for hs found
    by (induction hs arbitrary: found) (fastforce simp: f_def split: if_splits)+
  from this [of "sc_headers scope" None] assms show ?thesis
    by (simp add: inbound_correlation_id_def f_def)
qed

lemma uuid_shape: "correlation_shape (uuid_str u)"
proof -
  have "shape_char c" if "c \<in> set (uuid_str u)" for c
    using uuid_str_chars [OF that]
    by (auto simp: shape_char_def is_alnum_def is_alpha_def is_upper_def is_lower_def is_digit_def
        is_hex_def hex_val_def split: if_splits)
  then show ?thesis by (simp add: correlation_shape_def list_all_iff)
qed

lemma request_cid_shape:
  assumes "request_cid E scope s = (Inr cid, t)"
  shows "correlation_shape cid"
  using assms inbound_shape uuid_shape
  by (auto simp: request_cid_def pbind_def split: option.splits if_splits prod.splits sum.splits)

lemma shape_char_printable: "shape_char c \<Longrightarrow> 32 < code c \<and> code c < 127"
  by (auto simp: shape_char_def char_class_defs)

lemma shape_printable: "correlation_shape s \<Longrightarrow> \<forall>c \<in> set s. 32 < code c \<and> code c < 127"
  by (auto simp: correlation_shape_def list_all_iff dest: shape_char_printable)

lemma tagged_once:
  "filter is_correlation (tagged_headers cid headers)
   = (if filter is_correlation headers = [] then [(py_lower CORRELATION_HEADER_NAME, cid)]
      else filter is_correlation headers)"
  by (auto simp: tagged_headers_def list_ex_iff filter_empty_conv is_correlation_def)

text \<open>Metric labels come from the routes: at most one series per template, and one for the rest.\<close>

lemma handler_label_bounded:
  "handler_label E routes scope \<in> insert ''unmatched'' (set (route_patterns [] routes))"
proof (cases "filter (\<lambda>template. ee_matches E template (sc_path scope)) (route_patterns [] routes)")
  case (Cons t ts)
  then have "t \<in> set (route_patterns [] routes)" by (metis filter_is_subset list.set_intros(1) subsetD)
  with Cons show ?thesis by (simp add: handler_label_def)
qed (simp add: handler_label_def)

text \<open>C31: the correlation id cannot be used to inject: the id of every request, the caller's or a
  fresh one, has between 1 and 128 characters, all of them printable and none a space, so no line
  break reaches a header or a log line; a caller's id that is used was sent in a correlation
  header; and every response leaves with that header exactly as often as the application set it,
  or once, with this id, if it did not.\<close>

theorem correlation_id_safe:
  assumes "request_cid E scope s = (Inr cid, t)"
  shows "1 \<le> length cid \<and> length cid \<le> 128 \<and> (\<forall>c \<in> set cid. 32 < code c \<and> code c < 127)
    \<and> (inbound_correlation_id scope \<noteq> None \<longrightarrow>
         (\<exists>name. (name, cid) \<in> set (sc_headers scope) \<and> py_lower name = ''x-correlation-id''))
    \<and> filter is_correlation (tagged_headers cid headers)
      = (if filter is_correlation headers = [] then [(''x-correlation-id'', cid)]
         else filter is_correlation headers)"
proof -
  have name: "py_lower CORRELATION_HEADER_NAME = ''x-correlation-id''" by code_simp
  have "correlation_shape cid" using request_cid_shape [OF assms] .
  moreover have "(name, cid) \<in> set (sc_headers scope) \<and> is_correlation (py_lower name, cid)
      \<Longrightarrow> \<exists>name. (name, cid) \<in> set (sc_headers scope) \<and> py_lower name = ''x-correlation-id''" for name
    by (auto simp: is_correlation_def \<open>py_lower CORRELATION_HEADER_NAME = _\<close>)
  moreover have "cid = c" if "inbound_correlation_id scope = Some c" for c
    using that assms inbound_shape [OF that] by (auto simp: request_cid_def correlation_shape_def split: if_splits)
  ultimately show ?thesis
    using shape_printable [of cid] inbound_shape [of scope] tagged_once [of cid headers]
    by (auto simp: correlation_shape_def name)
qed

section \<open>The gauge of requests in flight\<close>

text \<open>What the middleware relies on: its ports return, the metrics port moves the gauge as its
  methods say, and nothing else does.\<close>

locale gauged_edge =
  fixes E :: "'z edge_scheme edge_env" and gauge :: "'z edge_scheme \<Rightarrow> int"
  assumes observe_gauge: "ee_observe E m s = (r, t) \<Longrightarrow> r = Inr () \<and> gauge t = gauge s + gauge_step m"
    and perf_gauge: "ee_perf_counter E s = (r', t) \<Longrightarrow> (\<exists>now. r' = Inr now) \<and> gauge t = gauge s"
    and uuid_gauge: "ee_uuid4 E s = (u, t) \<Longrightarrow> gauge t = gauge s"
    and send_gauge: "ee_send E msg s = (r, t) \<Longrightarrow> gauge t = gauge s"
    and locals_gauge: "gauge (s\<lparr>eg_status := n\<rparr>) = gauge s" "gauge (s\<lparr>eg_context := ctx\<rparr>) = gauge s"
begin

definition level :: "('z edge_scheme, exn, 'a) prog \<Rightarrow> bool" where
  "level m \<longleftrightarrow> keeps (\<lambda>s t. gauge t = gauge s) m"

lemma levelI: "(\<And>s r t. m s = (r, t) \<Longrightarrow> gauge t = gauge s) \<Longrightarrow> level m"
  unfolding level_def by (rule keepsI)

lemma levelD: "level m \<Longrightarrow> m s = (r, t) \<Longrightarrow> gauge t = gauge s"
  unfolding level_def by (drule keepsD) auto

lemma send_wrapper_level: "level (send_wrapper E cid msg)"
  by (rule levelI, cases msg) (auto simp: locals_gauge dest: send_gauge)

lemma observed_app_gauge:
  assumes "\<And>snd. (\<And>m. level (snd m)) \<Longrightarrow> level (app scope snd)"
    and "observed_app E routes app scope cid st s = (r, t)"
  shows "gauge t = gauge s - 1"
proof -
  obtain q u where A: "app scope (send_wrapper E cid) s = (q, u)" by fastforce
  have u: "gauge u = gauge s" using levelD [OF assms(1) A] send_wrapper_level by blast
  obtain w v where P0: "ee_perf_counter E u = (w, v)" by fastforce
  from perf_gauge [OF this] obtain now where P: "w = Inr now" "gauge v = gauge u" by blast
  show ?thesis using assms(2) A P0 P u
    by (auto simp: observed_app_def report_failure_def pbind_def pthen_def gauge_step_def
        split: sum.splits prod.splits exn.splits dest!: observe_gauge)
qed

lemma in_flight_level:
  assumes "\<And>scope snd. (\<And>m. level (snd m)) \<Longrightarrow> level (app scope snd)"
  shows "level (observability E routes app scope)"
proof (cases "sc_type scope = ''http''")
  case False
  have "level (ee_send E m)" for m by (rule levelI) (rule send_gauge)
  with assms False show ?thesis by (simp add: observability_def)
next
  case True
  show ?thesis
  proof (rule levelI)
    fix s r t
    assume run: "observability E routes app scope s = (r, t)"
    have cid: "level (request_cid E scope)"
      by (rule levelI) (auto simp: request_cid_def pbind_def split: option.splits if_splits prod.splits
          sum.splits dest: uuid_gauge)
    obtain q u where C: "request_cid E scope s = (q, u)" by fastforce
    note gu = levelD [OF cid C]
    show "gauge t = gauge s"
    proof (cases q)
      case (Inl e)
      with run C True gu show ?thesis by (simp add: observability_def pbind_def)
    next
      case (Inr c)
      let ?sc = "scope\<lparr>sc_correlation := Some c\<rparr>"
      let ?u1 = "u\<lparr>eg_context := request_context c ?sc\<rparr>"
      obtain w u2 where O: "ee_observe E RequestStarted ?u1 = (w, u2)" by fastforce
      from observe_gauge [OF O] have O': "w = Inr ()" "gauge u2 = gauge u + 1"
        by (simp_all add: gauge_step_def locals_gauge)
      obtain w' u3 where P: "ee_perf_counter E u2 = (w', u3)" by fastforce
      from perf_gauge [OF P] obtain st where P': "w' = Inr st" "gauge u3 = gauge u2" by blast
      obtain b v where B: "observed_app E routes app ?sc c st (u3\<lparr>eg_status := 500\<rparr>) = (b, v)" by fastforce
      have "gauge v = gauge u" using observed_app_gauge [OF assms B] P'(2) O'(2) locals_gauge by simp
      moreover have "t = v\<lparr>eg_context := []\<rparr>"
        using run C Inr True O P B O'(1) P'(1)
        by (simp add: observability_def pbind_def pthen_def set_context_def set_status_def
            pfinally_def Let_def)
      ultimately show ?thesis using gu locals_gauge by simp
    qed
  qed
qed

end

section \<open>Over the Prometheus adapter\<close>

record prom_edge = edge +
  pe_prom :: prometheus
  pe_now :: seconds
  pe_uuids :: "uuid list"
  pe_sent :: "asgi_message list"

definition prom_env :: "(string \<Rightarrow> string \<Rightarrow> bool) \<Rightarrow> 'z prom_edge_scheme edge_env" where
  "prom_env matches =
     \<lparr>ee_observe = \<lambda>m s. (Inr (), s\<lparr>pe_prom := prometheus_observe m (pe_prom s)\<rparr>),
      ee_perf_counter = \<lambda>s. (Inr (pe_now s), s),
      ee_uuid4 = \<lambda>s. (case pe_uuids s of [] \<Rightarrow> (Inl (PyExn ''OSError''), s)
        | u # us \<Rightarrow> (Inr u, s\<lparr>pe_uuids := us\<rparr>)),
      ee_send = \<lambda>msg s. (Inr (), s\<lparr>pe_sent := pe_sent s @ [msg]\<rparr>),
      ee_matches = matches\<rparr>"

definition in_flight :: "'z prom_edge_scheme \<Rightarrow> int" where
  "in_flight s = pm_in_flight (pe_prom s)"

interpretation prom: gauged_edge "prom_env matches" in_flight for matches
  by unfold_locales
    (auto simp: prom_env_def in_flight_def prometheus_gauge split: list.splits)

text \<open>C32: the gauge of requests in flight never drifts: whatever the application does with a request,
  answer it, raise, or be cancelled by a disconnect, the gauge is back at its value afterwards,
  as long as the application itself leaves it alone.\<close>

theorem in_flight_balanced:
  fixes app :: "'z prom_edge_scheme asgi_app"
  assumes "\<And>sc out. (\<And>m. keeps (\<lambda>s t. in_flight t = in_flight s) (out m))
      \<Longrightarrow> keeps (\<lambda>s t. in_flight t = in_flight s) (app sc out)"
    and "observability (prom_env matches) routes app scope s = (r, t)"
  shows "pm_in_flight (pe_prom t) = pm_in_flight (pe_prom s)"
proof -
  have "prom.level (observability (prom_env matches) routes app scope)"
    by (rule prom.in_flight_level) (use assms(1) in \<open>auto simp: prom.level_def\<close>)
  from prom.levelD [OF this assms(2)] show ?thesis by (simp add: in_flight_def)
qed

definition aborted_app :: "'z prom_edge_scheme asgi_app" where
  "aborted_app sc out = pthen (out (Response_Start 200 [])) (praise CancelledExn)"

definition demo_scope :: asgi_scope where
  "demo_scope = \<lparr>sc_type = ''http'', sc_method = ''GET'', sc_path = ''/ready'',
     sc_headers = [(''X-Correlation-ID'', ''trace-1'')], sc_correlation = None\<rparr>"

definition demo_edge :: prom_edge where
  "demo_edge = \<lparr>eg_status = 0, eg_context = [], pe_prom = prometheus_new, pe_now = 0, pe_uuids = [], pe_sent = []\<rparr>"

lemma demo_inbound: "inbound_correlation_id demo_scope = Some ''trace-1''"
  by code_simp

lemma demo_cid: "request_cid E demo_scope s = (Inr ''trace-1'', s)"
  by (simp add: request_cid_def demo_inbound)

lemma demo_scope_fields:
  "sc_type demo_scope = ''http''" "sc_method demo_scope = ''GET''" "sc_path demo_scope = ''/ready''"
  by (simp_all add: demo_scope_def)

theorem in_flight_balanced_witness:
  "\<exists>t. observability (prom_env (=)) [Leaf ''/ready''] aborted_app demo_scope demo_edge = (Inl CancelledExn, t)
     \<and> pm_in_flight (pe_prom t) = 0 \<and> pm_request_failures (pe_prom t) (''GET'', ''/ready'', ''CancelledError'') = 1"
proof -
  obtain t where run: "observability (prom_env (=)) [Leaf ''/ready''] aborted_app demo_scope demo_edge
      = (Inl CancelledExn, t)" "pm_request_failures (pe_prom t) (''GET'', ''/ready'', ''CancelledError'') = 1"
    by (simp add: observability_def demo_cid demo_scope_fields demo_edge_def aborted_app_def observed_app_def report_failure_def set_context_def set_status_def
        prom_env_def pbind_def pthen_def pfinally_def handler_label_def inc_def prometheus_new_def)
  have "pm_in_flight (pe_prom t) = pm_in_flight (pe_prom demo_edge)"
  proof (rule in_flight_balanced [OF _ run(1)])
    fix sc :: asgi_scope and out :: "asgi_message \<Rightarrow> (prom_edge, exn, unit) prog"
    assume "\<And>m. keeps (\<lambda>s t. in_flight t = in_flight s) (out m)"
    then show "keeps (\<lambda>s t. in_flight t = in_flight s) (aborted_app sc out)"
      unfolding aborted_app_def by (intro keeps_then keeps_raise) (auto simp: transp_def reflp_def)
  qed
  with run show ?thesis by (simp add: demo_edge_def prometheus_new_def)
qed

theorem correlation_id_safe_witness:
  "request_cid (prom_env (=)) demo_scope demo_edge = (Inr ''trace-1'', demo_edge)
   \<and> filter is_correlation (tagged_headers ''trace-1'' [(''content-type'', ''text'')])
     = [(''x-correlation-id'', ''trace-1'')]"
proof -
  have run: "request_cid (prom_env (=)) demo_scope demo_edge = (Inr ''trace-1'', demo_edge)"
    by (rule demo_cid)
  have "filter is_correlation [(''content-type'', ''text'')] = []" by code_simp
  with correlation_id_safe [OF run, of "[(''content-type'', ''text'')]"] run show ?thesis by simp
qed

end
