(* ===== verification/Composition.thy ===== *)
theory Composition
  imports Mcp_Server Middleware Risk_Http Redis_Adapters
begin

text \<open>
  The composition root (\<open>setup/ioc/\<close>), the application factory (\<open>setup/app_factory.py\<close>), the route
  table (\<open>routers/__init__.py\<close>), the operational endpoints (\<open>routers/health.py\<close>) and the logging
  pipeline (\<open>logging.py\<close>): what the settings turn into. An asynchronous generator that yields one
  adapter is that adapter; closing the clients at shutdown is not modelled. The libraries' objects
  (the engine, the Redis client, the FastAPI application) are the arguments they are built from.
\<close>

section \<open>Adapters\<close>

datatype identity_choice = Dev_Identity | Jwt_Identity jwt_policy jwks_policy session_policy

definition identity_provider :: "app_config \<Rightarrow> identity_config \<Rightarrow> exn + identity_choice" where
  "identity_provider app idc =
     (if app_identity_provider app = DEV_IDENTITY then Inr Dev_Identity
      else if app_identity_provider app \<noteq> JWT_IDENTITY then Inl value_error
      else Inr (Jwt_Identity
        ((jwt_policy_default (idc_issuer idc) (idc_audience idc) (idc_algorithms idc))
           \<lparr>jp_owner_claim := idc_owner_claim idc\<rparr>)
        (jwks_policy_default (idc_jwks_url idc)) session_policy_default))"

definition authenticator :: "('s, 'k) jwt_env \<Rightarrow> identity_choice \<Rightarrow> string option \<Rightarrow> ('s, exn, principal) prog" where
  "authenticator J choice = (\<lambda>credential.
     case choice of
       Dev_Identity \<Rightarrow> plift (dev_authenticate credential)
     | Jwt_Identity P _ _ \<Rightarrow> jwt_authenticate J P credential)"

text \<open>The four stores are in the process unless a Redis URL is set; each then has its own client.\<close>

datatype store_choice = In_Memory | On_Redis string

definition redis_client_url :: "redis_config \<Rightarrow> store_choice" where
  "redis_client_url c = On_Redis (rds_url c)"

text \<open>\<open>async with\<close> over \<open>RedisDistributedLock.lock\<close> as the two halves of the lock port. A wait that never ends,
  which a positive retry interval excludes, is one that is cancelled.\<close>

record 's lock_port =
  lp_enter :: "string \<Rightarrow> int \<Rightarrow> int \<Rightarrow> ('s, exn, lock_handle) prog"
  lp_exit :: "lock_handle \<Rightarrow> ('s, exn, unit) prog"

definition lock_handle_of :: "redis_lock \<Rightarrow> lock_handle" where
  "lock_handle_of l = \<lparr>lh_key = rk_key l, lh_token = rk_token l, lh_acquired = rk_acquired l\<rparr>"

definition redis_lock_port :: "'z memory_scheme redis_client \<Rightarrow> 'z memory_scheme lock_port" where
  "redis_lock_port C =
     \<lparr>lp_enter = (\<lambda>key ttl_ms wait_timeout_ms s.
        case redis_lock_enter C key ttl_ms wait_timeout_ms 25 s of
          None \<Rightarrow> (Inl CancelledExn, s)
        | Some (r, t) \<Rightarrow> (map_sum id lock_handle_of r, t)),
      lp_exit = (\<lambda>h. redis_lock_exit C \<lparr>rk_key = lh_key h, rk_token = lh_token h, rk_acquired = lh_acquired h\<rparr>)\<rparr>"

definition distributed_lock ::
  "(string \<Rightarrow> 'z memory_scheme redis_client) \<Rightarrow> redis_config \<Rightarrow> 'z memory_scheme lock_port" where
  "distributed_lock client c =
     (if \<not> redis_enabled c then \<lparr>lp_enter = lk_enter, lp_exit = lk_exit\<rparr> else redis_lock_port (client (rds_url c)))"

definition bulkhead :: "redis_config \<Rightarrow> store_choice" where
  "bulkhead c = (if \<not> redis_enabled c then In_Memory else redis_client_url c)"

definition rate_limiter ::
  "(string \<Rightarrow> 'z memory_scheme redis_client) \<Rightarrow> redis_config
     \<Rightarrow> string \<Rightarrow> rate_limit_policy \<Rightarrow> int \<Rightarrow> ('z memory_scheme, exn, rate_limit_decision) prog" where
  "rate_limiter client c =
     (if \<not> redis_enabled c then rl_consume else redis_consume (client (rds_url c)))"

record 's idempotency_port =
  is_reserve :: "string \<Rightarrow> string \<Rightarrow> int \<Rightarrow> ('s, exn, idempotency_reservation) prog"
  is_confirm :: "string \<Rightarrow> response \<Rightarrow> int \<Rightarrow> ('s, exn, unit) prog"
  is_release :: "string \<Rightarrow> ('s, exn, unit) prog"

definition idempotency_store ::
  "(string \<Rightarrow> 'z memory_scheme redis_client) \<Rightarrow> redis_config \<Rightarrow> 'z memory_scheme idempotency_port" where
  "idempotency_store client c =
     (if \<not> redis_enabled c
      then \<lparr>is_reserve = im_reserve, is_confirm = im_confirm, is_release = im_release\<rparr>
      else let C = client (rds_url c) in
        \<lparr>is_reserve = redis_reserve C, is_confirm = redis_confirm C, is_release = redis_release C\<rparr>)"

datatype risk_choice = Allow_All_Risk | Http_Risk string "session_args \<times> transport"

definition risk_transport_policy :: "outbound_http_config \<Rightarrow> transport_policy" where
  "risk_transport_policy http =
     (transport_policy_default ''risk'')
       \<lparr>tp_total_timeout_ms := oh_total_timeout_ms http, tp_connect_timeout_ms := oh_connect_timeout_ms http,
        tp_read_timeout_ms := oh_read_timeout_ms http, tp_budget_ms := oh_budget_ms http,
        tp_max_attempts := oh_max_attempts http, tp_backoff_base_ms := oh_backoff_base_ms http,
        tp_backoff_max_ms := oh_backoff_max_ms http, tp_max_response_bytes := oh_max_response_bytes http,
        tp_bulkhead_limit := oh_bulkhead_limit http, tp_bulkhead_wait_ms := oh_bulkhead_wait_ms http\<rparr>"

definition risk_session_policy :: "outbound_http_config \<Rightarrow> session_policy" where
  "risk_session_policy http =
     \<lparr>sp_connection_limit = oh_connection_limit http, sp_dns_cache_seconds = oh_dns_cache_seconds http,
      sp_trust_env = oh_trust_env http, sp_backstop_timeout_ms = oh_total_timeout_ms http\<rparr>"

definition risk_assessment :: "risk_config \<Rightarrow> risk_choice" where
  "risk_assessment c =
     (if rkc_provider c \<noteq> HTTP_RISK then Allow_All_Risk
      else Http_Risk (rkc_path c) (open_http_risk_assessment (rkc_base_url c) (rkc_api_key c)
        (risk_transport_policy (rkc_http c)) (risk_session_policy (rkc_http c))))"

definition risk_adapter :: "'s outbound \<Rightarrow> risk_choice \<Rightarrow> risk_check \<Rightarrow> ('s, exn, risk_decision) prog" where
  "risk_adapter B choice =
     (case choice of
        Allow_All_Risk \<Rightarrow> allow_all_assess
      | Http_Risk path (session, T) \<Rightarrow> http_risk_assess B T path)"

definition provided_movement_settings :: movement_settings where
  "provided_movement_settings = movement_settings_default"

definition provided_move_money_settings :: "movement_policy_config \<Rightarrow> move_money_settings" where
  "provided_move_money_settings c =
     \<lparr>mms_rate_limit_enabled = mpc_rate_limit_enabled c, mms_rate_limit_limit = mpc_rate_limit_limit c,
      mms_rate_limit_window_seconds = mpc_rate_limit_window_seconds c,
      mms_risk_fail_open = mpc_risk_fail_open c\<rparr>"

text \<open>The arguments of \<open>create_async_engine\<close> and \<open>async_sessionmaker\<close>; \<open>dsn\<close> is SQLAlchemy's rendering of
  the driver and the parts of the URL.\<close>

record engine_args =
  ea_url :: string
  ea_echo :: bool
  ea_echo_pool :: bool
  ea_pool_size :: int
  ea_max_overflow :: int
  ea_pool_recycle :: int
  ea_pool_pre_ping :: bool

definition async_dsn ::
  "(string \<Rightarrow> string \<Rightarrow> string \<Rightarrow> string \<Rightarrow> int \<Rightarrow> string \<Rightarrow> string) \<Rightarrow> database_config \<Rightarrow> string" where
  "async_dsn dsn c =
     dsn ''postgresql+asyncpg'' (db_user c) (db_password c) (db_host c) (db_port c) (db_database c)"

definition database_engine ::
  "(string \<Rightarrow> string \<Rightarrow> string \<Rightarrow> string \<Rightarrow> int \<Rightarrow> string \<Rightarrow> string) \<Rightarrow> database_config \<Rightarrow> engine_args" where
  "database_engine dsn c =
     \<lparr>ea_url = async_dsn dsn c, ea_echo = db_echo c, ea_echo_pool = db_echo_pool c,
      ea_pool_size = db_pool_size c, ea_max_overflow = db_max_overflow c,
      ea_pool_recycle = db_pool_recycle_seconds c, ea_pool_pre_ping = True\<rparr>"

record session_factory_args =
  sf_engine :: engine_args
  sf_autoflush :: bool
  sf_expire_on_commit :: bool

definition session_factory :: "engine_args \<Rightarrow> session_factory_args" where
  "session_factory e = \<lparr>sf_engine = e, sf_autoflush = False, sf_expire_on_commit = False\<rparr>"

section \<open>The services\<close>

text \<open>\<open>client\<close> connects to the Redis server of a URL.\<close>

definition chosen_adapters ::
  "settings \<Rightarrow> (string \<Rightarrow> 'd world redis_client) \<Rightarrow> 'd world outbound \<Rightarrow> 'd world adapters" where
  "chosen_adapters st client B =
     (let c = set_redis st; lock = distributed_lock client c; store = idempotency_store client c in
      \<lparr>ad_lock_enter = lp_enter lock, ad_lock_exit = lp_exit lock, ad_reserve = is_reserve store,
       ad_confirm = is_confirm store, ad_release = is_release store, ad_consume = rate_limiter client c,
       ad_assess = risk_adapter B (risk_assessment (set_risk st))\<rparr>)"

definition wired_ports ::
  "settings \<Rightarrow> 'd engine \<Rightarrow> (string \<Rightarrow> 'd world redis_client) \<Rightarrow> 'd world outbound \<Rightarrow> 'd world ports" where
  "wired_ports st E client B = with_adapters E (chosen_adapters st client B)"

definition web_service ::
  "settings \<Rightarrow> 'd engine \<Rightarrow> (string \<Rightarrow> 'd world redis_client) \<Rightarrow> 'd world outbound \<Rightarrow> ('d world, 'k) jwt_env \<Rightarrow> (int \<Rightarrow> int \<Rightarrow> decimal \<Rightarrow> bool)
     \<Rightarrow> (string list \<Rightarrow> (string \<times> pyval) list list) \<Rightarrow> exn + 'd world api" where
  "web_service st E client B J digits report =
     map_sum id (\<lambda>choice.
       \<lparr>ap_ports = wired_ports st E client B, ap_movement = provided_movement_settings,
        ap_move_money = provided_move_money_settings (set_movements st), ap_authenticate = authenticator J choice,
        ap_digits = digits, ap_report = report\<rparr>)
     (identity_provider (set_app st) (set_identity st))"

definition mcp_service ::
  "settings \<Rightarrow> 'd engine \<Rightarrow> (string \<Rightarrow> 'd world redis_client) \<Rightarrow> 'd world outbound \<Rightarrow> owner_id \<Rightarrow> 'd world mcp" where
  "mcp_service st E client B owner =
     \<lparr>mc_ports = wired_ports st E client B, mc_movement = provided_movement_settings,
      mc_move_money = provided_move_money_settings (set_movements st), mc_owner = owner\<rparr>"

section \<open>Logging\<close>

text \<open>The processors of a chain, in order, and the two renderers.\<close>

datatype processor =
    Time_Stamper | Merge_Contextvars | Add_Log_Level | Add_Logger_Name | Redaction_Processor
  | Stack_Info_Renderer | Format_Exc_Info | Wrap_For_Formatter | Remove_Processors_Meta
  | Console_Renderer | JSON_Renderer

record logging_args =
  la_level :: string
  la_json_logs :: bool
  la_pretty_console :: bool
  la_include_timestamp :: bool

record logging_setup =
  ls_own :: "processor list"
  ls_foreign :: "processor list"
  ls_formatter :: "processor list"
  ls_filter_level :: int
  ls_root_level :: string

text \<open>\<open>logging.getLevelNamesMapping()\<close>.\<close>

definition level_numbers :: "(string \<times> int) list" where
  "level_numbers =
     [(''CRITICAL'', 50), (''FATAL'', 50), (''ERROR'', 40), (''WARN'', 30), (''WARNING'', 30),
      (''INFO'', 20), (''DEBUG'', 10), (''NOTSET'', 0)]"

definition shared_processors :: "bool \<Rightarrow> processor list" where
  "shared_processors include_timestamp =
     (if include_timestamp then [Time_Stamper] else [])
     @ [Merge_Contextvars, Add_Log_Level, Add_Logger_Name, Redaction_Processor, Stack_Info_Renderer,
        Format_Exc_Info]"

definition setup_logging :: "logging_args \<Rightarrow> exn + logging_setup" where
  "setup_logging a =
     (let shared = shared_processors (la_include_timestamp a);
          renderer = (if la_pretty_console a \<or> \<not> la_json_logs a then Console_Renderer else JSON_Renderer)
      in case map_of level_numbers (py_upper (la_level a)) of
           None \<Rightarrow> Inl (PyExn ''KeyError'')
         | Some n \<Rightarrow> Inr \<lparr>ls_own = shared @ [Wrap_For_Formatter], ls_foreign = shared,
             ls_formatter = [Remove_Processors_Meta, renderer], ls_filter_level = n,
             ls_root_level = py_upper (la_level a)\<rparr>)"

section \<open>Routes\<close>

definition health_router :: "route list" where
  "health_router = [Leaf ''/health'', Leaf ''/ready'', Leaf ''/version'']"

definition wallets_router :: "route list" where
  "wallets_router =
     [Leaf [], Leaf [], Leaf ''/{wallet_id}'', Leaf ''/{wallet_id}/deposits'',
      Leaf ''/{wallet_id}/withdrawals'', Leaf ''/{wallet_id}/entries'']"

definition docs_router :: "route list" where
  "docs_router = [Leaf ''/scalar'']"

text \<open>What \<open>setup_routes\<close> registers; \<open>docs_extra\<close> says whether the module of the docs router loads.\<close>

definition setup_routes :: "bool \<Rightarrow> string \<Rightarrow> string \<Rightarrow> bool \<Rightarrow> route list" where
  "setup_routes docs_extra base wallets include_docs =
     [Included [] health_router]
     @ (if include_docs \<and> docs_extra then [Included [] docs_router] else [])
     @ [Included [] [Included base [Included wallets wallets_router]]]"

section \<open>The application factory\<close>

text \<open>\<open>None\<close> is the no-op adapter.\<close>

definition build_metrics :: "settings \<Rightarrow> prometheus option" where
  "build_metrics st = (if \<not> set_metrics_enabled st then None else Some prometheus_new)"

definition mount_metrics_endpoint :: "prometheus option \<Rightarrow> settings \<Rightarrow> route list" where
  "mount_metrics_endpoint registry st =
     (if registry = None \<or> \<not> set_metrics_enabled st then [] else [Leaf ''/metrics''])"

record fastapi_app =
  fa_title :: string
  fa_version :: string
  fa_docs_url :: "string option"
  fa_redoc_url :: "string option"
  fa_openapi_url :: "string option"
  fa_routes :: "route list"
  fa_metrics :: "prometheus option"
  fa_logging :: logging_setup

definition create_app ::
  "(string \<Rightarrow> string option) \<Rightarrow> string \<Rightarrow> bool \<Rightarrow> settings \<Rightarrow> prometheus option option \<Rightarrow> exn + fastapi_app" where
  "create_app getenv package_version docs_extra st injected =
     (let metrics = (case injected of Some m \<Rightarrow> m | None \<Rightarrow> build_metrics st);
          lg = app_logging (set_app st);
          is_production = (\<not> is_local (set_app st))
      in map_sum id (\<lambda>logs.
        \<lparr>fa_title = app_name (set_app st),
         fa_version = (case getenv ''APP_VERSION'' of Some v \<Rightarrow> v | None \<Rightarrow> package_version),
         fa_docs_url = (if is_production then None else Some ''/docs''),
         fa_redoc_url = (if is_production then None else Some ''/redoc''),
         fa_openapi_url = (if is_production then None else Some ''/openapi.json''),
         fa_routes = mount_metrics_endpoint metrics st
           @ setup_routes docs_extra (api_prefix (app_api (set_app st))) (api_wallets (app_api (set_app st)))
               (\<not> is_production),
         fa_metrics = metrics, fa_logging = logs\<rparr>)
       (setup_logging \<lparr>la_level = lg_level lg, la_json_logs = lg_json_logs lg,
          la_pretty_console = is_local (set_app st) \<and> lg_console_pretty_in_debug lg,
          la_include_timestamp = lg_include_timestamp lg\<rparr>))"

section \<open>Operational endpoints\<close>

definition DependencyStatus :: "bool \<Rightarrow> string option \<Rightarrow> pyval" where
  "DependencyStatus healthy error =
     VDict [(''healthy'', VBool healthy), (''error'', case error of None \<Rightarrow> VNone | Some e \<Rightarrow> VStr e)]"

definition liveness :: json_reply where
  "liveness = json_ok 200 (VDict [(''status'', VStr ''alive'')])"

text \<open>\<open>probe\<close> connects and executes \<open>SELECT 1\<close> within the timeout.\<close>

definition check_database :: "('s, exn, unit) prog \<Rightarrow> ('s, exn, bool \<times> string option) prog" where
  "check_database probe =
     pcatch (pthen probe (pret (True, None))) (\<lambda>e.
       if e = PyExn ''TimeoutError'' then pret (False, Some ''timeout'')
       else if is_exception e then pret (False, Some (exn_name e))
       else praise e)"

definition readiness :: "('s, exn, unit) prog \<Rightarrow> ('s, exn, json_reply) prog" where
  "readiness probe =
     pbind (check_database probe) (\<lambda>(healthy, error).
       pret (json_ok (if healthy then 200 else 503)
         (VDict [(''status'', VStr (if healthy then ''ready'' else ''degraded'')),
                 (''dependencies'', VDict [(''database'', DependencyStatus healthy error)])])))"

definition version :: "(string \<Rightarrow> string option) \<Rightarrow> json_reply" where
  "version getenv =
     json_ok 200 (VDict
       [(''version'', VStr (case getenv ''APP_VERSION'' of Some v \<Rightarrow> v | None \<Rightarrow> ''dev'')),
        (''commit'', VStr (case getenv ''APP_COMMIT'' of Some v \<Rightarrow> v | None \<Rightarrow> ''unknown'')),
        (''built_at'', VStr (case getenv ''APP_BUILT_AT'' of Some v \<Rightarrow> v | None \<Rightarrow> ''unknown''))])"

section \<open>What the gate gives the services\<close>

lemma served_production:
  assumes "web_main st = Serving a \<or> mcp_main st = Serving b" and "\<not> is_local (set_app st)"
  shows "production_config_problems st = []"
  using assms by (auto simp: web_main_def mcp_main_def Let_def split: if_splits)

text \<open>The identity a production process verifies.\<close>

definition verified_identity :: "identity_config \<Rightarrow> bool" where
  "verified_identity c \<longleftrightarrow> idc_issuer c \<noteq> [] \<and> idc_audience c \<noteq> [] \<and> idc_algorithms c \<noteq> []
     \<and> starts_with ''https://'' (py_lower (idc_jwks_url c)) \<and> 8 < length (idc_jwks_url c)"

definition configured_jwt :: "identity_config \<Rightarrow> jwt_policy" where
  "configured_jwt c =
     \<lparr>jp_issuer = idc_issuer c, jp_audience = idc_audience c, jp_algorithms = idc_algorithms c,
      jp_owner_claim = idc_owner_claim c, jp_leeway_seconds = 30\<rparr>"

lemma served_identity:
  assumes "production_config_problems st = []"
  shows "verified_identity (set_identity st)"
    "identity_provider (set_app st) (set_identity st) = Inr (Jwt_Identity (configured_jwt (set_identity st))
       (jwks_policy_default (idc_jwks_url (set_identity st))) session_policy_default)"
proof -
  have "app_identity_provider (set_app st) = JWT_IDENTITY" "JWT_IDENTITY \<noteq> DEV_IDENTITY"
    using assms by (auto simp: gate_exact JWT_IDENTITY_def DEV_IDENTITY_def)
  then show "identity_provider (set_app st) (set_identity st) = Inr (Jwt_Identity (configured_jwt (set_identity st))
       (jwks_policy_default (idc_jwks_url (set_identity st))) session_policy_default)"
    by (simp add: identity_provider_def configured_jwt_def jwt_policy_default_def)
qed (use assms in \<open>simp add: gate_exact verified_identity_def\<close>)

lemma jwt_authenticate_quiet:
  assumes "\<And>kid. quiet f g (jv_keys_get J kid)" and "\<And>token args. quiet f g (jv_decode J token args)"
  shows "quiet f g (jwt_authenticate J P credential)"
proof -
  have "quiet f g (Pair x)" for x :: "exn + 'c" by (auto intro: quietI)
  then show ?thesis
    unfolding jwt_authenticate_def Let_def
    by (auto intro!: quiet_bind quiet_catch assms split: sum.splits option.splits)
qed

lemma risk_adapter_harmless:
  "outbound_keeps (apart sess_tb comm_tb) B \<Longrightarrow> harmless_risk sess_tb comm_tb (risk_adapter B choice)"
  by (auto simp: risk_adapter_def intro: http_risk_harmless split: risk_choice.splits)

text \<open>A connection that leaves the books alone makes Redis adapters that do.\<close>

definition redis_quiet :: "('s \<Rightarrow> book) \<Rightarrow> ('s \<Rightarrow> book) \<Rightarrow> 's redis_client \<Rightarrow> bool" where
  "redis_quiet f g C \<longleftrightarrow> (\<forall>q. quiet f g (rc_send C q)) \<and> quiet f g (rc_uuid4 C)"

lemma translating_quiet: "quiet f g m \<Longrightarrow> quiet f g (translating_redis_errors C operation m)"
  by (auto simp: translating_redis_errors_def)

lemma redis_stores_quiet:
  assumes "redis_quiet f g C"
  shows "quiet f g (redis_consume C k policy cost)" "quiet f g (redis_reserve C k fp n)"
    "quiet f g (redis_confirm C k resp n)" "quiet f g (redis_release C k)" "quiet f g (redis_lock_exit C l)"
proof -
  have send: "quiet f g (rc_send C q)" for q using assms by (simp add: redis_quiet_def)
  show "quiet f g (redis_consume C k policy cost)" "quiet f g (redis_reserve C k fp n)"
    "quiet f g (redis_confirm C k resp n)" "quiet f g (redis_release C k)" "quiet f g (redis_lock_exit C l)"
    unfolding redis_consume_def redis_reserve_def redis_confirm_def redis_release_def redis_lock_exit_def
    by (intro conjI allI impI translating_quiet quiet_bind quiet_then send quiet_simps
        | simp split: pyval.split list.split)+
qed

definition same_books :: "('d \<Rightarrow> tables) \<Rightarrow> ('d \<Rightarrow> tables) \<Rightarrow> 'd world \<Rightarrow> 'd world \<Rightarrow> bool" where
  "same_books f g s t \<longleftrightarrow> sess_book f t = sess_book f s \<and> sess_book g t = sess_book g s"

lemma same_books_simps:
  "same_books f g s s" "same_books f g s t \<Longrightarrow> same_books f g t u \<Longrightarrow> same_books f g s u"
  "same_books f g s t \<Longrightarrow> same_books f g s (elapse d t)"
  "monotonic s = (r, t) \<Longrightarrow> same_books f g s t"
  using more_memory_ops(6) [of s r t] by (auto simp: same_books_def sess_book_def elapse_def dest: wd_db_more)

lemma quiet_same_books: "quiet (sess_book f) (sess_book g) m \<longleftrightarrow> (\<forall>s r t. m s = (r, t) \<longrightarrow> same_books f g s t)"
  by (auto simp: same_books_def intro: quietI dest: quietD)

lemma redis_lock_quiet:
  assumes "redis_quiet (sess_book f) (sess_book g) C"
  shows "quiet (sess_book f) (sess_book g) (lp_enter (redis_lock_port C) k ttl wait)"
    "quiet (sess_book f) (sess_book g) (lp_exit (redis_lock_port C) h)"
proof -
  have attempt: "quiet (sess_book f) (sess_book g) (redis_lock_attempt C k token ttl)" for token
    using assms unfolding redis_lock_attempt_def by (intro translating_quiet) (simp add: redis_quiet_def)
  have await: "same_books f g s t" if "redis_await (redis_lock_attempt C k token ttl) wait retry s = Some (r, t)" for token retry s r t
  proof -
    have "same_books f g s t \<and> (\<forall>e. r = Inl e \<longrightarrow> True)"
      by (rule redis_await_keeps [OF that])
        (use attempt in \<open>auto simp: quiet_same_books intro: same_books_simps\<close>)
    then show ?thesis by simp
  qed
  have uuid: "same_books f g s t" if "rc_uuid4 C s = (r, t)" for s r t
    using assms that by (auto simp: redis_quiet_def quiet_same_books)
  show "quiet (sess_book f) (sess_book g) (lp_enter (redis_lock_port C) k ttl wait)"
    by (auto simp: quiet_same_books redis_lock_port_def redis_lock_enter_def same_books_simps(1)
        split: option.split_asm prod.split_asm sum.split_asm intro: uuid same_books_simps(2) [OF uuid await])
  show "quiet (sess_book f) (sess_book g) (lp_exit (redis_lock_port C) h)"
    unfolding redis_lock_port_def lock_port.simps by (rule redis_stores_quiet [OF assms])
qed

text \<open>Without a Redis URL the settings choose the adapters inside the process.\<close>

lemma chosen_in_process:
  "\<not> redis_enabled (set_redis st) \<Longrightarrow>
   chosen_adapters st client B = in_process (risk_adapter B (risk_assessment (set_risk st)))"
  by (simp add: chosen_adapters_def in_process_def distributed_lock_def idempotency_store_def rate_limiter_def Let_def)

lemma chosen_harmless:
  assumes "\<And>url. redis_quiet (sess_book sess_tb) (sess_book comm_tb) (client url)"
    and "outbound_keeps (apart sess_tb comm_tb) B"
  shows "harmless_adapters sess_tb comm_tb (chosen_adapters st client B)"
proof -
  have risk: "harmless_risk sess_tb comm_tb (risk_adapter B (risk_assessment (set_risk st)))"
    by (rule risk_adapter_harmless [OF assms(2)])
  show ?thesis
  proof (cases "redis_enabled (set_redis st)")
    case False
    with harmless_in_process [OF risk] show ?thesis by (simp add: chosen_in_process)
  next
    case True
    with risk show ?thesis
      by (simp add: harmless_adapters_def harmless_risk_def chosen_adapters_def distributed_lock_def idempotency_store_def
          rate_limiter_def Let_def redis_lock_quiet assms(1) redis_stores_quiet)
  qed
qed

text \<open>A token that PyJWT accepted under the configured issuer, audience and algorithms, for owner \<open>u\<close>.\<close>

definition token_admits ::
  "('s, 'k) jwt_env \<Rightarrow> identity_config \<Rightarrow> string option \<Rightarrow> 's \<Rightarrow> uuid \<Rightarrow> bool" where
  "token_admits J c credential s u \<longleftrightarrow>
     (\<exists>token kid k s1 claims s2. credential = Some token \<and> jv_keys_get J kid s = (Inr (Some k), s1)
       \<and> jv_decode J token \<lparr>jd_key = k, jd_algorithms = idc_algorithms c, jd_issuer = idc_issuer c,
           jd_audience = idc_audience c, jd_leeway = 30, jd_verify_signature = True,
           jd_require = [''exp'', ''iss'', ''aud'', idc_owner_claim c]\<rparr> s1 = (Inr claims, s2)
       \<and> map_of claims (idc_owner_claim c) = Some (VStr (uuid_str u)))"

lemma configured_jwt_admits:
  assumes "jwt_authenticate J (configured_jwt c) credential s = (Inr p, t)"
  shows "\<exists>u. pr_owner_id p = OwnerId u \<and> token_admits J c credential s u"
proof -
  from assms obtain token where c: "credential = Some token"
    by (cases credential) (auto simp: jwt_authenticate_def)
  from jwt_accepted [OF assms [unfolded c]] show ?thesis
    unfolding token_admits_def c by (simp add: configured_jwt_def) blast
qed

section \<open>Properties\<close>

text \<open>C8: in production nobody moves money without a verified token. When the web entrypoint serves
  outside a local run, with or without Redis, the service exists, and a call that changed the committed books carried
  a token that PyJWT accepted with its signature checked, under a named issuer, audience and
  algorithms and a key from an https URL; what changed is one new wallet of the token's owner or one
  posting, as the call asked, to a wallet of that owner.\<close>

theorem production_changes_authorized:
  assumes "web_main st = Serving args" and "\<not> is_local (set_app st)"
    and "\<And>url. redis_quiet (sess_book sess_tb) (sess_book comm_tb) (client url)"
    and "sql_engine E sess_tb comm_tb" and "outbound_keeps (apart sess_tb comm_tb) B"
    and "\<And>kid. quiet (sess_book sess_tb) (sess_book comm_tb) (jv_keys_get J kid)"
    and "\<And>token a. quiet (sess_book sess_tb) (sess_book comm_tb) (jv_decode J token a)"
  shows "\<exists>A. web_service st E client B J digits report = Inr A \<and> verified_identity (set_identity st)
    \<and> (\<forall>rq credential call s reply t. api_run A rq credential call s = (reply, t)
        \<longrightarrow> sess_book sess_tb s = committed comm_tb s \<longrightarrow> committed comm_tb t \<noteq> committed comm_tb s
        \<longrightarrow> (\<exists>u. token_admits J (set_identity st) credential s u
              \<and> ((\<exists>i c. call = Post_Wallets (Given c)
                    \<and> opened \<lparr>owc_owner_id = OwnerId u, owc_currency = CurrencyCode (py_upper c)\<rparr> i
                        (committed comm_tb s) (committed comm_tb t))
                \<or> (\<exists>i dir m d v now. asks_movement call i dir m
                    \<and> post (WalletId i) (OwnerId u) dir (cents m) (m_currency m) d v now
                        (committed comm_tb s) = Some (committed comm_tb t)))))"
proof -
  have ok: "production_config_problems st = []" using served_production assms(1,2) by blast
  note identity = served_identity [OF ok]
  obtain A where A: "web_service st E client B J digits report = Inr A"
      "ap_ports A = with_adapters E (chosen_adapters st client B)"
      "ap_authenticate A = jwt_authenticate J (configured_jwt (set_identity st))"
    by (simp add: web_service_def identity(2) wired_ports_def authenticator_def)
  have auth: "quiet (sess_book sess_tb) (sess_book comm_tb) (ap_authenticate A c)" for c
    unfolding A(3) by (rule jwt_authenticate_quiet [OF assms(6,7)])
  note changes = sql_engine.api_changes [OF assms(4) chosen_harmless [OF assms(3,5)] A(2) auth]
  show ?thesis
  proof (intro exI [of _ A] conjI allI impI A(1) identity(1), goal_cases)
    case (1 rq credential call s reply t)
    from changes [OF 1] obtain p s1 where p: "ap_authenticate A credential s = (Inr p, s1)"
      "(\<exists>i c. call = Post_Wallets (Given c)
          \<and> opened \<lparr>owc_owner_id = pr_owner_id p, owc_currency = CurrencyCode (py_upper c)\<rparr> i
              (committed comm_tb s) (committed comm_tb t))
      \<or> (\<exists>i dir m d u now. asks_movement call i dir m
          \<and> post (WalletId i) (pr_owner_id p) dir (cents m) (m_currency m) d u now
              (committed comm_tb s) = Some (committed comm_tb t))" by blast
    from configured_jwt_admits [OF p(1) [unfolded A(3)]] obtain u where
      "pr_owner_id p = OwnerId u" "token_admits J (set_identity st) credential s u" by blast
    with p(2) show ?case by (intro exI [of _ u] conjI) auto
  qed
qed

text \<open>C37: a mistyped risk provider is a permission. Whatever a configuration that is served says about the
  provider's URL and key, replacing the provider's name by any other text than \<open>http\<close> is still
  a valid and served configuration, and its adapter approves every check without a call.\<close>

theorem risk_typo_is_permission:
  assumes "web_main st = Serving args" and "name \<noteq> HTTP_RISK"
    and "st' = st\<lparr>set_risk := (set_risk st)\<lparr>rkc_provider := name\<rparr>\<rparr>"
  shows "risk_config_validate (set_risk st') = Inr (set_risk st') \<and> web_main st' = Serving args
    \<and> (\<exists>d. risk_adapter B (risk_assessment (set_risk st')) check s = (Inr d, s) \<and> risk_allowed d)"
proof -
  have same: "set_app st' = set_app st" "set_identity st' = set_identity st"
      "set_database st' = set_database st" "rkc_provider (set_risk st') = name"
    by (simp_all add: assms(3))
  have "production_config_problems st = [] \<Longrightarrow> production_config_problems st' = []"
    using assms(2) by (simp add: gate_exact same)
  then have "web_main st' = Serving args"
    using assms(1) by (auto simp: web_main_def Let_def same split: if_splits)
  then show ?thesis using assms(2)
    by (simp add: risk_config_validate_def same risk_assessment_def risk_adapter_def allow_all_assess_def
        risk_allowed_def)
qed

text \<open>The readiness probe tells the truth and no more: 200 when the database answered in time, else 503;
  and two failures of one class are answered alike, so a driver's message, which may hold the DSN,
  never reaches the answer.\<close>

lemma readiness_ready: "probe s = (Inr (), t) \<Longrightarrow> \<exists>rep. jp_status rep = 200 \<and> readiness probe s = (Inr rep, t)"
  by (simp add: readiness_def check_database_def pcatch_def pthen_def pbind_def json_ok_def)

lemma exn_name_timeout: "exn_name e = ''TimeoutError'' \<longleftrightarrow> e = PyExn ''TimeoutError''"
  by (cases e rule: exn_name.cases) (auto split: app_error_class.splits)

lemma readiness_discloses_class:
  assumes "probe s = (Inl e, t)" "is_exception e" and "probe' s' = (Inl e', t')" "is_exception e'"
    and "exn_name e = exn_name e'"
  shows "\<exists>rep. jp_status rep = 503 \<and> readiness probe s = (Inr rep, t) \<and> readiness probe' s' = (Inr rep, t')"
proof -
  have "e = PyExn ''TimeoutError'' \<longleftrightarrow> e' = PyExn ''TimeoutError''"
    using assms(5) by (simp flip: exn_name_timeout)
  with assms show ?thesis
    by (simp add: readiness_def check_database_def pcatch_def pthen_def pbind_def json_ok_def)
qed

text \<open>Request metrics have a bounded set of handler labels: the templates of the routes, and one label
  for every other path.\<close>

definition handler_templates :: "settings \<Rightarrow> string list" where
  "handler_templates st =
     (let root = api_prefix (app_api (set_app st)) @ api_wallets (app_api (set_app st))
      in [''/metrics'', ''/health'', ''/ready'', ''/version'', ''/scalar'', if root = [] then ''/'' else root,
          root @ ''/{wallet_id}'', root @ ''/{wallet_id}/deposits'', root @ ''/{wallet_id}/withdrawals'',
          root @ ''/{wallet_id}/entries''])"

lemma handler_label_of_routes:
  "handler_label X rs scope \<in> insert ''unmatched'' (set (route_patterns [] rs))"
proof (cases "filter (\<lambda>t. ee_matches X t (sc_path scope)) (route_patterns [] rs)")
  case (Cons t ts)
  then have "t \<in> set (filter (\<lambda>t. ee_matches X t (sc_path scope)) (route_patterns [] rs))" by (simp del: set_filter)
  then have "t \<in> set (route_patterns [] rs)" by simp
  with Cons show ?thesis by (simp add: handler_label_def)
qed (simp add: handler_label_def)

lemma handler_labels_bounded:
  assumes "create_app getenv v docs_extra st injected = Inr app"
  shows "handler_label X (fa_routes app) scope \<in> insert ''unmatched'' (set (handler_templates st))"
proof -
  obtain registry where "fa_routes app = mount_metrics_endpoint registry st
      @ setup_routes docs_extra (api_prefix (app_api (set_app st))) (api_wallets (app_api (set_app st)))
          (is_local (set_app st))"
    using assms by (auto simp: create_app_def Let_def map_sum_Inr)
  moreover have "set (route_patterns [] (mount_metrics_endpoint registry st
      @ setup_routes docs_extra (api_prefix (app_api (set_app st))) (api_wallets (app_api (set_app st)))
          (is_local (set_app st)))) \<subseteq> set (handler_templates st)"
    by (simp add: mount_metrics_endpoint_def setup_routes_def health_router_def docs_router_def wallets_router_def
        handler_templates_def Let_def)
  ultimately show ?thesis using handler_label_of_routes [of X "fa_routes app" scope] by (simp only:) blast
qed

section \<open>A concrete deployment\<close>

definition demo_production :: settings where
  "demo_production = settings_default
     \<lparr>set_app := app_config_default\<lparr>app_identity_provider := JWT_IDENTITY, app_secret_key := ''s3''\<rparr>,
      set_database := database_config_default\<lparr>db_password := ''p4''\<rparr>,
      set_identity := identity_config_default
        \<lparr>idc_issuer := ''iss'', idc_audience := ''aud'', idc_jwks_url := ''https://idp''\<rparr>\<rparr>"

lemma demo_production_ok: "production_config_problems demo_production = []"
  by code_simp

lemma demo_production_served: "\<exists>args. web_main demo_production = Serving args"
  by (simp add: web_main_def Let_def demo_production_ok)

lemma demo_production_simps:
  "\<not> is_local (set_app demo_production)" "\<not> redis_enabled (set_redis demo_production)"
  "risk_assessment (set_risk demo_production) = Allow_All_Risk"
  by code_simp+

text \<open>A client whose server answers nil.\<close>

definition idle_redis :: "string \<Rightarrow> 's redis_client" where
  "idle_redis url =
     \<lparr>rc_send = \<lambda>q. pret VNone, rc_uuid4 = pret 0, rc_is_redis_error = \<lambda>e. False, rc_recursion_limit = 1000\<rparr>"

lemma idle_redis_quiet: "redis_quiet f g (idle_redis url)"
  by (simp add: redis_quiet_def idle_redis_def)

text \<open>One key and one token, for owner 1; the adapters keep no state.\<close>

definition demo_tokens :: "('s, nat) jwt_env" where
  "demo_tokens =
     \<lparr>jv_header = \<lambda>token. Inr [(''kid'', VStr ''a'')], jv_keys_get = \<lambda>kid. pret (Some 7),
      jv_decode = \<lambda>token args. if token = ''tok'' \<and> jd_issuer args = ''iss'' then pret [(''sub'', VStr (uuid_str 1))]
        else praise (PyExn ''InvalidTokenError''),
      jv_is_pyjwt_error = \<lambda>e. True, jv_is_refusal = \<lambda>e. True\<rparr>"

lemma demo_tokens_owner:
  "jwt_authenticate demo_tokens (configured_jwt (set_identity demo_production)) (Some ''tok'') s
   = (Inr \<lparr>pr_owner_id = OwnerId 1\<rparr>, s)"
  by (simp add: jwt_authenticate_def demo_tokens_def key_id_def configured_jwt_def jwt_decode_args_def
      owner_of_subject_def pbind_def pcatch_def demo_production_def settings_default_def identity_config_default_def)


lemma demo_production_withdraws:
  assumes "web_service demo_production ref_engine client B demo_tokens (\<lambda>m d a. True) report = Inr A"
  shows "\<exists>t rep. api_run A demo_rq (Some ''tok'') (Post_Withdrawals (Given 7) demo_fields None) (demo_world [])
     = (Some rep, t) \<and> bk_postings (committed rf_comm t) \<noteq> []"
proof -
  from demo_movement obtain res t where mv: "movement_run (evenkeel_ports ref_engine) movement_settings_default
      move_money_settings_default demo_request (demo_world []) = (Inr res, t)"
      "bk_postings (committed rf_comm t) \<noteq> []" by blast
  have "provided_move_money_settings (set_movements demo_production) = move_money_settings_default"
    by (simp add: demo_production_def settings_default_def provided_move_money_settings_def
        movement_policy_config_default_def move_money_settings_default_def)
  then have A: "ap_ports A = evenkeel_ports ref_engine" "ap_movement A = movement_settings_default"
      "ap_move_money A = move_money_settings_default" "ap_digits A = (\<lambda>m d a. True)"
      "ap_authenticate A (Some ''tok'') (demo_world []) = (Inr \<lparr>pr_owner_id = OwnerId 1\<rparr>, demo_world [])"
    using assms by (auto simp: web_service_def served_identity(2) [OF demo_production_ok] wired_ports_def
        demo_production_simps chosen_in_process risk_adapter_def default_adapters provided_movement_settings_def authenticator_def
        demo_tokens_owner)
  have "endpoint A (Post_Withdrawals (Given 7) demo_fields None) = Inr (\<lambda>p. post_withdrawal A p 7 demo_body None)"
    by (simp add: wallet_id_param_def required_def MoneyRequest_def demo_fields_def defaulted_def A
        dec_le_zero_def demo_body_def)
  moreover have "post_withdrawal A \<lparr>pr_owner_id = OwnerId 1\<rparr> 7 demo_body None (demo_world [])
      = (Inr (json_ok 200 (MovementResponse res)), t)"
    by (simp add: post_withdrawal_def demo_payload withdraw_from_wallet_def A demo_body_def
        demo_payload [unfolded demo_body_def] demo_asked mv(1) pbind_def)
  ultimately show ?thesis
    using mv by (auto simp: api_run_def current_principal_def A simp del: endpoint.simps)
qed

theorem production_changes_authorized_witness:
  "\<exists>A rep t d v now. web_service demo_production ref_engine idle_redis (same_answer []) demo_tokens (\<lambda>m d a. True) (map (\<lambda>n. [])) = Inr A
     \<and> api_run A demo_rq (Some ''tok'') (Post_Withdrawals (Given 7) demo_fields None) (demo_world []) = (Some rep, t)
     \<and> post (WalletId 7) (OwnerId 1) DEBIT 2550 (CurrencyCode ''EUR'') d v now
         (committed rf_comm (demo_world [])) = Some (committed rf_comm t)"
proof -
  obtain args where served: "web_main demo_production = Serving args" using demo_production_served by blast
  have quiet: "quiet f g (jv_keys_get demo_tokens kid)" "quiet f g (jv_decode demo_tokens token a)" for f g kid token a
    by (simp_all add: demo_tokens_def)
  from production_changes_authorized [where client = idle_redis and B = "same_answer []" and digits = "\<lambda>m d a. True"
      and report = "map (\<lambda>n. [])", OF served demo_production_simps(1) idle_redis_quiet ref.sql_engine_axioms
      same_answer_apart quiet]
  obtain A where A: "web_service demo_production ref_engine idle_redis (same_answer []) demo_tokens (\<lambda>m d a. True) (map (\<lambda>n. [])) = Inr A"
    and changes: "\<forall>rq credential call s reply t. api_run A rq credential call s = (reply, t)
        \<longrightarrow> sess_book rf_sess s = committed rf_comm s \<longrightarrow> committed rf_comm t \<noteq> committed rf_comm s
        \<longrightarrow> (\<exists>u. token_admits demo_tokens (set_identity demo_production) credential s u
              \<and> ((\<exists>i c. call = Post_Wallets (Given c)
                    \<and> opened \<lparr>owc_owner_id = OwnerId u, owc_currency = CurrencyCode (py_upper c)\<rparr> i
                        (committed rf_comm s) (committed rf_comm t))
                \<or> (\<exists>i dir m d v now. asks_movement call i dir m
                    \<and> post (WalletId i) (OwnerId u) dir (cents m) (m_currency m) d v now
                        (committed rf_comm s) = Some (committed rf_comm t))))"
    by (elim exE conjE)
  from demo_production_withdraws [OF A] obtain t rep where
    run: "api_run A demo_rq (Some ''tok'') (Post_Withdrawals (Given 7) demo_fields None) (demo_world []) = (Some rep, t)"
      "bk_postings (committed rf_comm t) \<noteq> []" by blast
  have "committed rf_comm t \<noteq> committed rf_comm (demo_world [])" using run(2) demo_empty by metis
  from changes [rule_format, OF run(1) demo_fresh this] obtain u i dir m d v now where
    u: "token_admits demo_tokens (set_identity demo_production) (Some ''tok'') (demo_world []) u" and
    p: "asks_movement (Post_Withdrawals (Given 7) demo_fields None) i dir m"
      "post (WalletId i) (OwnerId u) dir (cents m) (m_currency m) d v now
        (committed rf_comm (demo_world [])) = Some (committed rf_comm t)" by auto
  have "map_of [(''sub'', VStr (uuid_str 1))] ''sub'' = Some (VStr (uuid_str u))"
    using u by (auto simp: token_admits_def demo_tokens_def demo_production_def settings_default_def
        identity_config_default_def split: if_splits)
  then have "u = 1" by (simp add: uuid_str_inject)
  moreover from p(1) have "i = 7" "dir = DEBIT" "m_amount m = Fin False 255 (- 1)"
      "m_currency m = CurrencyCode ''EUR''"
    by (auto simp: asks_movement_def demo_fields_def upper_eur)
  moreover from this(3) have "cents m = 2550" by (simp add: cents_def amount_cents_Fin)
  ultimately show ?thesis using p(2) run(1) A by auto
qed

text \<open>A served configuration whose provider is spelt in capitals, with the URL of a provider.\<close>

theorem risk_typo_is_permission_witness:
  "let risk = \<lparr>rkc_provider = ''HTTP'', rkc_base_url = ''https://risk'', rkc_path = ''/decisions'', rkc_api_key = ''k'',
       rkc_fail_open = False, rkc_http = outbound_http_config_default\<rparr>
   in \<exists>args d. web_main (demo_production\<lparr>set_risk := risk\<rparr>) = Serving args
     \<and> risk_adapter wire_outbound (risk_assessment risk) (requested_check keyed_request) (wire_start [])
         = (Inr d, wire_start [])
     \<and> risk_allowed d"
proof -
  let ?st = "demo_production\<lparr>set_risk := \<lparr>rkc_provider = HTTP_RISK, rkc_base_url = ''https://risk'',
       rkc_path = ''/decisions'', rkc_api_key = ''k'', rkc_fail_open = False,
       rkc_http = outbound_http_config_default\<rparr>\<rparr>"
  have "production_config_problems ?st = []" by code_simp
  then obtain args where "web_main ?st = Serving args" by (auto simp: web_main_def Let_def)
  from risk_typo_is_permission [OF this _ refl, of "''HTTP''" wire_outbound "requested_check keyed_request" "wire_start []"]
  show ?thesis by (auto simp: HTTP_RISK_def Let_def)
qed

end
