(* ===== verification/Redact_Message.thy ===== *)
theory Redact_Message
  imports Redaction
begin

text \<open>
  \<open>logging.py\<close>, the rest: \<open>redact_message\<close>, which searches an already rendered line for \<open>key=value\<close> and
  \<open>key: value\<close>, and the processor that runs both redactions on a record. \<open>rx_run\<close> is the part of Python's
  \<open>re\<close> the pattern needs: a backtracking matcher as the list of its successes, the preferred one first.
\<close>

section \<open>Regular expressions\<close>

text \<open>\<open>Many\<close> is the greedy repetition of a character class and \<open>Maybe\<close> the greedy option.\<close>

datatype rx =
    One "char \<Rightarrow> bool" | Many "char \<Rightarrow> bool" | Seq rx rx | Alt rx rx | Maybe rx | Word_Boundary | Group nat rx

text \<open>A position: the character before it, the text after it, the groups captured so far.\<close>

type_synonym rx_pos = "char option \<times> string \<times> (nat \<times> string) list"

definition is_word :: "char \<Rightarrow> bool" where
  "is_word c \<longleftrightarrow> is_alnum c \<or> c = CHR ''_''"

fun many :: "(char \<Rightarrow> bool) \<Rightarrow> char option \<Rightarrow> string \<Rightarrow> (char option \<times> string) list" where
  "many P p [] = [(p, [])]"
| "many P p (c # cs) = (if P c then many P (Some c) cs else []) @ [(p, c # cs)]"

fun rx_run :: "rx \<Rightarrow> rx_pos \<Rightarrow> rx_pos list" where
  "rx_run (One P) (p, s, g) =
     (case s of [] \<Rightarrow> [] | c # cs \<Rightarrow> if P c then [(Some c, cs, g)] else [])"
| "rx_run (Many P) (p, s, g) = map (\<lambda>(p', s'). (p', s', g)) (many P p s)"
| "rx_run (Seq a b) pos = concat (map (rx_run b) (rx_run a pos))"
| "rx_run (Alt a b) pos = rx_run a pos @ rx_run b pos"
| "rx_run (Maybe a) pos = rx_run a pos @ [pos]"
| "rx_run Word_Boundary (p, s, g) =
     (if (case p of None \<Rightarrow> False | Some c \<Rightarrow> is_word c) \<noteq> (case s of [] \<Rightarrow> False | c # _ \<Rightarrow> is_word c)
      then [(p, s, g)] else [])"
| "rx_run (Group n a) (p, s, g) =
     map (\<lambda>(p', s', g'). (p', s', (n, take (length s - length s') s) # g')) (rx_run a (p, s, g))"

text \<open>A word under \<open>(?i)\<close>.\<close>

fun rx_word :: "string \<Rightarrow> rx" where
  "rx_word [] = Maybe (One (\<lambda>_. False))"
| "rx_word [c] = One (\<lambda>d. to_lower d = c)"
| "rx_word (c # cs) = Seq (One (\<lambda>d. to_lower d = c)) (rx_word cs)"

definition rx_some :: "(char \<Rightarrow> bool) \<Rightarrow> rx" where
  "rx_some P = Seq (One P) (Many P)"

section \<open>The pattern\<close>

definition key_char :: "char \<Rightarrow> bool" where
  "key_char c \<longleftrightarrow> is_alpha c \<or> c = CHR ''_'' \<or> c = CHR ''-''"

definition rx_keyword :: rx where
  "rx_keyword =
     Alt (rx_word ''password'') (Alt (rx_word ''token'') (Alt (rx_word ''secret'')
       (Alt (Seq (rx_word ''api'') (Seq (Maybe (One (\<lambda>c. c = CHR ''_'' \<or> c = CHR ''-''))) (rx_word ''key'')))
         (rx_word ''authorization''))))"

definition rx_separator :: rx where
  "rx_separator = Seq (Many is_space) (Seq (One (\<lambda>c. c = CHR ''='' \<or> c = CHR '':'')) (Many is_space))"

definition rx_scheme :: rx where
  "rx_scheme =
     Seq (Alt (rx_word ''bearer'') (Alt (rx_word ''basic'') (Alt (rx_word ''token'') (rx_word ''digest''))))
       (rx_some is_space)"

definition rx_quoted :: "char \<Rightarrow> rx" where
  "rx_quoted q = Seq (One (\<lambda>c. c = q)) (Seq (Many (\<lambda>c. c \<noteq> q)) (One (\<lambda>c. c = q)))"

definition rx_value :: rx where
  "rx_value = Alt (rx_quoted (CHR 0x22)) (Alt (rx_quoted (CHR 0x27)) (rx_some (\<lambda>c. \<not> is_space c)))"

definition INLINE_SECRET :: rx where
  "INLINE_SECRET =
     Seq Word_Boundary (Seq (Group 1 (Seq (Many key_char) rx_keyword))
       (Seq (Group 2 rx_separator) (Seq (Maybe (Group 3 rx_scheme)) (Group 4 rx_value))))"

text \<open>\<open>sub\<close> with the replacement of \<open>redact_message\<close>; a group that took no part in the match is the empty text.\<close>

definition group :: "(nat \<times> string) list \<Rightarrow> nat \<Rightarrow> string" where
  "group g n = (case map_of g n of None \<Rightarrow> [] | Some t \<Rightarrow> t)"

definition redacted_match :: "(nat \<times> string) list \<Rightarrow> string" where
  "redacted_match g = group g 1 @ group g 2 @ group g 3 @ REDACTED"

function redact_from :: "char option \<Rightarrow> string \<Rightarrow> string" where
  "redact_from p [] = []"
| "redact_from p (c # cs) =
     (case rx_run INLINE_SECRET (p, c # cs, []) of
        (p', rest, g) # _ \<Rightarrow>
          if length rest \<le> length cs then redacted_match g @ redact_from p' rest
          else c # redact_from (Some c) cs
      | [] \<Rightarrow> c # redact_from (Some c) cs)"
  by pat_completeness auto
termination by (relation "measure (\<lambda>(p, s). length s)") auto

definition redact_message :: "string \<Rightarrow> string" where
  "redact_message message = redact_from None message"


section \<open>How a match goes\<close>












lemma to_lower_key_char [simp]: "key_char (to_lower c) = key_char c"
proof (cases "is_upper c")
  case True
  then have "is_lower (to_lower c)" by (simp add: to_lower_def is_upper_def is_lower_def)
  with True show ?thesis by (simp add: key_char_def is_alpha_def)
qed (simp add: to_lower_def)









section \<open>The separator and the value\<close>

















section \<open>A secret is found\<close>













section \<open>The key\<close>






























section \<open>The processor\<close>





text \<open>What the pattern does not see: a key with a digit in it and a quoted key, both sensitive when structured.\<close>

lemma key_shapes_missed:
  "is_sensitive ''oauth2_token'' \<and> redact_message ''oauth2_token=abc'' = ''oauth2_token=abc''"
  "is_sensitive ''password''
   \<and> redact_message (CHR 0x22 # ''password'' @ CHR 0x22 # '': '' @ CHR 0x22 # ''abc'' @ [CHR 0x22])
     = CHR 0x22 # ''password'' @ CHR 0x22 # '': '' @ CHR 0x22 # ''abc'' @ [CHR 0x22]"
  by code_simp+

section \<open>Properties\<close>






end
