(* ===== verification/Schema.thy ===== *)
theory Schema
  imports Composition
begin

text \<open>
  The database schema twice: as \<open>infrastructure/sqla/tables.py\<close> declares it and as the migration of
  \<open>alembic/versions/\<close> builds it, with the naming convention that names what has no name of its own; the
  column type of \<open>infrastructure/sqla/types.py\<close>; and what \<open>alembic/env.py\<close> decides. SQLAlchemy's part
  (columns that are a primary key are not null, an unnamed constraint is named by the convention, and so
  is a bare name where the convention asks for it) and the effect of Alembic's operations are
  their documented behaviour. \<open>store_row\<close> is what the declared columns and constraints accept; it is shown
  to be the row checks that the statements of \<open>Tables\<close> make.
\<close>

section \<open>Tables\<close>

datatype sql_type = UUID_Column | Numeric nat nat | String_Column nat | Text_Column | Integer_Column | Timestamp_Tz

datatype sql_constraint =
    At_Least_Zero string | Greater_Zero string
  | Primary_Key "string list"
  | Foreign_Key "string list" string "string list" string

record sql_column =
  co_name :: string
  co_type :: sql_type
  co_nullable :: bool
  co_default :: "string option"

record sql_table =
  st_name :: string
  st_columns :: "sql_column list"
  st_constraints :: "(string \<times> sql_constraint) set"
  st_indexes :: "(string \<times> string list) set"

text \<open>\<open>NAMING_CONVENTION\<close>, applied to a table, a constraint and the name it was given.\<close>

definition NAMING_CONVENTION :: "string \<Rightarrow> string option \<Rightarrow> sql_constraint \<Rightarrow> string" where
  "NAMING_CONVENTION table given c =
     (case c of
        At_Least_Zero _ \<Rightarrow> ''ck_'' @ table @ ''_'' @ (case given of None \<Rightarrow> [] | Some n \<Rightarrow> n)
      | Greater_Zero _ \<Rightarrow> ''ck_'' @ table @ ''_'' @ (case given of None \<Rightarrow> [] | Some n \<Rightarrow> n)
      | Primary_Key _ \<Rightarrow> (case given of None \<Rightarrow> ''pk_'' @ table | Some n \<Rightarrow> n)
      | Foreign_Key cols referred _ _ \<Rightarrow>
          (case given of None \<Rightarrow> ''fk_'' @ table @ ''_'' @ hd cols @ ''_'' @ referred | Some n \<Rightarrow> n))"

definition named :: "string \<Rightarrow> (string option \<times> sql_constraint) list \<Rightarrow> (string \<times> sql_constraint) set" where
  "named table cs = set (map (\<lambda>(given, c). (NAMING_CONVENTION table given c, c)) cs)"

definition column :: "string \<Rightarrow> sql_type \<Rightarrow> sql_column" where
  "column name type = \<lparr>co_name = name, co_type = type, co_nullable = False, co_default = None\<rparr>"

definition wallets_table :: sql_table where
  "wallets_table =
     \<lparr>st_name = ''wallets'',
      st_columns =
        [column ''id'' UUID_Column, column ''owner_id'' UUID_Column, column ''balance_amount'' (Numeric 20 2),
         column ''currency'' (String_Column 3), column ''status'' (String_Column 16),
         (column ''version'' Integer_Column)\<lparr>co_default := Some ''0''\<rparr>,
         column ''created_at'' Timestamp_Tz, column ''updated_at'' Timestamp_Tz],
      st_constraints = named ''wallets''
        [(None, Primary_Key [''id'']), (Some ''balance_non_negative'', At_Least_Zero ''balance_amount'')],
      st_indexes = {(''ix_wallets_owner_id_id'', [''owner_id'', ''id''])}\<rparr>"

definition ledger_entries_table :: sql_table where
  "ledger_entries_table =
     \<lparr>st_name = ''ledger_entries'',
      st_columns =
        [column ''id'' UUID_Column, column ''wallet_id'' UUID_Column, column ''direction'' (String_Column 8),
         column ''amount'' (Numeric 20 2), column ''currency'' (String_Column 3),
         column ''balance_after'' (Numeric 20 2), (column ''description'' Text_Column)\<lparr>co_default := Some []\<rparr>,
         column ''occurred_at'' Timestamp_Tz],
      st_constraints = named ''ledger_entries''
        [(None, Primary_Key [''id'']), (None, Foreign_Key [''wallet_id''] ''wallets'' [''id''] ''CASCADE''),
         (Some ''amount_positive'', Greater_Zero ''amount'')],
      st_indexes = {(''ix_ledger_entries_wallet_id_id'', [''wallet_id'', ''id''])}\<rparr>"

section \<open>The migration\<close>

datatype migration_op =
    Create_Table string "sql_column list" "(string option \<times> sql_constraint) list"
  | Create_Index string string "string list"
  | Drop_Index string string
  | Drop_Table string

definition programming_error :: exn where "programming_error = PyExn ''ProgrammingError''"

definition with_indexes :: "((string \<times> string list) set \<Rightarrow> (string \<times> string list) set) \<Rightarrow> sql_table \<Rightarrow> sql_table" where
  "with_indexes f t = t\<lparr>st_indexes := f (st_indexes t)\<rparr>"

text \<open>A table may be dropped when no other one refers to it.\<close>

definition refers_to :: "string \<Rightarrow> sql_table \<Rightarrow> bool" where
  "refers_to name t \<longleftrightarrow> (\<exists>(n, c) \<in> st_constraints t. case c of Foreign_Key _ r _ _ \<Rightarrow> r = name | _ \<Rightarrow> False)"

fun run_op :: "migration_op \<Rightarrow> sql_table list \<Rightarrow> exn + sql_table list" where
  "run_op (Create_Table name cols cs) db =
     (if name \<in> st_name ` set db then Inl programming_error
      else Inr (db @ [\<lparr>st_name = name, st_columns = cols, st_constraints = named name cs, st_indexes = {}\<rparr>]))"
| "run_op (Create_Index ix name cols) db =
     (if name \<notin> st_name ` set db \<or> (\<exists>t \<in> set db. ix \<in> fst ` st_indexes t) then Inl programming_error
      else Inr (map (\<lambda>t. if st_name t = name then with_indexes (insert (ix, cols)) t else t) db))"
| "run_op (Drop_Index ix name) db =
     (if \<not> (\<exists>t \<in> set db. st_name t = name \<and> ix \<in> fst ` st_indexes t) then Inl programming_error
      else Inr (map (\<lambda>t. if st_name t = name then with_indexes (Set.filter (\<lambda>i. fst i \<noteq> ix)) t else t) db))"
| "run_op (Drop_Table name) db =
     (if name \<notin> st_name ` set db \<or> (\<exists>t \<in> set db. st_name t \<noteq> name \<and> refers_to name t) then Inl programming_error
      else Inr (filter (\<lambda>t. st_name t \<noteq> name) db))"

fun run_ops :: "migration_op list \<Rightarrow> sql_table list \<Rightarrow> exn + sql_table list" where
  "run_ops [] db = Inr db"
| "run_ops (x # xs) db = (case run_op x db of Inl e \<Rightarrow> Inl e | Inr db' \<Rightarrow> run_ops xs db')"

definition upgrade :: "migration_op list" where
  "upgrade =
     [Create_Table ''wallets''
        [column ''id'' UUID_Column, column ''owner_id'' UUID_Column, column ''balance_amount'' (Numeric 20 2),
         column ''currency'' (String_Column 3), column ''status'' (String_Column 16),
         (column ''version'' Integer_Column)\<lparr>co_default := Some ''0''\<rparr>,
         column ''created_at'' Timestamp_Tz, column ''updated_at'' Timestamp_Tz]
        [(Some ''balance_non_negative'', At_Least_Zero ''balance_amount''), (Some ''pk_wallets'', Primary_Key [''id''])],
      Create_Index ''ix_wallets_owner_id_id'' ''wallets'' [''owner_id'', ''id''],
      Create_Table ''ledger_entries''
        [column ''id'' UUID_Column, column ''wallet_id'' UUID_Column, column ''direction'' (String_Column 8),
         column ''amount'' (Numeric 20 2), column ''currency'' (String_Column 3),
         column ''balance_after'' (Numeric 20 2), (column ''description'' Text_Column)\<lparr>co_default := Some []\<rparr>,
         column ''occurred_at'' Timestamp_Tz]
        [(Some ''amount_positive'', Greater_Zero ''amount''),
         (Some ''fk_ledger_entries_wallet_id_wallets'', Foreign_Key [''wallet_id''] ''wallets'' [''id''] ''CASCADE''),
         (Some ''pk_ledger_entries'', Primary_Key [''id''])],
      Create_Index ''ix_ledger_entries_wallet_id_id'' ''ledger_entries'' [''wallet_id'', ''id'']]"

definition downgrade :: "migration_op list" where
  "downgrade =
     [Drop_Index ''ix_ledger_entries_wallet_id_id'' ''ledger_entries'', Drop_Table ''ledger_entries'',
      Drop_Index ''ix_wallets_owner_id_id'' ''wallets'', Drop_Table ''wallets'']"

section \<open>Times\<close>

text \<open>A \<open>datetime\<close>: the microseconds its clock shows since 1970, and its distance from UTC, if it has one.\<close>

record py_datetime =
  pd_shown :: int
  pd_offset :: "int option"

datatype bind_value = No_Value | Moment py_datetime | Other_Value

definition datetime_min :: int where "datetime_min = - 62135596800000000"
definition datetime_max :: int where "datetime_max = 253402300799999999"

definition replace_utc :: "py_datetime \<Rightarrow> py_datetime" where
  "replace_utc d = d\<lparr>pd_offset := Some 0\<rparr>"

definition astimezone_utc :: "py_datetime \<Rightarrow> exn + py_datetime" where
  "astimezone_utc d =
     (let shown = pd_shown d - (case pd_offset d of None \<Rightarrow> 0 | Some n \<Rightarrow> n)
      in if shown < datetime_min \<or> datetime_max < shown then Inl (PyExn ''OverflowError'')
         else Inr \<lparr>pd_shown = shown, pd_offset = Some 0\<rparr>)"

definition process_bind_param :: "bind_value \<Rightarrow> exn + py_datetime option" where
  "process_bind_param v =
     (case v of
        No_Value \<Rightarrow> Inr None
      | Other_Value \<Rightarrow> Inl type_error
      | Moment d \<Rightarrow> if pd_offset d = None then Inr (Some (replace_utc d)) else map_sum id Some (astimezone_utc d))"

definition process_result_value :: "py_datetime option \<Rightarrow> exn + py_datetime option" where
  "process_result_value v =
     (case v of
        None \<Rightarrow> Inr None
      | Some d \<Rightarrow> if pd_offset d = None then Inr (Some (replace_utc d)) else map_sum id Some (astimezone_utc d))"

definition instant :: "py_datetime \<Rightarrow> int" where
  "instant d = pd_shown d - (case pd_offset d of None \<Rightarrow> 0 | Some n \<Rightarrow> n)"

section \<open>The migration environment\<close>

definition DATABASE_URL ::
  "string option \<Rightarrow> (string \<Rightarrow> string \<Rightarrow> string \<Rightarrow> string \<Rightarrow> int \<Rightarrow> string \<Rightarrow> string) \<Rightarrow> settings \<Rightarrow> string" where
  "DATABASE_URL ini dsn st =
     (case ini of Some url \<Rightarrow> if url \<noteq> [] then url else async_dsn dsn (set_database st)
      | None \<Rightarrow> async_dsn dsn (set_database st))"

text \<open>\<open>None\<close> leaves the rendering to Alembic.\<close>

definition render_item :: "string \<Rightarrow> bool \<Rightarrow> string option" where
  "render_item type is_tz_aware =
     (if type = ''type'' \<and> is_tz_aware then Some ''sa.DateTime(timezone=True)'' else None)"

section \<open>Rows against the declared columns\<close>

datatype sql_value = SUuid uuid | SNum decimal | SText string | SInt int | STime datetime

fun store_value :: "sql_type \<Rightarrow> sql_value \<Rightarrow> exn + sql_value" where
  "store_value UUID_Column (SUuid u) = Inr (SUuid u)"
| "store_value (Numeric p s) (SNum d) =
     (if p = 20 \<and> s = 2 then map_sum id SNum (sql_numeric d) else Inl db_api_error)"
| "store_value (String_Column n) (SText t) = (if n < length t then Inl db_api_error else Inr (SText t))"
| "store_value Text_Column (SText t) = Inr (SText t)"
| "store_value Integer_Column (SInt n) = (if n < - (2 ^ 31) \<or> 2 ^ 31 \<le> n then Inl db_api_error else Inr (SInt n))"
| "store_value Timestamp_Tz (STime t) = Inr (STime t)"
| "store_value _ _ = Inl db_api_error"

fun store_columns :: "sql_column list \<Rightarrow> sql_value list \<Rightarrow> exn + sql_value list" where
  "store_columns [] [] = Inr []"
| "store_columns (c # cs) (v # vs) =
     (case store_value (co_type c) v of
        Inl e \<Rightarrow> Inl e
      | Inr w \<Rightarrow> map_sum id ((#) w) (store_columns cs vs))"
| "store_columns _ _ = Inl db_api_error"

text \<open>A check that is not false holds; \<open>NaN\<close> is above every number. Keys of other tables are \<open>present\<close> or not.\<close>

definition constraint_holds ::
  "(string \<Rightarrow> sql_value \<Rightarrow> bool) \<Rightarrow> (string \<times> sql_value) list \<Rightarrow> sql_constraint \<Rightarrow> bool" where
  "constraint_holds present row c =
     (case c of
        At_Least_Zero col \<Rightarrow> (case map_of row col of Some (SNum d) \<Rightarrow> \<not> (dec_is_finite d \<and> dec_lt_zero d) | _ \<Rightarrow> True)
      | Greater_Zero col \<Rightarrow> (case map_of row col of Some (SNum d) \<Rightarrow> \<not> (dec_is_finite d \<and> dec_le_zero d) | _ \<Rightarrow> True)
      | Primary_Key _ \<Rightarrow> True
      | Foreign_Key cols referred _ _ \<Rightarrow>
          (case map_of row (hd cols) of Some v \<Rightarrow> present referred v | None \<Rightarrow> True))"

definition store_row :: "(string \<Rightarrow> sql_value \<Rightarrow> bool) \<Rightarrow> sql_table \<Rightarrow> sql_value list \<Rightarrow> exn + sql_value list" where
  "store_row present t vs =
     (case store_columns (st_columns t) vs of
        Inl e \<Rightarrow> Inl e
      | Inr ws \<Rightarrow>
          if \<forall>(n, c) \<in> st_constraints t. constraint_holds present (zip (map co_name (st_columns t)) ws) c
          then Inr ws else Inl integrity_error)"

definition wallet_values :: "uuid \<Rightarrow> wallet_row \<Rightarrow> sql_value list" where
  "wallet_values i r =
     [SUuid i, SUuid (wr_owner_id r), SNum (wr_balance_amount r), SText (wr_currency r), SText (wr_status r),
      SInt (wr_version r), STime (wr_created_at r), STime (wr_updated_at r)]"

definition entry_values :: "uuid \<Rightarrow> entry_row \<Rightarrow> sql_value list" where
  "entry_values i r =
     [SUuid i, SUuid (er_wallet_id r), SText (er_direction r), SNum (er_amount r), SText (er_currency r),
      SNum (er_balance_after r), SText (er_description r), STime (er_occurred_at r)]"

definition wallet_present :: "tables \<Rightarrow> string \<Rightarrow> sql_value \<Rightarrow> bool" where
  "wallet_present tb table v \<longleftrightarrow>
     (case v of SUuid u \<Rightarrow> table = ''wallets'' \<and> DAList.lookup (tb_wallets tb) u \<noteq> None | _ \<Rightarrow> False)"

section \<open>The migration and the declaration agree\<close>

definition fresh_database :: "sql_table list \<Rightarrow> bool" where
  "fresh_database db \<longleftrightarrow>
     (\<forall>t \<in> set db. st_name t \<notin> {''wallets'', ''ledger_entries''} \<and> \<not> refers_to ''wallets'' t \<and> \<not> refers_to ''ledger_entries'' t
        \<and> {''ix_wallets_owner_id_id'', ''ix_ledger_entries_wallet_id_id''} \<inter> fst ` st_indexes t = {})"

lemma named_wallets:
  "named ''wallets'' [(Some ''balance_non_negative'', At_Least_Zero ''balance_amount''), (Some ''pk_wallets'', Primary_Key [''id''])]
   = st_constraints wallets_table"
  by (auto simp: named_def NAMING_CONVENTION_def wallets_table_def)

lemma named_ledger_entries:
  "named ''ledger_entries'' [(Some ''amount_positive'', Greater_Zero ''amount''),
     (Some ''fk_ledger_entries_wallet_id_wallets'', Foreign_Key [''wallet_id''] ''wallets'' [''id''] ''CASCADE''),
     (Some ''pk_ledger_entries'', Primary_Key [''id''])]
   = st_constraints ledger_entries_table"
  by (auto simp: named_def NAMING_CONVENTION_def ledger_entries_table_def)

lemma untouched: "(\<And>t. t \<in> set db \<Longrightarrow> st_name t \<noteq> n) \<Longrightarrow> map (\<lambda>t. if st_name t = n then f t else t) db = db"
  by (rule map_idI) simp

lemma not_image: "(\<And>t. t \<in> A \<Longrightarrow> f t \<noteq> x) \<Longrightarrow> x \<notin> f ` A"
  by blast

lemma none_in: "(\<And>t. t \<in> A \<Longrightarrow> \<not> P t) \<Longrightarrow> \<not> (\<exists>t \<in> A. P t)"
  by blast

lemma fresh_tables:
  assumes "fresh_database db" "t \<in> set db"
  shows "st_name t \<noteq> ''wallets''" "st_name t \<noteq> ''ledger_entries''" "\<not> refers_to ''wallets'' t"
    "\<not> refers_to ''ledger_entries'' t" "''ix_wallets_owner_id_id'' \<notin> fst ` st_indexes t"
    "''ix_ledger_entries_wallet_id_id'' \<notin> fst ` st_indexes t"
  using assms by (auto simp: fresh_database_def)

lemma upgrade_wallets:
  assumes "fresh_database db"
  shows "run_ops (take 2 upgrade) db = Inr (db @ [wallets_table])"
proof -
  have "''wallets'' \<notin> st_name ` set db" "\<not> (\<exists>t \<in> set db. ''ix_wallets_owner_id_id'' \<in> fst ` st_indexes t)"
    by (rule not_image, erule fresh_tables(1) [OF assms]) (rule none_in, erule fresh_tables(5) [OF assms])
  moreover have "map (\<lambda>t. if st_name t = ''wallets'' then with_indexes f t else t) db = db" for f
    by (rule untouched) (rule fresh_tables(1) [OF assms])
  ultimately show ?thesis
    by (simp add: upgrade_def named_wallets) (simp add: with_indexes_def wallets_table_def)
qed

lemma upgrade_entries:
  assumes "fresh_database db"
  shows "run_ops (drop 2 upgrade) (db @ [wallets_table]) = Inr (db @ [wallets_table, ledger_entries_table])"
proof -
  have w: "st_name wallets_table = ''wallets''" "''ix_ledger_entries_wallet_id_id'' \<notin> fst ` st_indexes wallets_table"
    by (simp_all add: wallets_table_def)
  have "''ledger_entries'' \<notin> st_name ` set db" "\<not> (\<exists>t \<in> set db. ''ix_ledger_entries_wallet_id_id'' \<in> fst ` st_indexes t)"
    by (rule not_image, erule fresh_tables(2) [OF assms]) (rule none_in, erule fresh_tables(6) [OF assms])
  moreover have "map (\<lambda>t. if st_name t = ''ledger_entries'' then with_indexes f t else t) db = db" for f
    by (rule untouched) (rule fresh_tables(2) [OF assms])
  ultimately show ?thesis using w
    by (simp add: upgrade_def named_ledger_entries) (simp add: with_indexes_def ledger_entries_table_def)
qed

lemma run_ops_append:
  "run_ops (xs @ ys) db = (case run_ops xs db of Inl e \<Rightarrow> Inl e | Inr db' \<Rightarrow> run_ops ys db')"
  by (induction xs arbitrary: db) (auto split: sum.split)

lemma upgrade_declares:
  assumes "fresh_database db"
  shows "run_ops upgrade db = Inr (db @ [wallets_table, ledger_entries_table])"
  using run_ops_append [of "take 2 upgrade" "drop 2 upgrade" db] upgrade_wallets [OF assms] upgrade_entries [OF assms]
  by simp

text \<open>Rows are checked as the statements of \<open>Tables\<close> check them.\<close>

lemma sql_numeric_error: "sql_numeric d = Inl e \<Longrightarrow> e = db_api_error"
  by (auto simp: sql_numeric_def Let_def split: decimal.splits if_splits)

lemma wallet_row_stored:
  "store_row present wallets_table (wallet_values i r) = map_sum id (wallet_values i) (check_wallet_row r)"
proof (cases "sql_numeric (wr_balance_amount r)")
  case (Inl e)
  with sql_numeric_error [OF Inl] show ?thesis
    by (simp add: store_row_def wallets_table_def wallet_values_def column_def check_wallet_row_def)
next
  case (Inr b)
  have cs: "(\<forall>(n, c) \<in> st_constraints wallets_table. P c)
      \<longleftrightarrow> P (Primary_Key [''id'']) \<and> P (At_Least_Zero ''balance_amount'')" for P
    by (simp add: wallets_table_def named_def)
  show ?thesis
    unfolding store_row_def cs check_wallet_row_def
    by (simp add: Inr wallets_table_def wallet_values_def column_def constraint_holds_def)
qed

lemma entry_row_stored:
  "store_row (wallet_present tb) ledger_entries_table (entry_values i r) = map_sum id (entry_values i) (check_entry_row tb r)"
proof (cases "sql_numeric (er_amount r)")
  case (Inl e)
  with sql_numeric_error [OF Inl] show ?thesis
    by (simp add: store_row_def ledger_entries_table_def entry_values_def column_def check_entry_row_def)
next
  case a: (Inr a)
  show ?thesis
  proof (cases "sql_numeric (er_balance_after r)")
    case (Inl e)
    with a sql_numeric_error [OF Inl] show ?thesis
      by (simp add: store_row_def ledger_entries_table_def entry_values_def column_def check_entry_row_def)
  next
    case (Inr b)
    have cs: "(\<forall>(n, c) \<in> st_constraints ledger_entries_table. P c) \<longleftrightarrow> P (Primary_Key [''id''])
        \<and> P (Foreign_Key [''wallet_id''] ''wallets'' [''id''] ''CASCADE'') \<and> P (Greater_Zero ''amount'')" for P
      by (simp add: ledger_entries_table_def named_def)
    show ?thesis
      unfolding store_row_def cs check_entry_row_def
      by (simp add: a Inr ledger_entries_table_def entry_values_def column_def constraint_holds_def wallet_present_def)
  qed
qed

text \<open>Times keep their instant and leave as UTC, whatever zone they came in.\<close>

lemma bound_time:
  assumes "process_bind_param (Moment d) = Inr x"
  shows "\<exists>b. x = Some b \<and> pd_offset b = Some 0 \<and> instant b = instant d
    \<and> (pd_shown b \<in> {datetime_min .. datetime_max} \<longrightarrow> process_result_value (Some b) = Inr (Some b))"
proof -
  from assms have "x \<noteq> None \<and> pd_offset (the x) = Some 0 \<and> instant (the x) = instant d"
    by (cases "pd_offset d") (auto simp: process_bind_param_def replace_utc_def astimezone_utc_def instant_def
        Let_def split: if_splits)
  then obtain b where b: "x = Some b" "pd_offset b = Some 0" "instant b = instant d" by auto
  then have "pd_shown b \<in> {datetime_min .. datetime_max} \<longrightarrow> process_result_value (Some b) = Inr (Some b)"
    by (cases b) (simp add: process_result_value_def astimezone_utc_def Let_def)
  with b show ?thesis by blast
qed

section \<open>Properties\<close>

lemma downgrade_undoes:
  assumes "fresh_database db"
  shows "run_ops downgrade (db @ [wallets_table, ledger_entries_table]) = Inr db"
proof -
  define l where "l = with_indexes (\<lambda>_. {}) ledger_entries_table"
  define w where "w = with_indexes (\<lambda>_. {}) wallets_table"
  have names: "st_name wallets_table = ''wallets''" "st_name w = ''wallets''"
      "st_name ledger_entries_table = ''ledger_entries''" "st_name l = ''ledger_entries''"
    by (simp_all add: wallets_table_def ledger_entries_table_def w_def l_def with_indexes_def)
  have same: "map (\<lambda>t. if st_name t = ''wallets'' then with_indexes f t else t) db = db"
      "map (\<lambda>t. if st_name t = ''ledger_entries'' then with_indexes f t else t) db = db" for f
    by (rule untouched, rule fresh_tables(1) [OF assms], assumption)
       (rule untouched, rule fresh_tables(2) [OF assms], assumption)
  have kept: "filter (\<lambda>t. st_name t \<noteq> ''wallets'') db = db" "filter (\<lambda>t. st_name t \<noteq> ''ledger_entries'') db = db"
    by (rule filter_True, rule ballI, erule fresh_tables(1) [OF assms])
       (rule filter_True, rule ballI, erule fresh_tables(2) [OF assms])
  have unreferred: "\<not> (\<exists>t \<in> set db. st_name t \<noteq> n \<and> refers_to ''wallets'' t)"
      "\<not> (\<exists>t \<in> set db. st_name t \<noteq> n \<and> refers_to ''ledger_entries'' t)" for n
    using fresh_tables(3,4) [OF assms] by blast+
  have refs: "\<not> refers_to ''ledger_entries'' wallets_table"
    by (auto simp: refers_to_def wallets_table_def named_def)
  have ix: "''ix_ledger_entries_wallet_id_id'' \<in> fst ` st_indexes ledger_entries_table"
      "''ix_wallets_owner_id_id'' \<in> fst ` st_indexes wallets_table"
    by (simp_all add: wallets_table_def ledger_entries_table_def)
  have cut: "with_indexes (Set.filter (\<lambda>i. fst i \<noteq> ''ix_ledger_entries_wallet_id_id'')) ledger_entries_table = l"
      "with_indexes (Set.filter (\<lambda>i. fst i \<noteq> ''ix_wallets_owner_id_id'')) wallets_table = w"
    by (auto simp: with_indexes_def l_def w_def wallets_table_def ledger_entries_table_def)
  have 1: "run_op (Drop_Index ''ix_ledger_entries_wallet_id_id'' ''ledger_entries'') (db @ [wallets_table, ledger_entries_table])
      = Inr (db @ [wallets_table, l])"
    using ix(1) by (simp add: names same cut)
  have 2: "run_op (Drop_Table ''ledger_entries'') (db @ [wallets_table, l]) = Inr (db @ [wallets_table])"
    using unreferred(2) by (simp add: names refs kept)
  have 3: "run_op (Drop_Index ''ix_wallets_owner_id_id'' ''wallets'') (db @ [wallets_table]) = Inr (db @ [w])"
    using ix(2) by (simp add: names same cut)
  have 4: "run_op (Drop_Table ''wallets'') (db @ [w]) = Inr db"
    using unreferred(1) by (simp add: names kept)
  show ?thesis by (simp only: downgrade_def run_ops.simps 1 2 3 4 sum.case)
qed

text \<open>C33: the schema that the migration builds is the one the repositories are written against. On a database
  without these tables the migration builds exactly the two declared tables, names of constraints
  and indexes included, and its downgrade takes exactly them away again; and a row is accepted by
  the columns and constraints of the built tables, and stored, exactly as the
  statements of the repositories check it.\<close>

theorem migration_builds_the_model:
  assumes "fresh_database db"
  shows "\<exists>w l. run_ops upgrade db = Inr (db @ [w, l]) \<and> w = wallets_table \<and> l = ledger_entries_table
    \<and> run_ops downgrade (db @ [w, l]) = Inr db
    \<and> (\<forall>present i r. store_row present w (wallet_values i r) = map_sum id (wallet_values i) (check_wallet_row r))
    \<and> (\<forall>tb i r. store_row (wallet_present tb) l (entry_values i r) = map_sum id (entry_values i) (check_entry_row tb r))"
  using upgrade_declares [OF assms] downgrade_undoes [OF assms] wallet_row_stored entry_row_stored by blast

theorem migration_builds_the_model_witness:
  "let db = [\<lparr>st_name = ''alembic_version'', st_columns = [column ''version_num'' (String_Column 32)],
       st_constraints = {(''alembic_version_pkc'', Primary_Key [''version_num''])}, st_indexes = {}\<rparr>]
   in run_ops upgrade db = Inr (db @ [wallets_table, ledger_entries_table])
     \<and> run_ops downgrade (db @ [wallets_table, ledger_entries_table]) = Inr db"
proof -
  let ?db = "[\<lparr>st_name = ''alembic_version'', st_columns = [column ''version_num'' (String_Column 32)],
       st_constraints = {(''alembic_version_pkc'', Primary_Key [''version_num''])}, st_indexes = {}\<rparr>]"
  have "fresh_database ?db" by (simp add: fresh_database_def refers_to_def)
  from migration_builds_the_model [OF this] show ?thesis by (auto simp: Let_def)
qed

end
