(* ===== verification/Declared_Responses.thy ===== *)
theory Declared_Responses
  imports Composition
begin

text \<open>
  Which exceptions leave which operation, followed through the stack: \<open>raises_only S m\<close> says that whatever
  \<open>m\<close> raises, from any state, is in \<open>S\<close>. The locale \<open>port_faults\<close> states what the ports may raise, in the
  statuses their exceptions are answered with; the service's adapters provide it on every database driver
  whose failures are its own exceptions (\<open>driver_engine\<close>). The property compares what the API answers
  with the responses that its routes declare (\<open>responses.py\<close>).
\<close>

section \<open>What may be raised\<close>

definition raises_only :: "('e \<Rightarrow> bool) \<Rightarrow> ('s, 'e, 'a) prog \<Rightarrow> bool" where
  "raises_only S m \<longleftrightarrow> (\<forall>s e t. m s = (Inl e, t) \<longrightarrow> S e)"

lemma raises_onlyI: "(\<And>s e t. m s = (Inl e, t) \<Longrightarrow> S e) \<Longrightarrow> raises_only S m"
  by (auto simp: raises_only_def)

lemma raises_onlyD: "raises_only S m \<Longrightarrow> m s = (Inl e, t) \<Longrightarrow> S e"
  by (auto simp: raises_only_def)

named_theorems raises \<open>what a program built from others raises\<close>

lemma raises_mono: "raises_only S m \<Longrightarrow> (\<And>e. S e \<Longrightarrow> T e) \<Longrightarrow> raises_only T m"
  by (auto simp: raises_only_def)

lemma raises_ret [raises]: "raises_only S (pret x)"
  by (simp add: raises_only_def)

lemma raises_raise [raises]: "S e \<Longrightarrow> raises_only S (praise e)"
  by (simp add: raises_only_def)

lemma raises_lift [raises]: "(\<And>e. r = Inl e \<Longrightarrow> S e) \<Longrightarrow> raises_only S (plift r)"
  by (simp add: raises_only_def)

lemma raises_bind [raises]:
  "raises_only S m \<Longrightarrow> (\<And>x. raises_only S (f x)) \<Longrightarrow> raises_only S (pbind m f)"
  by (rule raises_onlyI) (auto elim!: pbindE dest: raises_onlyD)

lemma raises_then [raises]: "raises_only S m \<Longrightarrow> raises_only S n \<Longrightarrow> raises_only S (pthen m n)"
  unfolding pthen_def by (rule raises_bind)

lemma raises_catch:
  "raises_only S m \<Longrightarrow> (\<And>e. S e \<Longrightarrow> raises_only T (h e)) \<Longrightarrow> raises_only T (pcatch m h)"
  by (rule raises_onlyI) (auto elim!: pcatchE dest: raises_onlyD)

lemma raises_finally [raises]:
  "raises_only S m \<Longrightarrow> (\<And>r. raises_only S (fin r)) \<Longrightarrow> raises_only S (pfinally m fin)"
  by (rule raises_onlyI) (auto elim!: pfinallyE dest: raises_onlyD)

lemma raises_if [raises]: "(b \<Longrightarrow> raises_only S m) \<Longrightarrow> (\<not> b \<Longrightarrow> raises_only S n) \<Longrightarrow> raises_only S (if b then m else n)"
  by simp

lemma raises_option [raises]:
  "raises_only S m \<Longrightarrow> (\<And>y. raises_only S (f y)) \<Longrightarrow> raises_only S (case x of None \<Rightarrow> m | Some y \<Rightarrow> f y)"
  by (cases x) auto

lemma raises_label [raises]:
  "raises_only S m \<Longrightarrow> raises_only (\<lambda>(e, l). S e) (with_label l m)"
  by (rule raises_onlyI) (auto elim!: with_labelE dest: raises_onlyD)

lemma raises_lock [raises]:
  "raises_only S (lock_enter P key ttl wait) \<Longrightarrow> (\<And>h. raises_only S (body h)) \<Longrightarrow> (\<And>h. raises_only S (lock_exit P h))
     \<Longrightarrow> raises_only S (with_lock P key ttl wait body)"
  unfolding with_lock_def by (intro raises)

lemma raises_observed [raises]:
  assumes "raises_only S (perf_counter P)" "\<And>m. raises_only S (observe P m)" "raises_only (\<lambda>(e, l). S e) body"
  shows "raises_only S (observed P name body)"
proof (rule raises_onlyI)
  fix s e t
  assume "observed P name body s = (Inl e, t)"
  then show "S e"
  proof (cases rule: observedE)
    case (Untimed f)
    with assms(1) show ?thesis by (auto dest: raises_onlyD)
  next
    case (Ran st s0 b u f)
    have fin: "raises_only S (pbind (perf_counter P) (\<lambda>now. observe P (ObserveInteractor name
        (reported_label b) (now - st))))" by (intro raises assms)
    show ?thesis
    proof (cases f)
      case (Inl e')
      with Ran(3,4) fin show ?thesis by (auto dest: raises_onlyD)
    next
      case (Inr x)
      with Ran(4) obtain l where "b = Inl (e, l)" by (cases b rule: drop_label.cases) auto
      with Ran(2) assms(3) show ?thesis by (auto dest: raises_onlyD)
    qed
  qed
qed

section \<open>Statuses\<close>

text \<open>The status an exception is answered with; a cancelled request is not answered.\<close>

fun exn_status :: "exn \<Rightarrow> int option" where
  "exn_status (AppExn a) = Some (ae_status_code a)"
| "exn_status (DomainExn d) = Some (domain_status (de_code d))"
| "exn_status (PyExn name) = Some 500"
| "exn_status CancelledExn = None"

lemma error_response_status: "error_response rq e = Some r \<Longrightarrow> exn_status e = Some (jp_status r)"
  by (cases e) (auto simp: handle_application_error_def handle_domain_error_def handle_unexpected_def problem_members)

text \<open>Answered with a status of \<open>N\<close>, or with 500: an exception that nothing foresees may come from anywhere.\<close>

definition answers :: "int set \<Rightarrow> exn \<Rightarrow> bool" where
  "answers N e \<longleftrightarrow> (\<forall>n. exn_status e = Some n \<longrightarrow> n \<in> insert 500 N)"

lemma answers_simps [simp]:
  "answers N (PyExn name)" "answers N CancelledExn"
  "answers N (app_exn cls k d) \<longleftrightarrow> default_status_code cls \<in> insert 500 N"
  "answers N (domain_exn c ctx) \<longleftrightarrow> domain_status c \<in> insert 500 N"
  by (auto simp: answers_def app_exn_def app_error_new_def domain_exn_def domain_error_new_def)

lemma answers_mono: "answers N e \<Longrightarrow> N \<subseteq> M \<Longrightarrow> answers M e"
  by (auto simp: answers_def)

abbreviation fails_with :: "int set \<Rightarrow> ('s, exn, 'a) prog \<Rightarrow> bool" where
  "fails_with N \<equiv> raises_only (answers N)"

lemma fails_mono: "fails_with N m \<Longrightarrow> N \<subseteq> M \<Longrightarrow> fails_with M m"
  by (erule raises_mono) (rule answers_mono)

lemma domain_statuses [simp]:
  "domain_status WALLET_INSUFFICIENT_FUNDS = 409" "domain_status WALLET_CLOSED = 409" "domain_status WALLET_NOT_EMPTY = 409"
  "domain_status CURRENCY_CODE_INVALID = 422" "domain_status MONEY_CURRENCY_MISMATCH = 422"
  "domain_status MONEY_AMOUNT_NOT_POSITIVE = 422" "domain_status MONEY_SCALE_EXCEEDED = 422"
  "domain_status MONEY_AMOUNT_NOT_FINITE = 422" "domain_status MONEY_AMOUNT_OUT_OF_RANGE = 422"
  "domain_status WALLET_BALANCE_NEGATIVE = 422"
  by (simp_all add: domain_status_def DOMAIN_STATUS_OVERRIDES_def)

section \<open>The domain\<close>

lemma decimal_faults:
  "dec_abs a = Inl e \<Longrightarrow> answers {} e" "dec_add a b = Inl e \<Longrightarrow> answers {} e" "dec_sub a b = Inl e \<Longrightarrow> answers {} e"
proof -
  have rounded: "dec_fix s c x = Inl e \<Longrightarrow> answers {} e" for s c x
    by (auto simp: dec_fix_def dec_overflow_def Let_def split: if_splits)
  have add: "dec_add a b = Inl e \<Longrightarrow> answers {} e" for a b
    by (cases "(a, b)" rule: dec_add.cases) (auto simp: Let_def split: if_splits bool.splits decimal.splits dest: rounded)
  show "dec_abs a = Inl e \<Longrightarrow> answers {} e"
    by (cases a) (auto split: if_splits dest: rounded)
  show "dec_add a b = Inl e \<Longrightarrow> answers {} e" "dec_sub a b = Inl e \<Longrightarrow> answers {} e"
    by (auto simp: dec_sub_def dest: add)
qed

lemma currency_faults: "currency_new s = Inl e \<Longrightarrow> answers {422} e"
  by (auto simp: currency_new_def value_object_post_init_def currency_validate_def split: sum.splits if_splits)

lemma money_faults: "money_new a cur = Inl e \<Longrightarrow> answers {422} e"
  by (auto simp: money_new_def value_object_post_init_def money_validate_def
      split: sum.splits if_splits dest!: decimal_faults intro: answers_mono)

lemma wallet_new_faults: "wallet_new i ow bal st v c u = Inl e \<Longrightarrow> answers {422} e"
  by (auto simp: wallet_new_def entity_init_def split: if_splits)

lemma wallet_move_faults: "wallet_move dir amount now w = (Inl e, w') \<Longrightarrow> answers {409, 422} e"
  by (auto simp: wallet_move_def wallet_deposit_def wallet_withdraw_def wallet_require_open_def require_positive_def
      money_add_def money_sub_def money_lt_def assert_same_currency_def Let_def
      split: sum.splits if_splits ledger_direction.splits
      dest!: decimal_faults money_faults intro: answers_mono)

section \<open>The adapters\<close>

text \<open>A driver reports its failures by its own exceptions.\<close>

locale driver_engine =
  fixes E :: "'d engine"
  assumes execute_faults: "fails_with {} (en_execute E st)"
    and commit_faults: "fails_with {} (en_commit E)"
    and rollback_faults: "fails_with {} (en_rollback E)"

lemma enum_faults: "wallet_status_of v = Inl e \<Longrightarrow> answers N e" "direction_of v = Inl e \<Longrightarrow> answers N e"
  by (auto simp: wallet_status_of_def direction_of_def value_error_def split: if_split_asm)

lemma entity_faults:
  "wallet_to_entity ir = Inl e \<Longrightarrow> answers {422} e" "entry_to_entity jr = Inl e \<Longrightarrow> answers {422} e"
  by (auto simp: wallet_to_entity_def entry_to_entity_def entity_init_def Let_def split: sum.splits
      dest: currency_faults money_faults wallet_new_faults enum_faults)

lemma map_result_raised: "map_result f xs = Inl e \<Longrightarrow> \<exists>x. f x = Inl e"
  by (induction xs) (auto split: sum.split_asm)

lemma one_or_none_faults: "one_or_none rows = Inl e \<Longrightarrow> answers N e"
  by (auto simp: one_or_none_def split: list.splits)

lemma paginate_faults:
  "paginate wallet_to_entity ws n = Inl e \<Longrightarrow> answers {422} e" "paginate entry_to_entity es n = Inl e \<Longrightarrow> answers {422} e"
  by (auto simp: paginate_def Let_def split: sum.split_asm dest!: map_result_raised dest: entity_faults)

lemma decode_cursor_faults: "decode_cursor c = Inl e \<Longrightarrow> answers {422} e"
  by (auto dest: decode_cursor_error)

lemma on_db_faults: "raises_only S m \<Longrightarrow> raises_only S (on_db m)"
  by (rule raises_onlyI) (auto elim!: on_dbE dest: raises_onlyD)

context driver_engine begin

lemma execute_any: "fails_with N (en_execute E st)"
  by (rule fails_mono [OF execute_faults]) simp

lemma repository_faults:
  "fails_with {422} (sqla_wallet_read E i ow fu)"
  "fails_with {422} (sqla_wallet_list_by_owner E ow n c)"
  "fails_with {} (sqla_wallet_add E w)"
  "fails_with {} (sqla_wallet_update E w v)"
  "fails_with {} (sqla_ledger_add E en)"
  "fails_with {422} (sqla_ledger_read E u ow)"
  "fails_with {422} (sqla_ledger_list_by_wallet E i ow n c)"
  unfolding sqla_wallet_read_def sqla_wallet_list_by_owner_def sqla_ledger_read_def sqla_ledger_list_by_wallet_def
    sqla_wallet_add_def sqla_wallet_update_def sqla_ledger_add_def Let_def case_prod_beta
  by (auto intro!: raises execute_any dest: entity_faults decode_cursor_faults one_or_none_faults
      paginate_faults)

end

lemma monotonic_faults: "raises_only S monotonic"
  by (rule raises_onlyI) (metis monotonicE prod.inject sum.distinct(1))

lemma memory_faults:
  "raises_only S (lk_enter k ttl wait)" "raises_only S (lk_exit h)" "raises_only S (im_reserve k fp n)"
  "raises_only S (im_confirm k resp n)" "raises_only S (im_release k)" "raises_only S (rl_consume k policy cost)"
proof (rule raises_onlyI; drule lk_enter_run; simp split: if_splits)
  show "raises_only S (lk_exit h)" by (rule raises_onlyI) (drule lk_exit_run, simp)
  show "raises_only S (im_reserve k fp n)"
    by (rule raises_onlyI) (drule im_reserve_run, simp split: if_splits option.splits)
  show "raises_only S (im_confirm k resp n)" by (rule raises_onlyI) (drule im_confirm_run, simp)
  show "raises_only S (im_release k)" by (rule raises_onlyI) (drule im_release_run, simp)
  show "raises_only S (rl_consume k policy cost)" by (rule raises_onlyI) (drule rl_consume_run, auto)
qed

section \<open>The service and the use cases\<close>

text \<open>What the ports document: a repository raises the errors of the entities and cursors it reads, a store or a
  gate that cannot be reached is an unavailable dependency.\<close>

locale port_faults =
  fixes P :: "'s ports"
  assumes wallets_read_faults: "fails_with {422} (wallets_read P i ow fu)"
    and wallets_list_faults: "fails_with {422} (wallets_list_by_owner P ow n c)"
    and wallets_add_faults: "fails_with {} (wallets_add P w)"
    and wallets_update_faults: "fails_with {} (wallets_update P w v)"
    and ledger_add_faults: "fails_with {} (ledger_add P en)"
    and ledger_read_faults: "fails_with {422} (ledger_read P u ow)"
    and ledger_list_faults: "fails_with {422} (ledger_list_by_wallet P i ow n c)"
    and tx_commit_faults: "fails_with {} (tx_commit P)"
    and tx_rollback_faults: "fails_with {} (tx_rollback P)"
    and lock_enter_faults: "fails_with {503} (lock_enter P k ttl wait)"
    and lock_exit_faults: "fails_with {503} (lock_exit P h)"
    and idem_reserve_faults: "fails_with {503} (idem_reserve P k fp m)"
    and idem_confirm_faults: "fails_with {503} (idem_confirm P k resp m)"
    and idem_release_faults: "fails_with {503} (idem_release P k)"
    and clock_now_faults: "fails_with {} (clock_now P)"
    and new_uuid_faults: "fails_with {} (new_uuid P)"
    and perf_counter_faults: "fails_with {} (perf_counter P)"
    and rate_consume_faults: "fails_with {503} (rate_consume P k policy cost)"
    and risk_assess_faults: "fails_with {503} (risk_assess P check)"
    and observe_faults: "fails_with {} (observe P metric)"
begin

lemmas port_ops = wallets_read_faults wallets_list_faults wallets_add_faults wallets_update_faults ledger_add_faults
  ledger_read_faults ledger_list_faults tx_commit_faults tx_rollback_faults lock_enter_faults lock_exit_faults
  idem_reserve_faults idem_confirm_faults idem_release_faults clock_now_faults new_uuid_faults perf_counter_faults
  rate_consume_faults risk_assess_faults observe_faults

lemmas ops = port_ops [THEN fails_mono]

lemma refuse_faults: "answers N e \<Longrightarrow> 503 \<in> N \<Longrightarrow> fails_with N (mv_refuse P req e)"
  unfolding mv_refuse_def mv_release_def by (intro raises ops; simp)

lemma recorded_faults: "recorded_entry_id response = Inl e \<Longrightarrow> answers N e"
proof -
  have "uuid_parse v = Inl x \<Longrightarrow> answers N x" for v x
    by (auto simp: uuid_parse_def py_int16_def value_error_def Let_def split: if_split_asm sum.split_asm)
  then show "recorded_entry_id response = Inl e \<Longrightarrow> answers N e"
    by (auto simp: recorded_entry_id_def uuid_of_value_def key_error_def value_error_def
        split: option.splits sum.split_asm pyval.split_asm)
qed

lemma claim_faults: "fails_with {409, 422, 503} (mv_claim P cfg req)"
  unfolding mv_claim_def mv_replay_def
  by (auto intro!: raises ops split: option.splits dest: recorded_faults)

lemma confirm_faults: "fails_with {503} (mv_confirm P cfg req w entry)"
proof -
  have "fails_with {503} (pcatch (pthen (idem_confirm P k resp n) (pret ok))
      (\<lambda>e. if is_exception e then pret label else praise e))" for k resp n ok label
    by (rule raises_catch [of "answers {503}"]) (intro raises ops; simp)+
  then show ?thesis
    unfolding mv_confirm_def by (auto intro!: raises ops)
qed

lemma write_faults: "fails_with {409, 503} (mv_write P cfg req w v b now)"
  unfolding mv_write_def Let_def
  by (intro raises ops refuse_faults fails_mono [OF confirm_faults]; simp)

lemma locked_faults: "fails_with {404, 409, 422, 503} (mv_apply_locked P cfg req)"
  unfolding mv_apply_locked_def
  by (auto intro!: raises ops refuse_faults fails_mono [OF write_faults] split: option.splits prod.splits sum.splits
      dest!: wallet_move_faults intro: answers_mono)

lemma apply_faults: "fails_with {404, 409, 422, 503} (mv_apply P cfg req)"
  unfolding mv_apply_def mv_locked_body_def
  by (intro raises ops refuse_faults locked_faults fails_mono [OF claim_faults]; simp)

lemma gate_faults:
  "raises_only (\<lambda>(e, l). answers {429, 503} e) (rate_limit_gate P mms req)"
  "raises_only (\<lambda>(e, l). answers {403, 503} e) (risk_gate P mms req)"
  unfolding rate_limit_gate_def risk_gate_def Let_def
  by (intro raises ops; simp)+

lemma labelled_mono:
  "raises_only (\<lambda>(e, l). answers N e) m \<Longrightarrow> N \<subseteq> M \<Longrightarrow> raises_only (\<lambda>(e, l). answers M e) m"
  by (erule raises_mono) (auto intro: answers_mono)

lemma movement_faults: "fails_with {403, 404, 409, 422, 429, 503} (movement_run P cfg mms req)"
proof -
  have "raises_only (\<lambda>(e, l). answers {403, 404, 409, 422, 429, 503} e) (movement_try P cfg mms req)"
    unfolding movement_try_def
    by (intro raises gate_faults [THEN labelled_mono] apply_faults [THEN fails_mono]; simp)
  then have "raises_only (\<lambda>(e, l). answers {403, 404, 409, 422, 429, 503} e) (movement_body P cfg mms req)"
    unfolding movement_body_def
  proof (rule raises_catch)
    fix x :: "exn \<times> string"
    assume "(\<lambda>(e, l). answers {403, 404, 409, 422, 429, 503} e) x"
    then show "raises_only (\<lambda>(e, l). answers {403, 404, 409, 422, 429, 503} e) (praise (relabel x))"
      by (cases x rule: relabel.cases) (auto intro!: raises)
  qed
  then show ?thesis unfolding movement_run_def by (intro raises ops; simp)
qed

lemma use_case_faults:
  "fails_with {422} (open_wallet P oc)" "fails_with {404, 422} (get_wallet P gq)"
  "fails_with {422} (list_wallets P lq)" "fails_with {404, 422} (list_ledger_entries P eq)"
  unfolding open_wallet_def open_wallet_try_def get_wallet_def list_wallets_def list_ledger_entries_def wallet_not_found_def
  by (auto intro!: raises ops simp: wallet_open_def money_zero_eq dest: wallet_new_faults)

end

section \<open>The ports of the service\<close>

text \<open>A client of the outside world that raises its library's exceptions, or that of a bulkhead that cannot be
  reached.\<close>

definition outbound_faults :: "'s outbound \<Rightarrow> bool" where
  "outbound_faults B \<longleftrightarrow> (\<forall>p l h n a b d m q.
     fails_with {503} (ob_lease_enter B p) \<and> fails_with {503} (ob_lease_exit B p l) \<and> fails_with {} (ob_monotonic B)
     \<and> fails_with {} (ob_perf_counter B) \<and> fails_with {} (ob_sleep B d) \<and> fails_with {} (ob_uniform B a b)
     \<and> fails_with {} (ob_correlation_id B) \<and> fails_with {} (ob_post B q) \<and> fails_with {} (ob_read B h n)
     \<and> fails_with {} (ob_close B h) \<and> fails_with {} (ob_observe B m))"

lemma outbound_faultsD:
  assumes "outbound_faults B"
  shows "fails_with {503} (ob_lease_enter B p)" "fails_with {503} (ob_lease_exit B p l)" "fails_with {} (ob_monotonic B)"
    "fails_with {} (ob_perf_counter B)" "fails_with {} (ob_sleep B d)" "fails_with {} (ob_uniform B a b)"
    "fails_with {} (ob_correlation_id B)" "fails_with {} (ob_post B q)" "fails_with {} (ob_read B h n)"
    "fails_with {} (ob_close B h)" "fails_with {} (ob_observe B m)"
  using assms unfolding outbound_faults_def by blast+

lemma json_faults: "json_loads depth b = Inl e \<Longrightarrow> answers N e"
  by (drule json_loads_errors) (auto simp: value_error_def recursion_error_def json_decode_error_def
      unicode_decode_error_def)

lemma decode_object_faults: "decode_object depth raw = Inl e \<Longrightarrow> answers N e"
  by (auto simp: decode_object_def split: sum.split_asm pyval.split_asm if_split_asm dest: json_faults)

lemma classify_faults: "classify depth policy status raw = Inl e \<Longrightarrow> answers N e"
  by (auto simp: classify_def split: if_split_asm sum.split_asm option.split_asm dest: decode_object_faults)

lemma read_loop_faults:
  assumes "outbound_faults B"
  shows "read_loop B h limit chunks got s = (Inl e, t) \<Longrightarrow> answers {} e"
  using assms
proof (induction B h limit chunks got s rule: read_loop.induct)
  case (1 B h limit chunks got s)
  then show ?case using raises_onlyD [OF outbound_faultsD(9) [OF "1.prems"(2)]]
    by (auto simp: read_loop.simps [of B h limit] split: sum.split_asm prod.split_asm if_split_asm)
qed

lemma post_json_faults:
  assumes "outbound_faults B"
  shows "fails_with {503} (post_json B T path payload operation)"
proof -
  note ops = outbound_faultsD [OF assms, THEN fails_mono]
  have backoff: "fails_with {503} (backoff_ms B policy n ra)" for policy n ra
    by (auto simp: backoff_ms_def intro!: ops raises split: option.split py_float.split)
  have read: "fails_with {503} (read_capped B h n)" for h n
    unfolding read_capped_def by (rule raises_onlyI, drule read_loop_faults [OF assms]) (rule answers_mono, auto)
  have attempt: "fails_with {503} (single_attempt B T url payload rem)" for url rem
    unfolding single_attempt_def exchange_def transport_headers_def receive_def
    by (rule raises_catch [of "answers {503}"]) (auto intro!: raises ops read dest: classify_faults)
  have attempts: "fails_with {503} (attempts_from B T url payload deadline result as)" for url deadline result as
  proof (induction as arbitrary: result)
    case (Cons a as)
    have "fails_with {503} (after_attempt B T deadline a again x)"
      if "\<And>res. fails_with {503} (again res)" for again x
      unfolding after_attempt_def using that by (auto split: prod.split intro!: raises ops backoff)
    with Cons show ?case unfolding attempts_from.simps by (auto intro!: raises ops attempt)
  qed (auto intro!: raises)
  show ?thesis unfolding post_json_def guarded_post_def attempt_loop_def Let_def
    by (auto intro!: raises ops attempts)
qed

lemma risk_adapter_faults: "outbound_faults B \<Longrightarrow> fails_with {503} (risk_adapter B choice check)"
  unfolding risk_adapter_def allow_all_assess_def http_risk_assess_def
  by (auto intro!: raises post_json_faults split: risk_choice.splits)

lemma draw_faults: "raises_only S system_clock_now" "raises_only S uuid7_generate"
  by (auto simp: raises_only_def system_clock_now_def uuid7_generate_def split: list.split_asm)

lemma metrics_faults: "raises_only S (metrics_observe m)"
  by (auto simp: raises_only_def elim!: metrics_observeE)

text \<open>A Redis connection that raises its library's exceptions.\<close>

definition redis_faults :: "'s redis_client \<Rightarrow> bool" where
  "redis_faults C \<longleftrightarrow> (\<forall>q. fails_with {} (rc_send C q)) \<and> fails_with {} (rc_uuid4 C)"

lemma translating_faults: "fails_with {} m \<Longrightarrow> fails_with {503} (translating_redis_errors C operation m)"
  unfolding translating_redis_errors_def
  by (rule raises_catch [of "answers {}"]) (auto intro!: raises intro: answers_mono)

lemma redis_text_faults:
  "confirmed_text depth txt resp = Inl e \<Longrightarrow> answers N e" "reserve_decision depth key fp result = Inl e \<Longrightarrow> answers N e"
proof -
  have parsed: "json_loads_text depth t = Inl e \<Longrightarrow> answers N e" for t
    by (drule json_loads_text_errors) (auto simp: value_error_def recursion_error_def json_decode_error_def)
  show "confirmed_text depth txt resp = Inl e \<Longrightarrow> answers N e"
    by (auto simp: confirmed_text_def type_error_def split: sum.split_asm pyval.split_asm dest: parsed)
  show "reserve_decision depth key fp result = Inl e \<Longrightarrow> answers N e"
    by (auto simp: reserve_decision_def reservation_of_def type_error_def attribute_error_def
        split: sum.split_asm pyval.split_asm option.split_asm if_split_asm dest: parsed)
qed

lemma redis_store_faults:
  assumes "redis_faults C"
  shows "fails_with {503} (redis_consume C k policy cost)" "fails_with {503} (redis_reserve C k fp n)"
    "fails_with {503} (redis_confirm C k resp n)" "fails_with {503} (redis_release C k)"
    "fails_with {503} (redis_lock_exit C l)"
proof -
  have send: "fails_with {} (rc_send C q)" for q using assms by (simp add: redis_faults_def)
  show "fails_with {503} (redis_consume C k policy cost)" "fails_with {503} (redis_reserve C k fp n)"
    "fails_with {503} (redis_confirm C k resp n)" "fails_with {503} (redis_release C k)"
    "fails_with {503} (redis_lock_exit C l)"
    unfolding redis_consume_def redis_reserve_def redis_confirm_def redis_release_def redis_lock_exit_def
    by (auto intro!: raises translating_faults send simp: reply_error_def type_error_def dest: redis_text_faults
        split: pyval.split list.split)
qed

lemma map_sum_Inl: "map_sum id g v = Inl e \<longleftrightarrow> v = Inl e"
  by (cases v) auto

lemma redis_lock_faults:
  assumes "redis_faults C"
  shows "fails_with {503} (lp_enter (redis_lock_port C) k ttl wait)" "fails_with {503} (lp_exit (redis_lock_port C) h)"
proof -
  have attempt: "fails_with {503} (redis_lock_attempt C k token ttl)" for token
    using assms unfolding redis_lock_attempt_def by (intro translating_faults) (simp add: redis_faults_def)
  have await: "answers {503} e"
    if "redis_await (redis_lock_attempt C k token ttl) wait retry s = Some (Inl e, t)" for token retry s t e
    using redis_await_keeps [OF that, of "\<lambda>_. True" "answers {503}"] raises_onlyD [OF attempt] by auto
  have uuid: "answers {503} e" if "rc_uuid4 C s = (Inl e, t)" for s t e
    using assms that by (auto simp: redis_faults_def dest!: raises_onlyD intro: answers_mono)
  show "fails_with {503} (lp_enter (redis_lock_port C) k ttl wait)"
    by (rule raises_onlyI) (auto simp: redis_lock_port_def redis_lock_enter_def
        split: option.split_asm prod.split_asm sum.split_asm dest: uuid await simp: map_sum_Inl)
  show "fails_with {503} (lp_exit (redis_lock_port C) h)"
    unfolding redis_lock_port_def lock_port.simps by (rule redis_store_faults [OF assms])
qed

text \<open>What the ports of the stores, the lock and the gates may raise.\<close>

definition adapter_faults :: "'s adapters \<Rightarrow> bool" where
  "adapter_faults X \<longleftrightarrow> (\<forall>k ttl wait h fp n resp policy check cost.
     fails_with {503} (ad_lock_enter X k ttl wait) \<and> fails_with {503} (ad_lock_exit X h)
     \<and> fails_with {503} (ad_reserve X k fp n) \<and> fails_with {503} (ad_confirm X k resp n)
     \<and> fails_with {503} (ad_release X k) \<and> fails_with {503} (ad_consume X k policy cost)
     \<and> fails_with {503} (ad_assess X check))"

lemma chosen_faults:
  assumes "\<And>url. redis_faults (client url)" and "outbound_faults B"
  shows "adapter_faults (chosen_adapters st client B)"
proof (cases "redis_enabled (set_redis st)")
  case False
  then show ?thesis
    by (simp add: adapter_faults_def chosen_in_process in_process_def memory_faults risk_adapter_faults [OF assms(2)])
next
  case True
  then show ?thesis
    by (simp add: adapter_faults_def chosen_adapters_def distributed_lock_def idempotency_store_def rate_limiter_def
        Let_def redis_lock_faults assms(1) redis_store_faults risk_adapter_faults [OF assms(2)])
qed

lemma wired_faults:
  assumes "driver_engine E" "adapter_faults X"
  shows "port_faults (with_adapters E X)"
proof -
  have "fails_with {503} (ad_lock_enter X k ttl wait)" "fails_with {503} (ad_lock_exit X h)"
    "fails_with {503} (ad_reserve X k fp n)" "fails_with {503} (ad_confirm X k resp n)" "fails_with {503} (ad_release X k)"
    "fails_with {503} (ad_consume X k policy cost)" "fails_with {503} (ad_assess X check)"
    for k ttl wait h fp n resp policy check cost
    using assms(2) unfolding adapter_faults_def by blast+
  note ops = this
  show ?thesis
    by (rule port_faults.intro)
      (auto simp: with_adapters_def evenkeel_ports_def intro!: raises metrics_faults on_db_faults monotonic_faults
        draw_faults ops driver_engine.repository_faults [OF assms(1)] driver_engine.commit_faults [OF assms(1)]
        driver_engine.rollback_faults [OF assms(1)])
qed

sublocale driver_engine < wired: port_faults "evenkeel_ports E"
proof -
  have "adapter_faults (in_process allow_all_assess)"
    by (simp add: adapter_faults_def in_process_def memory_faults) (simp add: allow_all_assess_def raises)
  from wired_faults [OF driver_engine_axioms this] show "port_faults (evenkeel_ports E)" by (simp add: default_adapters)
qed

section \<open>Identity\<close>

text \<open>The token library raises its own exceptions; the key set may be unavailable.\<close>

definition identity_faults :: "('s, 'k) jwt_env \<Rightarrow> bool" where
  "identity_faults J \<longleftrightarrow> (\<forall>token kid args e. (jv_header J token = Inl e \<longrightarrow> answers {} e)
     \<and> fails_with {503} (jv_keys_get J kid) \<and> fails_with {} (jv_decode J token args))"

lemma authenticator_faults:
  assumes "identity_faults J"
  shows "fails_with {401, 503} (authenticator J choice credential)"
proof (cases choice)
  case Dev_Identity
  have "dev_authenticate credential = Inl e \<Longrightarrow> answers {401, 503} e" for e
    by (auto simp: dev_authenticate_def unauthenticated_def split: if_split_asm sum.split_asm)
  with Dev_Identity show ?thesis by (auto simp: authenticator_def intro!: raises)
next
  case (Jwt_Identity P K S)
  have ops: "\<And>token e. jv_header J token = Inl e \<Longrightarrow> answers {401, 503} e"
      "\<And>kid. fails_with {401, 503} (jv_keys_get J kid)" "\<And>token args. fails_with {401, 503} (jv_decode J token args)"
    using assms unfolding identity_faults_def by (blast intro: answers_mono fails_mono)+
  have out: "answers {401, 503} refused" by (simp add: refused_def unauthenticated_def)
  then have stop: "fails_with {401, 503} (Pair (Inl refused))" by (simp add: raises_only_def)
  have decode: "fails_with {401, 503} (pcatch (jv_decode J token args)
      (\<lambda>e. if jv_is_refusal J e then praise refused else praise e))" for token args
    by (rule raises_catch [OF ops(3)]) (auto intro!: raises out)
  have "fails_with {401, 503} (jwt_authenticate J P credential)"
    unfolding jwt_authenticate_def Let_def
    by (auto intro!: raises ops(2) out decode stop split: sum.split option.split dest: ops(1) owner_of_subject_Inl)
  with Jwt_Identity show ?thesis by (simp add: authenticator_def)
qed

text \<open>The key cache of \<open>jwt/keys.py\<close> keeps to that: it answers with a key, with none, or as unavailable.\<close>

lemma key_cache_faults:
  assumes "outbound_faults (je_outbound V)" "\<And>q. fails_with {} (je_get V q)" "\<And>d e. je_jwk_set V d = Inl e \<Longrightarrow> answers {} e"
    and "jwks_get V P kid c s = (r, t)"
  shows "case r of Inl e \<Rightarrow> answers {} e | Inr (Inl e, c') \<Rightarrow> answers {503} e | Inr (Inr key, c') \<Rightarrow> True"
proof -
  note ops = outbound_faultsD [OF assms(1)]
  have unavailable: "answers {503} jwks_unavailable" by (simp add: jwks_unavailable_def)
  have grace: "serve_within_grace P c now key = Inl e \<Longrightarrow> answers {503} e" for c now key e
    using unavailable by (auto simp: serve_within_grace_def split: option.split_asm if_split_asm)
  have locked: "locked_answer P c now kid = Some (Inl e) \<Longrightarrow> answers {503} e" for now e
    by (auto simp: locked_answer_def Let_def split: if_split_asm dest: grace)
  have built: "map_sum id first_wins (je_jwk_set V d) = Inl e \<Longrightarrow> answers {} e" for d e
    using assms(3) by (cases "je_jwk_set V d") auto
  have document: "jwks_document V raw = Inl e \<Longrightarrow> answers {} e" for raw e
    by (auto simp: jwks_document_def value_error_def Let_def dest: decode_object_faults built
        split: if_split_asm sum.split_asm option.split_asm pyval.split_asm)
  have read: "fails_with {} (read_capped (je_outbound V) h n)" for h n
    unfolding read_capped_def by (rule raises_onlyI) (rule read_loop_faults [OF assms(1)])
  have fetch: "fails_with {} (jwks_fetch V P)"
    unfolding jwks_fetch_def by (auto intro!: raises assms(2) read ops dest: document simp: value_error_def)
  have ended: "end_refresh P d now kid (fetch_outcome V x) = (Inl e, d') \<Longrightarrow> (\<And>y. x = Inl y \<Longrightarrow> answers {} y)
      \<Longrightarrow> answers {503} e" for d now x e d'
    using unavailable
    by (auto simp: end_refresh_def fetch_outcome_def Let_def split: sum.split_asm if_split_asm option.split_asm
        dest: grace intro: answers_mono)
  show ?thesis
  proof (cases r)
    case (Inl e)
    have "raises_only (answers {}) (jwks_get V P kid c)"
      unfolding jwks_get_def
      by (auto intro!: raises ops split: option.split) (auto simp: raises_only_def pbind_def
          split: prod.split_asm sum.split_asm dest: raises_onlyD [OF ops(3)])
    with assms(4) Inl show ?thesis by (auto dest: raises_onlyD)
  next
    case (Inr x)
    have "answers {503} e" if x: "x = (Inl e, c')" for e c'
    proof -
      from assms(4) Inr x have "jwks_get V P kid c s = (Inr (Inl e, c'), t)" by simp
      then consider now where "locked_answer P c now kid = Some (Inl e)"
        | now t1 u y v where "jwks_fetch V P u = (y, v)"
          "end_refresh P (begin_refresh c now) t1 kid (fetch_outcome V y) = (Inl e, c')"
        by (auto simp: jwks_get_def split: option.split_asm prod.split_asm elim!: pbindE)
      then show ?thesis
        by cases (use locked ended raises_onlyD [OF fetch] in blast)+
    qed
    with Inr show ?thesis by (auto split: sum.split)
  qed
qed

section \<open>Endpoints\<close>

text \<open>The \<open>responses\<close> and the success status of each route.\<close>

fun declared_responses :: "api_call \<Rightarrow> int list" where
  "declared_responses (Post_Wallets c) = collection_responses"
| "declared_responses (Get_Wallets n c) = collection_responses"
| "declared_responses (Get_Wallet i) = read_responses"
| "declared_responses (Post_Deposits i f k) = movement_responses"
| "declared_responses (Post_Withdrawals i f k) = movement_responses"
| "declared_responses (Get_Entries i n c) = read_responses"

fun success_status :: "api_call \<Rightarrow> int" where
  "success_status (Post_Wallets c) = 201"
| "success_status _ = 200"

lemmas response_tables = read_responses_def collection_responses_def movement_responses_def UNAUTHENTICATED_responses_def
  INVALID_REQUEST_responses_def WALLET_ABSENT_responses_def MOVEMENT_FORBIDDEN_responses_def
  MOVEMENT_REFUSED_responses_def RATE_LIMITED_responses_def DEPENDENCY_UNAVAILABLE_responses_def

lemma always_declared: "401 \<in> set (declared_responses call)" "422 \<in> set (declared_responses call)"
  by (cases call; simp add: response_tables)+

lemma never_400: "400 \<notin> set (declared_responses call)"
  by (cases call) (simp_all add: response_tables)

lemma payload_money_faults: "payload_money b = Inl e \<Longrightarrow> answers {422} e"
  by (auto simp: payload_money_def split: sum.split_asm dest: currency_faults money_faults)

lemma query_faults:
  "list_wallets_query_new ow n c = Inl e \<Longrightarrow> answers {422} e" "list_ledger_query_new i ow n c = Inl e \<Longrightarrow> answers {422} e"
  by (auto simp: list_wallets_query_new_def list_ledger_query_new_def page_limit_error_def split: if_split_asm)

lemma handler_faults:
  assumes "port_faults (ap_ports A)" "endpoint A call = Inr handler"
  shows "fails_with (set (declared_responses call)) (handler p)"
proof -
  note uses = port_faults.use_case_faults [OF assms(1)] port_faults.movement_faults [OF assms(1)]
  have parts: "payload_money b = Inl e \<Longrightarrow> 422 \<in> N \<Longrightarrow> answers N e"
      "currency_new c = Inl e \<Longrightarrow> 422 \<in> N \<Longrightarrow> answers N e" for b c e N
    by (auto intro: answers_mono dest: payload_money_faults currency_faults)
  have queries: "list_wallets_query_new ow n c = Inl e \<Longrightarrow> 422 \<in> N \<Longrightarrow> answers N e"
      "list_ledger_query_new i ow n c = Inl e \<Longrightarrow> 422 \<in> N \<Longrightarrow> answers N e" for ow i n c e N
    by (auto intro: answers_mono dest: query_faults)
  have wallets: "fails_with (set collection_responses) (post_wallet A p c)"
      "fails_with (set collection_responses) (get_wallets A p n cur)"
      "fails_with (set read_responses) (get_one_wallet A p i)"
      "fails_with (set read_responses) (get_entries A p i n cur)" for c n cur i
    unfolding post_wallet_def get_wallets_def get_one_wallet_def get_entries_def
    by (intro raises uses [THEN fails_mono]; (simp add: parts queries response_tables)?)+
  have movements: "fails_with (set movement_responses) (post_deposit A p i b key)"
      "fails_with (set movement_responses) (post_withdrawal A p i b key)" for i b key
    unfolding post_deposit_def post_withdrawal_def deposit_to_wallet_def withdraw_from_wallet_def
    by (intro raises uses [THEN fails_mono]; (simp add: parts response_tables)?)+
  from assms(2) show ?thesis
    by (cases call) (auto simp: map_sum_Inr wallets movements)
qed

lemma handler_success:
  assumes "endpoint A call = Inr handler" "handler p s = (Inr reply, t)"
  shows "jp_status reply = success_status call"
  using assms by (cases call) (auto simp: map_sum_Inr post_wallet_def get_wallets_def get_one_wallet_def
      post_deposit_def post_withdrawal_def get_entries_def json_ok_def elim!: pbindE)

section \<open>A reference driver\<close>

text \<open>The reference engine of \<open>Tables\<close>, whose injected failures reach the caller as exceptions of a driver.\<close>

fun driver_exn :: "exn \<Rightarrow> exn" where
  "driver_exn (PyExn name) = PyExn name"
| "driver_exn CancelledExn = CancelledExn"
| "driver_exn _ = db_api_error"

definition driver_ref :: "ref_db engine" where
  "driver_ref =
     \<lparr>en_execute = \<lambda>st. pcatch (ref_execute st) (\<lambda>e. praise (driver_exn e)),
      en_commit = pcatch ref_commit (\<lambda>e. praise (driver_exn e)),
      en_rollback = pcatch ref_rollback (\<lambda>e. praise (driver_exn e))\<rparr>"

lemma driver_catch: "fails_with {} (pcatch m (\<lambda>e. praise (driver_exn e)))"
proof -
  have "answers {} (driver_exn e)" for e by (cases e) (simp_all add: db_api_error_def)
  then show ?thesis by (intro raises_catch [of "\<lambda>_. True"]) (auto simp: raises_only_def)
qed

interpretation driver_ref: driver_engine driver_ref
  by unfold_locales (simp_all add: driver_ref_def driver_catch)

section \<open>Properties\<close>

text \<open>C29: every answer of the API is one its route declares, with two exceptions. On a driver that reports failures by its own
  exceptions, with a Redis connection, an outbound client and a token library that do the same, the status of an answer
  is the success status of the route or one of its declared responses, or 500; an answer that is
  no success is a problem document. The exceptions: a 503 to a caller whose token cannot be checked because the key set is
  unavailable, which the reads do not declare; and, for a route that takes a body, the framework's 400 to a body that cannot be
  read, which no route declares and which is no problem document.\<close>

theorem responses_declared:
  assumes "driver_engine E" and "\<And>url. redis_faults (client url)" and "outbound_faults B" and "identity_faults J"
    and "web_service st E client B J digits report = Inr A"
    and "api_run A rq credential call s = (Some reply, t)"
  shows "if takes_body call \<and> rq_body rq = Body_Unreadable
    then jp_status reply = 400 \<and> 400 \<notin> set (declared_responses call) \<and> \<not> documented reply
    else (jp_status reply = success_status call \<or> documented reply)
      \<and> (jp_status reply \<in> {success_status call, 500} \<union> set (declared_responses call)
        \<or> jp_status reply = 503 \<and> (\<exists>e u. current_principal A credential s = (Inl e, u) \<and> exn_status e = Some 503))"
proof (cases "body_error A rq call")
  case (Some x)
  with assms(6) have "handled rq x = Some reply" by (simp add: api_run_def)
  with Some always_declared(2) [of call] show ?thesis
    by (auto simp: body_error_def handle_request_validation_def problem_documented problem_members detail_undocumented
        never_400 split: if_split_asm body_reading.split_asm) (simp_all add: detail_reply_def)
next
  case read: None
  then have ok: "\<not> (takes_body call \<and> rq_body rq = Body_Unreadable)" by (auto simp: body_error_def)
  note run = assms(6) [unfolded api_run_def read option.case]
  obtain choice where A: "ap_ports A = wired_ports st E client B" "ap_authenticate A = authenticator J choice"
    using assms(5) by (auto simp: web_service_def map_sum_Inr)
  have ports: "port_faults (ap_ports A)"
    unfolding A(1) wired_ports_def by (rule wired_faults [OF assms(1) chosen_faults [OF assms(2,3)]])
  have refusal: "documented rep \<and> exn_status e = Some (jp_status rep)" if "error_response rq e = Some rep" for e rep
    using that error_response_documented error_response_status by blast
  obtain r u where p: "current_principal A credential s = (r, u)" by fastforce
  have "(jp_status reply = success_status call \<or> documented reply)
      \<and> (jp_status reply \<in> {success_status call, 500} \<union> set (declared_responses call)
        \<or> jp_status reply = 503 \<and> (\<exists>e u. current_principal A credential s = (Inl e, u) \<and> exn_status e = Some 503))"
  proof (cases r)
    case (Inl e)
    with p run have e: "error_response rq e = Some reply" by simp
    have "answers {401, 503} e"
      using raises_onlyD [OF authenticator_faults [OF assms(4)]] p Inl by (auto simp: current_principal_def A(2))
    with refusal [OF e] have "jp_status reply \<in> {500, 401, 503}" by (auto simp: answers_def)
    with refusal [OF e] p Inl always_declared(1) [of call] show ?thesis by auto
  next
    case (Inr q)
    show ?thesis
    proof (cases "endpoint A call")
      case (Inl fields)
      with p Inr run have "reply = handle_request_validation rq (ap_report A fields)" by simp
      with always_declared(2) [of call] show ?thesis
        by (simp add: handle_request_validation_def problem_documented problem_members)
    next
      case e: (Inr handler)
      obtain h v where h: "handler q u = (h, v)" by fastforce
      show ?thesis
      proof (cases h)
        case (Inl x)
        with p Inr e h run have x: "error_response rq x = Some reply" by simp
        from raises_onlyD [OF handler_faults [OF ports e]] h Inl have "answers (set (declared_responses call)) x" by simp
        with refusal [OF x] show ?thesis by (auto simp: answers_def)
      next
        case (Inr rep)
        with p \<open>r = Inr q\<close> e h run have "rep = reply" by simp
        with handler_success [OF e] h Inr show ?thesis by simp
      qed
    qed
  qed
  then show ?thesis unfolding if_not_P [OF ok] .
qed

lemma demo_faults: "redis_faults (idle_redis url)" "outbound_faults (same_answer [])" "identity_faults demo_tokens"
  by (auto simp: redis_faults_def idle_redis_def outbound_faults_def same_answer_def identity_faults_def demo_tokens_def raises_only_def Let_def)

lemma demo_absent_run:
  "\<exists>t. get_wallet (evenkeel_ports driver_ref) \<lparr>gwq_wallet_id = WalletId 9, gwq_owner_id = OwnerId 1\<rparr> (demo_world [])
     = (Inl (wallet_not_found (WalletId 9)), t)"
  by (simp add: get_wallet_def observed_def with_label_def driver_ref_def pcatch_def run_demo
      del: eval_stmt.simps(1,3,4))

lemma demo_absent:
  assumes "web_service demo_production driver_ref client B demo_tokens digits report = Inr A"
  shows "\<exists>rep t. api_run A demo_rq (Some ''tok'') (Get_Wallet (Given 9)) (demo_world []) = (Some rep, t) \<and> jp_status rep = 404"
proof -
  have A: "ap_ports A = evenkeel_ports driver_ref"
      "ap_authenticate A (Some ''tok'') (demo_world []) = (Inr \<lparr>pr_owner_id = OwnerId 1\<rparr>, demo_world [])"
    using assms by (auto simp: web_service_def served_identity(2) [OF demo_production_ok] wired_ports_def
        demo_production_simps chosen_in_process risk_adapter_def default_adapters authenticator_def demo_tokens_owner)
  from demo_absent_run obtain t where "get_wallet (evenkeel_ports driver_ref)
      \<lparr>gwq_wallet_id = WalletId 9, gwq_owner_id = OwnerId 1\<rparr> (demo_world []) = (Inl (wallet_not_found (WalletId 9)), t)" ..
  then show ?thesis
    by (simp add: api_run_def current_principal_def A wallet_id_param_def required_def get_one_wallet_def pbind_def
        wallet_not_found_def handle_application_error_def problem_members app_exn_def app_error_new_def)
qed

theorem responses_declared_witness:
  "\<exists>A rep t. web_service demo_production driver_ref idle_redis (same_answer []) demo_tokens (\<lambda>m d a. True) (map (\<lambda>n. [])) = Inr A
     \<and> api_run A demo_rq (Some ''tok'') (Get_Wallet (Given 9)) (demo_world []) = (Some rep, t)
     \<and> jp_status rep = 404 \<and> documented rep"
proof -
  obtain A where A: "web_service demo_production driver_ref idle_redis (same_answer []) demo_tokens (\<lambda>m d a. True) (map (\<lambda>n. [])) = Inr A"
    by (simp add: web_service_def served_identity(2) [OF demo_production_ok])
  from demo_absent [OF A] obtain rep t where r: "api_run A demo_rq (Some ''tok'') (Get_Wallet (Given 9)) (demo_world []) = (Some rep, t)"
    "jp_status rep = 404" by blast
  from responses_declared [OF driver_ref.driver_engine_axioms demo_faults A r(1)] r A show ?thesis by auto
qed

end
