(* ===== verification/Redis_Store.thy ===== *)
theory Redis_Store
  imports Redis_Idempotency Movement_Idempotence
begin

text \<open>
  The Redis idempotency store keeps the contract of the service (\<open>claim_store\<close>). A connection
  (\<open>redis_link\<close>) serves each request on one server, whose time passes on the way there and back, and may
  lose the request or its reply; the slots are what the server's texts mean. The contract is stated for one
  process: requests of other replicas are those of its earlier and later calls.
\<close>

section \<open>The meaning of the texts\<close>

definition parsed_record :: "string \<Rightarrow> (string \<times> response option) option" where
  "parsed_record t =
     (case json_loads_text 2 t of
        Inr (VDict payload) \<Rightarrow>
          (case (map_of payload ''fingerprint'', map_of payload ''response'') of
             (Some (VStr fp), None) \<Rightarrow> Some (fp, None)
           | (Some (VStr fp), Some (VDict r)) \<Rightarrow> Some (fp, Some r)
           | _ \<Rightarrow> None)
      | _ \<Rightarrow> None)"

definition well_kept :: "string \<Rightarrow> response option \<Rightarrow> bool" where
  "well_kept fp resp \<longleftrightarrow> list_all is_hex fp \<and> (case resp of None \<Rightarrow> True | Some r \<Rightarrow> plain_response r)"

definition redis_record :: "string \<Rightarrow> (string \<times> response option) option" where
  "redis_record t =
     (case parsed_record t of
        Some (fp, resp) \<Rightarrow> if well_kept fp resp \<and> record_text fp resp = t then Some (fp, resp) else None
      | None \<Rightarrow> None)"

text \<open>What the adapter never writes counts as a completed entry of nobody.\<close>

definition foreign_entry :: idem_entry where
  "foreign_entry = \<lparr>ie_fingerprint = ''?'', ie_expires_at = 0, ie_response = Some []\<rparr>"

definition redis_slot :: "(redis_value \<times> int option) option \<Rightarrow> idem_entry option" where
  "redis_slot v =
     (case v of
        None \<Rightarrow> None
      | Some (Text t, Some x) \<Rightarrow>
          (case redis_record t of
             Some (fp, resp) \<Rightarrow> Some \<lparr>ie_fingerprint = fp, ie_expires_at = of_int x / 1000, ie_response = resp\<rparr>
           | None \<Rightarrow> Some foreign_entry)
      | _ \<Rightarrow> Some foreign_entry)"

lemma slot_takenE:
  obtains e where "redis_slot (Some v) = Some e"
proof -
  have "redis_slot (Some v) \<noteq> None"
    by (cases v) (auto simp: redis_slot_def split: option.split redis_value.split)
  with that show ?thesis by blast
qed

lemma case_VStr: "(case v of VStr t \<Rightarrow> P t | _ \<Rightarrow> False) \<longleftrightarrow> (\<exists>t. v = VStr t \<and> P t)"
  by (cases v) auto

lemma plain_storable:
  assumes "plain_response r" "2 \<le> depth"
  shows "storable depth r"
proof -
  have ids: "list_all (\<lambda>c. is_hex c \<or> c = CHR ''-'') t \<Longrightarrow> ascii t" for t
    using hex_ascii [of "[c]" for c] by (induction t) (auto simp: ascii_def code_def)
  from assms(1) obtain a b where r: "r = [(''entry_id'', VStr a), (''wallet_id'', VStr b)]"
      "list_all (\<lambda>c. is_hex c \<or> c = CHR ''-'') a" "list_all (\<lambda>c. is_hex c \<or> c = CHR ''-'') b"
    by (auto simp: plain_response_def map_eq_Cons_conv case_VStr)
  moreover have "ascii ''entry_id''" "ascii ''wallet_id''" by (simp_all add: ascii_def code_def)
  ultimately show ?thesis using ids assms(2) by (simp add: storable_def)
qed

lemma well_kept_storable:
  "well_kept fp resp \<Longrightarrow> 2 \<le> depth \<Longrightarrow> list_all is_hex fp \<and> (\<forall>r. resp = Some r \<longrightarrow> storable depth r)"
  by (auto simp: well_kept_def plain_storable)

lemma record_parsed: "well_kept fp resp \<Longrightarrow> redis_record (record_text fp resp) = Some (fp, resp)"
proof -
  assume w: "well_kept fp resp"
  from record_loads [of fp resp 2] well_kept_storable [OF w, of 2]
  have "json_loads_text 2 (record_text fp resp) = Inr (record_value fp resp)" by simp
  with w show ?thesis
    by (cases resp) (simp_all add: redis_record_def parsed_record_def record_value_def)
qed

lemma record_Some: "redis_record t = Some (fp, resp) \<longleftrightarrow> well_kept fp resp \<and> t = record_text fp resp"
proof
  assume "redis_record t = Some (fp, resp)"
  then show "well_kept fp resp \<and> t = record_text fp resp"
    by (auto simp: redis_record_def split: option.splits if_splits)
qed (simp add: record_parsed)

lemma slot_record:
  "well_kept fp resp \<Longrightarrow> redis_slot (Some (Text (record_text fp resp), Some x))
     = Some \<lparr>ie_fingerprint = fp, ie_expires_at = of_int x / 1000, ie_response = resp\<rparr>"
  by (simp add: redis_slot_def record_parsed)

text \<open>A slot with a fingerprint of the service's form, or one that is not completed, holds a record.\<close>

lemma slot_heldE:
  assumes "redis_slot v = Some e" "list_all is_hex (ie_fingerprint e) \<or> \<not> ie_completed e"
  obtains fp resp x where "v = Some (Text (record_text fp resp), Some x)" "well_kept fp resp"
    "e = \<lparr>ie_fingerprint = fp, ie_expires_at = of_int x / 1000, ie_response = resp\<rparr>"
proof -
  have "\<not> is_hex (CHR ''?'')" by (simp add: is_hex_def hex_val_def char_class_defs)
  then have "e \<noteq> foreign_entry" using assms(2) by (auto simp: foreign_entry_def ie_completed_def)
  with assms(1) have "\<exists>fp resp x. v = Some (Text (record_text fp resp), Some x) \<and> well_kept fp resp
      \<and> e = \<lparr>ie_fingerprint = fp, ie_expires_at = of_int x / 1000, ie_response = resp\<rparr>"
    by (auto simp: redis_slot_def record_Some split: option.splits redis_value.splits prod.splits)
  with that show ?thesis by blast
qed


section \<open>The connection\<close>

definition passing :: "int \<Rightarrow> redis_db \<Rightarrow> redis_db" where
  "passing d db = db\<lparr>rb_now := rb_now db + d\<rparr>"

definition linked :: "redis_request \<Rightarrow> redis_db \<Rightarrow> exn + pyval \<Rightarrow> redis_db \<Rightarrow> bool" where
  "linked q db r db' \<longleftrightarrow> (\<exists>d \<ge> 0. \<exists>d' \<ge> 0. case r of
       Inr v \<Rightarrow> \<exists>db1. redis_serve q (passing d db) = (Inr v, db1) \<and> db' = passing d' db1
     | Inl e \<Rightarrow> db' = passing d db \<or> (\<exists>x db1. redis_serve q (passing d db) = (x, db1) \<and> db' = passing d' db1))"

locale redis_link =
  fixes view :: "'s \<Rightarrow> redis_db" and C :: "'s redis_client"
  assumes sent: "rc_send C q s = (r, t) \<Longrightarrow> linked q (view s) r (view t)"
    and drawn: "rc_uuid4 C s = (u, t) \<Longrightarrow> \<exists>d \<ge> 0. view t = passing d (view s)"
    and depth: "2 \<le> rc_recursion_limit C"

text \<open>What a request does to the other keys, and to a key it does not change.\<close>

lemma linkedE:
  assumes "linked q db r db'"
  obtains (Lost) d where "0 \<le> d" "db' = passing d db" "\<exists>e. r = Inl e"
    | (Served) d d' x db1 where "0 \<le> d" "0 \<le> d'" "redis_serve q (passing d db) = (x, db1)" "db' = passing d' db1"
        "\<And>v. r = Inr v \<Longrightarrow> x = Inr v"
proof (cases r)
  case (Inl e)
  with assms obtain d d' where d: "0 \<le> d" "0 \<le> d'" "db' = passing d db
      \<or> (\<exists>x db1. redis_serve q (passing d db) = (x, db1) \<and> db' = passing d' db1)" by (auto simp: linked_def)
  from d(3) show ?thesis
  proof (elim disjE exE conjE)
    fix x db1
    assume "redis_serve q (passing d db) = (x, db1)" "db' = passing d' db1"
    from Served [OF d(1,2) this] Inl show ?thesis by simp
  qed (rule Lost [OF d(1)], use Inl in auto)
next
  case (Inr v)
  with assms obtain d d' db1 where "0 \<le> d" "0 \<le> d'" "redis_serve q (passing d db) = (Inr v, db1)" "db' = passing d' db1"
    by (auto simp: linked_def)
  from Served [OF this] Inr show ?thesis by simp
qed

lemma passing_simps [simp]:
  "rb_now (passing d db) = rb_now db + d" "rb_keys (passing d db) = rb_keys db"
  by (simp_all add: passing_def)

lemma linked_frame:
  assumes "linked q db r db'"
  shows "rb_now db \<le> rb_now db' \<and> (\<forall>k. k \<noteq> request_key q \<longrightarrow> rb_keys db' k = rb_keys db k)"
  using assms
proof (cases rule: linkedE)
  case (Served d d' x db1)
  with keepsD [OF serve_only Served(3)] show ?thesis by (simp add: only_key_def)
qed simp

text \<open>A request on a live key that its script leaves alone: the key is as it was, and the reply, if any, is the
  script's.\<close>

lemma linked_live:
  assumes "linked q db r db'" "rb_keys db (request_key q) = Some (Text t, Some x)" "rb_now db' < x"
    and "\<And>s. rb_keys s (request_key q) = Some (Text t, Some x) \<Longrightarrow> rb_now s < x \<Longrightarrow> redis_serve q s = (y, s)"
  shows "rb_keys db' (request_key q) = Some (Text t, Some x) \<and> (\<forall>v. r = Inr v \<longrightarrow> y = Inr v)"
  using assms(1)
proof (cases rule: linkedE)
  case (Lost d)
  with assms(2) show ?thesis by auto
next
  case (Served d d' z db1)
  have "rb_now (passing d db) < x"
    using keepsD [OF serve_only Served(3)] Served(2,4) assms(3) by (simp add: only_key_def)
  with assms(4) [of "passing d db"] assms(2) Served show ?thesis by auto
qed

section \<open>The laws of the store\<close>

definition link_slots :: "('s \<Rightarrow> redis_db) \<Rightarrow> 's \<Rightarrow> string \<Rightarrow> idem_entry option" where
  "link_slots view s k = redis_slot (rb_keys (view s) (redis_idem_key k))"

definition link_now :: "('s \<Rightarrow> redis_db) \<Rightarrow> 's \<Rightarrow> seconds" where
  "link_now view s = of_int (rb_now (view s)) / 1000"

lemma idem_key_inject [simp]: "redis_idem_key k = redis_idem_key k' \<longleftrightarrow> k = k'"
  by (simp add: redis_idem_key_def)

lemma translatingE:
  assumes "translating_redis_errors C operation m s = (r, t)"
  obtains (Failed) e e' where "m s = (Inl e, t)" "r = Inl e'" | (Returned) x where "m s = (Inr x, t)" "r = Inr x"
  using assms by (auto simp: translating_redis_errors_def elim!: pcatchE split: if_splits)

text \<open>A live entry of the service's form, as a text.\<close>

lemma link_liveE:
  assumes "live_in (link_slots view) (link_now view) k e s t" "list_all is_hex (ie_fingerprint e)"
  obtains fp resp x where "rb_keys (view s) (redis_idem_key k) = Some (Text (record_text fp resp), Some x)"
    "rb_now (view t) < x" "well_kept fp resp"
    "e = \<lparr>ie_fingerprint = fp, ie_expires_at = of_int x / 1000, ie_response = resp\<rparr>"
proof -
  from assms(1) have slot: "redis_slot (rb_keys (view s) (redis_idem_key k)) = Some e"
    and live: "link_now view t < ie_expires_at e" by (simp_all add: live_in_def link_slots_def)
  from slot_heldE [OF slot disjI1 [OF assms(2)]] obtain fp resp x where
    e: "rb_keys (view s) (redis_idem_key k) = Some (Text (record_text fp resp), Some x)" "well_kept fp resp"
      "e = \<lparr>ie_fingerprint = fp, ie_expires_at = of_int x / 1000, ie_response = resp\<rparr>" .
  with live have "rb_now (view t) < x" by (simp add: link_now_def divide_less_cancel)
  with e that show ?thesis by blast
qed

context redis_link begin

lemma sent_frame:
  assumes "rc_send C q s = (r, t)"
  shows "link_now view s \<le> link_now view t \<and> (\<forall>k. redis_idem_key k \<noteq> request_key q \<longrightarrow> link_slots view t k = link_slots view s k)"
  using linked_frame [OF sent [OF assms]] by (simp add: link_now_def link_slots_def divide_right_mono)

lemma sent_live:
  assumes "rc_send C q s = (r, t)" "request_key q = redis_idem_key k"
    and "rb_keys (view s) (redis_idem_key k) = Some (Text raw, Some x)" "rb_now (view t) < x"
    and "\<And>db. rb_keys db (request_key q) = Some (Text raw, Some x) \<Longrightarrow> rb_now db < x \<Longrightarrow> redis_serve q db = (y, db)"
  shows "rb_keys (view t) (redis_idem_key k) = Some (Text raw, Some x) \<and> (\<forall>v. r = Inr v \<longrightarrow> y = Inr v)"
  using linked_live [OF sent [OF assms(1)] _ assms(4), unfolded assms(2)] assms(3,5) assms(2) by auto

text \<open>Reservations.\<close>

lemma reserve_runE:
  assumes "redis_reserve C k fp ttl s = (r, t)"
  obtains (Off) "ttl \<le> 0" "r = Inr reserved" "t = s"
    | (Lost) e e' where "0 < ttl" "rc_send C (Reserve_Key (redis_idem_key k) (claim_text fp) ttl) s = (Inl e, t)" "r = Inl e'"
    | (Told) v where "0 < ttl" "rc_send C (Reserve_Key (redis_idem_key k) (claim_text fp) ttl) s = (Inr v, t)"
        "r = reserve_decision (rc_recursion_limit C) k fp v"
proof (cases "ttl \<le> 0")
  case True
  with assms show ?thesis by (intro Off) (simp_all add: redis_reserve_def)
next
  case False
  with assms have "pbind (translating_redis_errors C ''idempotency.reserve''
      (rc_send C (Reserve_Key (redis_idem_key k) (claim_text fp) ttl)))
      (\<lambda>result. plift (reserve_decision (rc_recursion_limit C) k fp result)) s = (r, t)"
    by (simp add: redis_reserve_def)
  then show ?thesis
  proof (cases rule: pbindE)
    case (Raised e)
    from Raised(1) show ?thesis
      by (cases rule: translatingE) (use Raised(2) False Lost in auto)
  next
    case (Continued v u)
    from Continued(1) show ?thesis
      by (cases rule: translatingE) (use Continued(2) False Told in auto)
  qed
qed

lemma reserve_told:
  assumes "rc_send C (Reserve_Key (redis_idem_key k) (claim_text fp) ttl) s = (Inr v, t)"
  obtains (Free) d where "0 \<le> d" "v = VStr ''reserved''" "0 < ttl"
      "rb_keys (view t) (redis_idem_key k) = Some (Text (claim_text fp), Some (rb_now (view s) + d + 1000 * ttl))"
    | (Taken) raw ex where "v = VStr raw" "rb_keys (view s) (redis_idem_key k) = Some (Text raw, ex)"
        "rb_keys (view t) (redis_idem_key k) = Some (Text raw, ex)"
proof -
  from sent [OF assms] obtain d d' db1 where d: "0 \<le> d" "0 \<le> d'"
    and run: "redis_serve (Reserve_Key (redis_idem_key k) (claim_text fp) ttl) (passing d (view s)) = (Inr v, db1)"
    and t: "view t = passing d' db1" by (auto simp: linked_def)
  show ?thesis
  proof (cases "redis_live (passing d (view s)) (redis_idem_key k)")
    case None
    with run have "v = VStr ''reserved''" "0 < ttl"
      "rb_keys db1 (redis_idem_key k) = Some (Text (claim_text fp), Some (rb_now (view s) + d + 1000 * ttl))"
      by (auto simp: reserve_script_def redis_get_def redis_set_def redis_put_def pbind_def pthen_def split: if_splits)
    with d t show ?thesis by (intro Free) auto
  next
    case (Some vx)
    then obtain val ex where vx: "rb_keys (view s) (redis_idem_key k) = Some (val, ex)" "vx = (val, ex)"
      by (auto simp: redis_live_def split: option.splits prod.splits if_splits)
    with Some run t show ?thesis
      by (cases val) (auto simp: reserve_script_def redis_get_def pbind_def intro: Taken)
  qed
qed

lemma taken_entry: "taken k fp (as_entry f resp) = taken k fp \<lparr>ie_fingerprint = f, ie_expires_at = x, ie_response = resp\<rparr>"
  by (simp add: taken_def as_entry_def ie_completed_def)

lemma kept_decision:
  assumes "well_kept f resp"
  shows "reserve_decision (rc_recursion_limit C) k fp (VStr (record_text f resp))
    = Inr (taken k fp \<lparr>ie_fingerprint = f, ie_expires_at = x, ie_response = resp\<rparr>)"
  using record_decision [of f resp "rc_recursion_limit C" k fp] well_kept_storable [OF assms depth] depth
  by (simp add: taken_entry)

lemma reserve_keeps:
  assumes "redis_reserve C k fp ttl s = (r, t)"
  shows "link_now view s \<le> link_now view t \<and> (\<forall>k'. k' \<noteq> k \<longrightarrow> link_slots view t k' = link_slots view s k')"
  using assms by (cases rule: reserve_runE) (auto dest: sent_frame)

lemma reserve_on_live:
  assumes run: "redis_reserve C k fp ttl s = (r, t)" and live: "live_in (link_slots view) (link_now view) k e s t"
    and form: "list_all is_hex (ie_fingerprint e)"
  shows "link_slots view t k = Some e \<and> (\<forall>res. 0 < ttl \<longrightarrow> r = Inr res \<longrightarrow> res = taken k fp e)"
proof -
  obtain f resp x where key: "rb_keys (view s) (redis_idem_key k) = Some (Text (record_text f resp), Some x)"
    and x: "rb_now (view t) < x" and w: "well_kept f resp"
    and e: "e = \<lparr>ie_fingerprint = f, ie_expires_at = of_int x / 1000, ie_response = resp\<rparr>"
    by (rule link_liveE [OF live form])
  have script: "redis_serve (Reserve_Key (redis_idem_key k) claim ttl) db = (Inr (VStr (record_text f resp)), db)"
    if "rb_keys db (redis_idem_key k) = Some (Text (record_text f resp), Some x)" "rb_now db < x" for db claim
    using that by (simp add: reserve_script_def redis_get_def redis_live_def pbind_def)
  from run show ?thesis
  proof (cases rule: reserve_runE)
    case Off
    with live show ?thesis by (simp add: live_in_def)
  next
    case (Lost e1 e2)
    from sent_live [OF Lost(2) _ key x] script have "rb_keys (view t) (redis_idem_key k) = Some (Text (record_text f resp), Some x)"
      by simp
    with Lost(3) w e show ?thesis by (simp add: link_slots_def slot_record)
  next
    case (Told v)
    from sent_live [OF Told(2) _ key x] script have
      "rb_keys (view t) (redis_idem_key k) = Some (Text (record_text f resp), Some x)" "v = VStr (record_text f resp)"
      by auto
    with Told(3) w e kept_decision [OF w, of k fp] show ?thesis by (auto simp: link_slots_def slot_record)
  qed
qed

lemma reserve_makes_claim:
  assumes run: "redis_reserve C k fp ttl s = (Inr res, t)" and "0 < ttl" "may_proceed res" "list_all is_hex fp"
    and free: "\<And>e. link_slots view s k = Some e \<Longrightarrow> \<not> ie_completed e"
  shows "\<exists>x \<ge> link_now view s + of_int ttl.
    link_slots view t k = Some \<lparr>ie_fingerprint = fp, ie_expires_at = x, ie_response = None\<rparr>"
  using run
proof (cases rule: reserve_runE)
  case (Told v)
  from Told(2) show ?thesis
  proof (cases rule: reserve_told)
    case (Free d)
    have "well_kept fp None" using assms(4) by (simp add: well_kept_def)
    with Free have "link_slots view t k = Some \<lparr>ie_fingerprint = fp,
        ie_expires_at = of_int (rb_now (view s) + d + 1000 * ttl) / 1000, ie_response = None\<rparr>"
      by (simp add: link_slots_def claim_is_record slot_record)
    moreover have "link_now view s + of_int ttl \<le> of_int (rb_now (view s) + d + 1000 * ttl) / 1000"
      using Free(1) by (simp add: link_now_def field_simps)
    ultimately show ?thesis by blast
  next
    case (Taken raw ex)
    obtain e where slot: "redis_slot (Some (Text raw, ex)) = Some e" by (rule slot_takenE)
    with Taken free have "\<not> ie_completed e" by (simp add: link_slots_def)
    then obtain f resp x where held: "Some (Text raw, ex) = Some (Text (record_text f resp), Some x)" "well_kept f resp"
      by (rule slot_heldE [OF slot disjI2])
    then have "raw = record_text f resp" by simp
    with Told(3) Taken(1) kept_decision [of f resp k fp 0] held(2)
    have "res = taken k fp \<lparr>ie_fingerprint = f, ie_expires_at = 0, ie_response = resp\<rparr>"
      by simp
    with assms(3) show ?thesis by (auto simp: may_proceed_def taken_def split: if_splits)
  qed
qed (use assms(2) in auto)

lemma reserve_found:
  assumes run: "redis_reserve C k fp ttl s = (Inr res, t)" and "res_outcome res = COMPLETED"
  shows "\<exists>e. link_slots view s k = Some e \<and> ie_completed e"
  using run
proof (cases rule: reserve_runE)
  case Off
  with assms(2) show ?thesis by (simp add: reserved_def)
next
  case (Told v)
  from Told(2) show ?thesis
  proof (cases rule: reserve_told)
    case (Free d)
    with Told(3) assms(2) show ?thesis by (simp add: reserve_decision_def reserved_def)
  next
    case (Taken raw ex)
    obtain e where slot: "redis_slot (Some (Text raw, ex)) = Some e" by (rule slot_takenE)
    have "ie_completed e"
    proof (rule ccontr)
      assume open': "\<not> ie_completed e"
      obtain f resp x where held: "Some (Text raw, ex) = Some (Text (record_text f resp), Some x)" "well_kept f resp"
        "e = \<lparr>ie_fingerprint = f, ie_expires_at = of_int x / 1000, ie_response = resp\<rparr>"
        by (rule slot_heldE [OF slot disjI2 [OF open']])
      then have "raw = record_text f resp" by simp
      with Told(3) Taken(1) kept_decision [of f resp k fp "of_int x / 1000"] held(2,3) have "res = taken k fp e" by simp
      with open' assms(2) show False by (auto simp: taken_def split: if_splits)
    qed
    with slot Taken show ?thesis by (auto simp: link_slots_def)
  qed
qed simp

text \<open>Confirmations: the reading, and the writing of what was read.\<close>

lemma confirm_runE:
  assumes "redis_confirm C k resp ttl s = (r, t)"
  obtains (Off) "ttl \<le> 0" "t = s"
    | (Lost) e e' where "0 < ttl" "rc_send C (Read_Key (redis_idem_key k)) s = (Inl e, t)" "r = Inl e'"
    | (Other) v where "0 < ttl" "rc_send C (Read_Key (redis_idem_key k)) s = (Inr v, t)" "\<nexists>raw. v = VStr raw"
    | (Unread) raw e e' where "0 < ttl" "rc_send C (Read_Key (redis_idem_key k)) s = (Inr (VStr raw), t)"
        "confirmed_text (rc_recursion_limit C) raw resp = Inl e" "r = Inl e'"
    | (Written) raw printed u x where "0 < ttl" "rc_send C (Read_Key (redis_idem_key k)) s = (Inr (VStr raw), u)"
        "confirmed_text (rc_recursion_limit C) raw resp = Inr printed"
        "rc_send C (Store_Key (redis_idem_key k) printed ttl) u = (x, t)" "\<And>e. x = Inl e \<Longrightarrow> \<exists>e'. r = Inl e'"
proof (cases "ttl \<le> 0")
  case True
  with assms show ?thesis by (intro Off) (simp_all add: redis_confirm_def)
next
  case False
  let ?tail = "\<lambda>raw. case raw of VNone \<Rightarrow> pret () | VStr t \<Rightarrow>
      pbind (plift (confirmed_text (rc_recursion_limit C) t resp)) (\<lambda>printed.
        pthen (rc_send C (Store_Key (redis_idem_key k) printed ttl)) (pret ()))
    | _ \<Rightarrow> praise type_error"
  from False assms have "translating_redis_errors C ''idempotency.confirm''
      (pbind (rc_send C (Read_Key (redis_idem_key k))) ?tail) s = (r, t)"
    by (simp add: redis_confirm_def)
  then obtain r0 where run: "pbind (rc_send C (Read_Key (redis_idem_key k))) ?tail s = (r0, t)"
    and r0: "\<And>e. r0 = Inl e \<Longrightarrow> \<exists>e'. r = Inl e'"
    by (cases rule: translatingE) auto
  from run show ?thesis
  proof (cases rule: pbindE)
    case (Raised e)
    with False r0 show ?thesis by (auto intro: Lost)
  next
    case (Continued v u)
    show ?thesis
    proof (cases "\<exists>raw. v = VStr raw")
      case False': False
      then have "u = t" using Continued(2) by (cases v) auto
      with Continued(1) False False' show ?thesis by (intro Other) auto
    next
      case True
      then obtain raw where v: "v = VStr raw" by blast
      show ?thesis
      proof (cases "confirmed_text (rc_recursion_limit C) raw resp")
        case (Inl e)
        with Continued(2) v have "u = t" "r0 = Inl e" by (auto simp: pbind_def)
        with r0 obtain e' where "r = Inl e'" by blast
        with Continued(1) v False Inl \<open>u = t\<close> show ?thesis by (intro Unread) auto
      next
        case (Inr printed)
        obtain x t' where X: "rc_send C (Store_Key (redis_idem_key k) printed ttl) u = (x, t')" by fastforce
        with Continued(2) v Inr have "t' = t" "r0 = (case x of Inl e \<Rightarrow> Inl e | Inr _ \<Rightarrow> Inr ())"
          by (auto simp: pbind_def pthen_def split: sum.split_asm)
        with X Continued(1) v Inr False r0 show ?thesis by (intro Written) auto
      qed
    qed
  qed
qed

lemma confirm_keeps:
  assumes "redis_confirm C k resp ttl s = (r, t)"
  shows "link_now view s \<le> link_now view t \<and> (\<forall>k'. k' \<noteq> k \<longrightarrow> link_slots view t k' = link_slots view s k')"
  using assms by (cases rule: confirm_runE) (auto dest!: sent_frame)

lemma store_sent:
  assumes "rc_send C (Store_Key (redis_idem_key k) printed ttl) s = (x, t)" "0 < ttl"
  obtains (Unsent) e where "x = Inl e" "rb_keys (view t) = rb_keys (view s)"
    | (Put) d where "0 \<le> d"
        "rb_keys (view t) (redis_idem_key k) = Some (Text printed, Some (rb_now (view s) + d + 1000 * ttl))"
proof -
  from sent [OF assms(1)] show ?thesis
  proof (cases rule: linkedE)
    case (Lost d)
    with Unsent show ?thesis by auto
  next
    case (Served d d' y db1)
    with assms(2) have "rb_keys (view t) (redis_idem_key k) = Some (Text printed, Some (rb_now (view s) + d + 1000 * ttl))"
      by (auto simp: pbind_def redis_set_def redis_put_def)
    with Served(1) Put show ?thesis by blast
  qed
qed

lemma confirm_on_live:
  assumes run: "redis_confirm C k resp ttl s = (r, t)" and live: "live_in (link_slots view) (link_now view) k e s t"
    and form: "list_all is_hex (ie_fingerprint e)" "plain_response resp"
  shows "(\<exists>x \<ge> link_now view s + of_int ttl. 0 < ttl
       \<and> link_slots view t k = Some (e\<lparr>ie_response := Some resp, ie_expires_at := x\<rparr>))
    \<or> (ttl \<le> 0 \<or> (\<exists>err. r = Inl err)) \<and> link_slots view t k = Some e"
proof -
  obtain f prev x where key: "rb_keys (view s) (redis_idem_key k) = Some (Text (record_text f prev), Some x)"
    and x: "rb_now (view t) < x" and w: "well_kept f prev"
    and e: "e = \<lparr>ie_fingerprint = f, ie_expires_at = of_int x / 1000, ie_response = prev\<rparr>"
    by (rule link_liveE [OF live form(1)])
  have still: "link_slots view t' k = Some e"
    if "rb_keys (view t') (redis_idem_key k) = Some (Text (record_text f prev), Some x)" for t'
    using that w e by (simp add: link_slots_def slot_record)
  have script: "redis_serve (Read_Key (redis_idem_key k)) db = (Inr (VStr (record_text f prev)), db)"
    if "rb_keys db (redis_idem_key k) = Some (Text (record_text f prev), Some x)" "rb_now db < x" for db
    using that by (simp add: redis_get_def redis_live_def pbind_def)
  have read: "rb_keys (view u) (redis_idem_key k) = Some (Text (record_text f prev), Some x)
      \<and> (\<forall>v. y = Inr v \<longrightarrow> v = VStr (record_text f prev))"
    if "rc_send C (Read_Key (redis_idem_key k)) s = (y, u)" "rb_now (view u) < x" for y u
    using sent_live [OF that(1) _ key that(2)] script by auto
  from well_kept_storable [OF w depth] depth
  have confirmed: "confirmed_text (rc_recursion_limit C) (record_text f prev) resp = Inr (record_text f (Some resp))"
    by (intro record_confirmed) auto
  from run show ?thesis
  proof (cases rule: confirm_runE)
    case Off
    with live show ?thesis by (simp add: live_in_def)
  next
    case (Lost e1 e2)
    with read [OF Lost(2) x] still show ?thesis by blast
  next
    case (Other v)
    with read [OF Other(2) x] show ?thesis by blast
  next
    case (Unread raw e1 e2)
    with read [OF Unread(2) x] still show ?thesis by blast
  next
    case (Written raw printed u y)
    have "rb_now (view s) \<le> rb_now (view u)" "rb_now (view u) \<le> rb_now (view t)"
      using linked_frame [OF sent [OF Written(2)]] linked_frame [OF sent [OF Written(4)]] by simp_all
    with read [OF Written(2)] x have u: "rb_keys (view u) (redis_idem_key k) = Some (Text (record_text f prev), Some x)"
      and raw: "raw = record_text f prev" and later: "rb_now (view s) \<le> rb_now (view u)" by auto
    from Written(3) raw confirmed have printed: "printed = record_text f (Some resp)" by simp
    from Written(4,1) show ?thesis
    proof (cases rule: store_sent)
      case (Unsent err)
      with Written(5) still [of t] u show ?thesis by auto
    next
      case (Put d)
      have "well_kept f (Some resp)" using w form(2) by (simp add: well_kept_def)
      with Put(2) printed e have "link_slots view t k = Some (e\<lparr>ie_response := Some resp,
          ie_expires_at := of_int (rb_now (view u) + d + 1000 * ttl) / 1000\<rparr>)"
        by (simp add: link_slots_def slot_record)
      moreover have "link_now view s + of_int ttl \<le> of_int (rb_now (view u) + d + 1000 * ttl) / 1000"
        using Put(1) later by (simp add: link_now_def field_simps)
      ultimately show ?thesis using Written(1) by blast
    qed
  qed
qed

text \<open>Releases.\<close>

lemma release_runE:
  assumes "redis_release C k s = (r, t)"
  obtains x where "rc_send C (Release_Key (redis_idem_key k)) s = (x, t)" "(\<exists>e. x = Inl e) \<longrightarrow> (\<exists>e. r = Inl e)"
proof -
  let ?m = "pthen (rc_send C (Release_Key (redis_idem_key k))) (pret ())"
  from assms [unfolded redis_release_def] obtain r0 where run: "?m s = (r0, t)"
    and r0: "\<And>e. r0 = Inl e \<Longrightarrow> \<exists>e'. r = Inl e'"
    by (cases rule: translatingE) auto
  obtain x t' where X: "rc_send C (Release_Key (redis_idem_key k)) s = (x, t')" by fastforce
  with run have ended: "t' = t" "\<And>e. x = Inl e \<Longrightarrow> r0 = Inl e" by (auto simp: pthen_def pbind_def split: sum.split_asm)
  show ?thesis
  proof (rule that)
    show "rc_send C (Release_Key (redis_idem_key k)) s = (x, t)" using X ended(1) by simp
    show "(\<exists>e. x = Inl e) \<longrightarrow> (\<exists>e. r = Inl e)" using r0 ended(2) by blast
  qed
qed

lemma release_keeps:
  assumes "redis_release C k s = (r, t)"
  shows "link_now view s \<le> link_now view t \<and> (\<forall>k'. k' \<noteq> k \<longrightarrow> link_slots view t k' = link_slots view s k')"
  using release_runE [OF assms] by (metis sent_frame idem_key_inject request_key.simps(7))

lemma release_on_live:
  assumes run: "redis_release C k s = (r, t)" and live: "live_in (link_slots view) (link_now view) k e s t"
    and form: "list_all is_hex (ie_fingerprint e)"
  shows "if ie_completed e then link_slots view t k = Some e
    else link_slots view t k = None \<or> (\<exists>err. r = Inl err) \<and> link_slots view t k = Some e"
proof -
  obtain f prev x where key: "rb_keys (view s) (redis_idem_key k) = Some (Text (record_text f prev), Some x)"
    and x: "rb_now (view t) < x" and w: "well_kept f prev"
    and e: "e = \<lparr>ie_fingerprint = f, ie_expires_at = of_int x / 1000, ie_response = prev\<rparr>"
    by (rule link_liveE [OF live form])
  have still: "link_slots view t k = Some e"
    if "rb_keys (view t) (redis_idem_key k) = Some (Text (record_text f prev), Some x)"
    using that w e by (simp add: link_slots_def slot_record)
  have occurs: "occurs_in response_member (record_text f prev) \<longleftrightarrow> ie_completed e"
    using record_occurs [of f prev] w e by (simp add: well_kept_def ie_completed_def)
  obtain y where send: "rc_send C (Release_Key (redis_idem_key k)) s = (y, t)" "(\<exists>e. y = Inl e) \<longrightarrow> (\<exists>e. r = Inl e)"
    by (rule release_runE [OF run])
  from sent [OF send(1)] show ?thesis
  proof (cases rule: linkedE)
    case (Lost d)
    with send(2) key still show ?thesis by auto
  next
    case (Served d d' z db1)
    have "rb_now (passing d (view s)) < x"
      using keepsD [OF serve_only Served(3)] Served(2,4) x by (simp add: only_key_def)
    then have "redis_live (passing d (view s)) (redis_idem_key k) = Some (Text (record_text f prev), Some x)"
      using key by (simp add: redis_live_def)
    with Served(3) have db1: "db1 = (if ie_completed e then passing d (view s)
        else redis_put (redis_idem_key k) None (passing d (view s)))"
      by (simp add: key_release_script_def redis_get_def redis_del_def pbind_def occurs split: if_split_asm)
    show ?thesis
    proof (cases "ie_completed e")
      case True
      with db1 Served(4) key still show ?thesis by simp
    next
      case False
      with db1 Served(4) have "rb_keys (view t) (redis_idem_key k) = None" by (simp add: redis_put_def)
      with False show ?thesis by (simp add: link_slots_def redis_slot_def)
    qed
  qed
qed

end

sublocale redis_link < store: claim_store
  "redis_reserve C" "redis_confirm C" "redis_release C" "link_slots view" "link_now view"
  by unfold_locales
    (fact reserve_keeps confirm_keeps release_keeps reserve_found
      | rule reserve_on_live reserve_makes_claim confirm_on_live release_on_live; assumption)+

end
