(* ===== verification/Redis_Deployment.thy ===== *)
theory Redis_Deployment
  imports Composition
begin

text \<open>
  The composed service on Redis when the connection is lost at one point: the release of the wallet's lock,
  after the commit. \<open>blamed S comm m\<close> says that a run of \<open>m\<close> that changed the committed books raised an
  exception of \<open>S\<close>.
\<close>

section \<open>Who moved raised\<close>

definition blamed :: "('e \<Rightarrow> bool) \<Rightarrow> ('s \<Rightarrow> book) \<Rightarrow> ('s, 'e, 'a) prog \<Rightarrow> bool" where
  "blamed S comm m \<longleftrightarrow> (\<forall>s r t. m s = (r, t) \<longrightarrow> comm t = comm s \<or> (\<exists>e. r = Inl e \<and> S e))"

lemma blamedI: "(\<And>s r t. m s = (r, t) \<Longrightarrow> comm t = comm s \<or> (\<exists>e. r = Inl e \<and> S e)) \<Longrightarrow> blamed S comm m"
  by (auto simp: blamed_def)

lemma blamedD: "blamed S comm m \<Longrightarrow> m s = (r, t) \<Longrightarrow> comm t = comm s \<or> (\<exists>e. r = Inl e \<and> S e)"
  by (auto simp: blamed_def)

lemma blamed_unmoved: "(\<And>s r t. m s = (r, t) \<Longrightarrow> comm t = comm s) \<Longrightarrow> blamed S comm m"
  by (auto simp: blamed_def)

lemma blamed_still: "still comm m \<Longrightarrow> blamed S comm m"
  by (rule blamed_unmoved) (rule stillD)

lemma blamed_quiet: "quiet sess comm m \<Longrightarrow> blamed S comm m"
  by (rule blamed_still) (rule quiet_still)

lemma blamed_ret: "blamed S comm (pret x)" "blamed S comm (praise e)"
  by (auto intro: blamed_unmoved)

lemma blamed_returned: "blamed S comm m \<Longrightarrow> m s = (Inr x, t) \<Longrightarrow> comm t = comm s"
  by (drule (1) blamedD) simp

lemma blamed_raised: "blamed S comm m \<Longrightarrow> m s = (Inl e, t) \<Longrightarrow> comm t = comm s \<or> S e"
  by (drule (1) blamedD) simp

lemma blamed_bind:
  assumes "blamed S comm m" "\<And>x. blamed S comm (f x)"
  shows "blamed S comm (pbind m f)"
proof (rule blamedI)
  fix s r t
  assume "pbind m f s = (r, t)"
  then show "comm t = comm s \<or> (\<exists>e. r = Inl e \<and> S e)"
  proof (cases rule: pbindE)
    case (Raised e)
    with blamed_raised [OF assms(1)] show ?thesis by blast
  next
    case (Continued x u)
    with blamed_returned [OF assms(1)] blamedD [OF assms(2) Continued(2)] show ?thesis by metis
  qed
qed

lemma blamed_then: "blamed S comm m \<Longrightarrow> blamed S comm n \<Longrightarrow> blamed S comm (pthen m n)"
  unfolding pthen_def by (rule blamed_bind)

lemma blamed_label: "blamed S comm m \<Longrightarrow> blamed (\<lambda>(e, l). S e) comm (with_label l m)"
  by (rule blamedI, erule with_labelE) (auto dest: blamed_raised blamed_returned)

text \<open>Handlers and final clauses that leave the books alone.\<close>

lemma blamed_relabelled:
  assumes "blamed S comm m" "\<And>e. S e \<Longrightarrow> T (g e)"
  shows "blamed T comm (pcatch m (\<lambda>e. praise (g e)))"
proof (rule blamedI)
  fix s r t
  assume "pcatch m (\<lambda>e. praise (g e)) s = (r, t)"
  then show "comm t = comm s \<or> (\<exists>e. r = Inl e \<and> T e)"
  proof (cases rule: pcatchE)
    case (Returned x)
    with blamed_returned [OF assms(1)] show ?thesis by blast
  next
    case (Handled e u)
    with blamed_raised [OF assms(1) Handled(1)] assms(2) show ?thesis by auto
  qed
qed

lemma observed_blamed:
  assumes "blamed (\<lambda>(e, l). S e) comm body" "\<And>m. quiet sess comm (observe P m)" "quiet sess comm (perf_counter P)"
    and returns: "\<And>m s. \<exists>t. observe P m s = (Inr (), t)" "\<And>s. \<exists>x t. perf_counter P s = (Inr x, t)"
  shows "blamed S comm (observed P name body)"
proof (rule blamedI)
  fix s r t
  assume "observed P name body s = (r, t)"
  then show "comm t = comm s \<or> (\<exists>e. r = Inl e \<and> S e)"
  proof (cases rule: observedE)
    case (Untimed e)
    with assms(3) show ?thesis by (auto dest: quietD)
  next
    case (Ran st s0 b u f)
    obtain x u' where now: "perf_counter P u = (Inr x, u')" using returns(2) by blast
    obtain u'' where "observe P (ObserveInteractor name (reported_label b) (x - st)) u' = (Inr (), u'')"
      using returns(1) by blast
    with Ran(3) now have "f = Inr ()" "u'' = t" by (auto simp: pbind_def)
    moreover from this quietD [OF assms(3) now] quietD [OF assms(2) \<open>_ = (Inr (), u'')\<close>] have "comm t = comm u" by simp
    ultimately have f: "f = Inr ()" "comm t = comm u" by simp_all
    have "comm s0 = comm s" using Ran(1) assms(3) by (auto dest: quietD)
    with blamedD [OF assms(1) Ran(2)] f Ran(4) show ?thesis by (cases b rule: drop_label.cases) auto
  qed
qed

section \<open>A movement under a lock that cannot be released\<close>

context movement_backend begin

lemma apply_blamed:
  assumes "\<And>h s. lh_acquired h \<Longrightarrow> \<exists>t. lock_exit P h s = (Inl x, t)"
  shows "blamed (\<lambda>e. e = x) comm (mv_apply P cfg req)"
proof -
  have exit: "blamed (\<lambda>e. e = x) comm (pfinally (mv_locked_body P cfg req started h) (\<lambda>_. lock_exit P h))" for started h
  proof (cases "lh_acquired h")
    case True
    show ?thesis
      by (rule blamedI) (use assms [OF True] in \<open>auto elim!: pfinallyE; metis prod.inject sum.inject(1) sum.distinct(1)\<close>)
  next
    case False
    then have "still comm (mv_locked_body P cfg req started h)"
      by (auto simp: mv_locked_body_def intro!: still_bind still_then)
    then show ?thesis
      by (intro blamed_unmoved, elim pfinallyE) (drule (1) stillD, drule quietD [OF lock_quiet(2)], simp)+
  qed
  have "blamed (\<lambda>e. e = x) comm (mv_claim P cfg req)"
    by (rule blamed_unmoved) (simp add: claim_run)
  then show ?thesis
    unfolding mv_apply_def with_lock_def
    by (rule blamed_bind) (auto split: option.split intro!: blamed_bind blamed_ret exit
        blamed_quiet [OF misc_quiet(3)] blamed_quiet [OF lock_quiet(1)])
qed

end

context gated_backend begin

lemma run_blamed:
  assumes "\<And>h s. lh_acquired h \<Longrightarrow> \<exists>t. lock_exit P h s = (Inl x, t)"
    and returns: "\<And>m s. \<exists>t. observe P m s = (Inr (), t)" "\<And>s. \<exists>x t. perf_counter P s = (Inr x, t)"
  shows "blamed (\<lambda>e. e = x) comm (movement_run P cfg mms req)"
proof -
  have gates: "blamed S comm (rate_limit_gate P mms req)" "blamed S comm (risk_gate P mms req)" for S
    by (rule blamed_unmoved; auto simp: rate_limit_gate_def risk_gate_def Let_def elim!: pbindE pthenE
      split: if_split_asm dest!: with_label_quiet [OF gates_quiet(1)] with_label_quiet [OF gates_quiet(2)]
        with_label_quiet [OF misc_quiet(4)] quietD [OF misc_quiet(4)])+
  have "blamed (\<lambda>(e, l). e = x) comm (movement_try P cfg mms req)"
    unfolding movement_try_def
    by (intro blamed_then blamed_bind gates blamed_label apply_blamed assms(1) blamed_ret)
  then have "blamed (\<lambda>(e, l). e = x) comm (movement_body P cfg mms req)"
    unfolding movement_body_def
  proof (rule blamed_relabelled)
    fix y :: "exn \<times> string"
    show "case y of (e, l) \<Rightarrow> e = x \<Longrightarrow> case relabel y of (e, l) \<Rightarrow> e = x"
      by (cases y rule: relabel.cases) auto
  qed
  then show ?thesis
    unfolding movement_run_def by (rule observed_blamed [OF _ misc_quiet(4,3) returns])
qed

end

text \<open>What the lost release raises.\<close>

definition lost_release :: exn where
  "lost_release = app_exn DependencyUnavailableError DEPENDENCY_UNAVAILABLE
     (Some [(''dependency'', VStr ''redis''), (''operation'', VStr ''lock.release'')])"

definition release_lost :: "'s redis_client \<Rightarrow> bool" where
  "release_lost C \<longleftrightarrow> (\<forall>k token s. \<exists>e t. rc_send C (Release_Lock k token) s = (Inl e, t) \<and> rc_is_redis_error C e)"

lemma lost_exit:
  assumes "release_lost C" "lh_acquired h"
  shows "\<exists>t. lp_exit (redis_lock_port C) h s = (Inl lost_release, t)"
proof -
  obtain e t where "rc_send C (Release_Lock (lh_key h) (lh_token h)) s = (Inl e, t)" "rc_is_redis_error C e"
    using assms(1) unfolding release_lost_def by blast
  with assms(2) show ?thesis
    by (auto simp: redis_lock_port_def redis_lock_exit_def translating_redis_errors_def pthen_def pbind_def
        pcatch_def lost_release_def)
qed

section \<open>Properties\<close>

text \<open>C39: on Redis, a lock that cannot be released makes a failure of a movement that happened. If the connection
  is lost at the release, then every movement that changed the committed books, which is the
  requested posting, is answered by the error of an unavailable dependency.\<close>

theorem lost_release_hides_commit:
  assumes "sql_engine E sess_tb comm_tb" and "\<And>url. redis_quiet (sess_book sess_tb) (sess_book comm_tb) (client url)"
    and "outbound_keeps (apart sess_tb comm_tb) B"
    and "redis_enabled (set_redis st)" and "release_lost (client (rds_url (set_redis st)))"
    and "movement_run (wired_ports st E client B) cfg mms req s = (r, t)"
    and "sess_book sess_tb s = committed comm_tb s" "valid_money (mr_amount req)"
    and "committed comm_tb t \<noteq> committed comm_tb s"
  shows "r = Inl lost_release
    \<and> (\<exists>u now. post_request req u now (committed comm_tb s) = Some (committed comm_tb t))"
proof -
  let ?X = "chosen_adapters st client B"
  have X: "harmless_adapters sess_tb comm_tb ?X" by (rule chosen_harmless [OF assms(2,3)])
  have lost: "\<exists>t. lock_exit (with_adapters E ?X) h s = (Inl lost_release, t)" if "lh_acquired h" for h s
    using lost_exit [OF assms(5) that] assms(4)
    by (simp add: with_adapters_def chosen_adapters_def distributed_lock_def Let_def)
  have returns: "\<exists>t. observe (with_adapters E ?X) m s = (Inr (), t)" "\<exists>x t. perf_counter (with_adapters E ?X) s = (Inr x, t)"
    for m s
    by (simp_all add: with_adapters_def evenkeel_ports_def metrics_observe_returns) (metis monotonicE)
  note run = assms(6) [unfolded wired_ports_def]
  have "blamed (\<lambda>e. e = lost_release) (sess_book comm_tb) (movement_run (with_adapters E ?X) cfg mms req)"
    by (rule gated_backend.run_blamed [OF sql_engine.adapters_gated [OF assms(1) X] lost returns])
  from blamedD [OF this run] assms(9) have "r = Inl lost_release" by auto
  moreover from sql_engine.movement_changes [OF assms(1) X run assms(7,8,9)]
  have "\<exists>u now. post_request req u now (committed comm_tb s) = Some (committed comm_tb t)" by blast
  ultimately show ?thesis ..
qed

text \<open>A deployment on Redis whose server grants every lock and is gone at the release.\<close>

definition redis_settings :: settings where
  "redis_settings = demo_production\<lparr>set_redis := \<lparr>rds_url = ''redis://r''\<rparr>\<rparr>"

definition cut_redis :: "string \<Rightarrow> 's redis_client" where
  "cut_redis url =
     \<lparr>rc_send = \<lambda>q. case q of
          Acquire_Lock k token ttl \<Rightarrow> pret (VBool True)
        | Release_Lock k token \<Rightarrow> praise (PyExn ''ConnectionError'')
        | Reserve_Key k claim ttl \<Rightarrow> pret (VStr ''reserved'')
        | Consume k cost ttl \<Rightarrow> pret (VList [VInt 1, VInt 60000])
        | _ \<Rightarrow> pret VNone,
      rc_uuid4 = pret 0, rc_is_redis_error = \<lambda>e. e = PyExn ''ConnectionError'', rc_recursion_limit = 1000\<rparr>"

lemma cut_redis_lost: "redis_quiet f g (cut_redis url)" "release_lost (cut_redis url)"
  by (auto simp: redis_quiet_def release_lost_def cut_redis_def split: redis_request.split)

lemmas redis_run_defs = wired_ports_def with_adapters_def chosen_adapters_def distributed_lock_def idempotency_store_def
  rate_limiter_def redis_lock_port_def redis_lock_enter_def redis_lock_attempt_def redis_await_def redis_poll.simps
  translating_redis_errors_def redis_lock_exit_def lock_handle_of_def redis_consume_def rate_decision_def
  risk_adapter_def redis_enabled_def

lemma cut_runs:
  "\<exists>r t r' t'. movement_run (wired_ports redis_settings ref_engine cut_redis B) movement_settings_default
       move_money_settings_default demo_request (demo_world []) = (r, t)
     \<and> movement_run (wired_ports redis_settings ref_engine cut_redis B) movement_settings_default
       move_money_settings_default demo_request (renewed t) = (r', t')
     \<and> length (bk_postings (committed rf_comm t)) = 1 \<and> length (bk_postings (committed rf_comm t')) = 2"
  by (simp add: run_demo use_case_defs replay_defs redis_run_defs cut_redis_def redis_settings_def
      demo_production_simps renewed_def del: eval_stmt.simps(1,3,4))

text \<open>A client that repeats the failed withdrawal has withdrawn twice.\<close>

theorem lost_release_hides_commit_witness:
  "\<exists>t t'. movement_run (wired_ports redis_settings ref_engine cut_redis (same_answer [])) movement_settings_default
       move_money_settings_default demo_request (demo_world []) = (Inl lost_release, t)
     \<and> movement_run (wired_ports redis_settings ref_engine cut_redis (same_answer [])) movement_settings_default
       move_money_settings_default demo_request (renewed t) = (Inl lost_release, t')
     \<and> length (bk_postings (committed rf_comm t')) = 2"
proof -
  let ?run = "movement_run (wired_ports redis_settings ref_engine cut_redis (same_answer [])) movement_settings_default
       move_money_settings_default demo_request"
  from cut_runs obtain r t r' t' where run: "?run (demo_world []) = (r, t)" "?run (renewed t) = (r', t')"
      "length (bk_postings (committed rf_comm t)) = 1" "length (bk_postings (committed rf_comm t')) = 2" by blast
  have fresh: "sess_book rf_sess (renewed t) = committed rf_comm t" "committed rf_comm (renewed t) = committed rf_comm t"
    using renewed_session [of t] by (simp_all add: new_session_def)
  have "redis_enabled (set_redis redis_settings)" by (simp add: redis_settings_def redis_enabled_def)
  note lost = lost_release_hides_commit [OF ref.sql_engine_axioms cut_redis_lost(1) same_answer_apart this cut_redis_lost(2)]
  have "committed rf_comm t \<noteq> committed rf_comm (demo_world [])" using run(3) demo_empty by (metis list.size(3) zero_neq_one)
  from lost [OF run(1) demo_fresh demo_valid this] have "r = Inl lost_release" ..
  moreover have "committed rf_comm t' \<noteq> committed rf_comm (renewed t)" using run(3,4) fresh(2) by auto
  from lost [OF run(2) _ demo_valid this] fresh have "r' = Inl lost_release" by simp
  ultimately show ?thesis using run by blast
qed

end
