(* ===== verification/Redis_Once.thy ===== *)
theory Redis_Once
  imports Redis_Store Redis_Deployment
begin

text \<open>
  Once per key on Redis: the service with the adapters that the settings choose when a Redis URL is set. The
  Redis server is beside the database (\<open>rd\<close>), reached by one connection; whatever else the process does only
  lets the server's time pass. The store's contract comes from \<open>redis_link\<close>, the rest from \<open>use_cases\<close>.
\<close>

section \<open>What lets the server's time pass\<close>

definition only_ages :: "('s \<Rightarrow> redis_db) \<Rightarrow> 's \<Rightarrow> 's \<Rightarrow> bool" where
  "only_ages view s t \<longleftrightarrow> (\<exists>d \<ge> 0. view t = passing d (view s))"

lemma passing_zero [simp]: "passing 0 db = db"
  by (simp add: passing_def)

lemma passing_twice [simp]: "passing d (passing d' db) = passing (d' + d) db"
  by (simp add: passing_def)

lemma aged_order [simp]: "reflp (only_ages view)" "transp (only_ages view)"
proof -
  show "reflp (only_ages view)" by (rule reflpI) (auto simp: only_ages_def intro!: exI [of _ 0])
  show "transp (only_ages view)" unfolding only_ages_def by (rule transpI) (metis add_nonneg_nonneg passing_twice)
qed

lemma aged_frame: "only_ages view s t \<Longrightarrow> store_frame (link_slots view) (link_now view) K s t"
  by (auto simp: only_ages_def store_frame_def link_slots_def link_now_def divide_right_mono)

lemma aged_steady: "keeps (only_ages view) m \<Longrightarrow> steady (link_slots view) (link_now view) K m"
  unfolding steady_def by (rule keepsI) (auto dest: keepsD intro: aged_frame)

text \<open>The database's session lets the server be.\<close>

definition engine_ages :: "('d \<Rightarrow> redis_db) \<Rightarrow> 'd engine \<Rightarrow> bool" where
  "engine_ages rd E \<longleftrightarrow> (\<forall>st. keeps (only_ages rd) (en_execute E st))
     \<and> keeps (only_ages rd) (en_commit E) \<and> keeps (only_ages rd) (en_rollback E)"

definition redis_view :: "('d \<Rightarrow> redis_db) \<Rightarrow> 'd world \<Rightarrow> redis_db" where
  "redis_view rd s = rd (wd_db s)"

lemma on_db_aged: "keeps (only_ages rd) m \<Longrightarrow> keeps (only_ages (redis_view rd)) (on_db m)"
  by (rule keepsI) (auto elim!: on_dbE dest: keepsD simp: only_ages_def redis_view_def)

lemma memory_aged:
  assumes "\<And>s r t. m s = (r, t) \<Longrightarrow> memory.more t = memory.more s"
  shows "keeps (only_ages (redis_view rd)) m"
  by (rule keepsI) (auto simp: only_ages_def redis_view_def dest!: assms wd_db_more intro!: exI [of _ 0])

lemma process_aged:
  "keeps (only_ages (redis_view rd)) system_clock_now" "keeps (only_ages (redis_view rd)) uuid7_generate"
  "keeps (only_ages (redis_view rd)) (metrics_observe m)" "keeps (only_ages (redis_view rd)) monotonic"
proof -
  show "keeps (only_ages (redis_view rd)) system_clock_now" "keeps (only_ages (redis_view rd)) uuid7_generate"
    by (rule keepsI, auto simp: system_clock_now_def uuid7_generate_def only_ages_def redis_view_def
        split: list.splits intro!: exI [of _ 0])+
  show "keeps (only_ages (redis_view rd)) (metrics_observe m)"
    by (rule keepsI) (auto simp: only_ages_def redis_view_def elim!: metrics_observeE intro!: exI [of _ 0])
qed (auto intro: memory_aged more_memory_ops(6))

lemma sqla_aged:
  assumes "engine_ages rd E"
  shows "keeps (only_ages rd) (sqla_wallet_read E i ow fu)" "keeps (only_ages rd) (sqla_wallet_add E w)"
    "keeps (only_ages rd) (sqla_wallet_update E w v)" "keeps (only_ages rd) (sqla_ledger_add E en)"
    "keeps (only_ages rd) (sqla_ledger_read E u ow)"
proof -
  have execute: "keeps (only_ages rd) (en_execute E st)" for st using assms by (simp add: engine_ages_def)
  show "keeps (only_ages rd) (sqla_wallet_read E i ow fu)" "keeps (only_ages rd) (sqla_wallet_add E w)"
    "keeps (only_ages rd) (sqla_wallet_update E w v)" "keeps (only_ages rd) (sqla_ledger_add E en)"
    "keeps (only_ages rd) (sqla_ledger_read E u ow)"
    unfolding sqla_wallet_read_def sqla_wallet_add_def sqla_wallet_update_def sqla_ledger_add_def
      sqla_ledger_read_def
    by (auto intro!: keeps_bind keeps_then execute split: option.split prod.split)
qed

section \<open>The lock and the limiter leave the store alone\<close>

context redis_link begin

abbreviation "link_steady \<equiv> steady (link_slots view) (link_now view)"

lemma send_steady: "\<forall>k. redis_idem_key k \<noteq> request_key q \<Longrightarrow> link_steady K (rc_send C q)"
  by (rule steadyI) (auto dest: sent_frame)

lemma translating_steady: "link_steady K m \<Longrightarrow> link_steady K (translating_redis_errors C operation m)"
  unfolding translating_redis_errors_def by (intro steady_intros) auto

lemma store_contract:
  "claim_store (redis_reserve C) (redis_confirm C) (redis_release C) (link_slots view) (link_now view)"
  by (rule store.claim_store_axioms)

lemma consume_steady: "link_steady K (redis_consume C k policy cost)"
  unfolding redis_consume_def
  by (intro steady_intros translating_steady send_steady)
    (auto simp: redis_idem_key_def split: pyval.split list.split)

lemma attempt_steady: "link_steady K (redis_lock_attempt C k token ttl)"
  unfolding redis_lock_attempt_def
  by (intro translating_steady send_steady) (simp add: redis_idem_key_def redis_lock_key_def)

lemma lock_exit_steady: "rk_key l = redis_lock_key k \<Longrightarrow> link_steady K (redis_lock_exit C l)"
  unfolding redis_lock_exit_def
  by (auto intro!: steady_intros translating_steady send_steady simp: redis_idem_key_def redis_lock_key_def)

end

text \<open>The lock port in the process that waits.\<close>

lemma same_world_frame:
  assumes "memory.more t = memory.more s"
  shows "store_frame (link_slots (redis_view rd)) (link_now (redis_view rd)) K s t"
  using wd_db_more [OF assms] by (simp add: store_frame_def link_slots_def link_now_def redis_view_def)

lemma redis_lock_enter_steady:
  assumes "redis_link (redis_view rd) C"
  shows "steady (link_slots (redis_view rd)) (link_now (redis_view rd)) {} (lp_enter (redis_lock_port C) k ttl wait)"
    "lp_enter (redis_lock_port C) k ttl wait s = (Inr h, t) \<Longrightarrow> lh_key h = redis_lock_key k"
proof -
  let ?F = "store_frame (link_slots (redis_view rd)) (link_now (redis_view rd)) {}"
  have trans: "?F a b \<Longrightarrow> ?F b c \<Longrightarrow> ?F a c" for a b c by (rule transpD [OF store_frame_order(2)])
  have attempt: "?F a b" if "redis_lock_attempt C k token ttl a = (r, b)" for token a r b
    using redis_link.attempt_steady [OF assms] that unfolding steady_def by (rule keepsD)
  have await: "?F a b" if "redis_await (redis_lock_attempt C k token ttl) wait retry a = Some (r, b)" for token retry a r b
  proof -
    have "?F a b \<and> (\<forall>e. r = Inl e \<longrightarrow> True)"
    proof (rule redis_await_keeps [OF that, where I = "?F a"])
      show "?F a a" by (rule reflpD [OF store_frame_order(1)])
      show "?F a c \<and> (\<forall>e. q = Inl e \<longrightarrow> True)" if "?F a b" "redis_lock_attempt C k token ttl b = (q, c)" for b q c
        using trans [OF that(1) attempt [OF that(2)]] by simp
      show "?F a c" if "?F a b" "monotonic b = (m, c)" for b m c
        by (rule trans [OF that(1) same_world_frame]) (rule more_memory_ops(6) [OF that(2)])
      show "?F a (elapse d b)" if "?F a b" for b d
        by (rule trans [OF that same_world_frame]) (simp add: elapse_def)
    qed
    then show ?thesis by simp
  qed
  have uuid: "?F a b" if "rc_uuid4 C a = (r, b)" for r a b
    using redis_link.drawn [OF assms that] by (intro aged_frame) (auto simp: only_ages_def)
  show "steady (link_slots (redis_view rd)) (link_now (redis_view rd)) {} (lp_enter (redis_lock_port C) k ttl wait)"
    unfolding steady_def
  proof (rule keepsI)
    fix s r t
    assume "lp_enter (redis_lock_port C) k ttl wait s = (r, t)"
    then show "?F s t"
      by (auto simp: redis_lock_port_def redis_lock_enter_def reflpD [OF store_frame_order(1)]
          split: option.split_asm prod.split_asm sum.split_asm intro: uuid trans [OF uuid await])
  qed
  show "lp_enter (redis_lock_port C) k ttl wait s = (Inr h, t) \<Longrightarrow> lh_key h = redis_lock_key k"
    by (auto simp: redis_lock_port_def redis_lock_enter_def lock_handle_of_def map_sum_Inr
        split: option.split_asm prod.split_asm sum.split_asm)
qed

section \<open>The contract of the service on Redis\<close>

lemma risk_adapter_aged:
  assumes "outbound_keeps (only_ages view) B"
  shows "keeps (only_ages view) (risk_adapter B choice check)"
  by (auto simp: risk_adapter_def allow_all_assess_def http_risk_assess_def
      intro!: keeps_bind post_json_keeps [OF assms] split: risk_choice.split)

lemma chosen_on_redis:
  assumes "redis_enabled (set_redis st)" and "C = client (rds_url (set_redis st))"
  shows "chosen_adapters st client B =
     \<lparr>ad_lock_enter = lp_enter (redis_lock_port C), ad_lock_exit = lp_exit (redis_lock_port C),
      ad_reserve = redis_reserve C, ad_confirm = redis_confirm C, ad_release = redis_release C,
      ad_consume = redis_consume C, ad_assess = risk_adapter B (risk_assessment (set_risk st))\<rparr>"
  using assms by (simp add: chosen_adapters_def distributed_lock_def idempotency_store_def rate_limiter_def Let_def)

context sql_engine begin

lemma redis_use_cases:
  assumes engine: "engine_ages rd E" and link: "redis_link (redis_view rd) C"
    and redis: "redis_enabled (set_redis st)" "C = client (rds_url (set_redis st))"
    and quiet: "\<And>url. redis_quiet (sess_book sess_tb) (sess_book comm_tb) (client url)"
    and risk: "outbound_keeps (apart sess_tb comm_tb) B" "outbound_keeps (only_ages (redis_view rd)) B"
  shows "use_cases (wired_ports st E client B) (sess_book sess_tb) (sess_book comm_tb)
    (link_slots (redis_view rd)) (link_now (redis_view rd))"
proof -
  let ?P = "wired_ports st E client B" and ?slots = "link_slots (redis_view rd)" and ?now = "link_now (redis_view rd)"
  note X = chosen_harmless [where st = st, OF quiet risk(1)]
  have ports: "?P = with_adapters E (chosen_adapters st client B)" by (simp add: wired_ports_def)
  note adapters = with_adapters_def evenkeel_ports_def chosen_on_redis [where client = client, OF redis] ports.simps adapters.simps
  have db: "steady ?slots ?now {} (on_db m)" if "keeps (only_ages rd) m" for m
    by (intro aged_steady on_db_aged that)
  have process: "steady ?slots ?now {} system_clock_now" "steady ?slots ?now {} uuid7_generate"
      "steady ?slots ?now {} (metrics_observe m)" "steady ?slots ?now {} monotonic" for m
    by (rule aged_steady process_aged)+
  have exit: "steady ?slots ?now {} (lock_exit ?P h)" if issued: "issued ?P h" for h
  proof -
    from issued obtain k where "lh_key h = redis_lock_key k"
      by (auto simp: issued_def ports adapters dest: redis_lock_enter_steady(2) [OF link])
    then show ?thesis
      unfolding ports adapters redis_lock_port_def lock_port.simps
      by (intro redis_link.lock_exit_steady [OF link]) simp
  qed
  have store: "claim_store (idem_reserve ?P) (idem_confirm ?P) (idem_release ?P) ?slots ?now"
    unfolding ports adapters by (rule redis_link.store_contract [OF link])
  have ends: "keeps (only_ages rd) (en_commit E)" "keeps (only_ages rd) (en_rollback E)"
    using engine by (simp_all add: engine_ages_def)
  note steady_db = sqla_aged [OF engine, THEN db] ends [THEN db]
  have keyed: "keyed_backend_axioms ?P (sess_book sess_tb) ?slots ?now"
  proof (intro keyed_backend_axioms.intro)
    show "steady ?slots ?now {} (lock_enter ?P k ttl wait)" for k ttl wait
      unfolding ports adapters by (rule redis_lock_enter_steady(1) [OF link])
    show "ledger_read ?P u ow s = (Inr None, t) \<Longrightarrow>
      \<forall>p \<in> set (bk_postings (sess_book sess_tb s)). po_id p = u \<longrightarrow> owned (sess_book sess_tb s) (po_wallet p) ow = None"
      for u ow s t
      using keyed.entry_missing [of u ow s t] by (simp add: ports adapters)
  qed (rule exit; assumption | simp only: ports adapters, rule steady_db process)+
  show ?thesis
    unfolding ports
    by (intro use_cases.intro keyed_backend.intro adapters_movement adapters_bookkeeping X store [unfolded ports]
        keyed [unfolded ports] use_cases_axioms.intro)
      (auto simp: adapters intro!: redis_link.consume_steady [OF link] db sqla_aged engine
        intro: aged_steady risk_adapter_aged [OF risk(2)])
qed

end

section \<open>A server beside the database\<close>

text \<open>An engine next to a Redis server, and the client of that server.\<close>

definition on_fst :: "('d, exn, 'a) prog \<Rightarrow> ('d \<times> redis_db, exn, 'a) prog" where
  "on_fst m = (\<lambda>(d, db). case m d of (r, d') \<Rightarrow> (r, (d', db)))"

definition beside_redis :: "'d engine \<Rightarrow> ('d \<times> redis_db) engine" where
  "beside_redis E =
     \<lparr>en_execute = \<lambda>st. on_fst (en_execute E st), en_commit = on_fst (en_commit E), en_rollback = on_fst (en_rollback E)\<rparr>"

definition local_redis :: "string \<Rightarrow> ('d \<times> redis_db) world redis_client" where
  "local_redis url =
     \<lparr>rc_send = \<lambda>q s. case redis_serve q (snd (wd_db s)) of (r, db) \<Rightarrow>
          (map_sum (\<lambda>m. PyExn ''ResponseError'') id r, s\<lparr>wd_db := (fst (wd_db s), db)\<rparr>),
      rc_uuid4 = pret 0, rc_is_redis_error = \<lambda>e. e = PyExn ''ResponseError'', rc_recursion_limit = 1000\<rparr>"

lemma on_fstE:
  assumes "on_fst m s = (r, t)"
  obtains d' where "m (fst s) = (r, d')" "t = (d', snd s)"
  using assms by (auto simp: on_fst_def split: prod.splits)

lemma on_fst_ages: "keeps (only_ages snd) (on_fst m)"
  by (rule keepsI) (auto elim!: on_fstE simp: only_ages_def intro!: exI [of _ 0])

lemma beside_redis_ages: "engine_ages snd (beside_redis E)"
  by (simp add: engine_ages_def beside_redis_def on_fst_ages)

lemma beside_redis_engine:
  assumes "sql_engine E f g"
  shows "sql_engine (beside_redis E) (f \<circ> fst) (g \<circ> fst)"
  using assms unfolding sql_engine_def beside_redis_def
  by (auto elim!: on_fstE; blast)

interpretation local_redis: redis_link "redis_view snd" "local_redis url" for url
proof (unfold_locales, goal_cases)
  case (1 q s r t)
  then obtain x db1 where run: "redis_serve q (snd (wd_db s)) = (x, db1)" "r = map_sum (\<lambda>m. PyExn ''ResponseError'') id x"
      "t = s\<lparr>wd_db := (fst (wd_db s), db1)\<rparr>"
    by (auto simp: local_redis_def split: prod.splits)
  show ?case unfolding linked_def
    by (intro exI [of _ 0] conjI)
      (use run in \<open>cases x; auto simp: redis_view_def\<close>)+
qed (auto simp: local_redis_def redis_view_def intro!: exI [of _ 0])

lemma local_redis_quiet: "redis_quiet (sess_book (f \<circ> fst)) (sess_book (g \<circ> fst)) (local_redis url)"
  by (auto simp: redis_quiet_def local_redis_def sess_book_def intro!: quietI split: prod.splits)

lemma same_answer_aged: "outbound_keeps (only_ages (redis_view rd)) (same_answer body)"
  by (auto simp: outbound_keeps_def same_answer_def keeps_def only_ages_def redis_view_def set_stream_def Let_def
      intro!: exI [of _ 0])

definition redis_demo :: "(ref_db \<times> redis_db) world" where
  "redis_demo = world_start (wd_db (demo_world []), redis_empty 0) 0 [] (wd_clock (demo_world [])) (wd_uuids (demo_world []))"

definition redis_renewed :: "(ref_db \<times> redis_db) world \<Rightarrow> (ref_db \<times> redis_db) world" where
  "redis_renewed s = s\<lparr>wd_db := ((fst (wd_db s))\<lparr>rf_sess := rf_comm (fst (wd_db s))\<rparr>, snd (wd_db s))\<rparr>"

lemma redis_renewed_session:
  "new_session (sess_book (rf_sess \<circ> fst)) (sess_book (rf_comm \<circ> fst)) (link_slots (redis_view snd)) (link_now (redis_view snd))
     s (redis_renewed s)"
  by (simp add: fun_eq_iff new_session_def redis_renewed_def sess_book_def link_slots_def link_now_def redis_view_def)

text \<open>What the texts of a movement's claim and receipt are read as.\<close>

lemma receipt_confirmed:
  "confirmed_text 1000 (record_text (fingerprint req) None) (receipt en w)
    = Inr (record_text (fingerprint req) (Some (receipt en w)))"
  by (rule record_confirmed) auto

lemma receipt_found:
  "reserve_decision 1000 k (fingerprint req) (VStr (record_text (fingerprint req) (Some (receipt en w))))
    = Inr \<lparr>res_outcome = COMPLETED, res_record = Some \<lparr>ir_key = k, ir_fingerprint = fingerprint req,
        ir_response = receipt en w\<rparr>\<rparr>"
  by (subst record_decision) (auto simp: plain_storable taken_def as_entry_def ie_completed_def)

lemma claim_granted: "reserve_decision d k fp (VStr ''reserved'') = Inr reserved"
  by (simp add: reserve_decision_def)

lemma count_one: "show_int 1 = ''1''" "redis_number ''1'' = Some 1"
  by code_simp+

lemmas redis_script_defs = redis_reserve_def redis_confirm_def redis_idem_key_def redis_lock_key_def reserve_script_def
  consume_script_def lock_release_script_def redis_get_def redis_set_def redis_del_def redis_live_def redis_put_def
  redis_incrby_def redis_pexpire_def redis_pttl_def redis_empty_def count_one py_int_def
  claim_is_record receipt_confirmed receipt_found claim_granted local_redis_def beside_redis_def on_fst_def

lemma redis_keyed_runs:
  "\<exists>res t res' t'. movement_run (wired_ports redis_settings (beside_redis ref_engine) local_redis B) movement_settings_default
     move_money_settings_default keyed_request redis_demo = (Inr res, t)
     \<and> bk_postings (committed (rf_comm \<circ> fst) t) \<noteq> [] \<and> rb_now (snd (wd_db t)) = 0
     \<and> movement_run (wired_ports redis_settings (beside_redis ref_engine) local_redis B) movement_settings_default
         move_money_settings_default keyed_request (redis_renewed t) = (Inr res', t')
     \<and> rb_now (snd (wd_db t')) = 0 \<and> mvr_entry_id res' = LedgerEntryId 55"
  by (simp add: run_demo use_case_defs sess_book_def DAList.update.rep_eq DAList.empty.rep_eq redis_run_defs redis_script_defs
      redis_settings_def demo_production_simps redis_renewed_def redis_demo_def keyed_request_def del: eval_stmt.simps(1,3,4))

section \<open>Properties\<close>

text \<open>C4: at most once per key, on Redis. With the adapters that a Redis URL chooses, on one connection that may
  lose any request or its reply, after a movement that changed the committed books, whatever it
  answered, no call with the same key and owner changes them again while the key lives on the
  server's clock, whatever calls were served in between; if such a call succeeds it reports the
  entry of the first. (Two calls do not overlap; the hypothesis \<open>hash\<close> excludes SHA-256 collisions.)\<close>

theorem redis_at_most_once:
  assumes eng: "sql_engine E sess_tb comm_tb" "engine_ages rd E"
    and link: "redis_link (redis_view rd) (client (rds_url (set_redis st)))" "redis_enabled (set_redis st)"
      "\<And>url. redis_quiet (sess_book sess_tb) (sess_book comm_tb) (client url)"
    and risk: "outbound_keeps (apart sess_tb comm_tb) B" "outbound_keeps (only_ages (redis_view rd)) B"
    and first: "movement_run (wired_ports st E client B) cfg mms req s = (r, s1)"
      "sess_book sess_tb s = committed comm_tb s" "valid_money (mr_amount req)"
      "mr_idempotency_key req = Some k" "unrecorded (link_slots (redis_view rd)) req s"
      "committed comm_tb s1 \<noteq> committed comm_tb s"
    and between: "served (wired_ports st E client B) cfg mms (sess_book sess_tb) (sess_book comm_tb)
        (link_slots (redis_view rd)) (link_now (redis_view rd)) s1 qs s2"
      "new_session (sess_book sess_tb) (sess_book comm_tb) (link_slots (redis_view rd)) (link_now (redis_view rd)) s2 s3"
    and again: "movement_run (wired_ports st E client B) cfg mms q s3 = (r', t)"
      "valid_money (mr_amount q)" "mr_idempotency_key q = Some k" "mr_owner_id q = mr_owner_id req"
    and ttl: "0 < ms_idempotency_ttl_seconds cfg"
      "link_now (redis_view rd) t < link_now (redis_view rd) s + of_int (ms_idempotency_ttl_seconds cfg)"
    and hash: "\<And>m. m = q \<or> Move m \<in> set qs \<Longrightarrow> fingerprint m = fingerprint req \<Longrightarrow>
      mr_wallet_id m = mr_wallet_id req \<and> mr_owner_id m = mr_owner_id req"
  shows "committed comm_tb t = committed comm_tb s3
    \<and> (\<forall>res. r' = Inr res \<longrightarrow> fingerprint q = fingerprint req \<and> mvr_replayed res
         \<and> (\<exists>p \<in> set (bk_postings (committed comm_tb t)). po_id p = mvr_entry_id res
              \<and> po_wallet p = mr_wallet_id req))"
  by (rule use_cases.once_per_key [OF sql_engine.redis_use_cases
        [where client = client, OF eng link(1,2) refl link(3) risk] first between again ttl hash])

text \<open>A keyed withdrawal and its retry on a server that is reached without a loss.\<close>

theorem redis_at_most_once_witness:
  "\<exists>res s1 res' t. movement_run (wired_ports redis_settings (beside_redis ref_engine) local_redis (same_answer []))
       movement_settings_default move_money_settings_default keyed_request redis_demo = (Inr res, s1)
     \<and> movement_run (wired_ports redis_settings (beside_redis ref_engine) local_redis (same_answer []))
       movement_settings_default move_money_settings_default keyed_request (redis_renewed s1) = (Inr res', t)
     \<and> mvr_replayed res' \<and> committed (rf_comm \<circ> fst) t = committed (rf_comm \<circ> fst) (redis_renewed s1)"
proof -
  let ?run = "movement_run (wired_ports redis_settings (beside_redis ref_engine) local_redis (same_answer []))
       movement_settings_default move_money_settings_default keyed_request"
  from redis_keyed_runs obtain res s1 res' t where run: "?run redis_demo = (Inr res, s1)"
      "bk_postings (committed (rf_comm \<circ> fst) s1) \<noteq> []" "?run (redis_renewed s1) = (Inr res', t)" "rb_now (snd (wd_db t)) = 0"
    by blast
  have demo: "wd_db redis_demo = (wd_db (demo_world []), redis_empty 0)"
    by (simp add: redis_demo_def world_start_def memory.defs)
  have fresh: "sess_book (rf_sess \<circ> fst) redis_demo = committed (rf_comm \<circ> fst) redis_demo"
    using demo_fresh [of "[]"] by (simp add: sess_book_def demo)
  have "bk_postings (committed (rf_comm \<circ> fst) redis_demo) = []"
    using demo_empty [of "[]"] by (simp add: sess_book_def demo)
  with run(2) have moved: "committed (rf_comm \<circ> fst) s1 \<noteq> committed (rf_comm \<circ> fst) redis_demo" by metis
  have free: "unrecorded (link_slots (redis_view snd)) keyed_request redis_demo"
    by (simp add: unrecorded_def link_slots_def redis_view_def demo redis_empty_def redis_slot_def)
  have ttl: "0 < ms_idempotency_ttl_seconds movement_settings_default"
      "link_now (redis_view snd) t < link_now (redis_view snd) redis_demo + of_int (ms_idempotency_ttl_seconds movement_settings_default)"
    by (simp_all add: movement_settings_default_def link_now_def redis_view_def run(4) demo redis_empty_def)
  have enabled: "redis_enabled (set_redis redis_settings)" by (simp add: redis_settings_def redis_enabled_def)
  have key: "mr_idempotency_key keyed_request = Some ''k''" by (simp add: keyed_request_def)
  from redis_at_most_once [OF beside_redis_engine [OF ref.sql_engine_axioms] beside_redis_ages
      local_redis.redis_link_axioms enabled local_redis_quiet same_answer_apart same_answer_aged
      run(1) fresh keyed_valid key free moved served_none redis_renewed_session run(3) keyed_valid key refl ttl]
  have "committed (rf_comm \<circ> fst) t = committed (rf_comm \<circ> fst) (redis_renewed s1) \<and> mvr_replayed res'" by auto
  with run show ?thesis by blast
qed

end
