(* ===== verification/Repo_Tools.thy ===== *)
theory Repo_Tools
  imports Json_Parse Ids
begin

text \<open>
  \<open>tools/rename.py\<close>: the file tree the scripts of the repository work on, which files the script takes for
  text, what it replaces in them, and its run with and without \<open>--dry-run\<close>. A path is the list of its parts
  (\<open>path.parts\<close> without the root), a file its bytes; symbolic links and permissions are not modelled. The property compares the
  tree after a run with the tree before it.
\<close>

section \<open>A file tree\<close>

type_synonym path = "string list"

record tree =
  tr_files :: "(path \<times> string) list"
  tr_dirs :: "path list"

definition file_at :: "tree \<Rightarrow> path \<Rightarrow> string option" where
  "file_at T p = map_of (tr_files T) p"

definition is_file :: "path \<Rightarrow> tree \<Rightarrow> bool" where
  "is_file p T \<longleftrightarrow> file_at T p \<noteq> None"

definition is_dir :: "path \<Rightarrow> tree \<Rightarrow> bool" where
  "is_dir p T \<longleftrightarrow> p \<in> set (tr_dirs T)"

definition path_exists :: "path \<Rightarrow> tree \<Rightarrow> bool" where
  "path_exists p T \<longleftrightarrow> is_file p T \<or> is_dir p T"

text \<open>Whatever is below a directory.\<close>

definition entries :: "tree \<Rightarrow> path list" where
  "entries T = map fst (tr_files T) @ tr_dirs T"

definition rglob :: "path \<Rightarrow> tree \<Rightarrow> path list" where
  "rglob base T = filter (\<lambda>p. strict_prefix base p) (entries T)"

text \<open>\<open>read_text\<close> with its universal newlines, on valid UTF-8, and \<open>write_text\<close>.\<close>

fun universal_newlines :: "string \<Rightarrow> string" where
  "universal_newlines [] = []"
| "universal_newlines (c # s) =
     (if c = CHR 0x0D then
        CHR 0x0A # (case s of
          [] \<Rightarrow> []
        | d # s' \<Rightarrow> if d = CHR 0x0A then universal_newlines s' else universal_newlines s)
      else c # universal_newlines s)"

definition read_text :: "path \<Rightarrow> tree \<Rightarrow> exn + string" where
  "read_text p T =
     (case file_at T p of
        None \<Rightarrow> Inl (PyExn ''FileNotFoundError'')
      | Some b \<Rightarrow> if utf8_valid b then Inr (universal_newlines b) else Inl unicode_decode_error)"

definition write_text :: "path \<Rightarrow> string \<Rightarrow> tree \<Rightarrow> tree" where
  "write_text p content T = T\<lparr>tr_files := dict_set p content (tr_files T)\<rparr>"

text \<open>\<open>Path.rename\<close> of a directory: the target may be an empty directory, nothing else that exists.\<close>

definition moved :: "path \<Rightarrow> path \<Rightarrow> path \<Rightarrow> path" where
  "moved src dst p = (if prefix src p then dst @ drop (length src) p else p)"

definition rename_dir :: "path \<Rightarrow> path \<Rightarrow> tree \<Rightarrow> exn + tree" where
  "rename_dir src dst T =
     (if is_file dst T then Inl (PyExn ''NotADirectoryError'')
      else if rglob dst T \<noteq> [] then Inl (PyExn ''OSError'')
      else Inr \<lparr>tr_files = map (apfst (moved src dst)) (tr_files T),
                 tr_dirs = remdups (map (moved src dst) (tr_dirs T))\<rparr>)"

text \<open>\<open>path.name\<close> and \<open>path.suffix\<close>: the last dot of the name, unless it is the first or the last character.\<close>

definition path_name :: "path \<Rightarrow> string" where
  "path_name p = (if p = [] then [] else last p)"

definition path_suffix :: "path \<Rightarrow> string" where
  "path_suffix p =
     (let name = path_name p; after = rev (takeWhile (\<lambda>c. c \<noteq> CHR ''.'') (rev name)) in
      if CHR ''.'' \<in> set name \<and> length after + 1 < length name \<and> after \<noteq> [] then CHR ''.'' # after else [])"

text \<open>\<open>str.count\<close>: occurrences that do not overlap.\<close>

function py_count :: "string \<Rightarrow> string \<Rightarrow> nat" where
  "py_count w s =
     (case s of
        [] \<Rightarrow> 0
      | c # r \<Rightarrow> if w \<noteq> [] \<and> prefix w s then 1 + py_count w (drop (length w) s) else py_count w r)"
  by pat_completeness auto
termination
  by (relation "measure (\<lambda>(w, s). length s)") auto

declare py_count.simps [simp del]

definition py_capitalize :: "string \<Rightarrow> string" where
  "py_capitalize s = (case s of [] \<Rightarrow> [] | c # r \<Rightarrow> to_upper c # py_lower r)"

section \<open>The script\<close>

definition OLD :: string where
  "OLD = ''evenkeel''"

definition SKIP_DIRS :: "string list" where
  "SKIP_DIRS =
     [''.git'', ''.venv'', ''venv'', ''__pycache__'', ''.pytest_cache'', ''.ruff_cache'', ''.mypy_cache'',
      ''.import_linter_cache'', ''htmlcov'', ''dist'', ''build'', ''node_modules'']"

definition TEXT_SUFFIXES :: "string list" where
  "TEXT_SUFFIXES =
     [''.py'', ''.toml'', ''.cfg'', ''.ini'', ''.md'', ''.yml'', ''.yaml'', ''.json'', ''.txt'', ''.tape'', ''.sh'',
      ''.mako'', ''.importlinter'', ''.example'', []]"

definition NAMED_FILES :: "string list" where
  "NAMED_FILES =
     [''Dockerfile'', ''Makefile'', ''LICENSE'', ''.importlinter'', ''.dockerignore'', ''.gitignore'', ''.env.example'']"

text \<open>\<open>[a-z][a-z0-9_]*\<close>, matched whole, and the keywords of the language.\<close>

definition is_area_char :: "char \<Rightarrow> bool" where
  "is_area_char c \<longleftrightarrow> is_lower c \<or> is_digit c \<or> c = CHR ''_''"

definition lower_identifier :: "string \<Rightarrow> bool" where
  "lower_identifier s \<longleftrightarrow> s \<noteq> [] \<and> is_lower (hd s) \<and> list_all is_area_char s"

definition kwlist :: "string list" where
  "kwlist =
     [''False'', ''None'', ''True'', ''and'', ''as'', ''assert'', ''async'', ''await'', ''break'', ''class'',
      ''continue'', ''def'', ''del'', ''elif'', ''else'', ''except'', ''finally'', ''for'', ''from'', ''global'',
      ''if'', ''import'', ''in'', ''is'', ''lambda'', ''nonlocal'', ''not'', ''or'', ''pass'', ''raise'', ''return'',
      ''try'', ''while'', ''with'', ''yield'']"

text \<open>The message the script exits with, if it refuses the name.\<close>

definition validate :: "string \<Rightarrow> string option" where
  "validate name =
     (if \<not> lower_identifier name then
        Some ([CHR 0x27] @ name @ [CHR 0x27] @ '' is not a usable package name: use lowercase letters, ''
          @ ''digits and underscores, starting with a letter.'')
      else if name \<in> set kwlist then Some ([CHR 0x27] @ name @ [CHR 0x27] @ '' is a Python keyword.'')
      else if name = OLD then Some (''The package is already called '' @ [CHR 0x27] @ name @ [CHR 0x27, CHR ''.''])
      else None)"

definition is_text :: "path \<Rightarrow> bool" where
  "is_text p \<longleftrightarrow> path_name p \<in> set NAMED_FILES \<or> path_suffix p \<in> set TEXT_SUFFIXES"

definition walk :: "path \<Rightarrow> tree \<Rightarrow> path list" where
  "walk base T = sort (filter (\<lambda>p. is_file p T \<and> is_text p)
     (filter (\<lambda>p. \<not> list_ex (\<lambda>part. part \<in> set SKIP_DIRS) p) (rglob base T)))"

definition substitute :: "string \<Rightarrow> string \<Rightarrow> string" where
  "substitute txt new =
     replace_all (py_upper OLD) (py_upper new)
       (replace_all (py_capitalize OLD) (py_capitalize new) (replace_all OLD new txt))"

text \<open>What the loop finds in a file: the text to write and the number of occurrences it reports; nothing for a
  file that is not UTF-8 or that the substitution leaves as it is.\<close>

definition rename_file :: "path \<Rightarrow> string \<Rightarrow> tree \<Rightarrow> (string \<times> nat) option" where
  "rename_file p new T =
     (case read_text p T of
        Inl e \<Rightarrow> None
      | Inr original \<Rightarrow>
          if \<not> occurs_in OLD (py_lower original) then None
          else let updated = substitute original new in
            if updated = original then None else Some (updated, py_count OLD (py_lower original)))"

fun rename_files :: "path list \<Rightarrow> string \<Rightarrow> bool \<Rightarrow> tree \<Rightarrow> (path \<times> nat) list \<times> tree" where
  "rename_files [] new dry_run T = ([], T)"
| "rename_files (p # ps) new dry_run T =
     (case rename_file p new T of
        None \<Rightarrow> rename_files ps new dry_run T
      | Some (updated, hits) \<Rightarrow>
          (case rename_files ps new dry_run (if dry_run then T else write_text p updated T) of
             (changed, T') \<Rightarrow> ((p, hits) # changed, T')))"

text \<open>How the script ends: with a return code, by \<open>sys.exit\<close> with a message, or by an exception; what it
  printed and the tree it leaves.\<close>

datatype script_end = Returned int | Exited string | Raised exn

record script_run =
  sr_end :: script_end
  sr_printed :: "string list"
  sr_tree :: tree

text \<open>\<open>str(path)\<close> of a relative path, and \<open>f"{n:>4}"\<close>.\<close>

fun path_str :: "path \<Rightarrow> string" where
  "path_str [] = []"
| "path_str [name] = name"
| "path_str (name # p) = name @ ''/'' @ path_str p"

definition pad4 :: "nat \<Rightarrow> string" where
  "pad4 n = (let s = show_nat n in replicate (4 - length s) (CHR '' '') @ s)"

definition report_lines :: "path \<Rightarrow> (path \<times> nat) list \<Rightarrow> string list" where
  "report_lines base changed =
     map (\<lambda>(p, hits). ''  '' @ pad4 hits @ ''  '' @ path_str (drop (length base) p)) changed
     @ [[], show_nat (length changed) @ '' files, '' @ show_nat (sum_list (map snd changed)) @ '' occurrences'']"

definition rename_main :: "path \<Rightarrow> string \<Rightarrow> bool \<Rightarrow> tree \<Rightarrow> script_run" where
  "rename_main base new dry_run T =
     (case validate new of
        Some msg \<Rightarrow> \<lparr>sr_end = Exited msg, sr_printed = [], sr_tree = T\<rparr>
      | None \<Rightarrow>
          let package_dir = base @ [''src'', OLD]; target = base @ [''src'', new] in
          if \<not> is_dir package_dir T then
            \<lparr>sr_end = Exited (''/'' @ path_str package_dir @ '' does not exist -- is this the template root?''),
             sr_printed = [], sr_tree = T\<rparr>
          else
            (case rename_files (walk base T) new dry_run T of
               (changed, T') \<Rightarrow>
                 let report = report_lines base changed; arrow = ''src/'' @ OLD @ '' -> src/'' @ new in
                 if dry_run then
                   \<lparr>sr_end = Returned 0, sr_printed = report @ [''would move   '' @ arrow, [],
                      ''Dry run: nothing was written.''], sr_tree = T'\<rparr>
                 else
                   (case rename_dir package_dir target T' of
                      Inl e \<Rightarrow> \<lparr>sr_end = Raised e, sr_printed = report, sr_tree = T'\<rparr>
                    | Inr T'' \<Rightarrow>
                        \<lparr>sr_end = Returned 0, sr_printed = report @ [''moved        '' @ arrow, [], ''Done. Now:'',
                           ''  1. rename the repository directory itself to '' @ [CHR 0x27] @ new @ [CHR 0x27]
                             @ '' if you want it to match'', ''  2. uv sync'', ''  3. make check'', []],
                         sr_tree = T''\<rparr>)))"

section \<open>What a run does\<close>

lemma file_at_write: "file_at (write_text p content T) q = (if q = p then Some content else file_at T q)"
  by (simp add: file_at_def write_text_def)

lemma dirs_write: "tr_dirs (write_text p content T) = tr_dirs T"
  by (simp add: write_text_def)

lemma rename_file_local: "file_at T p = file_at T' p \<Longrightarrow> rename_file p new T = rename_file p new T'"
  by (simp add: rename_file_def read_text_def)

text \<open>A file is only touched at its own turn, so a real run sees what the dry run sees.\<close>

definition renames :: "string \<Rightarrow> tree \<Rightarrow> path list \<Rightarrow> (path \<times> nat) list" where
  "renames new T ps =
     concat (map (\<lambda>p. case rename_file p new T of None \<Rightarrow> [] | Some (u, h) \<Rightarrow> [(p, h)]) ps)"

lemma renames_cong:
  assumes "\<And>p. p \<in> set ps \<Longrightarrow> file_at T p = file_at T' p"
  shows "renames new T ps = renames new T' ps"
proof -
  have "map (\<lambda>p. case rename_file p new T of None \<Rightarrow> [] | Some (u, h) \<Rightarrow> [(p, h)]) ps
      = map (\<lambda>p. case rename_file p new T' of None \<Rightarrow> [] | Some (u, h) \<Rightarrow> [(p, h)]) ps"
    using rename_file_local [OF assms] by (intro map_cong) auto
  then show ?thesis unfolding renames_def by (rule arg_cong)
qed

lemma rename_files_real:
  "distinct ps \<Longrightarrow> rename_files ps new False T = (changed, T') \<Longrightarrow>
   changed = renames new T ps \<and> tr_dirs T' = tr_dirs T
   \<and> (\<forall>p. file_at T' p = (if p \<in> set ps then (case rename_file p new T of None \<Rightarrow> file_at T p | Some (u, h) \<Rightarrow> Some u)
        else file_at T p))"
proof (induction ps arbitrary: T changed)
  case (Cons p ps)
  show ?case
  proof (cases "rename_file p new T")
    case None
    with Cons.prems Cons.IH [of T changed] show ?thesis by (auto simp: renames_def)
  next
    case (Some uh)
    then obtain u h where uh: "rename_file p new T = Some (u, h)" by (cases uh) auto
    let ?T = "write_text p u T"
    obtain rest where rest: "rename_files ps new False ?T = (rest, T')" "changed = (p, h) # rest"
      using Cons.prems(2) uh by (auto split: prod.splits)
    have same: "file_at T q = file_at ?T q" if "q \<noteq> p" for q using that by (simp add: file_at_write)
    have "rest = renames new ?T ps" "tr_dirs T' = tr_dirs ?T" and
      files: "\<And>q. file_at T' q = (if q \<in> set ps then (case rename_file q new ?T of None \<Rightarrow> file_at ?T q | Some (u, h) \<Rightarrow> Some u)
        else file_at ?T q)"
      using Cons.IH [OF _ rest(1)] Cons.prems(1) by auto
    moreover have "renames new ?T ps = renames new T ps"
      by (rule renames_cong) (use Cons.prems(1) in \<open>auto simp: file_at_write\<close>)
    moreover have "rename_file q new ?T = rename_file q new T" if "q \<noteq> p" for q
      by (rule rename_file_local) (simp add: that file_at_write)
    ultimately show ?thesis
      using uh rest(2) Cons.prems(1)
      by (auto simp: renames_def file_at_write dirs_write split: option.split)
  qed
qed (auto simp: renames_def)

lemma rename_files_dry: "rename_files ps new True T = (renames new T ps, T)"
  by (induction ps) (auto simp: renames_def split: option.splits)


lemma renames_members:
  "(p, h) \<in> set (renames new T ps) \<longleftrightarrow> p \<in> set ps \<and> (\<exists>u. rename_file p new T = Some (u, h))"
proof (induction ps)
  case (Cons q ps)
  then show ?case by (cases "rename_file q new T") (auto simp: renames_def)
qed (simp add: renames_def)

lemma rename_file_Some:
  "rename_file p new T = Some (u, h) \<longleftrightarrow>
     (\<exists>b. file_at T p = Some b \<and> utf8_valid b \<and> occurs_in OLD (py_lower (universal_newlines b))
       \<and> u = substitute (universal_newlines b) new \<and> u \<noteq> universal_newlines b
       \<and> h = py_count OLD (py_lower (universal_newlines b)))"
  by (auto simp: rename_file_def read_text_def Let_def split: option.splits if_splits)

lemma walk_files: "p \<in> set (walk base T) \<Longrightarrow> is_file p T"
  by (simp add: walk_def)

lemma moved_inj:
  assumes "\<not> prefix dst p" "\<not> prefix dst q" "moved src dst p = moved src dst q"
  shows "p = q"
  using assms by (auto simp: moved_def prefix_def split: if_splits)

lemma file_at_moved:
  assumes "\<And>q. is_file q T \<Longrightarrow> \<not> prefix dst q" "\<not> prefix dst p"
  shows "file_at \<lparr>tr_files = map (apfst (moved src dst)) (tr_files T), tr_dirs = ds\<rparr> (moved src dst p) = file_at T p"
proof -
  have keys: "\<not> prefix dst q" if "q \<in> fst ` set (tr_files T)" for q
    using assms(1) [of q] that by (auto simp: is_file_def file_at_def map_of_eq_None_iff)
  have "map_of (map (apfst (moved src dst)) kvs) (moved src dst p) = map_of kvs p"
    if "fst ` set kvs \<subseteq> fst ` set (tr_files T)" for kvs
    using that
  proof (induction kvs)
    case (Cons kv kvs)
    then show ?case using keys [of "fst kv"] moved_inj [OF assms(2), of "fst kv" src]
      by (cases kv) auto
  qed simp
  from this [of "tr_files T"] show ?thesis by (simp add: file_at_def)
qed


lemma distinct_walk: "distinct (entries T) \<Longrightarrow> distinct (walk base T)"
  by (simp add: walk_def rglob_def)

lemma real_run:
  assumes "distinct (entries T)" "rename_files (walk base T) new False T = (changed, T1)"
    and "rglob dst T = []" "\<not> is_file dst T"
  obtains T2 where "rename_dir src dst T1 = Inr T2" "changed = renames new T (walk base T)"
    "\<And>p. \<not> prefix dst p \<Longrightarrow> file_at T2 (moved src dst p)
       = (if p \<in> set (walk base T) then (case rename_file p new T of None \<Rightarrow> file_at T p | Some (u, h) \<Rightarrow> Some u)
          else file_at T p)"
proof -
  note real = rename_files_real [OF distinct_walk [OF assms(1)] assms(2)]
  have same: "is_file p T1 \<longleftrightarrow> is_file p T" for p
    using real walk_files [of p base T] by (auto simp: is_file_def split: option.splits)
  have files: "p \<in> set (entries S) \<longleftrightarrow> is_file p S \<or> p \<in> set (tr_dirs S)" for p S
    by (simp add: entries_def is_file_def file_at_def map_of_eq_None_iff)
  have "set (entries T1) = set (entries T)"
    using real same by (intro set_eqI) (simp add: files)
  then have free: "rglob dst T1 = []" "\<not> is_file dst T1"
    using assms(3,4) same by (auto simp: rglob_def filter_empty_conv)
  have "\<not> prefix dst q" if "is_file q T1" for q
    using that free by (auto simp: rglob_def filter_empty_conv files strict_prefix_def)
  then have moved: "\<not> prefix dst p \<Longrightarrow> file_at \<lparr>tr_files = map (apfst (moved src dst)) (tr_files T1), tr_dirs = ds\<rparr>
      (moved src dst p) = file_at T1 p" for p ds by (rule file_at_moved)
  show ?thesis
    by (rule that [of "\<lparr>tr_files = map (apfst (moved src dst)) (tr_files T1), tr_dirs = remdups (map (moved src dst) (tr_dirs T1))\<rparr>"])
      (use free real moved in \<open>auto simp: rename_dir_def\<close>)
qed

section \<open>Properties\<close>

text \<open>C40: the rename does what its dry run says and nothing else. In a checkout whose target name is free, the dry
  run leaves the tree as it is and prints the same list of files and occurrences as the real run; the
  listed files are exactly the text files outside the skipped directories that hold the package's
  name where the substitution changes it; after the real run they hold the substituted text, every
  other file is as it was, and what was below \<open>src/evenkeel\<close> is below the new name.\<close>

theorem rename_exact:
  assumes "validate new = None" and "is_dir (base @ [''src'', OLD]) T" and "distinct (entries T)"
    and "rglob (base @ [''src'', new]) T = []" and "\<not> is_file (base @ [''src'', new]) T"
  shows "\<exists>changed out out' T'.
      rename_main base new True T = \<lparr>sr_end = Returned 0, sr_printed = report_lines base changed @ out, sr_tree = T\<rparr>
    \<and> rename_main base new False T = \<lparr>sr_end = Returned 0, sr_printed = report_lines base changed @ out', sr_tree = T'\<rparr>
    \<and> (\<forall>p. p \<in> fst ` set changed \<longleftrightarrow> p \<in> set (walk base T) \<and> (\<exists>b. file_at T p = Some b \<and> utf8_valid b
          \<and> occurs_in OLD (py_lower (universal_newlines b))
          \<and> substitute (universal_newlines b) new \<noteq> universal_newlines b))
    \<and> (\<forall>p. \<not> prefix (base @ [''src'', new]) p \<longrightarrow>
          file_at T' (moved (base @ [''src'', OLD]) (base @ [''src'', new]) p)
          = map_option (\<lambda>b. if p \<in> fst ` set changed then substitute (universal_newlines b) new else b) (file_at T p))"
proof -
  let ?src = "base @ [''src'', OLD]" and ?dst = "base @ [''src'', new]"
  let ?ch = "renames new T (walk base T)"
  obtain changed T1 where run: "rename_files (walk base T) new False T = (changed, T1)" by fastforce
  from real_run [OF assms(3) run assms(4,5), of ?src] obtain T2 where T2: "rename_dir ?src ?dst T1 = Inr T2"
    "changed = ?ch" and files: "\<And>p. \<not> prefix ?dst p \<Longrightarrow> file_at T2 (moved ?src ?dst p)
       = (if p \<in> set (walk base T) then (case rename_file p new T of None \<Rightarrow> file_at T p | Some (u, h) \<Rightarrow> Some u)
          else file_at T p)" by blast
  have members: "p \<in> fst ` set ?ch \<longleftrightarrow> p \<in> set (walk base T) \<and> rename_file p new T \<noteq> None" for p
    using renames_members [of p _ new T "walk base T"] by (force simp: image_iff)
  show ?thesis
  proof (intro exI conjI allI impI)
    show "rename_main base new True T = \<lparr>sr_end = Returned 0, sr_printed = report_lines base ?ch
        @ [''would move   '' @ ''src/'' @ OLD @ '' -> src/'' @ new, [], ''Dry run: nothing was written.''], sr_tree = T\<rparr>"
      using assms(1,2) by (simp add: rename_main_def rename_files_dry)
    show "rename_main base new False T = \<lparr>sr_end = Returned 0, sr_printed = report_lines base ?ch
        @ [''moved        '' @ ''src/'' @ OLD @ '' -> src/'' @ new, [], ''Done. Now:'',
           ''  1. rename the repository directory itself to '' @ [CHR 0x27] @ new @ [CHR 0x27]
             @ '' if you want it to match'', ''  2. uv sync'', ''  3. make check'', []], sr_tree = T2\<rparr>"
      using assms(1,2) run T2 by (simp add: rename_main_def)
  next
    fix p
    show "p \<in> fst ` set ?ch \<longleftrightarrow> p \<in> set (walk base T) \<and> (\<exists>b. file_at T p = Some b \<and> utf8_valid b
          \<and> occurs_in OLD (py_lower (universal_newlines b))
          \<and> substitute (universal_newlines b) new \<noteq> universal_newlines b)"
      using rename_file_Some [of p new T] by (auto simp: members)
  next
    fix p
    assume "\<not> prefix ?dst p"
    note at = files [OF this]
    show "file_at T2 (moved ?src ?dst p)
          = map_option (\<lambda>b. if p \<in> fst ` set ?ch then substitute (universal_newlines b) new else b) (file_at T p)"
    proof (cases "p \<in> fst ` set ?ch")
      case True
      then obtain u h where "p \<in> set (walk base T)" and found: "rename_file p new T = Some (u, h)" by (auto simp: members)
      with at have "file_at T2 (moved ?src ?dst p) = Some u" by simp
      moreover from found obtain b where "file_at T p = Some b" "u = substitute (universal_newlines b) new"
        by (auto simp: rename_file_Some)
      ultimately show ?thesis using True by simp
    next
      case False
      with at show ?thesis by (auto simp: members option.map_ident split: option.split)
    qed
  qed
qed

text \<open>In a checkout below a directory with a skipped name the script renames no file, and moves the package.\<close>

lemma skipped_checkout:
  assumes "part \<in> set base" "part \<in> set SKIP_DIRS"
  shows "walk base T = []"
proof -
  have "list_ex (\<lambda>part. part \<in> set SKIP_DIRS) p" if "strict_prefix base p" for p
    using assms that by (auto simp: list_ex_iff strict_prefix_def prefix_def)
  then show ?thesis by (auto simp: walk_def rglob_def filter_empty_conv)
qed

lemma skipped_checkout_moves:
  assumes "part \<in> set base" "part \<in> set SKIP_DIRS" "validate new = None" "is_dir (base @ [''src'', OLD]) T"
    and "distinct (entries T)" "rglob (base @ [''src'', new]) T = []" "\<not> is_file (base @ [''src'', new]) T"
  shows "\<exists>out T'. rename_main base new False T = \<lparr>sr_end = Returned 0, sr_printed = out, sr_tree = T'\<rparr>
    \<and> (\<forall>p. \<not> prefix (base @ [''src'', new]) p \<longrightarrow>
          file_at T' (moved (base @ [''src'', OLD]) (base @ [''src'', new]) p) = file_at T p)"
proof -
  have run: "rename_files (walk base T) new False T = ([], T)" by (simp add: skipped_checkout [OF assms(1,2)])
  from real_run [OF assms(5) run assms(6,7), of "base @ [''src'', OLD]"] obtain T2 where
    "rename_dir (base @ [''src'', OLD]) (base @ [''src'', new]) T = Inr T2"
    "\<And>p. \<not> prefix (base @ [''src'', new]) p \<Longrightarrow>
       file_at T2 (moved (base @ [''src'', OLD]) (base @ [''src'', new]) p) = file_at T p"
    unfolding skipped_checkout [OF assms(1,2)] by auto
  then show ?thesis using assms(3,4) run by (auto simp: rename_main_def)
qed

definition demo_checkout :: tree where
  "demo_checkout =
     \<lparr>tr_files = [([''r'', ''src'', ''evenkeel'', ''a.py''], ''import evenkeel''), ([''r'', ''README.md''], ''Evenkeel''),
        ([''r'', ''logo.png''], ''evenkeel'')],
      tr_dirs = [[''r'', ''src''], [''r'', ''src'', ''evenkeel'']]\<rparr>"

lemma demo_checkout_facts:
  "validate ''acme'' = None" "is_dir ([''r''] @ [''src'', OLD]) demo_checkout" "distinct (entries demo_checkout)"
  "rglob ([''r''] @ [''src'', ''acme'']) demo_checkout = []" "\<not> is_file ([''r''] @ [''src'', ''acme'']) demo_checkout"
  "set (walk [''r''] demo_checkout) = {[''r'', ''src'', ''evenkeel'', ''a.py''], [''r'', ''README.md'']}"
  "occurs_in OLD (py_lower ''import evenkeel'')" "occurs_in OLD (py_lower ''Evenkeel'')"
  "substitute ''import evenkeel'' ''acme'' = ''import acme''" "substitute ''Evenkeel'' ''acme'' = ''Acme''"
  by code_simp+

theorem rename_exact_witness:
  "\<exists>out T'. rename_main [''r''] ''acme'' False demo_checkout = \<lparr>sr_end = Returned 0, sr_printed = out, sr_tree = T'\<rparr>
     \<and> file_at T' [''r'', ''src'', ''acme'', ''a.py''] = Some ''import acme''
     \<and> file_at T' [''r'', ''README.md''] = Some ''Acme''
     \<and> file_at T' [''r'', ''logo.png''] = Some ''evenkeel''"
proof -
  let ?mv = "moved [''r'', ''src'', OLD] [''r'', ''src'', ''acme'']"
  have at: "file_at demo_checkout [''r'', ''src'', ''evenkeel'', ''a.py''] = Some ''import evenkeel''"
    "file_at demo_checkout [''r'', ''README.md''] = Some ''Evenkeel''"
    "file_at demo_checkout [''r'', ''logo.png''] = Some ''evenkeel''"
    "?mv [''r'', ''src'', ''evenkeel'', ''a.py''] = [''r'', ''src'', ''acme'', ''a.py'']"
    "?mv [''r'', ''README.md''] = [''r'', ''README.md'']" "?mv [''r'', ''logo.png''] = [''r'', ''logo.png'']"
    "utf8_valid ''import evenkeel''" "utf8_valid ''Evenkeel''" "universal_newlines ''import evenkeel'' = ''import evenkeel''"
    "universal_newlines ''Evenkeel'' = ''Evenkeel''"
    by code_simp+
  from rename_exact [OF demo_checkout_facts(1-5)] obtain changed out T' where
    run: "rename_main [''r''] ''acme'' False demo_checkout
      = \<lparr>sr_end = Returned 0, sr_printed = report_lines [''r''] changed @ out, sr_tree = T'\<rparr>"
    and changed: "\<And>p. p \<in> fst ` set changed \<longleftrightarrow> p \<in> set (walk [''r''] demo_checkout) \<and> (\<exists>b. file_at demo_checkout p = Some b
      \<and> utf8_valid b \<and> occurs_in OLD (py_lower (universal_newlines b))
      \<and> substitute (universal_newlines b) ''acme'' \<noteq> universal_newlines b)"
    and files: "\<And>p. \<not> prefix [''r'', ''src'', ''acme''] p \<Longrightarrow> file_at T' (?mv p)
      = map_option (\<lambda>b. if p \<in> fst ` set changed then substitute (universal_newlines b) ''acme'' else b) (file_at demo_checkout p)"
    unfolding append.simps by blast
  have "file_at T' [''r'', ''src'', ''acme'', ''a.py''] = Some ''import acme''"
    using files [of "[''r'', ''src'', ''evenkeel'', ''a.py'']"] by (simp add: changed demo_checkout_facts at del: utf8_valid.simps universal_newlines.simps occurs_in.simps)
  moreover have "file_at T' [''r'', ''README.md''] = Some ''Acme''"
    using files [of "[''r'', ''README.md'']"] by (simp add: changed demo_checkout_facts at del: utf8_valid.simps universal_newlines.simps occurs_in.simps)
  moreover have "file_at T' [''r'', ''logo.png''] = Some ''evenkeel''"
    using files [of "[''r'', ''logo.png'']"] by (simp add: changed demo_checkout_facts at del: utf8_valid.simps universal_newlines.simps occurs_in.simps)
  ultimately show ?thesis using run by blast
qed

end
