(* ===== verification/Scaffold.thy ===== *)
theory Scaffold
  imports Repo_Tools Config
begin

text \<open>
  \<open>tools/new_vertical.py\<close>: the modules it generates for an area, line by line, and the writing of them. A script
  is a program on the file tree and the lines printed so far; \<open>uv run ruff format\<close> is a parameter. A dash in the
  generated text is printed as two hyphens.
\<close>

section \<open>Names\<close>

definition singular :: "string \<Rightarrow> string" where
  "singular name = (if name \<noteq> [] \<and> last name = CHR ''s'' then butlast name else name)"

fun py_split :: "char \<Rightarrow> string \<Rightarrow> string list" where
  "py_split sep [] = [[]]"
| "py_split sep (c # s) =
     (if c = sep then [] # py_split sep s
      else (case py_split sep s of [] \<Rightarrow> [[c]] | part # parts \<Rightarrow> (c # part) # parts))"

definition camel :: "string \<Rightarrow> string" where
  "camel name = concat (map py_capitalize (py_split (CHR ''_'') name))"

definition lines_text :: "string list \<Rightarrow> string" where
  "lines_text ls = concat (map (\<lambda>l. l @ [CHR 0x0A]) ls)"

section \<open>The generated modules\<close>

definition interactor_module :: "string \<Rightarrow> string" where
  "interactor_module area =
     (let one = singular area; entity = camel one in lines_text
       [''import time'',
        ''from dataclasses import dataclass'',
        [],
        ''from evenkeel.application.errors import ApplicationErrorCode, NotFoundError'',
        ''from evenkeel.application.ports import MetricsPort'',
        ''from evenkeel.domain.value_objects.ids import OwnerId'',
        [],
        [],
        ''@dataclass(frozen=True, slots=True)'',
        ''class Get'' @ entity @ ''Query:'',
        ''    \"\"\"Only data. Never a port, never a service, never a session.\"\"\"'',
        [],
        ''    '' @ one @ ''_id: str'',
        ''    # Ownership travels with the query so the repository can filter in SQL.'',
        ''    # A check performed after the read is one somebody can delete (ADR 3).'',
        ''    owner_id: OwnerId'',
        [],
        [],
        ''@dataclass(frozen=True, slots=True)'',
        ''class '' @ entity @ ''Result:'',
        ''    '' @ one @ ''_id: str'',
        [],
        [],
        ''class Get'' @ entity @ ''Interactor:'',
        ''    \"\"\"One use case. Policy here, persistence behind a port, rules in the domain.'',
        [],
        ''    TODO('' @ area @ ''): take the repository port this needs as a constructor argument'',
        ''    and add it to `application/ports/`. Do not import an adapter.'',
        ''    \"\"\"'',
        [],
        ''    def __init__(self, metrics: MetricsPort) -> None:'',
        ''        self._metrics = metrics'',
        [],
        ''    async def __call__(self, query: Get'' @ entity @ ''Query) -> '' @ entity @ ''Result:'',
        ''        started_at = time.perf_counter()'',
        ''        outcome = \"error\"'',
        ''        try:'',
        ''            # TODO('' @ area @ ''): read through the port, scoped by `query.owner_id`.'',
        ''            found = None'',
        ''            if found is None:'',
        ''                outcome = \"not_found\"'',
        ''                raise NotFoundError('',
        ''                    ApplicationErrorCode.VALIDATION_FAILED,'',
        ''                    details={\"'' @ one @ ''_id\": query.'' @ one @ ''_id},'',
        ''                )'',
        ''            outcome = \"success\"'',
        ''            return '' @ entity @ ''Result('' @ one @ ''_id=query.'' @ one @ ''_id)'',
        ''        finally:'',
        ''            # In `finally`, so a refusal is measured as carefully as a success.'',
        ''            self._metrics.observe_interactor('',
        ''                name=\"get_'' @ one @ ''\",'',
        ''                outcome=outcome,'',
        ''                duration_seconds=time.perf_counter() - started_at,'',
        ''            )''])"

definition interactor_init :: "string \<Rightarrow> string" where
  "interactor_init area =
     (let entity = camel (singular area) in lines_text
       [''from evenkeel.application.interactors.'' @ area @ ''.get_'' @ singular area @ '' import ('',
        ''    Get'' @ entity @ ''Interactor,'',
        ''    Get'' @ entity @ ''Query,'',
        ''    '' @ entity @ ''Result,'',
        '')'',
        [],
        ''__all__ = ['',
        ''    \"Get'' @ entity @ ''Interactor\",'',
        ''    \"Get'' @ entity @ ''Query\",'',
        ''    \"'' @ entity @ ''Result\",'',
        '']''])"

definition schema_module :: "string \<Rightarrow> string" where
  "schema_module area =
     (let entity = camel (singular area); one = singular area in lines_text
       [''from pydantic import BaseModel, Field'',
        [],
        [],
        ''class '' @ entity @ ''Response(BaseModel):'',
        ''    \"\"\"The shape a client sees. Pydantic lives at the edge and nowhere else.\"\"\"'',
        [],
        ''    '' @ one @ ''_id: str = Field(description=\"TODO('' @ area @ ''): describe every field.\")''])"

definition router_module :: "string \<Rightarrow> string" where
  "router_module area =
     (let entity = camel (singular area); one = singular area in lines_text
       [''from dishka.integrations.fastapi import DishkaRoute, FromDishka'',
        ''from fastapi import APIRouter'',
        [],
        ''from evenkeel.application.interactors.'' @ area @ '' import ('',
        ''    Get'' @ entity @ ''Interactor,'',
        ''    Get'' @ entity @ ''Query,'',
        '')'',
        ''from evenkeel.presentation.http.dependencies import CurrentPrincipal'',
        ''from evenkeel.presentation.http.responses import read_responses'',
        ''from evenkeel.presentation.http.schemas.v1.'' @ area @ '' import '' @ entity @ ''Response'',
        [],
        ''router = APIRouter(route_class=DishkaRoute)'',
        [],
        [],
        ''@router.get('',
        ''    \"/{'' @ one @ ''_id}\",'',
        ''    response_model='' @ entity @ ''Response,'',
        ''    responses=read_responses(),'',
        ''    summary=\"Read one '' @ one @ ''\",'',
        '')'',
        ''async def get_'' @ one @ ''('',
        ''    '' @ one @ ''_id: str,'',
        ''    principal: CurrentPrincipal,'',
        ''    interactor: FromDishka[Get'' @ entity @ ''Interactor],'',
        '') -> '' @ entity @ ''Response:'',
        ''    \"\"\"Thin on purpose: parse, delegate, translate. No rules here.'',
        [],
        ''    Errors are not caught -- `ApplicationError` and `DomainError` are rendered as'',
        ''    RFC 9457 problem documents by the single handler in `http/errors.py`.'',
        ''    \"\"\"'',
        ''    result = await interactor('',
        ''        Get'' @ entity @ ''Query('' @ one @ ''_id='' @ one @ ''_id, owner_id=principal.owner_id)'',
        ''    )'',
        ''    return '' @ entity @ ''Response('' @ one @ ''_id=result.'' @ one @ ''_id)''])"

definition test_module :: "string \<Rightarrow> string" where
  "test_module area =
     (let one = singular area in lines_text
       [''\"\"\"HTTP tests for the '' @ area @ '' vertical.'',
        [],
        ''Through the real application over fake adapters, like the rest of `tests/http`:'',
        ''same routers, same middleware, same error handlers. Only the outermost adapters'',
        ''differ, which is the seam ports exist to provide.'',
        ''\"\"\"'',
        [],
        ''from httpx import AsyncClient'',
        [],
        ''from evenkeel.domain.value_objects.ids import OwnerId'',
        [],
        [],
        ''def auth(owner_id: OwnerId) -> dict[str, str]:'',
        ''    return {\"Authorization\": f\"Bearer {owner_id.value}\"}'',
        [],
        [],
        ''async def test_an_unknown_'' @ one @ ''_is_a_404(client: AsyncClient, owner_id: OwnerId) -> None:'',
        ''    response = await client.get(\"/v1/'' @ area @ ''/does-not-exist\", headers=auth(owner_id))'',
        [],
        ''    assert response.status_code == 404'',
        [],
        [],
        ''async def test_a_request_without_credentials_is_rejected(client: AsyncClient) -> None:'',
        ''    response = await client.get(\"/v1/'' @ area @ ''/anything\")'',
        [],
        ''    assert response.status_code == 401'',
        [],
        [],
        ''# TODO('' @ area @ ''): the tests that matter are the ones about *this* vertical's rules.'',
        ''# A 404 and a 401 are inherited from the framework; what needs proving is the'',
        ''# behaviour somebody could get wrong.''])"

definition CHECKLIST :: "string \<Rightarrow> string \<Rightarrow> string" where
  "CHECKLIST area entity =
     (lines_text
       [[],
        ''Written. Three edits are left, and they are the ones worth a human's eyes:'',
        [],
        ''  1. setup/ioc/providers/'' @ area @ ''.py -- register the interactor and its ports:'',
        [],
        ''         class '' @ entity @ ''Provider(Provider):'',
        ''             scope = Scope.REQUEST'',
        ''             interactors = provide_all(Get'' @ entity @ ''Interactor)'',
        [],
        ''     then add it to `create_container()` in setup/ioc/container.py.'',
        [],
        ''  2. presentation/http/routers/__init__.py -- mount the router:'',
        [],
        ''         versioned.include_router('' @ area @ ''_router, prefix=\"/'' @ area @ ''\", tags=[\"'' @ area @ ''\"])'',
        [],
        ''  3. make schema -- regenerate openapi.json, and read the diff. That diff is the'',
        ''     change your consumers will see.'',
        [],
        ''Then: make check''])"

section \<open>Writing them\<close>

type_synonym 'a script = "(tree \<times> string list, exn, 'a) prog"

definition py_print :: "string \<Rightarrow> unit script" where
  "py_print line = (\<lambda>(T, out). (Inr (), (T, out @ [line])))"

definition on_tree :: "(tree \<Rightarrow> exn + tree) \<Rightarrow> unit script" where
  "on_tree f = (\<lambda>(T, out). case f T of Inl e \<Rightarrow> (Inl e, (T, out)) | Inr T' \<Rightarrow> (Inr (), (T', out)))"

text \<open>\<open>Path.mkdir(parents=True, exist_ok=True)\<close> and \<open>write_text\<close> where the parent directory exists.\<close>

definition mkdir_parents :: "path \<Rightarrow> tree \<Rightarrow> exn + tree" where
  "mkdir_parents p T =
     (if is_file p T then Inl (PyExn ''FileExistsError'')
      else if list_ex (\<lambda>q. is_file q T) (prefixes p) then Inl (PyExn ''NotADirectoryError'')
      else Inr (T\<lparr>tr_dirs := tr_dirs T @ filter (\<lambda>q. \<not> is_dir q T) (tl (prefixes p))\<rparr>))"

definition write_new :: "path \<Rightarrow> string \<Rightarrow> tree \<Rightarrow> exn + tree" where
  "write_new p content T =
     (if is_dir p T then Inl (PyExn ''IsADirectoryError'') else Inr (write_text p content T))"

definition shown :: "path \<Rightarrow> path \<Rightarrow> string" where
  "shown ROOT p = (if prefix ROOT p then path_str (drop (length ROOT) p) else ''/'' @ path_str p)"

definition write_module :: "path \<Rightarrow> path \<Rightarrow> string \<Rightarrow> bool \<Rightarrow> bool script" where
  "write_module ROOT p content force = (\<lambda>(T, out).
     if path_exists p T \<and> \<not> force then
       pthen (py_print (''  skip   '' @ shown ROOT p @ '' (exists, use --force)'')) (pret False) (T, out)
     else
       pthen (on_tree (mkdir_parents (butlast p)))
       (pthen (on_tree (write_new p content))
       (pthen (py_print (''  write  '' @ shown ROOT p)) (pret True))) (T, out))"

fun write_modules :: "path \<Rightarrow> (path \<times> string) list \<Rightarrow> bool \<Rightarrow> path list script" where
  "write_modules ROOT [] force = pret []"
| "write_modules ROOT ((p, content) # files) force =
     pbind (write_module ROOT p content force) (\<lambda>written.
     pbind (write_modules ROOT files force) (\<lambda>ps.
       pret (if written then p # ps else ps)))"

definition scaffold_files :: "path \<Rightarrow> path \<Rightarrow> string \<Rightarrow> (path \<times> string) list" where
  "scaffold_files package tests_root area =
     (let one = singular area; py = (\<lambda>name. name @ ''.py'') in
      fold (\<lambda>(p, content). dict_set p content)
       [(package @ [''application'', ''interactors'', area, ''__init__.py''], interactor_init area),
        (package @ [''application'', ''interactors'', area, py (''get_'' @ one)], interactor_module area),
        (package @ [''presentation'', ''http'', ''schemas'', ''v1'', py area], schema_module area),
        (package @ [''presentation'', ''http'', ''routers'', ''v1'', py area], router_module area),
        (tests_root @ [''http'', py (''test_'' @ area @ ''_api'')], test_module area)] [])"

definition scaffold :: "path \<Rightarrow> string \<Rightarrow> path \<Rightarrow> path option \<Rightarrow> bool \<Rightarrow> path list script" where
  "scaffold ROOT area package tests force =
     write_modules ROOT
       (scaffold_files package (case tests of Some t \<Rightarrow> t | None \<Rightarrow> ROOT @ [''tests'']) area) force"

definition new_vertical_main :: "path \<Rightarrow> unit script \<Rightarrow> string \<Rightarrow> bool \<Rightarrow> int script" where
  "new_vertical_main ROOT ruff_format name force =
     (let area = py_lower (py_strip name) in
      if \<not> lower_identifier area then
        pthen (py_print (''name must be a lowercase identifier, got '' @ py_repr name)) (pret 1)
      else
        pthen (py_print ([CHR 0x0A] @ ''Scaffolding the '' @ area @ '' vertical:'' @ [CHR 0x0A]))
        (pthen (scaffold ROOT area (ROOT @ [''src'', ''evenkeel'']) None force)
        (pthen ruff_format
        (pthen (py_print (CHECKLIST area (camel (singular area))))
          (pret 0)))))"

section \<open>What is written\<close>

text \<open>A tree that has everything the other has.\<close>

definition extends :: "tree \<Rightarrow> tree \<Rightarrow> bool" where
  "extends T T' \<longleftrightarrow> (\<forall>p c. file_at T p = Some c \<longrightarrow> file_at T' p = Some c) \<and> set (tr_dirs T) \<subseteq> set (tr_dirs T')"

lemma extends_refl: "extends T T"
  by (simp add: extends_def)

lemma extends_trans: "extends T T' \<Longrightarrow> extends T' T'' \<Longrightarrow> extends T T''"
  by (auto simp: extends_def)

lemma extends_exists: "extends T T' \<Longrightarrow> path_exists p T \<Longrightarrow> path_exists p T'"
  by (auto simp: extends_def path_exists_def is_file_def is_dir_def)

lemma mkdir_extends:
  assumes "mkdir_parents p T = Inr T'"
  shows "extends T T' \<and> tr_files T' = tr_files T \<and> (\<forall>q. \<not> prefix q p \<longrightarrow> is_dir q T' = is_dir q T)"
proof -
  have "q \<in> set (tl (prefixes p)) \<Longrightarrow> prefix q p" for q
    using list.set_sel(2) [of "prefixes p" q] by simp
  with assms show ?thesis
    by (auto simp: mkdir_parents_def extends_def file_at_def is_dir_def split: if_splits)
qed

lemma write_module_run:
  assumes "write_module ROOT p c False (T, out) = (r, (T', out'))"
  shows "extends T T' \<and> (\<forall>w. r = Inr w \<longrightarrow> w = (\<not> path_exists p T) \<and> path_exists p T' \<and> (w \<longrightarrow> file_at T' p = Some c)
    \<and> (\<forall>q. \<not> prefix q p \<longrightarrow> path_exists q T' = path_exists q T))"
proof (cases "path_exists p T")
  case True
  with assms show ?thesis
    by (auto simp: write_module_def py_print_def pthen_def pbind_def extends_refl)
next
  case False
  show ?thesis
  proof (cases "mkdir_parents (butlast p) T")
    case (Inl e)
    with False assms show ?thesis
      by (auto simp: write_module_def on_tree_def pthen_def pbind_def extends_refl)
  next
    case (Inr T1)
    note dirs = mkdir_extends [OF Inr]
    have "\<not> is_file p T1" using dirs False by (simp add: path_exists_def is_file_def file_at_def)
    then have ext: "extends T1 (write_text p c T1)"
      by (auto simp: extends_def file_at_write dirs_write is_file_def)
    have other: "path_exists q (write_text p c T1) = path_exists q T" if "\<not> prefix q p" for q
    proof -
      have "q \<noteq> p" "\<not> prefix q (butlast p)"
        using that prefix_order.trans [OF _ prefixeq_butlast, of q p] by auto
      with dirs show ?thesis
        by (simp add: path_exists_def is_file_def is_dir_def file_at_write dirs_write) (simp add: file_at_def)
    qed
    show ?thesis
    proof (cases "is_dir p T1")
      case True
      with False Inr assms dirs show ?thesis
        by (auto simp: write_module_def on_tree_def write_new_def pthen_def pbind_def)
    next
      case dir: False
      then have "r = Inr True" "T' = write_text p c T1"
        using False Inr assms by (auto simp: write_module_def on_tree_def write_new_def py_print_def pthen_def pbind_def)
      with False other extends_trans [OF _ ext] dirs show ?thesis
        by (auto simp: path_exists_def is_file_def file_at_write)
    qed
  qed
qed


text \<open>Several files, none of which is or holds another.\<close>

lemma write_modules_run:
  assumes "write_modules ROOT files False (T, out) = (r, (T', out'))"
    and "distinct (map fst files)" "\<And>p q. p \<in> fst ` set files \<Longrightarrow> q \<in> fst ` set files \<Longrightarrow> prefix p q \<Longrightarrow> p = q"
  shows "extends T T' \<and> (\<forall>ps. r = Inr ps \<longrightarrow> set ps = {p \<in> fst ` set files. \<not> path_exists p T}
      \<and> (\<forall>(p, c) \<in> set files. path_exists p T' \<and> (\<not> path_exists p T \<longrightarrow> file_at T' p = Some c)))"
  using assms
proof (induction files arbitrary: T out r T' out')
  case (Cons pc files)
  obtain p c where pc: "pc = (p, c)" by fastforce
  obtain w T1 out1 where W: "write_module ROOT p c False (T, out) = (w, (T1, out1))" by (metis prod.exhaust)
  note step = write_module_run [OF W]
  show ?case
  proof (cases w)
    case (Inl e)
    with Cons.prems(1) W step show ?thesis by (auto simp: pc pbind_def)
  next
    case (Inr b)
    obtain x T2 out2 where F: "write_modules ROOT files False (T1, out1) = (x, (T2, out2))" by (metis prod.exhaust)
    with Cons.prems(1) W Inr have r: "T' = T2" "r = map_sum id (\<lambda>ps. if b then p # ps else ps) x"
      by (auto simp: pc pbind_def split: sum.splits)
    have IH: "extends T1 T2 \<and> (\<forall>ps. x = Inr ps \<longrightarrow> set ps = {p \<in> fst ` set files. \<not> path_exists p T1}
      \<and> (\<forall>(p, c) \<in> set files. path_exists p T2 \<and> (\<not> path_exists p T1 \<longrightarrow> file_at T2 p = Some c)))"
    proof (rule Cons.IH [OF F])
      show "distinct (map fst files)" using Cons.prems(2) by simp
      show "p = q" if "p \<in> fst ` set files" "q \<in> fst ` set files" "prefix p q" for p q
        using that by (intro Cons.prems(3)) simp_all
    qed
    have other: "path_exists q T1 = path_exists q T" if "q \<in> fst ` set files" for q
    proof -
      have "q \<noteq> p" using that Cons.prems(2) by (auto simp: pc)
      moreover have "prefix q p \<Longrightarrow> q = p" using that by (intro Cons.prems(3)) (simp_all add: pc)
      ultimately have "\<not> prefix q p" by blast
      with step Inr show ?thesis by blast
    qed
    have p: "path_exists p T2" "b = (\<not> path_exists p T)" "b \<Longrightarrow> file_at T2 p = Some c"
      using step Inr IH extends_exists [of T1 T2 p] by (auto simp: extends_def)
    have "extends T T2" using step IH extends_trans by blast
    moreover have "set ps = {q \<in> fst ` set (pc # files). \<not> path_exists q T}
        \<and> (\<forall>(q, d) \<in> set (pc # files). path_exists q T2 \<and> (\<not> path_exists q T \<longrightarrow> file_at T2 q = Some d))"
      if "r = Inr ps" for ps
    proof -
      from that r(2) obtain ps' where ps: "x = Inr ps'" "ps = (if b then p # ps' else ps')" by (cases x) auto
      with IH have tl: "set ps' = {q \<in> fst ` set files. \<not> path_exists q T1}"
        "\<And>q d. (q, d) \<in> set files \<Longrightarrow> path_exists q T2 \<and> (\<not> path_exists q T1 \<longrightarrow> file_at T2 q = Some d)" by auto
      have "set ps' = {q \<in> fst ` set files. \<not> path_exists q T}" using tl(1) other by auto
      then have "set ps = {q \<in> fst ` set (pc # files). \<not> path_exists q T}"
        using p(2) by (auto simp: ps(2) pc)
      moreover have "path_exists q T2 \<and> (\<not> path_exists q T \<longrightarrow> file_at T2 q = Some d)" if "(q, d) \<in> set files" for q d
        using tl(2) [OF that] other [of q] that by force
      ultimately show ?thesis using p by (auto simp: pc)
    qed
    ultimately show ?thesis unfolding r(1) by blast
  qed
qed (auto simp: extends_refl)

text \<open>Without \<open>--force\<close> the scaffolding changes nothing that exists; it creates exactly the missing files and
  returns their paths.\<close>

definition scaffold_names :: "string \<Rightarrow> path list" where
  "scaffold_names area =
     [[''src'', ''evenkeel'', ''application'', ''interactors'', area, ''__init__.py''],
      [''src'', ''evenkeel'', ''application'', ''interactors'', area, ''get_'' @ singular area @ ''.py''],
      [''src'', ''evenkeel'', ''presentation'', ''http'', ''schemas'', ''v1'', area @ ''.py''],
      [''src'', ''evenkeel'', ''presentation'', ''http'', ''routers'', ''v1'', area @ ''.py''],
      [''tests'', ''http'', ''test_'' @ area @ ''_api.py'']]"

lemma scaffold_paths:
  "map fst (scaffold_files (ROOT @ [''src'', ''evenkeel'']) (ROOT @ [''tests'']) area) = map ((@) ROOT) (scaffold_names area)"
  by (simp add: scaffold_files_def scaffold_names_def Let_def dict_set_def)

lemma scaffold_names_apart:
  "distinct (scaffold_names area)" "\<forall>a \<in> set (scaffold_names area). \<forall>b \<in> set (scaffold_names area). prefix a b \<longrightarrow> a = b"
  by (simp_all add: scaffold_names_def)

lemma scaffold_keeps_existing:
  assumes "scaffold ROOT area (ROOT @ [''src'', ''evenkeel'']) None False (T, out) = (r, (T', out'))"
  shows "extends T T' \<and> (\<forall>ps. r = Inr ps \<longrightarrow>
    (let files = scaffold_files (ROOT @ [''src'', ''evenkeel'']) (ROOT @ [''tests'']) area in
      set ps = {p \<in> fst ` set files. \<not> path_exists p T}
      \<and> (\<forall>(p, c) \<in> set files. path_exists p T' \<and> (\<not> path_exists p T \<longrightarrow> file_at T' p = Some c))))"
proof -
  let ?files = "scaffold_files (ROOT @ [''src'', ''evenkeel'']) (ROOT @ [''tests'']) area"
  have "distinct (map fst ?files)"
    unfolding scaffold_paths by (simp add: distinct_map scaffold_names_apart(1) inj_on_def)
  moreover have "p = q" if pq: "p \<in> fst ` set ?files" "q \<in> fst ` set ?files" "prefix p q" for p q
  proof -
    from pq(1,2) obtain a b where "a \<in> set (scaffold_names area)" "p = ROOT @ a" "b \<in> set (scaffold_names area)" "q = ROOT @ b"
      unfolding set_map [symmetric] scaffold_paths unfolding set_map by blast
    with pq(3) scaffold_names_apart(2) [of area] show ?thesis by (metis same_prefix_prefix)
  qed
  moreover have "write_modules ROOT ?files False (T, out) = (r, (T', out'))"
    using assms by (simp add: scaffold_def)
  ultimately show ?thesis
    unfolding Let_def by (rule write_modules_run [rotated])
qed

end
