(* ===== verification/Published_Docs.thy ===== *)
theory Published_Docs
  imports Scaffold Sha256
begin

text \<open>
  \<open>tools/dump_openapi.py\<close> and \<open>tools/build_docs.py\<close>: the committed contract and the page that publishes it. What the
  application renders (FastAPI's \<open>openapi()\<close>, printed) is a parameter, and so is the working directory.
\<close>

section \<open>Path arguments\<close>

datatype path_arg = Absolute path | Relative path

fun arg_str :: "path_arg \<Rightarrow> string" where
  "arg_str (Absolute p) = ''/'' @ path_str p"
| "arg_str (Relative p) = path_str p"

fun resolved :: "path \<Rightarrow> path_arg \<Rightarrow> path" where
  "resolved cwd (Absolute p) = p"
| "resolved cwd (Relative p) = cwd @ p"

text \<open>\<open>str(path.relative_to(ROOT))\<close>: a path that is not below the root, or that is relative, is a \<open>ValueError\<close>.\<close>

fun relative_to :: "path \<Rightarrow> path_arg \<Rightarrow> exn + string" where
  "relative_to ROOT (Absolute p) =
     (if prefix ROOT p then Inr (path_str (drop (length ROOT) p)) else Inl (PyExn ''ValueError''))"
| "relative_to ROOT (Relative p) = Inl (PyExn ''ValueError'')"

text \<open>\<open>write_text\<close>, \<open>read_text\<close> and \<open>shutil.copyfile\<close> with the failures of the file system.\<close>

definition write_existing :: "path \<Rightarrow> string \<Rightarrow> tree \<Rightarrow> exn + tree" where
  "write_existing p content T =
     (if is_dir p T then Inl (PyExn ''IsADirectoryError'')
      else if \<not> is_dir (butlast p) T then Inl (PyExn ''FileNotFoundError'')
      else Inr (write_text p content T))"

definition reading :: "path \<Rightarrow> string script" where
  "reading p = (\<lambda>(T, out). (read_text p T, (T, out)))"

definition copyfile :: "path \<Rightarrow> path \<Rightarrow> tree \<Rightarrow> exn + tree" where
  "copyfile src dst T =
     (case file_at T src of
        None \<Rightarrow> Inl (PyExn ''FileNotFoundError'')
      | Some b \<Rightarrow> if src = dst then Inl (PyExn ''SameFileError'') else write_existing dst b T)"

section \<open>The contract\<close>

definition DEFAULT_TARGET :: "path \<Rightarrow> path" where
  "DEFAULT_TARGET ROOT = ROOT @ [''openapi.json'']"

definition dump_main :: "path \<Rightarrow> path \<Rightarrow> string \<Rightarrow> bool \<Rightarrow> path_arg \<Rightarrow> int script" where
  "dump_main ROOT cwd rendered check target =
     (if \<not> check then
        pthen (on_tree (write_existing (resolved cwd target) rendered))
        (pbind (plift (relative_to ROOT target)) (\<lambda>name.
         pthen (py_print (''wrote '' @ name)) (pret 0)))
      else (\<lambda>(T, out).
        if \<not> path_exists (resolved cwd target) T then
          pbind (plift (relative_to ROOT target)) (\<lambda>name.
          pthen (py_print (name @ '' is missing -- run tools/dump_openapi.py'')) (pret 1)) (T, out)
        else
          pbind (reading (resolved cwd target)) (\<lambda>committed.
          pbind (plift (relative_to ROOT target)) (\<lambda>name.
            if committed \<noteq> rendered then
              pthen (py_print (name @ '' is out of date.'' @ [CHR 0x0A]
                @ ''The API changed without the published contract changing with it. ''
                @ ''Run `make schema` and review the diff -- that diff is the change ''
                @ ''your consumers will see.'')) (pret 1)
            else pthen (py_print (name @ '' matches the application'')) (pret 0))) (T, out)))"

section \<open>The page\<close>

definition SCALAR_VERSION :: string where
  "SCALAR_VERSION = ''1.65.1''"

definition PAGE :: string where
  "PAGE = lines_text
    [''<!doctype html>'',
     ''<html lang=\"en\">'',
     ''  <head>'',
     ''    <meta charset=\"utf-8\" />'',
     ''    <meta name=\"viewport\" content=\"width=device-width, initial-scale=1\" />'',
     ''    <title>evenkeel API</title>'',
     ''    <meta'',
     ''      name=\"description\"'',
     ''      content=\"Wallet ledger API. Every failure is an RFC 9457 problem document; branch on code, never on title.\"'',
     ''    />'',
     ''    <link rel=\"icon\" href=\"data:,\" />'',
     ''    <style>'',
     ''      body { margin: 0; }'',
     ''      .banner {'',
     ''        font: 14px/1.5 ui-sans-serif, system-ui, sans-serif;'',
     ''        padding: 10px 16px; background: #1a1a1a; color: #d4d4d4;'',
     ''        border-bottom: 1px solid #333;'',
     ''      }'',
     ''      .banner a { color: #8ab4f8; }'',
     ''    </style>'',
     ''  </head>'',
     ''  <body>'',
     ''    <div class=\"banner\">'',
     ''      Generated from <code>openapi.json</code> at'',
     ''      <a href=\"https://github.com/archievega/evenkeel\">archievega/evenkeel</a>.'',
     ''      Errors are <a href=\"https://www.rfc-editor.org/rfc/rfc9457\">RFC 9457</a>'',
     ''      problem documents &mdash; branch on <code>code</code>, never on'',
     ''      <code>title</code>.'',
     ''      <br />'',
     ''      This is a reference, not a console: there is no hosted API behind it, so'',
     ''      the request buttons are off. <code>docker compose up</code> gives you the'',
     ''      same document at <code>localhost:58000/scalar</code>, with them on.'',
     ''    </div>'',
     ''    <script'',
     ''      id=\"api-reference\"'',
     ''      data-url=\"openapi.json?v=__SPEC_HASH__\"'',
     ''      data-configuration='{\"theme\":\"purple\",\"darkMode\":true,\"hideDownloadButton\":false,\"hideTestRequestButton\":true,\"hideClientButton\":true}'' @ [CHR 0x27],
     ''    ></script>'',
     ''    <!-- Pinned and integrity-checked. An unpinned CDN tag on a public page is'',
     ''         a standing invitation: whoever controls that URL controls what runs in'',
     ''         a reader's browser. Both values live in `tools/build_docs.py`, and a'',
     ''         bump has to change them together -- Renovate cannot compute an SRI hash'',
     ''         for a URL inside a Python string, so the guard is the test in CI that'',
     ''         recomputes it against the file the CDN actually serves. -->'',
     ''    <script'',
     ''      src=\"https://cdn.jsdelivr.net/npm/@scalar/api-reference@__SCALAR_VERSION__/dist/browser/standalone.js\"'',
     ''      integrity=\"sha384-G6dkutu2k5IYVyNESLoFIpgaHx38IJTZ/HhrwN0fecTle9te75y8Kru3rJEJ0ZJV\"'',
     ''      crossorigin=\"anonymous\"'',
     ''    ></script>'',
     ''  </body>'',
     ''</html>'']"

definition spec_hash :: "string \<Rightarrow> string" where
  "spec_hash rendered = take 12 (sha256_hex rendered)"

definition docs_page :: "string \<Rightarrow> string" where
  "docs_page rendered =
     replace_all ''__SPEC_HASH__'' (spec_hash rendered) (replace_all ''__SCALAR_VERSION__'' SCALAR_VERSION PAGE)"

definition docs_main :: "path \<Rightarrow> path \<Rightarrow> string \<Rightarrow> path_arg \<Rightarrow> int script" where
  "docs_main ROOT cwd rendered target =
     (let dir = resolved cwd target in
      pbind (reading (DEFAULT_TARGET ROOT)) (\<lambda>committed.
        if rendered \<noteq> committed then
          pthen (py_print (''openapi.json does not match the application -- run `make schema` ''
            @ ''and review the diff before publishing'')) (pret 1)
        else
          pthen (on_tree (mkdir_parents dir))
          (pthen (on_tree (write_existing (dir @ [''index.html'']) (docs_page rendered)))
          (pthen (on_tree (copyfile (DEFAULT_TARGET ROOT) (dir @ [''openapi.json''])))
          (pthen (py_print (''wrote '' @ arg_str target @ ''/index.html and '' @ arg_str target @ ''/openapi.json''))
            (pret 0))))))"

section \<open>What is published\<close>

lemma reading_run: "reading p (T, out) = (read_text p T, (T, out))"
  by (simp add: reading_def)

text \<open>The check writes nothing; it passes exactly when the committed contract is the rendered one.\<close>

lemma dump_check:
  "snd (dump_main ROOT cwd rendered True target (T, out)) = (T, snd (snd (dump_main ROOT cwd rendered True target (T, out))))"
  by (auto simp: dump_main_def reading_run py_print_def pthen_def pbind_def split: sum.split)

lemma dump_check_passes:
  "fst (dump_main ROOT cwd rendered True target (T, out)) = Inr 0 \<longleftrightarrow>
     read_text (resolved cwd target) T = Inr rendered \<and> (\<exists>name. relative_to ROOT target = Inr name)"
proof -
  have "read_text (resolved cwd target) T = Inr rendered \<Longrightarrow> path_exists (resolved cwd target) T"
    by (simp add: read_text_def path_exists_def is_file_def split: option.splits)
  then show ?thesis
    by (auto simp: dump_main_def reading_run py_print_def pthen_def pbind_def split: sum.split)
qed

text \<open>With \<open>--out\<close> and a path that is relative to the working directory the contract is written, and the
  script ends in a \<open>ValueError\<close>.\<close>

lemma dump_relative_out:
  "dump_main ROOT cwd rendered False (Relative p) (T, out) = (Inr 0, s) \<Longrightarrow> False"
  by (auto simp: dump_main_def on_tree_def pthen_def pbind_def split: sum.splits)

lemma dump_relative_out_written:
  assumes "is_dir (butlast (cwd @ p)) T" "\<not> is_dir (cwd @ p) T"
  shows "dump_main ROOT cwd rendered False (Relative p) (T, out)
    = (Inl (PyExn ''ValueError''), (write_text (cwd @ p) rendered T, out))"
  using assms by (simp add: dump_main_def on_tree_def write_existing_def pthen_def pbind_def)

text \<open>A page is published only for a contract that the application renders, with the contract beside it and
  under its hash.\<close>

lemma docs_published:
  assumes "docs_main ROOT cwd rendered target (T, out) = (Inr n, (T', out'))"
  shows "if read_text (DEFAULT_TARGET ROOT) T = Inr rendered
    then n = 0 \<and> file_at T' (resolved cwd target @ [''index.html'']) = Some (docs_page rendered)
      \<and> read_text (resolved cwd target @ [''openapi.json'']) T' = Inr rendered
    else n = 1 \<and> T' = T"
proof (cases "read_text (DEFAULT_TARGET ROOT) T = Inr rendered")
  case False
  with assms show ?thesis
    by (auto simp: docs_main_def Let_def reading_run py_print_def pthen_def pbind_def split: sum.splits)
next
  case True
  let ?dir = "resolved cwd target"
  obtain T1 where T1: "mkdir_parents ?dir T = Inr T1"
    using assms True by (auto simp: docs_main_def Let_def reading_run on_tree_def pthen_def pbind_def split: sum.splits)
  obtain T2 where T2: "write_existing (?dir @ [''index.html'']) (docs_page rendered) T1 = Inr T2"
    using assms True T1 by (auto simp: docs_main_def Let_def reading_run on_tree_def pthen_def pbind_def split: sum.splits)
  have T3: "copyfile (DEFAULT_TARGET ROOT) (?dir @ [''openapi.json'']) T2 = Inr T'" and n: "n = 0"
    using assms True T1 T2
    by (auto simp: docs_main_def Let_def reading_run on_tree_def py_print_def pthen_def pbind_def split: sum.splits)
  have files: "file_at T1 p = file_at T p" for p using mkdir_extends [OF T1] by (simp add: file_at_def)
  have T2': "T2 = write_text (?dir @ [''index.html'']) (docs_page rendered) T1"
    using T2 by (auto simp: write_existing_def split: if_splits)
  have "DEFAULT_TARGET ROOT \<noteq> ?dir @ [''index.html'']" by (auto simp: DEFAULT_TARGET_def)
  then have "file_at T2 (DEFAULT_TARGET ROOT) = file_at T (DEFAULT_TARGET ROOT)"
    by (simp add: T2' file_at_write files)
  with True T3 obtain b where b: "file_at T (DEFAULT_TARGET ROOT) = Some b" "utf8_valid b" "universal_newlines b = rendered"
    "T' = write_text (?dir @ [''openapi.json'']) b T2"
    by (auto simp: read_text_def copyfile_def write_existing_def split: option.splits if_splits)
  then show ?thesis using True n by (simp add: file_at_write T2' read_text_def)
qed

end
