(* ===== verification/Stranded_Keys.thy ===== *)
theory Stranded_Keys
  imports Service_Guarantees
begin

text \<open>
  What an exception that is not the service's own does to the idempotency key. The service gives a key back on
  its own refusals only (\<open>mv_refuse\<close>), so any other exception between the claim and the commit leaves the key
  claimed. \<open>strands\<close> says so of a program; \<open>stranding_backend\<close> is the contract under which every step of the
  service does it: the calls around the commit return, and the store answers.
\<close>

section \<open>The contract\<close>

text \<open>Not an \<open>ApplicationError\<close> and not a \<open>DomainError\<close>: a driver's error, a cancellation.\<close>

abbreviation foreign :: "exn \<Rightarrow> bool" where
  "foreign e \<equiv> \<not> is_app_exn e \<and> \<not> is_domain_exn e"

locale stranding_backend =
  keyed_backend P sess comm slots now + returning_backend P sess comm
  for P :: "'s ports" and sess comm :: "'s \<Rightarrow> book"
    and slots :: "'s \<Rightarrow> string \<Rightarrow> idem_entry option" and now :: "'s \<Rightarrow> seconds" +
  assumes reserve_returns: "\<exists>res t. idem_reserve P k fp ttl s = (Inr res, t)"
    and release_returns: "\<exists>t. idem_release P k s = (Inr (), t)"

definition strands :: "('s \<Rightarrow> string \<Rightarrow> idem_entry option) \<Rightarrow> movement_request \<Rightarrow> seconds
    \<Rightarrow> ('s, exn, 'a) prog \<Rightarrow> bool" where
  "strands slots req until m \<longleftrightarrow> (\<forall>s e t. m s = (Inl e, t) \<longrightarrow> foreign e \<longrightarrow> pending slots req until s
     \<longrightarrow> pending slots req until t)"

lemma strandsI: "(\<And>s e t. m s = (Inl e, t) \<Longrightarrow> foreign e \<Longrightarrow> pending slots req until s
    \<Longrightarrow> pending slots req until t) \<Longrightarrow> strands slots req until m"
  by (auto simp: strands_def)

lemma strandsD: "strands slots req until m \<Longrightarrow> m s = (Inl e, t) \<Longrightarrow> foreign e \<Longrightarrow> pending slots req until s
    \<Longrightarrow> pending slots req until t"
  by (auto simp: strands_def)

lemma steady_strands: "steady slots now {} m \<Longrightarrow> strands slots req until m"
  by (rule strandsI) (rule steady_pending)

lemma strands_bind:
  "steady slots now {} m \<Longrightarrow> (\<And>x. strands slots req until (f x)) \<Longrightarrow> strands slots req until (pbind m f)"
  by (rule strandsI) (auto elim!: pbindE dest: steady_pending strandsD)

lemma strands_then:
  "steady slots now {} m \<Longrightarrow> strands slots req until n \<Longrightarrow> strands slots req until (pthen m n)"
  unfolding pthen_def by (rule strands_bind)

section \<open>The service, step by step\<close>

context stranding_backend begin

lemma refuse_strands:
  assumes "\<not> foreign e" shows "strands slots req until (mv_refuse P req e)"
proof (rule strandsI)
  fix s x t
  assume run: "mv_refuse P req e s = (Inl x, t)" and x: "foreign x" and p: "pending slots req until s"
  have released: "\<exists>t. mv_release P req u = (Inr (), t)" for u
    using release_returns by (auto simp: mv_release_def split: option.split)
  from run show "pending slots req until t"
    unfolding mv_refuse_def
  proof (cases rule: pthenE)
    case (Raised y)
    with steady_pending [OF steady_ports(6) _ p] show ?thesis by simp
  next
    case (Continued y u)
    with released [of u] x assms show ?thesis by (auto simp: pthen_def pbind_def)
  qed
qed

lemma write_strands: "strands slots req until (mv_write P cfg req w v bal n)"
proof -
  have "strands slots req until (pthen (tx_commit P) (pthen (mv_confirm P cfg req w en) (pret x)))" for en x
  proof (intro strands_then [OF steady_ports(5)] strandsI)
    fix s e t
    assume "pthen (mv_confirm P cfg req w en) (pret x) s = (Inl e, t)"
    with confirm_returns [of cfg req w en s] show "pending slots req until t" by (auto simp: pthen_def pbind_def)
  qed
  then show ?thesis
    unfolding mv_write_def Let_def
    by (intro strands_bind strands_then steady_ports) (auto intro: refuse_strands)
qed

lemma apply_locked_strands: "strands slots req until (mv_apply_locked P cfg req)"
proof -
  have "strands slots req until (praise e)" for e :: exn by (rule steady_strands) auto
  then show ?thesis
    unfolding mv_apply_locked_def
    by (intro strands_bind steady_ports)
      (auto intro!: refuse_strands write_strands strands_bind steady_ports split: option.split prod.split sum.split)
qed

lemma locked_strands:
  "strands slots req until (with_lock P k ttl wait (mv_locked_body P cfg req st))"
proof (rule strandsI)
  fix s e t
  assume run: "with_lock P k ttl wait (mv_locked_body P cfg req st) s = (Inl e, t)" and e: "foreign e"
    and p: "pending slots req until s"
  from run show "pending slots req until t"
    unfolding with_lock_def
  proof (cases rule: pbindE)
    case (Raised x)
    with steady_pending [OF steady_ports(7) _ p] show ?thesis by simp
  next
    case (Continued h v)
    have pv: "pending slots req until v" by (rule steady_pending [OF steady_ports(7) Continued(1) p])
    have body: "strands slots req until (mv_locked_body P cfg req st h)"
      unfolding mv_locked_body_def
      by (intro strands_bind strands_then steady_ports) (auto intro: refuse_strands apply_locked_strands)
    from Continued(2) obtain b u where B: "mv_locked_body P cfg req st h v = (Inl e, u)"
        and X: "lock_exit P h u = (b, t)"
      using exit_returns by (cases rule: pfinallyE) (metis Inl_not_Inr Pair_inject)+
    from strandsD [OF body B e pv] steady_pending [OF steady_ports(8) X] issuedI [OF Continued(1)]
    show ?thesis by blast
  qed
qed

text \<open>An exception that is not the service's own leaves the key claimed.\<close>

lemma apply_strands:
  assumes run: "mv_apply P cfg req s = (Inl e, t)" and e: "foreign e"
    and key: "mr_idempotency_key req = Some k" "unrecorded slots req s"
    and ttl: "0 < ms_idempotency_ttl_seconds cfg"
  shows "pending slots req (now s + of_int (ms_idempotency_ttl_seconds cfg)) t"
proof -
  obtain r1 s1 where C: "mv_claim P cfg req s = (r1, s1)" by fastforce
  have "r1 = Inr None"
    using C key(1)
  proof (cases rule: claimE)
    case (Raised x)
    with reserve_returns [of "scoped_key req" "fingerprint req" "ms_idempotency_ttl_seconds cfg" s]
    show ?thesis by simp
  next
    case (Answered res s2)
    have "res_outcome res \<noteq> COMPLETED"
      using reserve_completed [OF Answered(1)] key(2) by (auto simp: unrecorded_def)
    with Answered(2) run C e show ?thesis
      by (cases "res_outcome res") (auto simp: may_proceed_def mv_apply_def pbind_def split: if_splits)
  qed
  note p = claim_pending [OF C [unfolded this] key ttl]
  from run C \<open>r1 = Inr None\<close> have rest: "pbind (perf_counter P) (\<lambda>st. with_lock P (movement_lock_key req)
      (ms_lock_ttl_ms cfg) (ms_lock_wait_ms cfg) (mv_locked_body P cfg req st)) s1 = (Inl e, t)"
    by (simp add: mv_apply_def pbind_def)
  show ?thesis by (rule strandsD [OF strands_bind [OF steady_ports(11) locked_strands] rest e p])
qed

text \<open>While it is claimed, every request under it is refused.\<close>

definition refusal :: "movement_request \<Rightarrow> movement_request \<Rightarrow> string \<Rightarrow> exn" where
  "refusal req q k = app_exn ConflictError
     (if fingerprint q = fingerprint req then MOVEMENT_IN_PROGRESS else IDEMPOTENCY_KEY_REUSED)
     (Some [(''idempotency_key'', VStr k)])"

lemma apply_refused:
  assumes run: "mv_apply P cfg q s = (r, t)" and p: "pending slots req until s"
    and same: "scoped_key q = scoped_key req" "mr_idempotency_key q = Some k"
    and ttl: "0 < ms_idempotency_ttl_seconds cfg" "now t < until"
  shows "r = Inl (refusal req q k) \<and> pending slots req until t \<and> comm t = comm s"
proof -
  obtain r0 s0 where C: "mv_claim P cfg q s = (r0, s0)" by fastforce
  then obtain res s1 where R: "idem_reserve P (scoped_key q) (fingerprint q)
      (ms_idempotency_ttl_seconds cfg) s = (Inr res, s1)" "claim_answer q k res s1 = (r0, s0)"
    using same(2) reserve_returns by (cases rule: claimE) fastforce+
  have rest: "steady slots now (own_keys q) (case replay of Some outcome \<Rightarrow> pret outcome
      | None \<Rightarrow> pbind (perf_counter P) (\<lambda>st. with_lock P (movement_lock_key q) (ms_lock_ttl_ms cfg)
          (ms_lock_wait_ms cfg) (mv_locked_body P cfg q st)))" for replay
    by (auto intro!: steady_intros locked_steady split: option.split)
  from run C have "now s0 \<le> now t"
    unfolding mv_apply_def by (auto elim!: pbindE dest: steadyD [OF rest])
  with steadyD [OF claim_answer_steady R(2)] have "now s1 \<le> now t" by simp
  with p ttl(2) obtain e where e: "live_in slots now (scoped_key req) e s s1"
      "ie_fingerprint e = fingerprint req" "until \<le> ie_expires_at e" "ie_response e = None"
    by (auto simp: pending_def live_in_def)
  from reserve_live [OF R(1) [unfolded same(1)] e(1)] e(2) ttl(1)
  have s1: "slots s1 (scoped_key req) = Some e" and res: "res = taken (scoped_key req) (fingerprint q) e" by auto
  from res e(2,4) have "r = Inl (refusal req q k) \<and> t = s1"
    using run C R(2) by (auto simp: taken_def ie_completed_def may_proceed_def refusal_def mv_apply_def
        pbind_def split: if_splits)
  with s1 e quietD [OF idem_quiet(1) R(1)] show ?thesis by (auto simp: pending_def)
qed

end

section \<open>Over a history of calls\<close>

locale stranding_use_cases =
  stranding_backend P sess comm slots now + use_cases P sess comm slots now
  for P :: "'s ports" and sess comm :: "'s \<Rightarrow> book"
    and slots :: "'s \<Rightarrow> string \<Rightarrow> idem_entry option" and now :: "'s \<Rightarrow> seconds"
begin

lemma pending_slots: "slots t = slots s \<Longrightarrow> pending slots req until t = pending slots req until s"
  by (simp add: pending_def)

lemma move_pending:
  assumes run: "movement_run P cfg mms q s = (r, t)" and p: "pending slots req until s"
    and ttl: "0 < ms_idempotency_ttl_seconds cfg" "now t < until"
  shows "pending slots req until t"
    "scoped_key req \<in> own_keys q \<Longrightarrow> comm t = comm s \<and> (\<exists>e. r = Inl e)"
  using run
proof (atomize (full), cases rule: movement_run_core)
  case Stopped
  then show "pending slots req until t \<and> (scoped_key req \<in> own_keys q \<longrightarrow> comm t = comm s \<and> (\<exists>e. r = Inl e))"
    using p pending_slots [of t s] by (cases r) (auto simp: alikeD)
next
  case (Applied s2 o2 w)
  note a = alikeD [OF Applied(1)] alikeD [OF Applied(3)]
  have p2: "pending slots req until s2" and n: "now w < until"
    using p a ttl(2) pending_slots [of s2 s] by auto
  show "pending slots req until t \<and> (scoped_key req \<in> own_keys q \<longrightarrow> comm t = comm s \<and> (\<exists>e. r = Inl e))"
  proof (cases "scoped_key req \<in> own_keys q")
    case True
    then obtain k where "scoped_key q = scoped_key req" "mr_idempotency_key q = Some k"
      by (auto simp: own_keys_def split: if_splits)
    from apply_refused [OF Applied(2) p2 this ttl(1) n] Applied(4) a pending_slots [of t w]
    show ?thesis by (cases r) auto
  next
    case False
    with steadyD [OF apply_steady Applied(2)] p2 a pending_slots [of t w]
    show ?thesis by (auto simp: pending_def)
  qed
qed

lemma serve_pending:
  assumes "pending slots req until s" "0 < ms_idempotency_ttl_seconds cfg" "now (serve P cfg mms q s) < until"
  shows "pending slots req until (serve P cfg mms q s)"
proof (cases q)
  case (Move m)
  obtain r t where "movement_run P cfg mms m s = (r, t)" by fastforce
  with move_pending(1) [OF this] assms Move show ?thesis by simp
next
  case (Open c)
  obtain r t where "open_wallet P c s = (r, t)" by fastforce
  with open_wallet_alike [OF this] assms(1) pending_slots [of t s] Open show ?thesis by simp
qed

lemma served_pending:
  assumes "served P cfg mms sess comm slots now s qs t" "pending slots req until s"
    "0 < ms_idempotency_ttl_seconds cfg" "now t < until"
  shows "pending slots req until t"
  using assms
proof (induction rule: served.induct)
  case (served_call s qs t t' q)
  have "now t' \<le> now (serve P cfg mms q t')" by (rule serve_clock)
  moreover have t': "slots t' = slots t" "now t \<le> now t'" using served_call.hyps(2) by (auto simp: new_session_def)
  ultimately have "now t < until" using served_call.prems(3) by linarith
  from served_call.IH [OF served_call.prems(1,2) this] t'(1) have "pending slots req until t'"
    by (simp add: pending_def)
  then show ?case by (rule serve_pending) (rule served_call.prems)+
qed

text \<open>Whatever is served in between, the key stays claimed and the retry is refused.\<close>

lemma stranded:
  assumes first: "mv_apply P cfg req s = (Inl e, s1)" "foreign e"
      "mr_idempotency_key req = Some k" "unrecorded slots req s"
    and between: "served P cfg mms sess comm slots now s1 qs s2" "new_session sess comm slots now s2 s3"
    and again: "mr_idempotency_key q = Some k" "mr_owner_id q = mr_owner_id req"
    and ttl: "0 < ms_idempotency_ttl_seconds cfg"
  shows "mv_apply P cfg q s3 = (r, t) \<Longrightarrow> now t < now s + of_int (ms_idempotency_ttl_seconds cfg)
      \<Longrightarrow> r = Inl (refusal req q k) \<and> comm t = comm s3"
    "movement_run P cfg mms q s3 = (r', t) \<Longrightarrow> now t < now s + of_int (ms_idempotency_ttl_seconds cfg)
      \<Longrightarrow> (\<exists>x. r' = Inl x) \<and> comm t = comm s3"
proof -
  let ?until = "now s + of_int (ms_idempotency_ttl_seconds cfg)"
  have p: "pending slots req ?until s3" if "now s3 < ?until"
    using served_pending [OF between(1) apply_strands [OF first ttl] ttl] between(2) that
    by (simp add: new_session_def pending_def)
  have same: "scoped_key q = scoped_key req" "scoped_key req \<in> own_keys q"
    using again first(3) by (simp_all add: scoped_key_def own_keys_def)
  {
    assume run: "mv_apply P cfg q s3 = (r, t)" and n: "now t < ?until"
    from steadyD [OF apply_steady run] n have "now s3 < ?until" by simp
    from apply_refused [OF run p [OF this] same(1) again(1) ttl n]
    show "r = Inl (refusal req q k) \<and> comm t = comm s3" by simp
  }
  {
    assume run: "movement_run P cfg mms q s3 = (r', t)" and n: "now t < ?until"
    have "now s3 \<le> now t" using serve_clock [of s3 cfg mms "Move q"] run by simp
    with n have "now s3 < ?until" by simp
    from move_pending(2) [OF run p [OF this] ttl n same(2)]
    show "(\<exists>x. r' = Inl x) \<and> comm t = comm s3" by blast
  }
qed

end

section \<open>The deployment in one process\<close>

context sql_engine begin

lemma wired_stranding:
  assumes "harmless_risk sess_tb comm_tb R"
  shows "stranding_use_cases (evenkeel_with_risk E R) (sess_book sess_tb) (sess_book comm_tb) mm_entries pr_now"
proof (intro stranding_use_cases.intro stranding_backend.intro stranding_backend_axioms.intro)
  note uc = wired_use_cases [OF assms]
  show "use_cases (evenkeel_with_risk E R) (sess_book sess_tb) (sess_book comm_tb) mm_entries pr_now" by (rule uc)
  show "keyed_backend (evenkeel_with_risk E R) (sess_book sess_tb) (sess_book comm_tb) mm_entries pr_now"
    by (rule use_cases.axioms(1) [OF uc])
  show "returning_backend (evenkeel_with_risk E R) (sess_book sess_tb) (sess_book comm_tb)"
    unfolding with_in_process [symmetric]
    by (rule adapters_returning [OF harmless_in_process [OF assms]]) (rule in_process_returns, erule in_process_returns)
next
  fix k fp ttl s
  show "\<exists>res t. idem_reserve (evenkeel_with_risk E R) k fp ttl s = (Inr res, t)"
    using im_reserve_run [of k fp ttl s] by (cases "im_reserve k fp ttl s")
      (fastforce simp: evenkeel_ports_def split: if_splits option.splits)
next
  fix k s
  show "\<exists>t. idem_release (evenkeel_with_risk E R) k s = (Inr (), t)"
    using im_release_run [of k s] by (cases "im_release k s") (simp add: evenkeel_ports_def)
qed

end

interpretation stranded: stranding_use_cases "evenkeel_ports ref_engine" "sess_book rf_sess" "sess_book rf_comm"
  mm_entries pr_now
  using sql_engine.wired_stranding [OF ref.sql_engine_axioms allow_all_harmless]
  unfolding evenkeel_default_risk .

section \<open>Properties\<close>

text \<open>C38: with the adapters in the process, an exception out of the service that is neither an \<open>ApplicationError\<close>
  nor a \<open>DomainError\<close> (a driver's error at any point, a commit that raises, a cancellation) strands the
  idempotency key: until its time to live ends, whatever is served in between, every further call of the owner
  with the key changes nothing and is refused, by the service as still in progress (with other content, as
  reused), although nothing is running. With atomic commits the call that raised changed nothing either.\<close>

theorem error_strands_key:
  assumes eng: "sql_engine E sess_tb comm_tb" and risk: "harmless_risk sess_tb comm_tb R"
    and first: "mv_apply (evenkeel_with_risk E R) cfg req s = (Inl e, s1)"
      "\<not> is_app_exn e" "\<not> is_domain_exn e" "mr_idempotency_key req = Some k" "unrecorded mm_entries req s"
    and between: "served (evenkeel_with_risk E R) cfg mms (sess_book sess_tb) (sess_book comm_tb)
        mm_entries pr_now s1 qs s2"
      "new_session (sess_book sess_tb) (sess_book comm_tb) mm_entries pr_now s2 s3"
    and again: "mr_idempotency_key q = Some k" "mr_owner_id q = mr_owner_id req"
    and ttl: "0 < ms_idempotency_ttl_seconds cfg" "until = pr_now s + of_int (ms_idempotency_ttl_seconds cfg)"
  shows "(atomic_sql_engine E sess_tb comm_tb \<longrightarrow> committed comm_tb s1 = committed comm_tb s)
    \<and> (\<forall>r t. mv_apply (evenkeel_with_risk E R) cfg q s3 = (r, t) \<longrightarrow> pr_now t < until \<longrightarrow>
         r = Inl (app_exn ConflictError
           (if fingerprint q = fingerprint req then MOVEMENT_IN_PROGRESS else IDEMPOTENCY_KEY_REUSED)
           (Some [(''idempotency_key'', VStr k)]))
         \<and> committed comm_tb t = committed comm_tb s3)
    \<and> (\<forall>r t. movement_run (evenkeel_with_risk E R) cfg mms q s3 = (r, t) \<longrightarrow> pr_now t < until \<longrightarrow>
         (\<exists>x. r = Inl x) \<and> committed comm_tb t = committed comm_tb s3)"
proof (intro conjI impI allI)
  note uc = sql_engine.wired_stranding [OF eng risk]
  have foreign: "\<not> is_app_exn e \<and> \<not> is_domain_exn e" using first by blast
  note key = stranding_use_cases.stranded [OF uc first(1) foreign first(4,5) between again ttl(1)]
  {
    assume "atomic_sql_engine E sess_tb comm_tb"
    then have "reliable_backend (with_adapters E (in_process R)) (sess_book sess_tb) (sess_book comm_tb)"
      by (rule atomic_sql_engine.adapters_reliable [OF _ harmless_in_process [OF risk]])
        (rule in_process_returns, erule in_process_returns)
    from undoneD [OF reliable_backend.apply_undone [OF this, unfolded with_in_process] first(1)]
    show "committed comm_tb s1 = committed comm_tb s" .
  }
  fix r t
  {
    assume "mv_apply (evenkeel_with_risk E R) cfg q s3 = (r, t)" "pr_now t < until"
    from key(1) [OF this(1)] this(2) ttl(2) show "r = Inl (app_exn ConflictError
          (if fingerprint q = fingerprint req then MOVEMENT_IN_PROGRESS else IDEMPOTENCY_KEY_REUSED)
          (Some [(''idempotency_key'', VStr k)]))" "committed comm_tb t = committed comm_tb s3"
      by (simp_all add: stranding_backend.refusal_def [OF stranding_use_cases.axioms(1) [OF uc]])
  }
  {
    fix r' :: "exn + movement_result"
    assume "movement_run (evenkeel_with_risk E R) cfg mms q s3 = (r', t)" "pr_now t < until"
    from key(2) [OF this(1)] this(2) ttl(2)
    show "\<exists>x. r' = Inl x" "committed comm_tb t = committed comm_tb s3" by simp_all
  }
qed

text \<open>The first read of the wallet fails; the retry finds its own key in progress.\<close>

lemma stranded_runs:
  "\<exists>s1 r t. mv_apply (evenkeel_ports ref_engine) movement_settings_default keyed_request
       (demo_world [Fails (PyExn ''OperationalError'')]) = (Inl (PyExn ''OperationalError''), s1)
     \<and> mv_apply (evenkeel_ports ref_engine) movement_settings_default keyed_request (renewed s1) = (r, t)
     \<and> pr_now t = 0"
  by (simp add: run_demo replay_defs keyed_request_def renewed_def del: eval_stmt.simps(1,3,4))

theorem error_strands_key_witness:
  "\<exists>s1 t. mv_apply (evenkeel_ports ref_engine) movement_settings_default keyed_request
       (demo_world [Fails (PyExn ''OperationalError'')]) = (Inl (PyExn ''OperationalError''), s1)
     \<and> mv_apply (evenkeel_ports ref_engine) movement_settings_default keyed_request (renewed s1)
       = (Inl (app_exn ConflictError MOVEMENT_IN_PROGRESS
            (Some [(''idempotency_key'', VStr ''k'')])), t)"
proof -
  let ?s = "demo_world [Fails (PyExn ''OperationalError'')]"
  let ?run = "mv_apply (evenkeel_with_risk ref_engine allow_all_assess) movement_settings_default keyed_request"
  obtain s1 r t where run: "?run ?s = (Inl (PyExn ''OperationalError''), s1)"
      and again: "?run (renewed s1) = (r, t)" "pr_now t = 0"
    using stranded_runs unfolding evenkeel_default_risk by blast
  have key: "mr_idempotency_key keyed_request = Some ''k''" by (simp add: keyed_request_def)
  have free: "unrecorded mm_entries keyed_request ?s"
    by (simp add: unrecorded_def demo_world_def world_start_def memory_start_def memory.defs)
  have ttl: "0 < ms_idempotency_ttl_seconds movement_settings_default"
    by (simp add: movement_settings_default_def)
  have n: "pr_now t < pr_now ?s + of_int (ms_idempotency_ttl_seconds movement_settings_default)"
    by (simp add: again(2) demo_world_def world_start_def memory_start_def memory.defs movement_settings_default_def)
  have e: "\<not> is_app_exn (PyExn ''OperationalError'')" "\<not> is_domain_exn (PyExn ''OperationalError'')"
    by simp_all
  note strands = error_strands_key [OF ref.sql_engine_axioms allow_all_harmless run e key free served_none
      renewed_session key refl ttl refl, THEN conjunct2, THEN conjunct1, rule_format, OF again(1) n]
  from strands again(1) have "?run (renewed s1) = (Inl (app_exn ConflictError MOVEMENT_IN_PROGRESS
      (Some [(''idempotency_key'', VStr ''k'')])), t)" by simp
  with run show ?thesis unfolding evenkeel_default_risk by blast
qed

end
