(* ===== verification/Spec2Isabelle.thy ===== *)
theory Spec2Isabelle
  imports Risk_Http Memory_Bulkhead Config Redis_Idempotency Redis_Limits Composition Redact_Message Schema Declared_Responses
    Redis_Once Published_Docs Stranded_Keys
begin

text \<open>
  A model of \<^bold>\<open>evenkeel\<close>, a wallet ledger service in Python (\<open>src/src/evenkeel/\<close>), and the theorems that
  say what it promises: money moves once, entirely or not at all, for its owner only, past a rate limit and
  a risk decision, and every answer tells the truth about it.

  \<^bold>\<open>The program.\<close> A request enters through FastAPI (\<open>presentation/http/\<close>) or as a tool call
  (\<open>presentation/mcp/\<close>), is authenticated (\<open>infrastructure/adapters/jwt/\<close>, \<open>dev_identity.py\<close>), and runs one
  use case (\<open>application/interactors/wallets/\<close>) over ports (\<open>application/ports/\<close>). A deposit or withdrawal
  passes the rate limiter and the risk provider and then the movement service
  (\<open>application/services/wallet_movement.py\<close>): claim the idempotency key, take the wallet's lock, read the
  wallet, apply the domain operation (\<open>domain/\<close>), insert the ledger entry, update the wallet under a version
  check, commit, record the result for replays. The adapters of the ports are SQL repositories
  (\<open>infrastructure/adapters/sqla/\<close>), in-process or Redis stores (\<open>adapters/memory/\<close>, \<open>adapters/redis/\<close>), an
  outbound HTTP client (\<open>adapters/http/\<close>) and metrics. \<open>setup/\<close> and \<open>entrypoints/\<close> choose and wire them
  behind a boot gate.

  \<^bold>\<open>Conventions.\<close> A coroutine or method with effects is a \<open>prog\<close>, a function from the state to the escaping
  exception or the value, and the state it leaves; \<open>pbind\<close>, \<open>pcatch\<close> and \<open>pfinally\<close> are sequencing,
  \<open>try/except\<close> and \<open>try/finally\<close>. Every raise of the source is a branch. A dataclass is a record with the
  source's fields, an enumeration a datatype with the source's members; a private or clashing name loses its
  underscore or gets the prefix of its class (\<open>mv_apply\<close> is \<open>WalletMovementService.apply\<close>, \<open>im_reserve\<close> is
  \<open>InMemoryIdempotencyStore.reserve\<close>). What is not under \<open>src/\<close> (the database server, aiohttp, PyJWT, pydantic,
  Starlette, the Redis connection, the MCP SDK) is an argument of the definitions that use it; what is assumed
  of it is a hypothesis or the locale that states its documented behaviour.

  \<^bold>\<open>Theories.\<close>
  \<^item> Ground: \<open>Prelude\<close> (effects, relational frame rules \<open>keeps\<close>, dictionaries), \<open>Py_Text\<close> (string methods,
    numerals), \<open>Decimals\<close> and \<open>Decimal_Text\<close> (Python's \<open>decimal\<close>: the default context, printing and parsing),
    \<open>Isoformat\<close> (\<open>datetime.isoformat\<close>), \<open>Json_Text\<close> and \<open>Json_Parse\<close> (\<open>json.dumps\<close>, \<open>json.loads\<close>), \<open>Sha256\<close>.
  \<^item> Domain: \<open>Errors\<close> (\<open>domain/errors.py\<close>, \<open>application/errors.py\<close>), \<open>Ids\<close>, \<open>Money\<close>, \<open>Entities\<close>. Constructors
    return what the validation raises; the wallet's methods refine the abstract account \<open>acct\<close>.
  \<^item> Service: \<open>Ports\<close> (one record of all port operations), \<open>Movement\<close> (the service, method by method), \<open>Book\<close>
    (the abstract accounts and postings, \<open>post\<close>, \<open>reconciled\<close>), \<open>Movement_Safety\<close> (the contract
    \<open>movement_backend\<close> and what the service guarantees on it), \<open>Movement_Idempotence\<close> (\<open>keyed_backend\<close>).
  \<^item> Use cases: \<open>Interactors\<close> (the six interactors with their metric labels), \<open>Use_Cases\<close> (\<open>served\<close>: histories
    of calls as an inductive relation).
  \<^item> In-process adapters: \<open>Memory_State\<close>, \<open>Memory_Idempotency\<close>, \<open>Memory_Locking\<close>, \<open>Memory_Rate_Limit\<close>,
    \<open>Memory_Bulkhead\<close>, over the contracts \<open>idempotency_store\<close> and \<open>distributed_lock\<close>.
  \<^item> SQL: \<open>Tables\<close> (rows, constraints, the statements and the documented effect \<open>eval_stmt\<close>; the server is any
    \<open>sql_engine\<close>), \<open>Repositories\<close>, \<open>Cursor\<close>, \<open>Pagination\<close> (\<open>paged_walk\<close>: a client following cursors), \<open>Schema\<close>
    (the declared tables and the migration that builds them, the column type of times, \<open>alembic/env.py\<close>).
  \<^item> Redis: \<open>Redis_Server\<close> (the Lua scripts on a keyspace, \<open>redis_steps\<close>: every interleaving of the replicas'
    requests), \<open>Redis_Adapters\<close>, \<open>Redis_Safety\<close>, \<open>Redis_Idempotency\<close>, \<open>Redis_Limits\<close>, \<open>Redis_Store\<close> (the texts
    as entries; \<open>redis_link\<close>, a connection that may lose requests and replies, gives \<open>claim_store\<close>, what the
    service needs of a store).
  \<^item> Outbound HTTP: \<open>Transport\<close> (attempts, budget, backoff, capped reading), \<open>Transport_Guarantees\<close>
    (\<open>byte_stream\<close>, \<open>logged_session\<close>, \<open>timed_session\<close>: what aiohttp documents), \<open>Risk_Http\<close>.
  \<^item> Identity: \<open>Jwks_Cache\<close> (the key cache cut at its awaits, \<open>jwks_step\<close>), \<open>Identity\<close>.
  \<^item> HTTP: \<open>Redaction\<close>, \<open>Redact_Message\<close>, \<open>Http_Problem\<close> (error documents, and what the framework answers itself), \<open>Prometheus_Metrics\<close>, \<open>Middleware\<close>,
    \<open>Wallet_Api\<close> (schemas and endpoints); \<open>Mcp_Server\<close> (the tools).
  \<^item> Wiring: \<open>Wiring\<close> (the ports on one session, with the default adapters and with any others that stay out of the
    books, \<open>with_adapters\<close>; \<open>wd_metrics\<close> is the Prometheus registry of the process, or none for the no-op adapter; every \<open>sql_engine\<close> gives the service's contracts),
    \<open>Config\<close> (settings, boot gate, entrypoints), \<open>Composition\<close> (adapter choices, application factory, routes,
    logging set-up, probes).
  \<^item> End to end: \<open>Guarantees\<close>, \<open>Service_Guarantees\<close>, \<open>Declared_Responses\<close> (which exception leaves which
    operation, against \<open>responses.py\<close>), \<open>Redis_Deployment\<close> (a connection lost at the release of the lock),
    \<open>Redis_Once\<close> (once per key on Redis), \<open>Stranded_Keys\<close> (exceptions that leave a key claimed) and the properties of \<open>Wallet_Api\<close>, \<open>Mcp_Server\<close> and
    \<open>Composition\<close>, each with a witness run of the whole stack on the reference engine of \<open>Tables\<close>.
  \<^item> Scripts of the repository (\<open>tools/\<close>): \<open>Repo_Tools\<close> (a file tree; the rename), \<open>Scaffold\<close> (the generated
    modules), \<open>Published_Docs\<close> (the committed contract and its page).

  \<^bold>\<open>How the end-to-end theorems are put together.\<close> \<open>movement_backend\<close> says what a session, a repository and a
  commit do to a book; the service is proved on it once. \<open>Wiring\<close> proves the contract for the SQL repositories
  on any \<open>sql_engine\<close> and any lock, store, limiter and risk adapter that leaves the books alone, so the
  service's lemmas hold of the code's own adapters, in the process and on Redis. The use cases add the gates
  (\<open>gated_backend\<close>), the endpoints and tools add the parsing and the owner, and \<open>production_changes_authorized\<close>
  starts at the settings: a process that the boot gate lets serve changes the books only for the owner of a
  verified token.

  \<^bold>\<open>Bounds and fuel.\<close> Loops that follow a clock are partial functions with an option result
  (\<open>bh_wait\<close>, \<open>redis_await\<close>); they are shown to return when the retry interval is positive. The outbound attempt
  loop recurs on the number of attempts left, reading on the bytes left under the cap. \<open>json.loads\<close> runs a machine
  whose measure is the input left. No definition uses fuel.

  \<^bold>\<open>What the model fixes.\<close> Text is ASCII (UTF-8 bytes in \<open>Json_Parse\<close>). Times are rational seconds, a \<open>datetime\<close> is
  microseconds UTC; float rounding is not modelled, a float is its exact value or non-finite. A run is sequential
  on one session; concurrent requests are sequences of calls, a wait that another task ends being the call made
  after that task's. Clock readings and random draws are lists in the state. Two payloads with one SHA-256 are
  named as the exception where that would matter. A Redis script is atomic, commands have their documented effect.
  The dash in one start-up message is printed as two hyphens. What leaves a call is an \<open>Exception\<close> or a
  cancellation; \<open>SystemExit\<close> and \<open>KeyboardInterrupt\<close>, which end the process, are not modelled.

  \<^bold>\<open>Not modelled, and why.\<close> Log lines and published prose have no effect on the program's results. Loading settings from the
  environment, parsing requests, OpenAPI and the MCP registration are pydantic, FastAPI and the SDK.
  Closing clients at shutdown, \<open>conformance.py\<close> (typing only), the benchmark and the stub of the load tests keep no
  state of the service. \<open>_build_label_map\<close> of the middleware is called by nothing. The calls of a history do not
  overlap: on Redis, what overlapping requests of several replicas do to one key is said of the scripts
  (\<open>redis_claim_exclusive\<close>, \<open>redis_confirmed_replays\<close>), and once per key (\<open>redis_at_most_once\<close>) of calls one
  after the other. That an error means that nothing happened (\<open>movement_error_means_nothing\<close>) is said of
  adapters whose lock release cannot fail, as in the process; on Redis it is false (\<open>lost_release_hides_commit\<close>).
  A path or method that no route has is answered by FastAPI's own handler and is outside \<open>api_run\<close>; a body that cannot be
  read is inside. aiohttp rounds timeouts of five seconds and more up to whole seconds, which the outbound
  theorems leave out (the defaults are below).
\<close>

end
